(* ===== verification/Prelude.thy ===== *)
theory Prelude
  imports Main "HOL-Library.Sublist"
begin

text \<open>
  Shared vocabulary of the development. The C++ code stops in five ways: a failed
  \<open>assert\<close>, an \<open>llvm_unreachable\<close>, a call of \<open>MemInstrumentError::report\<close>, an
  \<open>std::map::at\<close> on a missing key, and (undefined behaviour) an access to a freed object,
  through a null pointer or to an uninitialised variable, or a call of a builtin outside its domain. All of them are values of \<open>error\<close>; an operation that can stop
  returns \<open>error + 'a\<close>. \<open>OutOfFuel\<close> is no behaviour of the code: it is the fuel of a
  recursion running out, and the termination theorems say when it cannot happen.

  The theory holds the sequencing operator of that result type, loops over a vector, and
  \<open>std::map<unsigned, X>\<close> as an association list sorted by key.
\<close>

named_theorems res_simps "rules that take a successful or failed computation apart"
named_theorems omap_simps "rules about ordered maps"

section \<open>Results\<close>

datatype error =
    AssertionFailed string
  | UnreachableReached string
  | ReportedError string
  | KeyNotFound
  | UseAfterFree
  | NullPointer
  | UninitializedRead
  | UndefinedBehavior string
  | OutOfFuel

type_synonym 'a res = "error + 'a"

definition bindE :: "'a res \<Rightarrow> ('a \<Rightarrow> 'b res) \<Rightarrow> 'b res" where
  "bindE m f = (case m of Inl e \<Rightarrow> Inl e | Inr x \<Rightarrow> f x)"

definition assertE :: "bool \<Rightarrow> string \<Rightarrow> unit res" where
  "assertE b msg = (if b then Inr () else Inl (AssertionFailed msg))"

lemma bindE_Inl [simp]: "bindE (Inl e) f = Inl e"
  by (simp add: bindE_def)

lemma bindE_Inr [simp]: "bindE (Inr x) f = f x"
  by (simp add: bindE_def)

lemma bindE_eq_Inr [res_simps]: "bindE m f = Inr y \<longleftrightarrow> (\<exists>x. m = Inr x \<and> f x = Inr y)"
  by (cases m) auto

lemma bindE_eq_Inl [res_simps]:
  "bindE m f = Inl e \<longleftrightarrow> m = Inl e \<or> (\<exists>x. m = Inr x \<and> f x = Inl e)"
  by (cases m) auto

lemma bindE_cong [fundef_cong]:
  "m = m' \<Longrightarrow> (\<And>x. m' = Inr x \<Longrightarrow> f x = f' x) \<Longrightarrow> bindE m f = bindE m' f'"
  by (cases m') auto

lemma assertE_eq_Inr [res_simps]: "assertE b msg = Inr u \<longleftrightarrow> b"
  by (simp add: assertE_def)

lemma assertE_eq_Inl [res_simps]: "assertE b msg = Inl e \<longleftrightarrow> \<not> b \<and> e = AssertionFailed msg"
  by (auto simp: assertE_def)

lemma assertE_True [simp]: "assertE True msg = Inr ()"
  by (simp add: assertE_def)

lemma bindE_obtain:
  assumes "bindE m f = Inr y"
  obtains x where "m = Inr x" and "f x = Inr y"
  using assms by (auto simp: res_simps)

section \<open>Loops over a vector\<close>

fun foldE :: "('a \<Rightarrow> 's \<Rightarrow> 's res) \<Rightarrow> 'a list \<Rightarrow> 's \<Rightarrow> 's res" where
  "foldE f [] s = Inr s"
| "foldE f (x # xs) s = bindE (f x s) (foldE f xs)"

lemma foldE_append: "foldE f (xs @ ys) s = bindE (foldE f xs s) (foldE f ys)"
proof (induction xs arbitrary: s)
  case (Cons x xs)
  then show ?case by (cases "f x s") auto
qed simp

text \<open>A loop that succeeds keeps what every iteration of its body keeps.\<close>

lemma foldE_invariant:
  assumes "foldE f xs s = Inr s'" and "I s"
    and "\<And>x t t'. x \<in> set xs \<Longrightarrow> I t \<Longrightarrow> f x t = Inr t' \<Longrightarrow> I t'"
  shows "I s'"
  using assms
proof (induction xs arbitrary: s)
  case (Cons x xs)
  from Cons.prems(1) obtain t where t: "f x s = Inr t" "foldE f xs t = Inr s'"
    by (auto simp: res_simps)
  from Cons.prems(2,3) t(1) have "I t" by auto
  with t(2) Cons show ?case by auto
qed simp

text \<open>A reflexive and transitive relation that the body respects holds between start and end.\<close>

lemma foldE_rel:
  assumes "foldE f xs s = Inr s'" and "\<And>s. R s s" and "\<And>s t u. R s t \<Longrightarrow> R t u \<Longrightarrow> R s u"
    and "\<And>x s s'. f x s = Inr s' \<Longrightarrow> R s s'"
  shows "R s s'"
  by (rule foldE_invariant [OF assms(1), where I = "R s"]) (use assms(2-4) in blast)+

text \<open>A loop fails in one of its iterations, from a state that satisfies the invariant.\<close>

lemma foldE_error:
  assumes "foldE f xs s = Inl e" and "I s"
    and "\<And>x t t'. x \<in> set xs \<Longrightarrow> I t \<Longrightarrow> f x t = Inr t' \<Longrightarrow> I t'"
  shows "\<exists>x t. x \<in> set xs \<and> I t \<and> f x t = Inl e"
  using assms
proof (induction xs arbitrary: s)
  case (Cons x xs)
  show ?case
  proof (cases "f x s")
    case (Inl e')
    with Cons.prems show ?thesis by auto
  next
    case (Inr t)
    with Cons.prems have "foldE f xs t = Inl e" "I t" by auto
    with Cons.IH [of t] Cons.prems(3) show ?thesis by (metis list.set_intros(2))
  qed
qed simp

text \<open>A loop whose body never fails under the invariant does not fail.\<close>

lemma foldE_total:
  assumes "I s" and "\<And>x t. x \<in> set xs \<Longrightarrow> I t \<Longrightarrow> \<exists>t'. f x t = Inr t' \<and> I t'"
  shows "\<exists>s'. foldE f xs s = Inr s' \<and> I s'"
  using assms
proof (induction xs arbitrary: s)
  case (Cons x xs)
  then obtain t where "f x s = Inr t" "I t" by (metis list.set_intros(1))
  with Cons show ?case by simp
qed simp

text \<open>A body that cannot fail makes the loop an ordinary fold.\<close>

lemma foldE_pure:
  assumes "\<And>x t. x \<in> set xs \<Longrightarrow> f x t = Inr (g x t)"
  shows "foldE f xs s = Inr (fold g xs s)"
  using assms by (induction xs arbitrary: s) auto

text \<open>Dereferencing a pointer into a heap of objects that may have been freed.\<close>

definition deref :: "('k \<rightharpoonup> 'v) \<Rightarrow> 'k \<Rightarrow> 'v res" where
  "deref h p = (case h p of None \<Rightarrow> Inl UseAfterFree | Some v \<Rightarrow> Inr v)"

lemma deref_eq_Inr [res_simps]: "deref h p = Inr v \<longleftrightarrow> h p = Some v"
  by (auto simp: deref_def split: option.splits)

lemma deref_eq_Inl [res_simps]: "deref h p = Inl e \<longleftrightarrow> h p = None \<and> e = UseAfterFree"
  by (auto simp: deref_def split: option.splits)

lemma deref_Some [simp]: "h p = Some v \<Longrightarrow> deref h p = Inr v"
  by (simp add: deref_def)

section \<open>Ordered maps\<close>

text \<open>
  \<open>std::map\<close> iterates in the order of its keys, and the code iterates over its maps, so the
  model is the list of bindings in that order. \<open>omap_set\<close> is the assignment \<open>m[k] = v\<close>,
  \<open>omap_at\<close> is \<open>m.at(k)\<close>, and lookup is \<open>map_of\<close>.
\<close>

type_synonym ('k, 'v) omap = "('k \<times> 'v) list"

fun omap_set :: "'k::linorder \<Rightarrow> 'v \<Rightarrow> ('k, 'v) omap \<Rightarrow> ('k, 'v) omap" where
  "omap_set k v [] = [(k, v)]"
| "omap_set k v ((k', v') # m) =
     (if k < k' then (k, v) # (k', v') # m
      else if k = k' then (k, v) # m
      else (k', v') # omap_set k v m)"

definition omap_at :: "('k, 'v) omap \<Rightarrow> 'k \<Rightarrow> 'v res" where
  "omap_at m k = (case map_of m k of None \<Rightarrow> Inl KeyNotFound | Some v \<Rightarrow> Inr v)"

definition omap_ok :: "('k::linorder, 'v) omap \<Rightarrow> bool" where
  "omap_ok m \<longleftrightarrow> sorted_wrt (<) (map fst m)"

lemma omap_at_eq_Inr [res_simps]: "omap_at m k = Inr v \<longleftrightarrow> map_of m k = Some v"
  by (auto simp: omap_at_def split: option.splits)

lemma map_of_omap_set [omap_simps]:
  "omap_ok m \<Longrightarrow> map_of (omap_set k v m) = (map_of m)(k \<mapsto> v)"
proof (induction k v m rule: omap_set.induct)
  case (2 k v k' v' m)
  have none: "map_of m k = None" if "k < k'"
    using that 2(2) by (fastforce simp: omap_ok_def map_of_eq_None_iff image_iff)
  show ?case
    using 2 none by (auto simp: omap_ok_def fun_eq_iff)
qed (auto simp: fun_eq_iff)

lemma keys_omap_set [omap_simps]: "set (map fst (omap_set k v m)) = insert k (set (map fst m))"
  by (induction k v m rule: omap_set.induct) auto

lemma omap_set_nonempty [simp]: "omap_set k v m \<noteq> []"
  by (cases "(k, v, m)" rule: omap_set.cases) auto

lemma omap_ok_Nil [simp]: "omap_ok []"
  by (simp add: omap_ok_def)

lemma omap_ok_set [omap_simps]: "omap_ok m \<Longrightarrow> omap_ok (omap_set k v m)"
proof (induction k v m rule: omap_set.induct)
  case (2 k v k' v' m)
  then show ?case
    using keys_omap_set [of k v m] by (auto simp: omap_ok_def)
qed (auto simp: omap_ok_def)

end
