(* ===== verification/IR.thy ===== *)
theory IR
  imports Prelude
begin

text \<open>
  The part of an LLVM module the instrumentation looks at, as data. LLVM itself is not modelled:
  values, types and blocks are identified by numbers (object identity, which is what the code
  compares), their static contents are looked up in tables of the module record \<open>ir\<close>, and
  everything LLVM computes (sizes of the data layout, dominance, whether a type is sized) is a
  field of that record, hence an argument of every definition that uses it. The constructors of
  \<open>instr\<close> and \<open>ir_constant\<close> are the classes the code distinguishes with \<open>isa\<close>,
  \<open>dyn_cast\<close> and \<open>getOpcode\<close>.
\<close>

type_synonym tyid = nat
type_synonym vid = nat
type_synonym bbid = nat

datatype type_desc =
    VoidTy
  | IntegerTy nat
  | FloatingPointTy
  | PointerTy tyid
  | StructTy "string option" "tyid list"
  | ArrayTy tyid nat
  | VectorTy tyid nat
  | FunctionTy tyid "tyid list" bool
  | MetadataTy
  | OtherTy

datatype intrinsic =
    IntrMemcpy | IntrMemmove | IntrMemset
  | IntrVastart | IntrVaend | IntrVacopy
  | IntrLifetimeStart | IntrLifetimeEnd
  | IntrOther string

text \<open>
  A call: the called operand, the function \<open>getCalledFunction\<close> identifies (if any) and the
  arguments. Operand number \<open>i\<close> of a call is its argument \<open>i\<close>.
\<close>

record call_info =
  called_operand :: vid
  called_function :: "vid option"
  call_args :: "vid list"

datatype instr =
    Alloca tyid vid
  | Load vid
  | Store vid vid
  | Call call_info "intrinsic option"
  | Invoke call_info bbid
  | Ret "vid option"
  | PHI "(vid \<times> bbid) list"
  | Select vid vid vid
  | GetElementPtr vid "vid list" bool
  | BitCast vid
  | IntToPtr vid
  | PtrToInt vid
  | ExtractValue vid "nat list"
  | InsertValue vid vid "nat list"
  | LandingPad
  | ExtractElement "vid list"
  | InsertElement "vid list"
  | ShuffleVector "vid list"
  | Br "vid option"
  | Switch "vid list"
  | Resume "vid list"
  | IndirectBr "vid list"
  | AtomicCmpXchg "vid list"
  | AtomicRMW "vid list"
  | OtherInst string "vid list"

datatype constant_expr_op = CEGetElementPtr | CEBitCast | CEIntToPtr | CEOther

datatype ir_constant =
    GlobalVariable
  | FunctionVal
  | OtherGlobalValue
  | UndefValue
  | AggregateZero "vid list"
  | OtherConstantData
  | ConstantExpr constant_expr_op "vid list"
  | ConstantAggregate "vid list"
  | OtherConstant

datatype value_kind =
    Inst instr
  | Argument
  | Const ir_constant
  | InlineAsm
  | OtherValue

datatype md_operand = MDString string | MDOther

type_synonym md_node = "md_operand list"

record llvm_value =
  v_kind :: value_kind
  v_type :: tyid
  v_name :: string
  v_md :: "string \<rightharpoonup> md_node"

text \<open>
  \<open>bb_insts\<close> lists the instructions of a block in order, \<open>fun_blocks\<close> the blocks of a
  function (none for a declaration), the entry block first. \<open>dominates a b\<close> is
  \<open>DominatorTree::dominates\<close> on two instructions, \<open>md_concat\<close> is \<open>MDNode::concatenate\<close> and
  \<open>get_as_integer\<close> is \<open>StringRef::getAsInteger(10, _)\<close>. \<open>ctx_ty\<close> gives the types of the context
  by name (\<open>i8*\<close>, \<open>i64\<close>, \<open>void\<close>, \<open>fn\<close> for the type of a declared function), \<open>const_int\<close> is
  \<open>ConstantInt::get\<close>, \<open>fold_op\<close> is what the folder of \<open>IRBuilder\<close> returns instead of a new
  instruction, \<open>print_value\<close> is the printed form of a value and \<open>debug_loc\<close> its line and file
  (\<open>debug_col\<close> the column).
  \<open>strip_casts\<close> is \<open>Value::stripPointerCasts\<close> and \<open>alloca_bits\<close> is \<open>getAllocationSizeInBits\<close> of an alloca
  (none when the number of elements is not constant). \<open>use_order\<close> puts uses into the order of the use
  list, which depends on how the program was built. \<open>ptr_to\<close> is \<open>PointerType::getUnqual\<close> and
  \<open>ptr_bits\<close> the size of a pointer in the data layout.
  \<open>global_ctors\<close> lists the functions in \<open>llvm.global_ctors\<close>.
\<close>

record ir =
  types :: "tyid \<Rightarrow> type_desc"
  vals :: "vid \<Rightarrow> llvm_value"
  bb_insts :: "bbid \<Rightarrow> vid list"
  inst_bb :: "vid \<Rightarrow> bbid"
  bb_fun :: "bbid \<Rightarrow> vid"
  fun_blocks :: "vid \<Rightarrow> bbid list"
  fun_args :: "vid \<Rightarrow> vid list"
  fun_vararg :: "vid \<Rightarrow> bool"
  mod_globals :: "vid list"
  mod_functions :: "vid list"
  global_ctors :: "vid list"
  type_store_size :: "tyid \<Rightarrow> nat"
  type_alloc_size :: "tyid \<Rightarrow> nat"
  type_sized :: "tyid \<Rightarrow> bool"
  dominates :: "vid \<Rightarrow> vid \<Rightarrow> bool"
  md_concat :: "md_node option \<Rightarrow> md_node \<Rightarrow> md_node"
  get_as_integer :: "string \<Rightarrow> nat option"
  ctx_ty :: "string \<Rightarrow> tyid"
  const_int :: "tyid \<Rightarrow> nat \<Rightarrow> vid"
  fold_op :: "string \<Rightarrow> vid list \<Rightarrow> tyid \<Rightarrow> vid option"
  print_value :: "vid \<Rightarrow> string"
  debug_loc :: "vid \<Rightarrow> (nat \<times> string) option"
  debug_col :: "vid \<Rightarrow> nat"
  strip_casts :: "vid \<Rightarrow> vid"
  alloca_bits :: "vid \<Rightarrow> nat option"
  use_order :: "vid list \<Rightarrow> vid list"
  ptr_to :: "tyid \<Rightarrow> tyid"
  ptr_bits :: nat
  next_vid :: vid
  next_bb :: bbid

text \<open>
  The flag of \<open>GetElementPtr\<close> is \<open>hasAllZeroIndices\<close>. A branch carries its condition, if it has one,
  and every other instruction (\<open>OtherInst\<close>) its opcode and operands.
\<close>

section \<open>Queries on values and types\<close>

abbreviation val_kind :: "ir \<Rightarrow> vid \<Rightarrow> value_kind" where
  "val_kind m v \<equiv> v_kind (vals m v)"

abbreviation val_type :: "ir \<Rightarrow> vid \<Rightarrow> type_desc" where
  "val_type m v \<equiv> types m (v_type (vals m v))"

definition is_pointer_ty :: "type_desc \<Rightarrow> bool" where
  "is_pointer_ty t = (case t of PointerTy _ \<Rightarrow> True | _ \<Rightarrow> False)"

definition is_aggregate_ty :: "type_desc \<Rightarrow> bool" where
  "is_aggregate_ty t = (case t of StructTy _ _ \<Rightarrow> True | ArrayTy _ _ \<Rightarrow> True | _ \<Rightarrow> False)"

definition is_metadata_ty :: "type_desc \<Rightarrow> bool" where
  "is_metadata_ty t = (t = MetadataTy)"

definition is_function_ty :: "type_desc \<Rightarrow> bool" where
  "is_function_ty t = (case t of FunctionTy _ _ _ \<Rightarrow> True | _ \<Rightarrow> False)"

definition get_inst :: "ir \<Rightarrow> vid \<Rightarrow> instr option" where
  "get_inst m v = (case val_kind m v of Inst i \<Rightarrow> Some i | _ \<Rightarrow> None)"

definition is_load :: "ir \<Rightarrow> vid \<Rightarrow> bool" where
  "is_load m v = (case get_inst m v of Some (Load _) \<Rightarrow> True | _ \<Rightarrow> False)"

definition is_store :: "ir \<Rightarrow> vid \<Rightarrow> bool" where
  "is_store m v = (case get_inst m v of Some (Store _ _) \<Rightarrow> True | _ \<Rightarrow> False)"

definition get_const :: "ir \<Rightarrow> vid \<Rightarrow> ir_constant option" where
  "get_const m v = (case val_kind m v of Const c \<Rightarrow> Some c | _ \<Rightarrow> None)"

definition get_call :: "ir \<Rightarrow> vid \<Rightarrow> call_info option" where
  "get_call m v = (case get_inst m v of
     Some (Call c _) \<Rightarrow> Some c | Some (Invoke c _) \<Rightarrow> Some c | _ \<Rightarrow> None)"

definition get_intrinsic :: "ir \<Rightarrow> vid \<Rightarrow> intrinsic option" where
  "get_intrinsic m v = (case get_inst m v of Some (Call _ (Some i)) \<Rightarrow> Some i | _ \<Rightarrow> None)"

definition is_declaration :: "ir \<Rightarrow> vid \<Rightarrow> bool" where
  "is_declaration m f = (fun_blocks m f = [])"

definition fun_insts :: "ir \<Rightarrow> vid \<Rightarrow> vid list" where
  "fun_insts m f = concat (map (bb_insts m) (fun_blocks m f))"

definition all_insts :: "ir \<Rightarrow> vid list" where
  "all_insts m = concat (map (fun_insts m) (mod_functions m))"

lemma is_pointer_ty_simps [simp]:
  "is_pointer_ty (PointerTy t)" "\<not> is_pointer_ty VoidTy" "\<not> is_pointer_ty (IntegerTy k)"
  "\<not> is_pointer_ty FloatingPointTy" "\<not> is_pointer_ty (StructTy n ts)"
  "\<not> is_pointer_ty (ArrayTy t k)" "\<not> is_pointer_ty (VectorTy t k)"
  "\<not> is_pointer_ty (FunctionTy t ts b)" "\<not> is_pointer_ty MetadataTy" "\<not> is_pointer_ty OtherTy"
  by (simp_all add: is_pointer_ty_def)

lemma is_aggregate_ty_simps [simp]:
  "\<not> is_aggregate_ty (PointerTy t)" "\<not> is_aggregate_ty VoidTy" "\<not> is_aggregate_ty (IntegerTy k)"
  "\<not> is_aggregate_ty FloatingPointTy" "is_aggregate_ty (StructTy n ts)"
  "is_aggregate_ty (ArrayTy t k)" "\<not> is_aggregate_ty (VectorTy t k)"
  "\<not> is_aggregate_ty (FunctionTy t ts b)" "\<not> is_aggregate_ty MetadataTy"
  "\<not> is_aggregate_ty OtherTy"
  by (simp_all add: is_aggregate_ty_def)

section \<open>Positions in a block\<close>

text \<open>
  \<open>getNextNode\<close> is the instruction after the given one in its block, null at the end.
  \<open>getFirstInsertionPt\<close> skips the phis and a landing pad at the head of a block.
\<close>

fun next_in :: "vid \<Rightarrow> vid list \<Rightarrow> vid option" where
  "next_in v (a # b # xs) = (if a = v then Some b else next_in v (b # xs))"
| "next_in v _ = None"

definition get_next_node :: "ir \<Rightarrow> vid \<Rightarrow> vid res" where
  "get_next_node m v =
     (case next_in v (bb_insts m (inst_bb m v)) of None \<Rightarrow> Inl NullPointer | Some w \<Rightarrow> Inr w)"

fun is_phi :: "ir \<Rightarrow> vid \<Rightarrow> bool" where
  "is_phi m v = (case get_inst m v of Some (PHI _) \<Rightarrow> True | _ \<Rightarrow> False)"

definition is_landing_pad :: "ir \<Rightarrow> vid \<Rightarrow> bool" where
  "is_landing_pad m v = (get_inst m v = Some LandingPad)"

definition first_insertion_pt :: "ir \<Rightarrow> bbid \<Rightarrow> vid res" where
  "first_insertion_pt m b =
     (let rest = dropWhile (is_phi m) (bb_insts m b);
          rest' = (case rest of v # vs \<Rightarrow> if is_landing_pad m v then vs else rest | [] \<Rightarrow> [])
      in case rest' of [] \<Rightarrow> Inl NullPointer | v # _ \<Rightarrow> Inr v)"

definition block_back :: "ir \<Rightarrow> bbid \<Rightarrow> vid res" where
  "block_back m b = (case bb_insts m b of [] \<Rightarrow> Inl NullPointer | vs \<Rightarrow> Inr (last vs))"

definition parent_fun :: "ir \<Rightarrow> vid \<Rightarrow> vid" where
  "parent_fun m v = bb_fun m (inst_bb m v)"

definition entry_loc :: "ir \<Rightarrow> vid \<Rightarrow> vid res" where
  "entry_loc m f = (case fun_blocks m f of [] \<Rightarrow> Inl NullPointer | b # _ \<Rightarrow> first_insertion_pt m b)"

lemma next_in_mem: "next_in v xs = Some w \<Longrightarrow> v \<in> set xs \<and> w \<in> set xs"
  by (induction v xs rule: next_in.induct) (auto split: if_splits)

lemma get_next_node_mem:
  "get_next_node m v = Inr w \<Longrightarrow> w \<in> set (bb_insts m (inst_bb m v))"
  by (auto simp: get_next_node_def split: option.splits dest: next_in_mem)

lemma first_insertion_pt_mem: "first_insertion_pt m b = Inr w \<Longrightarrow> w \<in> set (bb_insts m b)"
proof -
  have sub: "set (dropWhile (is_phi m) (bb_insts m b)) \<subseteq> set (bb_insts m b)"
    by (meson set_dropWhileD subsetI)
  assume "first_insertion_pt m b = Inr w"
  then have "w \<in> set (dropWhile (is_phi m) (bb_insts m b))"
    by (auto simp: first_insertion_pt_def Let_def split: list.splits if_splits)
  with sub show ?thesis by blast
qed

lemma block_back_mem: "block_back m b = Inr w \<Longrightarrow> w \<in> set (bb_insts m b)"
  by (auto simp: block_back_def split: list.splits)

end
