(* ===== verification/Util.thy ===== *)
theory Util
  imports IR
begin

text \<open>
  \<open>lib/pass/Util.cpp\<close>: the metadata marks the passes leave on instructions and globals, the
  size of an access through a pointer, and the recognition of \<open>va_list\<close> types and handles.
  Setting a mark changes the metadata table of one value of the module.
\<close>

section \<open>Metadata marks\<close>

definition MEMINSTRUMENT_MD :: string where "MEMINSTRUMENT_MD = ''meminstrument''"
definition NOINSTRUMENT_MD :: string where "NOINSTRUMENT_MD = ''no_instrument''"
definition VARARG_MD :: string where "VARARG_MD = ''vararg_handling''"
definition VARARG_LOAD_MD :: string where "VARARG_LOAD_MD = ''vararg_load_arg''"
definition PTR_DEOB_MD :: string where "PTR_DEOB_MD = ''ptr_deobfuscation''"
definition ACCESS_ID :: string where "ACCESS_ID = ''mi_access_id''"

lemmas md_name_defs = MEMINSTRUMENT_MD_def NOINSTRUMENT_MD_def VARARG_MD_def VARARG_LOAD_MD_def
  PTR_DEOB_MD_def ACCESS_ID_def

definition get_metadata :: "ir \<Rightarrow> vid \<Rightarrow> string \<Rightarrow> md_node option" where
  "get_metadata m v k = v_md (vals m v) k"

definition set_metadata :: "vid \<Rightarrow> string \<Rightarrow> md_node \<Rightarrow> ir \<Rightarrow> ir" where
  "set_metadata v k n m =
     m\<lparr>vals := (vals m)(v := (vals m v)\<lparr>v_md := (v_md (vals m v))(k \<mapsto> n)\<rparr>)\<rparr>"

definition is_global_object :: "ir \<Rightarrow> vid \<Rightarrow> bool" where
  "is_global_object m v = (get_const m v = Some GlobalVariable \<or> get_const m v = Some FunctionVal)"

definition is_instruction :: "ir \<Rightarrow> vid \<Rightarrow> bool" where
  "is_instruction m v = (get_inst m v \<noteq> None)"

fun md_has_string :: "string \<Rightarrow> md_operand list \<Rightarrow> bool" where
  "md_has_string ref [] = False"
| "md_has_string ref (MDString s # ops) = (s = ref \<or> md_has_string ref ops)"
| "md_has_string ref (MDOther # ops) = md_has_string ref ops"

definition hasMDStrImpl :: "string \<Rightarrow> md_node option \<Rightarrow> bool" where
  "hasMDStrImpl ref N =
     (case N of None \<Rightarrow> False
      | Some ops \<Rightarrow> if length ops < 1 then False else md_has_string ref ops)"

definition addMIMetadata :: "vid \<Rightarrow> string \<Rightarrow> ir \<Rightarrow> ir res" where
  "addMIMetadata V toAdd m =
     (let N = [MDString toAdd] in
      if is_global_object m V then
        Inr (set_metadata V MEMINSTRUMENT_MD (md_concat m (get_metadata m V MEMINSTRUMENT_MD) N) m)
      else if is_instruction m V then
        Inr (set_metadata V MEMINSTRUMENT_MD (md_concat m (get_metadata m V MEMINSTRUMENT_MD) N) m)
      else Inl (UnreachableReached ''Value not supported for setting metadata!''))"

definition setNoInstrument :: "vid \<Rightarrow> ir \<Rightarrow> ir res" where
  "setNoInstrument V m = addMIMetadata V NOINSTRUMENT_MD m"

definition setVarArgHandling :: "vid \<Rightarrow> ir \<Rightarrow> ir res" where
  "setVarArgHandling V m = addMIMetadata V VARARG_MD m"

definition setVarArgLoadArg :: "vid \<Rightarrow> ir \<Rightarrow> ir res" where
  "setVarArgLoadArg V m = addMIMetadata V VARARG_LOAD_MD m"

definition setPointerDeobfuscation :: "vid \<Rightarrow> ir \<Rightarrow> ir res" where
  "setPointerDeobfuscation V m = addMIMetadata V PTR_DEOB_MD m"

definition hasNoInstrument :: "ir \<Rightarrow> vid \<Rightarrow> bool" where
  "hasNoInstrument m V = hasMDStrImpl NOINSTRUMENT_MD (get_metadata m V MEMINSTRUMENT_MD)"

definition hasVarArgHandling :: "ir \<Rightarrow> vid \<Rightarrow> bool" where
  "hasVarArgHandling m I = hasMDStrImpl VARARG_MD (get_metadata m I MEMINSTRUMENT_MD)"

definition hasVarArgLoadArg :: "ir \<Rightarrow> vid \<Rightarrow> bool" where
  "hasVarArgLoadArg m I = hasMDStrImpl VARARG_LOAD_MD (get_metadata m I MEMINSTRUMENT_MD)"

text \<open>\<open>std::to_string\<close> on an unsigned number, and the access identifiers built from it.\<close>

fun to_string :: "nat \<Rightarrow> string" where
  "to_string n =
     (if n < 10 then [char_of (48 + n)] else to_string (n div 10) @ [char_of (48 + n mod 10)])"

declare to_string.simps [simp del]

definition setAccessID :: "vid \<Rightarrow> nat \<Rightarrow> ir \<Rightarrow> ir" where
  "setAccessID inst i m = set_metadata inst ACCESS_ID [MDString (to_string i)] m"

definition hasAccessID :: "ir \<Rightarrow> vid \<Rightarrow> bool" where
  "hasAccessID m inst = (get_metadata m inst ACCESS_ID \<noteq> None)"

definition getAccessID :: "ir \<Rightarrow> vid \<Rightarrow> nat res" where
  "getAccessID m inst =
     bindE (assertE (hasAccessID m inst) ''hasAccessID(inst)'') (\<lambda>_.
     case get_metadata m inst ACCESS_ID of
       None \<Rightarrow> Inl NullPointer
     | Some node \<Rightarrow>
         bindE (assertE (length node = 1) ''mdNode->getNumOperands() == 1'') (\<lambda>_.
         case node of
           [MDString s] \<Rightarrow> (case get_as_integer m s of None \<Rightarrow> Inl UninitializedRead | Some n \<Rightarrow> Inr n)
         | _ \<Rightarrow> Inl (AssertionFailed ''isa<MDString>(mdNode->getOperand(0))'')))"

section \<open>Access sizes\<close>

definition hasPointerAccessSize :: "ir \<Rightarrow> vid \<Rightarrow> bool" where
  "hasPointerAccessSize m V =
     (case val_type m V of
        PointerTy pointee \<Rightarrow>
          if is_function_ty (types m pointee) then True
          else if \<not> type_sized m pointee then False
          else True
      | _ \<Rightarrow> False)"

definition getPointerAccessSize :: "ir \<Rightarrow> vid \<Rightarrow> nat res" where
  "getPointerAccessSize m V =
     bindE (assertE (hasPointerAccessSize m V) ''hasPointerAccessSize(V)'') (\<lambda>_.
     case val_type m V of
       PointerTy pointee \<Rightarrow>
         if is_function_ty (types m pointee) then Inr 0 else Inr (type_store_size m pointee)
     | _ \<Rightarrow> Inl NullPointer)"

definition canHoldMetadata :: "ir \<Rightarrow> vid \<Rightarrow> bool" where
  "canHoldMetadata m V = (is_instruction m V \<or> is_global_object m V)"

definition isLifeTimeIntrinsic :: "ir \<Rightarrow> vid \<Rightarrow> bool" where
  "isLifeTimeIntrinsic m inst =
     (case get_intrinsic m inst of
        Some IntrLifetimeStart \<Rightarrow> True
      | Some IntrLifetimeEnd \<Rightarrow> True
      | _ \<Rightarrow> False)"

section \<open>Variable arguments\<close>

definition is_va_list_struct :: "type_desc \<Rightarrow> bool" where
  "is_va_list_struct t =
     (case t of StructTy (Some n) _ \<Rightarrow> n = ''struct.__va_list_tag'' | _ \<Rightarrow> False)"

definition isVarArgMetadataType :: "ir \<Rightarrow> tyid \<Rightarrow> bool" where
  "isVarArgMetadataType m ty =
     (let t = (case types m ty of PointerTy p \<Rightarrow> types m p | t \<Rightarrow> t)
      in if is_va_list_struct t then True
         else case t of ArrayTy el _ \<Rightarrow> is_va_list_struct (types m el) | _ \<Rightarrow> False)"

definition getVarArgHandles :: "ir \<Rightarrow> vid \<Rightarrow> vid list" where
  "getVarArgHandles m F =
     (case fun_blocks m F of
        [] \<Rightarrow> []
      | entry # _ \<Rightarrow>
          filter (\<lambda>v. case get_inst m v of
                     Some (Alloca ty _) \<Rightarrow> isVarArgMetadataType m ty
                   | _ \<Rightarrow> False) (bb_insts m entry)
          @ filter (\<lambda>v. isVarArgMetadataType m (v_type (vals m v))) (fun_args m F)
          @ filter (\<lambda>v. (case get_inst m v of Some (Load _) \<Rightarrow> True | Some (Call _ _) \<Rightarrow> True
                           | _ \<Rightarrow> False)
                        \<and> isVarArgMetadataType m (v_type (vals m v))) (fun_insts m F))"

section \<open>What the marks promise\<close>

text \<open>
  The contract of \<open>MDNode::concatenate\<close> the marks rely on: the result holds the operands of both
  nodes.
\<close>

definition md_concat_ok :: "ir \<Rightarrow> bool" where
  "md_concat_ok m \<longleftrightarrow>
     (\<forall>a b. set (md_concat m a b) = (case a of None \<Rightarrow> {} | Some ops \<Rightarrow> set ops) \<union> set b)"

lemma md_has_string_iff: "md_has_string ref ops \<longleftrightarrow> MDString ref \<in> set ops"
  by (induction ref ops rule: md_has_string.induct) auto

lemma hasMDStrImpl_iff:
  "hasMDStrImpl ref N \<longleftrightarrow> (\<exists>ops. N = Some ops \<and> MDString ref \<in> set ops)"
  by (auto simp: hasMDStrImpl_def md_has_string_iff Suc_le_eq split: option.splits)

lemma get_set_metadata:
  "get_metadata (set_metadata v k n m) w k' =
     (if w = v \<and> k' = k then Some n else get_metadata m w k')"
  by (auto simp: get_metadata_def set_metadata_def)

lemma md_concat_set_metadata [simp]: "md_concat (set_metadata v k n m) = md_concat m"
  by (simp add: set_metadata_def)

text \<open>Adding a mark sets exactly that mark on exactly that value.\<close>

lemma addMIMetadata_marks:
  assumes "md_concat_ok m" and "addMIMetadata V s m = Inr m'"
  shows "hasMDStrImpl t (get_metadata m' W MEMINSTRUMENT_MD) \<longleftrightarrow>
           (W = V \<and> t = s) \<or> hasMDStrImpl t (get_metadata m W MEMINSTRUMENT_MD)"
proof -
  from assms(2) have m': "m' = set_metadata V MEMINSTRUMENT_MD
      (md_concat m (get_metadata m V MEMINSTRUMENT_MD) [MDString s]) m"
    by (auto simp: addMIMetadata_def Let_def split: if_splits)
  show ?thesis
    using assms(1)
    by (cases "get_metadata m V MEMINSTRUMENT_MD")
      (auto simp: m' hasMDStrImpl_iff get_set_metadata md_concat_ok_def)
qed

lemma addMIMetadata_defined:
  "(\<exists>m'. addMIMetadata V s m = Inr m') \<longleftrightarrow> canHoldMetadata m V"
  by (auto simp: addMIMetadata_def canHoldMetadata_def Let_def)

lemma getPointerAccessSize_defined:
  "(\<exists>n. getPointerAccessSize m V = Inr n) \<longleftrightarrow> hasPointerAccessSize m V"
  by (auto simp: getPointerAccessSize_def hasPointerAccessSize_def assertE_def
      split: type_desc.splits)

lemma getPointerAccessSize_value:
  assumes "val_type m V = PointerTy p" and "\<not> is_function_ty (types m p)" and "type_sized m p"
  shows "getPointerAccessSize m V = Inr (type_store_size m p)"
  using assms by (simp add: getPointerAccessSize_def hasPointerAccessSize_def)

text \<open>
  The four marks do not interfere. After a mark is set on a value, that value has it, every
  mark that was there before is still there, and no other value and no other mark changed.
\<close>

theorem marks_independent:
  assumes "md_concat_ok m"
  shows "setNoInstrument V m = Inr m' \<Longrightarrow>
      hasNoInstrument m' W = (W = V \<or> hasNoInstrument m W) \<and>
      hasVarArgHandling m' W = hasVarArgHandling m W \<and>
      hasVarArgLoadArg m' W = hasVarArgLoadArg m W"
    and "setVarArgHandling V m = Inr m' \<Longrightarrow>
      hasNoInstrument m' W = hasNoInstrument m W \<and>
      hasVarArgHandling m' W = (W = V \<or> hasVarArgHandling m W) \<and>
      hasVarArgLoadArg m' W = hasVarArgLoadArg m W"
    and "setVarArgLoadArg V m = Inr m' \<Longrightarrow>
      hasNoInstrument m' W = hasNoInstrument m W \<and>
      hasVarArgHandling m' W = hasVarArgHandling m W \<and>
      hasVarArgLoadArg m' W = (W = V \<or> hasVarArgLoadArg m W)"
  using addMIMetadata_marks [OF assms]
  by (auto simp: setNoInstrument_def setVarArgHandling_def setVarArgLoadArg_def
      hasNoInstrument_def hasVarArgHandling_def hasVarArgLoadArg_def md_name_defs)

end
