(* ===== verification/ITargets.thy ===== *)
theory ITargets
  imports Util
begin

text \<open>
  \<open>include/meminstrument/pass/ITarget.h\<close> and \<open>lib/pass/ITarget.cpp\<close>: instrumentation targets.
  The class hierarchy is one record: the fields of \<open>ITarget\<close>, the fields of its subclasses, and
  the discriminator \<open>kind\<close>, which the code uses for its \<open>isa\<close> and \<open>dyn_cast\<close> tests. The
  enumeration is ordered as in the header, because \<open>classof\<close> compares kinds with \<open>\<le>\<close>. The
  accessors assert that the target is valid, so they return a result.

  A witness is an object of the instrumentation mechanism; a target refers to it by its address
  (\<open>None\<close> for the null pointer).
\<close>

type_synonym wid = nat
type_synonym witness_ptr = "wid option"
type_synonym witness_map = "(nat, witness_ptr) omap"

section \<open>Kinds\<close>

datatype itarget_kind =
    ITK_Bounds
  | ITK_Intermediate
  | ITK_Source
  | ITK_CallCheck
  | ITK_ConstSizeCheck
  | ITK_VarSizeCheck
  | ITK_ArgInvariant
  | ITK_CallInvariant
  | ITK_ValInvariant

fun kind_index :: "itarget_kind \<Rightarrow> nat" where
  "kind_index ITK_Bounds = 0"
| "kind_index ITK_Intermediate = 1"
| "kind_index ITK_Source = 2"
| "kind_index ITK_CallCheck = 3"
| "kind_index ITK_ConstSizeCheck = 4"
| "kind_index ITK_VarSizeCheck = 5"
| "kind_index ITK_ArgInvariant = 6"
| "kind_index ITK_CallInvariant = 7"
| "kind_index ITK_ValInvariant = 8"

lemma kind_index_inject [simp]: "kind_index a = kind_index b \<longleftrightarrow> a = b"
  by (cases a; cases b) auto

instantiation itarget_kind :: linorder
begin

definition less_eq_itarget_kind :: "itarget_kind \<Rightarrow> itarget_kind \<Rightarrow> bool" where
  "less_eq_itarget_kind a b \<longleftrightarrow> kind_index a \<le> kind_index b"

definition less_itarget_kind :: "itarget_kind \<Rightarrow> itarget_kind \<Rightarrow> bool" where
  "less_itarget_kind a b \<longleftrightarrow> kind_index a < kind_index b"

instance
  by intro_classes (auto simp: less_eq_itarget_kind_def less_itarget_kind_def)

end

lemmas kind_order = less_eq_itarget_kind_def less_itarget_kind_def

section \<open>Targets\<close>

record itarget =
  kind :: itarget_kind
  instrumentee :: "vid option"
  location :: vid
  checkUpperBoundFlag :: bool
  checkLowerBoundFlag :: bool
  checkTemporalFlag :: bool
  invalidated :: bool
  boundWitnesses :: witness_map
  accessSize :: nat
  accessSizeVal :: vid
  argNum :: nat
  requiredArgs :: "(nat, vid) omap"
  explicitBoundsFlag :: bool

subsection \<open>Classes\<close>

definition isCheckIT :: "itarget \<Rightarrow> bool" where
  "isCheckIT T \<longleftrightarrow> kind T \<ge> ITK_CallCheck \<and> kind T \<le> ITK_VarSizeCheck"

definition isInvariantIT :: "itarget \<Rightarrow> bool" where
  "isInvariantIT T \<longleftrightarrow> kind T \<ge> ITK_ArgInvariant \<and> kind T \<le> ITK_ValInvariant"

definition isWitnessSupplyIT :: "itarget \<Rightarrow> bool" where
  "isWitnessSupplyIT T \<longleftrightarrow> kind T \<ge> ITK_Intermediate \<and> kind T \<le> ITK_Source"

definition isCallCheckIT :: "itarget \<Rightarrow> bool" where
  "isCallCheckIT T \<longleftrightarrow> kind T = ITK_CallCheck"

definition isConstSizeCheckIT :: "itarget \<Rightarrow> bool" where
  "isConstSizeCheckIT T \<longleftrightarrow> kind T = ITK_ConstSizeCheck"

definition isVarSizeCheckIT :: "itarget \<Rightarrow> bool" where
  "isVarSizeCheckIT T \<longleftrightarrow> kind T = ITK_VarSizeCheck"

definition isArgInvariantIT :: "itarget \<Rightarrow> bool" where
  "isArgInvariantIT T \<longleftrightarrow> kind T = ITK_ArgInvariant"

definition isCallInvariantIT :: "itarget \<Rightarrow> bool" where
  "isCallInvariantIT T \<longleftrightarrow> kind T = ITK_CallInvariant"

definition isValInvariantIT :: "itarget \<Rightarrow> bool" where
  "isValInvariantIT T \<longleftrightarrow> kind T = ITK_ValInvariant"

definition isBoundsIT :: "itarget \<Rightarrow> bool" where
  "isBoundsIT T \<longleftrightarrow> kind T = ITK_Bounds"

definition isIntermediateIT :: "itarget \<Rightarrow> bool" where
  "isIntermediateIT T \<longleftrightarrow> kind T = ITK_Intermediate"

definition isSourceIT :: "itarget \<Rightarrow> bool" where
  "isSourceIT T \<longleftrightarrow> kind T = ITK_Source"

lemmas it_class_defs = isCheckIT_def isInvariantIT_def isWitnessSupplyIT_def isCallCheckIT_def
  isConstSizeCheckIT_def isVarSizeCheckIT_def isArgInvariantIT_def isCallInvariantIT_def
  isValInvariantIT_def isBoundsIT_def isIntermediateIT_def isSourceIT_def

definition isCheck :: "itarget \<Rightarrow> bool" where
  "isCheck T = isCheckIT T"

definition isInvariant :: "itarget \<Rightarrow> bool" where
  "isInvariant T = isInvariantIT T"

subsection \<open>Constructors\<close>

definition mkITarget ::
  "itarget_kind \<Rightarrow> vid option \<Rightarrow> vid \<Rightarrow> bool \<Rightarrow> bool \<Rightarrow> bool \<Rightarrow> itarget" where
  "mkITarget k instr loc checkUpper checkLower checkTemporal =
     \<lparr>kind = k, instrumentee = instr, location = loc, checkUpperBoundFlag = checkUpper,
      checkLowerBoundFlag = checkLower, checkTemporalFlag = checkTemporal, invalidated = False,
      boundWitnesses = [], accessSize = 0, accessSizeVal = 0, argNum = 0, requiredArgs = [],
      explicitBoundsFlag = False\<rparr>"

definition mkCheckIT ::
  "itarget_kind \<Rightarrow> vid \<Rightarrow> vid \<Rightarrow> bool \<Rightarrow> bool \<Rightarrow> bool \<Rightarrow> itarget res" where
  "mkCheckIT k instr loc checkUpper checkLower checkTemporal =
     bindE (assertE (k \<ge> ITK_CallCheck \<and> k \<le> ITK_VarSizeCheck) ''check kind'') (\<lambda>_.
     Inr (mkITarget k (Some instr) loc checkUpper checkLower checkTemporal))"

definition CallCheckIT :: "vid \<Rightarrow> vid \<Rightarrow> itarget res" where
  "CallCheckIT instr call = mkCheckIT ITK_CallCheck instr call True True False"

definition ConstSizeCheckIT :: "vid \<Rightarrow> vid \<Rightarrow> nat \<Rightarrow> bool \<Rightarrow> bool \<Rightarrow> itarget res" where
  "ConstSizeCheckIT instr loc sz checkUpper checkLower =
     bindE (mkCheckIT ITK_ConstSizeCheck instr loc checkUpper checkLower False) (\<lambda>T.
     bindE (assertE (checkUpper \<or> checkLower) ''checkUpper || checkLower'') (\<lambda>_.
     Inr (T\<lparr>accessSize := sz\<rparr>)))"

definition VarSizeCheckIT :: "vid \<Rightarrow> vid \<Rightarrow> vid \<Rightarrow> bool \<Rightarrow> bool \<Rightarrow> itarget res" where
  "VarSizeCheckIT instr loc sz checkUpper checkLower =
     bindE (mkCheckIT ITK_VarSizeCheck instr loc checkUpper checkLower False) (\<lambda>T.
     bindE (assertE (checkUpper \<or> checkLower) ''checkUpper || checkLower'') (\<lambda>_.
     Inr (T\<lparr>accessSizeVal := sz\<rparr>)))"

definition mkInvariantIT :: "itarget_kind \<Rightarrow> vid option \<Rightarrow> vid \<Rightarrow> itarget res" where
  "mkInvariantIT k instr loc =
     bindE (assertE (k \<ge> ITK_ArgInvariant \<and> k \<le> ITK_ValInvariant) ''invariant kind'') (\<lambda>_.
     Inr (mkITarget k instr loc False False False))"

definition ArgInvariantIT :: "vid \<Rightarrow> vid \<Rightarrow> nat \<Rightarrow> itarget res" where
  "ArgInvariantIT instr call num =
     bindE (mkInvariantIT ITK_ArgInvariant (Some instr) call) (\<lambda>T. Inr (T\<lparr>argNum := num\<rparr>))"

definition CallInvariantIT :: "vid \<Rightarrow> (nat, vid) omap \<Rightarrow> itarget res" where
  "CallInvariantIT call args =
     bindE (mkInvariantIT ITK_CallInvariant None call) (\<lambda>T. Inr (T\<lparr>requiredArgs := args\<rparr>))"

definition ValInvariantIT :: "vid \<Rightarrow> vid \<Rightarrow> itarget res" where
  "ValInvariantIT instr loc = mkInvariantIT ITK_ValInvariant (Some instr) loc"

definition BoundsIT :: "vid \<Rightarrow> vid \<Rightarrow> bool \<Rightarrow> bool \<Rightarrow> itarget" where
  "BoundsIT instr loc checkUpper checkLower =
     mkITarget ITK_Bounds (Some instr) loc checkUpper checkLower False"

definition mkWitnessSupplyIT :: "itarget_kind \<Rightarrow> vid \<Rightarrow> vid \<Rightarrow> itarget" where
  "mkWitnessSupplyIT k instr loc = mkITarget k (Some instr) loc False False False"

definition IntermediateIT :: "vid \<Rightarrow> vid \<Rightarrow> itarget" where
  "IntermediateIT instr loc = mkWitnessSupplyIT ITK_Intermediate instr loc"

definition SourceIT :: "vid \<Rightarrow> vid \<Rightarrow> itarget" where
  "SourceIT instr loc = mkWitnessSupplyIT ITK_Source instr loc"

lemmas it_ctor_defs = mkITarget_def mkCheckIT_def CallCheckIT_def ConstSizeCheckIT_def
  VarSizeCheckIT_def mkInvariantIT_def ArgInvariantIT_def CallInvariantIT_def ValInvariantIT_def
  BoundsIT_def mkWitnessSupplyIT_def IntermediateIT_def SourceIT_def

subsection \<open>Accessors\<close>

definition isValid :: "itarget \<Rightarrow> bool" where
  "isValid T = (\<not> invalidated T)"

definition invalidate :: "itarget \<Rightarrow> itarget" where
  "invalidate T = T\<lparr>invalidated := True\<rparr>"

definition hasInstrumentee :: "itarget \<Rightarrow> bool res" where
  "hasInstrumentee T = bindE (assertE (isValid T) ''isValid()'') (\<lambda>_. Inr (instrumentee T \<noteq> None))"

definition getInstrumentee :: "itarget \<Rightarrow> vid res" where
  "getInstrumentee T =
     bindE (assertE (isValid T) ''isValid()'') (\<lambda>_.
     bindE (hasInstrumentee T) (\<lambda>h.
     bindE (assertE h ''hasInstrumentee()'') (\<lambda>_.
     case instrumentee T of None \<Rightarrow> Inl NullPointer | Some v \<Rightarrow> Inr v)))"

definition getLocation :: "itarget \<Rightarrow> vid res" where
  "getLocation T = bindE (assertE (isValid T) ''isValid()'') (\<lambda>_. Inr (location T))"

definition hasUpperBoundFlag :: "itarget \<Rightarrow> bool res" where
  "hasUpperBoundFlag T =
     bindE (assertE (isValid T) ''isValid()'') (\<lambda>_. Inr (checkUpperBoundFlag T))"

definition hasLowerBoundFlag :: "itarget \<Rightarrow> bool res" where
  "hasLowerBoundFlag T =
     bindE (assertE (isValid T) ''isValid()'') (\<lambda>_. Inr (checkLowerBoundFlag T))"

definition hasTemporalFlag :: "itarget \<Rightarrow> bool res" where
  "hasTemporalFlag T =
     bindE (assertE (isValid T) ''isValid()'') (\<lambda>_. Inr (checkTemporalFlag T))"

text \<open>
  The virtual \<open>requiresExplicitBounds\<close>: false in the base class, true for bounds targets
  (whose override does not assert), the flag for witness supplying targets.
\<close>

definition requiresExplicitBounds :: "itarget \<Rightarrow> bool res" where
  "requiresExplicitBounds T =
     (if isBoundsIT T then Inr True
      else bindE (assertE (isValid T) ''isValid()'') (\<lambda>_.
        Inr (if isWitnessSupplyIT T then explicitBoundsFlag T else False)))"

definition hasBoundWitnesses :: "itarget \<Rightarrow> bool res" where
  "hasBoundWitnesses T =
     bindE (assertE (isValid T) ''isValid()'') (\<lambda>_. Inr (boundWitnesses T \<noteq> []))"

definition needsNoBoundWitnesses :: "itarget \<Rightarrow> bool" where
  "needsNoBoundWitnesses T = (if isCallInvariantIT T then requiredArgs T = [] else False)"

definition hasWitnessesIfNeeded :: "itarget \<Rightarrow> bool res" where
  "hasWitnessesIfNeeded T = (if needsNoBoundWitnesses T then Inr True else hasBoundWitnesses T)"

definition getSingleBoundWitness :: "itarget \<Rightarrow> witness_ptr res" where
  "getSingleBoundWitness T =
     bindE (assertE (isValid T) ''isValid()'') (\<lambda>_.
     bindE (assertE (length (boundWitnesses T) = 1) ''boundWitnesses.size() == 1'') (\<lambda>_.
     omap_at (boundWitnesses T) 0))"

definition getBoundWitness :: "itarget \<Rightarrow> nat \<Rightarrow> witness_ptr res" where
  "getBoundWitness T i =
     bindE (assertE (isValid T) ''isValid()'') (\<lambda>_. omap_at (boundWitnesses T) i)"

definition getBoundWitnesses :: "itarget \<Rightarrow> witness_map res" where
  "getBoundWitnesses T = bindE (assertE (isValid T) ''isValid()'') (\<lambda>_. Inr (boundWitnesses T))"

definition setSingleBoundWitness :: "witness_ptr \<Rightarrow> itarget \<Rightarrow> itarget res" where
  "setSingleBoundWitness w T =
     bindE (assertE (length (boundWitnesses T) \<le> 1) ''boundWitnesses.size() <= 1'') (\<lambda>_.
     Inr (T\<lparr>boundWitnesses := omap_set 0 w (boundWitnesses T)\<rparr>))"

definition setBoundWitness :: "witness_ptr \<Rightarrow> nat \<Rightarrow> itarget \<Rightarrow> itarget" where
  "setBoundWitness w i T = T\<lparr>boundWitnesses := omap_set i w (boundWitnesses T)\<rparr>"

definition setBoundWitnesses :: "witness_map \<Rightarrow> itarget \<Rightarrow> itarget" where
  "setBoundWitnesses ws T = T\<lparr>boundWitnesses := ws\<rparr>"

text \<open>
  \<open>getCall\<close> of the three classes whose location is a call; the cast asserts that it is one.
\<close>

definition getCall :: "ir \<Rightarrow> itarget \<Rightarrow> vid res" where
  "getCall m T =
     bindE (assertE (isValid T) ''isValid()'') (\<lambda>_.
     bindE (assertE (get_call m (location T) \<noteq> None) ''cast<CallBase>(location)'') (\<lambda>_.
     Inr (location T)))"

lemmas it_acc_defs = isValid_def hasInstrumentee_def getInstrumentee_def getLocation_def
  hasUpperBoundFlag_def hasLowerBoundFlag_def hasTemporalFlag_def requiresExplicitBounds_def
  hasBoundWitnesses_def hasWitnessesIfNeeded_def getSingleBoundWitness_def getBoundWitness_def
  getBoundWitnesses_def setSingleBoundWitness_def setBoundWitness_def setBoundWitnesses_def

subsection \<open>Comparison\<close>

definition it_equals :: "itarget \<Rightarrow> itarget \<Rightarrow> bool res" where
  "it_equals T Other =
     bindE (assertE (isValid T \<and> isValid Other) ''isValid() && Other.isValid()'') (\<lambda>_.
     Inr (kind T = kind Other \<and> instrumentee T = instrumentee Other \<and>
          location T = location Other \<and>
          checkUpperBoundFlag T = checkUpperBoundFlag Other \<and>
          checkLowerBoundFlag T = checkLowerBoundFlag Other \<and>
          checkTemporalFlag T = checkTemporalFlag Other))"

text \<open>The virtual \<open>operator==\<close>, by the kind of the left operand.\<close>

definition it_eq :: "itarget \<Rightarrow> itarget \<Rightarrow> bool res" where
  "it_eq T other =
     bindE (it_equals T other) (\<lambda>e.
     if \<not> e then Inr False
     else case kind T of
       ITK_ConstSizeCheck \<Rightarrow>
         bindE (assertE (isConstSizeCheckIT other) ''cast<ConstSizeCheckIT>'') (\<lambda>_.
         Inr (accessSize T = accessSize other))
     | ITK_VarSizeCheck \<Rightarrow>
         bindE (assertE (isVarSizeCheckIT other) ''cast<VarSizeCheckIT>'') (\<lambda>_.
         Inr (accessSizeVal T = accessSizeVal other))
     | ITK_ArgInvariant \<Rightarrow>
         bindE (assertE (isArgInvariantIT other) ''cast<ArgInvariantIT>'') (\<lambda>_.
         Inr (argNum T = argNum other))
     | ITK_Intermediate \<Rightarrow>
         bindE (requiresExplicitBounds other) (\<lambda>b. Inr (explicitBoundsFlag T = b))
     | ITK_Source \<Rightarrow>
         bindE (requiresExplicitBounds other) (\<lambda>b. Inr (explicitBoundsFlag T = b))
     | _ \<Rightarrow> Inr True)"

subsection \<open>Joining the flags of witness suppliers\<close>

definition joinFlags :: "itarget \<Rightarrow> itarget \<Rightarrow> (bool \<times> itarget) res" where
  "joinFlags T other =
     bindE (assertE (isValid T) ''isValid()'') (\<lambda>_.
     bindE (assertE (isValid other) ''other.isValid()'') (\<lambda>_.
     bindE (hasUpperBoundFlag T) (\<lambda>oldUBF.
     bindE (hasLowerBoundFlag T) (\<lambda>oldLBF.
     bindE (hasTemporalFlag T) (\<lambda>oldTF.
     bindE (requiresExplicitBounds T) (\<lambda>oldExplBF.
     bindE (hasUpperBoundFlag other) (\<lambda>oUBF.
     bindE (hasLowerBoundFlag other) (\<lambda>oLBF.
     bindE (hasTemporalFlag other) (\<lambda>oTF.
     bindE (requiresExplicitBounds other) (\<lambda>oExplBF.
     let T' = T\<lparr>checkUpperBoundFlag := oldUBF \<or> oUBF,
               checkLowerBoundFlag := oldLBF \<or> oLBF,
               checkTemporalFlag := oldTF \<or> oTF,
               explicitBoundsFlag := oldExplBF \<or> oExplBF\<rparr>
     in Inr (oldUBF \<noteq> checkUpperBoundFlag T' \<or> oldLBF \<noteq> checkLowerBoundFlag T' \<or>
             oldTF \<noteq> checkTemporalFlag T' \<or> oldExplBF \<noteq> explicitBoundsFlag T', T')))))))))))"

section \<open>The target builder\<close>

definition createCallCheckTarget :: "vid \<Rightarrow> vid \<Rightarrow> itarget res" where
  "createCallCheckTarget instr call = CallCheckIT instr call"

definition createSpatialCheckTargetConst ::
  "vid \<Rightarrow> vid \<Rightarrow> nat \<Rightarrow> bool \<Rightarrow> bool \<Rightarrow> itarget res" where
  "createSpatialCheckTargetConst instr loc sz checkUpper checkLower =
     ConstSizeCheckIT instr loc sz checkUpper checkLower"

definition createSpatialCheckTarget ::
  "ir \<Rightarrow> vid \<Rightarrow> vid \<Rightarrow> bool \<Rightarrow> bool \<Rightarrow> itarget res" where
  "createSpatialCheckTarget m instr loc checkUpper checkLower =
     bindE (getPointerAccessSize m instr) (\<lambda>acc_size.
     createSpatialCheckTargetConst instr loc acc_size checkUpper checkLower)"

definition createSpatialCheckTargetVar ::
  "vid \<Rightarrow> vid \<Rightarrow> vid \<Rightarrow> bool \<Rightarrow> bool \<Rightarrow> itarget res" where
  "createSpatialCheckTargetVar instr loc sz checkUpper checkLower =
     VarSizeCheckIT instr loc sz checkUpper checkLower"

definition createArgInvariantTarget :: "vid \<Rightarrow> vid \<Rightarrow> nat \<Rightarrow> itarget res" where
  "createArgInvariantTarget instr call num = ArgInvariantIT instr call num"

definition createCallInvariantTarget :: "vid \<Rightarrow> (nat, vid) omap \<Rightarrow> itarget res" where
  "createCallInvariantTarget call args = CallInvariantIT call args"

definition createValInvariantTarget :: "vid \<Rightarrow> vid \<Rightarrow> itarget res" where
  "createValInvariantTarget instr loc = ValInvariantIT instr loc"

definition createBoundsTarget :: "vid \<Rightarrow> vid \<Rightarrow> bool \<Rightarrow> bool \<Rightarrow> itarget" where
  "createBoundsTarget instr loc checkUpper checkLower = BoundsIT instr loc checkUpper checkLower"

definition createIntermediateTarget :: "vid \<Rightarrow> vid \<Rightarrow> itarget" where
  "createIntermediateTarget instr loc = IntermediateIT instr loc"

definition createSourceTarget :: "vid \<Rightarrow> vid \<Rightarrow> itarget" where
  "createSourceTarget instr loc = SourceIT instr loc"

lemmas create_defs = createCallCheckTarget_def createSpatialCheckTargetConst_def
  createSpatialCheckTarget_def createSpatialCheckTargetVar_def createArgInvariantTarget_def
  createCallInvariantTarget_def createValInvariantTarget_def createBoundsTarget_def
  createIntermediateTarget_def createSourceTarget_def

fun getNumITargets :: "itarget list \<Rightarrow> (itarget \<Rightarrow> bool) \<Rightarrow> nat" where
  "getNumITargets [] predicate = 0"
| "getNumITargets (T # vec) predicate =
     (if predicate T then Suc (getNumITargets vec predicate) else getNumITargets vec predicate)"

definition getNumValidITargets :: "itarget list \<Rightarrow> nat" where
  "getNumValidITargets vec = getNumITargets vec isValid"

fun validateITargets :: "ir \<Rightarrow> itarget list \<Rightarrow> bool" where
  "validateITargets m [] = True"
| "validateITargets m (T # vec) =
     (if \<not> isValid T \<or> instrumentee T = None then validateITargets m vec
      else if is_instruction m (the (instrumentee T)) then
        if the (instrumentee T) = location T then False
        else if \<not> dominates m (the (instrumentee T)) (location T) then False
        else validateITargets m vec
      else validateITargets m vec)"

section \<open>Facts about targets\<close>

lemma isValid_mkITarget [simp]: "isValid (mkITarget k i l u lo t)"
  by (simp add: isValid_def mkITarget_def)

lemma isValid_invalidate [simp]: "\<not> isValid (invalidate T)"
  by (simp add: isValid_def invalidate_def)

lemma invalidate_simps [simp]:
  "kind (invalidate T) = kind T" "instrumentee (invalidate T) = instrumentee T"
  "location (invalidate T) = location T" "accessSize (invalidate T) = accessSize T"
  "accessSizeVal (invalidate T) = accessSizeVal T"
  by (simp_all add: invalidate_def)

text \<open>Every target is of exactly one class: a check, an invariant, a witness supplier or bounds.\<close>

lemma it_class_cases:
  "isCheck T \<or> isInvariant T \<or> isWitnessSupplyIT T \<or> isBoundsIT T"
  by (cases "kind T") (auto simp: it_class_defs kind_order isCheck_def isInvariant_def)

lemma it_class_disjoint:
  "\<not> (isCheck T \<and> isInvariant T)" "\<not> (isCheck T \<and> isWitnessSupplyIT T)"
  "\<not> (isCheck T \<and> isBoundsIT T)" "\<not> (isInvariant T \<and> isWitnessSupplyIT T)"
  "\<not> (isInvariant T \<and> isBoundsIT T)" "\<not> (isWitnessSupplyIT T \<and> isBoundsIT T)"
  by (cases "kind T"; auto simp: it_class_defs kind_order isCheck_def isInvariant_def)+

lemma isCheck_iff: "isCheck T \<longleftrightarrow> kind T \<in> {ITK_CallCheck, ITK_ConstSizeCheck, ITK_VarSizeCheck}"
  by (cases "kind T") (auto simp: it_class_defs kind_order isCheck_def)

lemma isInvariant_iff:
  "isInvariant T \<longleftrightarrow> kind T \<in> {ITK_ArgInvariant, ITK_CallInvariant, ITK_ValInvariant}"
  by (cases "kind T") (auto simp: it_class_defs kind_order isInvariant_def)

lemma isWitnessSupplyIT_iff: "isWitnessSupplyIT T \<longleftrightarrow> kind T \<in> {ITK_Intermediate, ITK_Source}"
  by (cases "kind T") (auto simp: it_class_defs kind_order)

text \<open>The flags of a target, in the order the code joins them.\<close>

definition it_flags :: "itarget \<Rightarrow> bool list" where
  "it_flags T =
     [checkUpperBoundFlag T, checkLowerBoundFlag T, checkTemporalFlag T,
      isBoundsIT T \<or> (isWitnessSupplyIT T \<and> explicitBoundsFlag T)]"

definition flags_le :: "itarget \<Rightarrow> itarget \<Rightarrow> bool" where
  "flags_le S T \<longleftrightarrow> list_all2 (\<longrightarrow>) (it_flags S) (it_flags T)"

lemma flags_le_iff:
  "flags_le S T \<longleftrightarrow>
     (checkUpperBoundFlag S \<longrightarrow> checkUpperBoundFlag T) \<and>
     (checkLowerBoundFlag S \<longrightarrow> checkLowerBoundFlag T) \<and>
     (checkTemporalFlag S \<longrightarrow> checkTemporalFlag T) \<and>
     (isBoundsIT S \<or> (isWitnessSupplyIT S \<and> explicitBoundsFlag S) \<longrightarrow>
      isBoundsIT T \<or> (isWitnessSupplyIT T \<and> explicitBoundsFlag T))"
  by (simp add: flags_le_def it_flags_def)

lemma flags_le_refl [simp]: "flags_le T T"
  by (simp add: flags_le_iff)

lemma flags_le_trans: "flags_le S T \<Longrightarrow> flags_le T U \<Longrightarrow> flags_le S U"
  by (auto simp: flags_le_iff)

text \<open>On valid targets the accessors cannot fail, and \<open>joinFlags\<close> is the join.\<close>

definition join_flags :: "itarget \<Rightarrow> itarget \<Rightarrow> itarget" where
  "join_flags T S =
     T\<lparr>checkUpperBoundFlag := checkUpperBoundFlag T \<or> checkUpperBoundFlag S,
       checkLowerBoundFlag := checkLowerBoundFlag T \<or> checkLowerBoundFlag S,
       checkTemporalFlag := checkTemporalFlag T \<or> checkTemporalFlag S,
       explicitBoundsFlag := explicitBoundsFlag T \<or> isBoundsIT S \<or>
         (isWitnessSupplyIT S \<and> explicitBoundsFlag S)\<rparr>"

lemma joinFlags_supply:
  assumes "isValid T" and "isValid S" and "isWitnessSupplyIT T"
  shows "joinFlags T S = Inr (\<not> flags_le S T, join_flags T S)"
proof -
  have "\<not> isBoundsIT T"
    using assms(3) it_class_disjoint(6) by blast
  with assms show ?thesis
    by (auto simp: joinFlags_def it_acc_defs Let_def flags_le_iff join_flags_def)
qed

lemma join_flags_simps [simp]:
  "kind (join_flags T S) = kind T" "isValid (join_flags T S) = isValid T"
  "isWitnessSupplyIT (join_flags T S) = isWitnessSupplyIT T"
  "isBoundsIT (join_flags T S) = isBoundsIT T"
  "instrumentee (join_flags T S) = instrumentee T" "location (join_flags T S) = location T"
  by (simp_all add: join_flags_def isValid_def it_class_defs)

lemma flags_of_join:
  assumes "isWitnessSupplyIT T"
  shows "it_flags (join_flags T S) = map2 (\<or>) (it_flags T) (it_flags S)"
  using assms it_class_disjoint(6) [of T]
  by (auto simp: it_flags_def join_flags_def it_class_defs)

lemma join_flags_upper:
  assumes "isWitnessSupplyIT T"
  shows "flags_le T (join_flags T S)" and "flags_le S (join_flags T S)"
  using assms it_class_disjoint(6) [of T]
  by (auto simp: flags_le_iff join_flags_def it_class_defs)

lemma join_flags_id: "isWitnessSupplyIT T \<Longrightarrow> flags_le S T \<Longrightarrow> join_flags T S = T"
  using it_class_disjoint(6) [of T]
  by (intro itarget.equality) (auto simp: flags_le_iff join_flags_def)

definition unset_flags :: "itarget \<Rightarrow> nat" where
  "unset_flags T = length (filter Not (it_flags T))"

lemma unset_flags_le: "unset_flags T \<le> 4"
  by (simp add: unset_flags_def it_flags_def)

lemma unset_join_less:
  assumes "isWitnessSupplyIT T" and "\<not> flags_le S T"
  shows "unset_flags (join_flags T S) < unset_flags T"
  using assms it_class_disjoint(6) [of T]
  by (auto simp: unset_flags_def flags_le_iff join_flags_def it_flags_def it_class_defs)

lemma it_eq_valid:
  assumes "isValid T" and "isValid S"
  shows "\<exists>b. it_eq T S = Inr b"
  using assms
  by (auto simp: it_eq_def it_equals_def it_acc_defs it_class_defs split: itarget_kind.splits)

lemma it_eq_kind: "it_eq T S = Inr True \<Longrightarrow> kind T = kind S"
  by (auto simp: it_eq_def it_equals_def res_simps split: if_splits)

text \<open>A fresh witness supplier equals the suppliers of its kind, place and (unset) flags.\<close>

lemma it_eq_fresh_supply:
  assumes "k = ITK_Intermediate \<or> k = ITK_Source" and "isValid T"
  shows "it_eq T (mkWitnessSupplyIT k v l) =
    Inr (kind T = k \<and> instrumentee T = Some v \<and> location T = l \<and> \<not> checkUpperBoundFlag T \<and>
         \<not> checkLowerBoundFlag T \<and> \<not> checkTemporalFlag T \<and> \<not> explicitBoundsFlag T)"
  using assms
  by (auto simp: it_eq_def it_equals_def mkWitnessSupplyIT_def mkITarget_def isValid_def
      requiresExplicitBounds_def it_class_defs kind_order split: itarget_kind.splits)

lemma getNumITargets_filter: "getNumITargets vec P = length (filter P vec)"
  by (induction vec) auto

lemma validateITargets_iff:
  "validateITargets m vec \<longleftrightarrow>
     (\<forall>T \<in> set vec. isValid T \<longrightarrow>
        (\<forall>v. instrumentee T = Some v \<longrightarrow> is_instruction m v \<longrightarrow>
           v \<noteq> location T \<and> dominates m v (location T)))"
  by (induction vec) auto

end
