(* ===== verification/WitnessGraph.thy ===== *)
theory WitnessGraph
  imports ITargets
begin

text \<open>
  \<open>include/meminstrument/pass/WitnessGraph.h\<close> and \<open>lib/pass/WitnessGraph.cpp\<close>: the graph of
  the data flow from definitions of pointers to the targets that need witnesses. The state
  \<open>wgraph\<close> holds the heap of nodes (a deleted node is absent, so reading it is
  \<open>UseAfterFree\<close>), the heap of targets (shared with the vector of gathered targets and never
  freed while the graph lives), and the fields of the class. A node is identified by its running
  id, which is unique like its address.
\<close>

type_synonym nid = nat
type_synonym tid = nat

record wg_node =
  Target :: tid
  requirements :: "nid list"
  requiredBy :: "nid list"
  HasAllRequirements :: bool

record wgraph =
  nodes :: "nid \<rightharpoonup> wg_node"
  targets :: "tid \<rightharpoonup> itarget"
  RunningId :: nid
  next_tid :: tid
  InternalNodes :: "nid list"
  ExternalNodes :: "nid list"
  AlreadyPropagated :: bool

definition empty_graph :: "(tid \<rightharpoonup> itarget) \<Rightarrow> tid \<Rightarrow> wgraph" where
  "empty_graph ts n =
     \<lparr>nodes = Map.empty, targets = ts, RunningId = 0, next_tid = n, InternalNodes = [],
      ExternalNodes = [], AlreadyPropagated = False\<rparr>"

section \<open>Heap access\<close>

definition upd_node :: "nid \<Rightarrow> (wg_node \<Rightarrow> wg_node) \<Rightarrow> wgraph \<Rightarrow> wgraph res" where
  "upd_node n f g = bindE (deref (nodes g) n) (\<lambda>nd. Inr (g\<lparr>nodes := (nodes g)(n \<mapsto> f nd)\<rparr>))"

definition set_target :: "tid \<Rightarrow> itarget \<Rightarrow> wgraph \<Rightarrow> wgraph" where
  "set_target t T g = g\<lparr>targets := (targets g)(t \<mapsto> T)\<rparr>"

definition node_target :: "wgraph \<Rightarrow> nid \<Rightarrow> itarget res" where
  "node_target g n = bindE (deref (nodes g) n) (\<lambda>nd. deref (targets g) (Target nd))"

definition new_node :: "tid \<Rightarrow> wgraph \<Rightarrow> nid \<times> wgraph" where
  "new_node t g =
     (RunningId g,
      g\<lparr>nodes := (nodes g)(RunningId g \<mapsto>
          \<lparr>Target = t, requirements = [], requiredBy = [], HasAllRequirements = False\<rparr>),
        RunningId := Suc (RunningId g)\<rparr>)"

section \<open>Nodes\<close>

definition addRequirement :: "nid \<Rightarrow> nid \<Rightarrow> wgraph \<Rightarrow> wgraph res" where
  "addRequirement this N g =
     bindE (upd_node this (\<lambda>nd. nd\<lparr>requirements := requirements nd @ [N]\<rparr>) g)
       (upd_node N (\<lambda>nd. nd\<lparr>requiredBy := requiredBy nd @ [this]\<rparr>))"

text \<open>
  As in the source, the entries removed from the \<open>requiredBy\<close> vector of \<open>Req\<close> are those equal
  to \<open>Req\<close> itself.
\<close>

definition clearRequirements :: "nid \<Rightarrow> wgraph \<Rightarrow> wgraph res" where
  "clearRequirements this g =
     bindE (deref (nodes g) this) (\<lambda>nd.
     bindE (foldE (\<lambda>Req. upd_node Req
              (\<lambda>r. r\<lparr>requiredBy := filter (\<lambda>N. N \<noteq> Req) (requiredBy r)\<rparr>)) (requirements nd) g)
       (upd_node this (\<lambda>nd. nd\<lparr>requirements := []\<rparr>)))"

definition delete_node :: "nid \<Rightarrow> wgraph \<Rightarrow> wgraph res" where
  "delete_node n g =
     bindE (clearRequirements n g) (\<lambda>g'. Inr (g'\<lparr>nodes := (nodes g')(n := None)\<rparr>))"

definition destroyGraph :: "wgraph \<Rightarrow> wgraph res" where
  "destroyGraph g =
     bindE (foldE delete_node (ExternalNodes g) g) (foldE delete_node (InternalNodes g))"

section \<open>Internal nodes\<close>

fun find_internal :: "wgraph \<Rightarrow> itarget \<Rightarrow> nid list \<Rightarrow> nid option res" where
  "find_internal g T [] = Inr None"
| "find_internal g T (n # ns) =
     bindE (node_target g n) (\<lambda>T'.
     bindE (it_eq T' T) (\<lambda>e. if e then Inr (Some n) else find_internal g T ns))"

definition getInternalNodeOrNull :: "itarget \<Rightarrow> wgraph \<Rightarrow> nid option res" where
  "getInternalNodeOrNull T g = find_internal g T (InternalNodes g)"

definition createNewInternalNode :: "itarget \<Rightarrow> wgraph \<Rightarrow> (nid \<times> wgraph) res" where
  "createNewInternalNode T g =
     bindE (getInternalNodeOrNull T g) (\<lambda>r.
     bindE (assertE (r = None) ''Internal node already exists!'') (\<lambda>_.
     let t = next_tid g;
         g1 = g\<lparr>targets := (targets g)(t \<mapsto> T), next_tid := Suc t\<rparr>;
         (n, g2) = new_node t g1
     in Inr (n, g2\<lparr>InternalNodes := InternalNodes g2 @ [n]\<rparr>)))"

definition getInternalNodeOf :: "itarget \<Rightarrow> wgraph \<Rightarrow> (nid \<times> wgraph) res" where
  "getInternalNodeOf T g =
     bindE (getInternalNodeOrNull T g) (\<lambda>r.
     case r of Some n \<Rightarrow> Inr (n, g) | None \<Rightarrow> createNewInternalNode T g)"

text \<open>\<open>addReq\<close> is the virtual \<open>Strategy.addRequired\<close>.\<close>

definition insertRequiredTarget ::
  "(nid \<Rightarrow> wgraph \<Rightarrow> wgraph res) \<Rightarrow> tid \<Rightarrow> wgraph \<Rightarrow> wgraph res" where
  "insertRequiredTarget addReq t g =
     (let (n, g1) = new_node t g;
          g2 = g1\<lparr>ExternalNodes := ExternalNodes g1 @ [n]\<rparr>
      in bindE (addReq n g2) (\<lambda>g3. Inr (g3\<lparr>AlreadyPropagated := False\<rparr>)))"

section \<open>Propagating flags\<close>

text \<open>One successor of the node taken from the worklist: join, and push it when it changed.\<close>

definition propagate_succ ::
  "nid \<Rightarrow> nid \<Rightarrow> nid list \<times> wgraph \<Rightarrow> (nid list \<times> wgraph) res" where
  "propagate_succ node succ s =
     (case s of (wl, g) \<Rightarrow>
     bindE (deref (nodes g) succ) (\<lambda>snd.
     bindE (deref (targets g) (Target snd)) (\<lambda>S.
     bindE (assertE (isWitnessSupplyIT S) ''cast<WitnessSupplyIT>'') (\<lambda>_.
     bindE (node_target g node) (\<lambda>T.
     bindE (joinFlags S T) (\<lambda>(changed, S').
     let g' = set_target (Target snd) S' g
     in Inr (if changed then wl @ [succ] else wl, g')))))))"

primrec propagate_loop :: "nat \<Rightarrow> nid list \<Rightarrow> wgraph \<Rightarrow> wgraph res" where
  "propagate_loop 0 wl g = (if wl = [] then Inr g else Inl OutOfFuel)"
| "propagate_loop (Suc fuel) wl g =
     (case wl of
        [] \<Rightarrow> Inr g
      | node # wl' \<Rightarrow>
          bindE (deref (nodes g) node) (\<lambda>nd.
          bindE (foldE (propagate_succ node) (requirements nd) (wl', g)) (\<lambda>(wl'', g').
          propagate_loop fuel wl'' g')))"

definition propagateFlags :: "nat \<Rightarrow> wgraph \<Rightarrow> wgraph res" where
  "propagateFlags fuel g =
     bindE (propagate_loop fuel (ExternalNodes g) g) (\<lambda>g'. Inr (g'\<lparr>AlreadyPropagated := True\<rparr>))"

section \<open>Removing dead nodes\<close>

primrec markAsReachable :: "nat \<Rightarrow> wgraph \<Rightarrow> nid \<Rightarrow> nid set \<Rightarrow> nid set res" where
  "markAsReachable 0 g N Res = Inl OutOfFuel"
| "markAsReachable (Suc fuel) g N Res =
     (if N \<in> Res then Inr Res
      else bindE (deref (nodes g) N) (\<lambda>nd.
           foldE (markAsReachable fuel g) (requirements nd) (insert N Res)))"

definition node_invalid :: "wgraph \<Rightarrow> nid \<Rightarrow> bool res" where
  "node_invalid g n = bindE (node_target g n) (\<lambda>T. Inr (\<not> isValid T))"

text \<open>\<open>std::remove_if\<close> keeps the order of the others and records the nodes to delete in order.\<close>

fun split_invalid :: "wgraph \<Rightarrow> nid list \<Rightarrow> (nid list \<times> nid list) res" where
  "split_invalid g [] = Inr ([], [])"
| "split_invalid g (n # ns) =
     bindE (node_invalid g n) (\<lambda>b.
     bindE (split_invalid g ns) (\<lambda>(keep, del).
     Inr (if b then (keep, n # del) else (n # keep, del))))"

fun sweep_internal :: "nid set \<Rightarrow> nid list \<Rightarrow> wgraph \<Rightarrow> (nid list \<times> wgraph) res" where
  "sweep_internal live [] g = Inr ([], g)"
| "sweep_internal live (n # ns) g =
     (if n \<in> live then
        bindE (sweep_internal live ns g) (\<lambda>(keep, g'). Inr (n # keep, g'))
      else bindE (delete_node n g) (sweep_internal live ns))"

definition removeDeadNodes :: "nat \<Rightarrow> wgraph \<Rightarrow> wgraph res" where
  "removeDeadNodes fuel g =
     bindE (split_invalid g (ExternalNodes g)) (\<lambda>(keep, toDelete).
     bindE (foldE delete_node toDelete (g\<lparr>ExternalNodes := keep\<rparr>)) (\<lambda>g1.
     bindE (foldE (markAsReachable fuel g1) (ExternalNodes g1) {}) (\<lambda>live.
     bindE (sweep_internal live (InternalNodes g1) g1) (\<lambda>(keepI, g2).
     Inr (g2\<lparr>InternalNodes := keepI\<rparr>)))))"

definition map_nodes :: "(nid \<Rightarrow> wgraph \<Rightarrow> wgraph res) \<Rightarrow> wgraph \<Rightarrow> wgraph res" where
  "map_nodes f g = bindE (foldE f (ExternalNodes g) g) (\<lambda>g'. foldE f (InternalNodes g') g')"

definition all_nodes :: "wgraph \<Rightarrow> nid list" where
  "all_nodes g = ExternalNodes g @ InternalNodes g"

section \<open>Well-formed graphs\<close>

definition req_of :: "wgraph \<Rightarrow> nid \<Rightarrow> nid list" where
  "req_of g n = (case nodes g n of None \<Rightarrow> [] | Some nd \<Rightarrow> requirements nd)"

definition tgt_of :: "wgraph \<Rightarrow> nid \<Rightarrow> itarget option" where
  "tgt_of g n = (case nodes g n of None \<Rightarrow> None | Some nd \<Rightarrow> targets g (Target nd))"

definition edge :: "wgraph \<Rightarrow> nid \<Rightarrow> nid \<Rightarrow> bool" where
  "edge g m n \<longleftrightarrow> n \<in> set (req_of g m)"

text \<open>
  The invariant of a graph: the node vectors list the live nodes without repetition, ids and
  target addresses are below the counters, every node has a target of its own, internal nodes
  have witness supplying targets, and requirements are internal nodes. Until targets are
  invalidated, all of them are valid.
\<close>

definition wg_struct :: "wgraph \<Rightarrow> bool" where
  "wg_struct g \<longleftrightarrow>
     distinct (all_nodes g) \<and> dom (nodes g) = set (all_nodes g) \<and>
     (\<forall>n \<in> dom (nodes g). n < RunningId g) \<and>
     (\<forall>t \<in> dom (targets g). t < next_tid g) \<and>
     (\<forall>n nd. nodes g n = Some nd \<longrightarrow> Target nd \<in> dom (targets g)) \<and>
     (\<forall>n n' nd nd'. nodes g n = Some nd \<longrightarrow> nodes g n' = Some nd' \<longrightarrow> Target nd = Target nd' \<longrightarrow>
        n = n') \<and>
     (\<forall>n \<in> set (InternalNodes g). \<forall>T. tgt_of g n = Some T \<longrightarrow> isWitnessSupplyIT T) \<and>
     (\<forall>n. set (req_of g n) \<subseteq> set (InternalNodes g))"

definition wg_ok :: "wgraph \<Rightarrow> bool" where
  "wg_ok g \<longleftrightarrow> wg_struct g \<and> (\<forall>n T. tgt_of g n = Some T \<longrightarrow> isValid T)"

section \<open>Facts about the heap\<close>

lemma upd_node_eq_Inr [res_simps]:
  "upd_node n f g = Inr g' \<longleftrightarrow>
     (\<exists>nd. nodes g n = Some nd \<and> g' = g\<lparr>nodes := (nodes g)(n \<mapsto> f nd)\<rparr>)"
  by (auto simp: upd_node_def res_simps)

lemma upd_node_eq_Inl [res_simps]:
  "upd_node n f g = Inl e \<longleftrightarrow> nodes g n = None \<and> e = UseAfterFree"
  by (auto simp: upd_node_def res_simps)

lemma node_target_eq_Inr [res_simps]: "node_target g n = Inr T \<longleftrightarrow> tgt_of g n = Some T"
  by (auto simp: node_target_def tgt_of_def res_simps split: option.splits)

lemma frame_simps [simp]:
  "tgt_of (g\<lparr>AlreadyPropagated := b\<rparr>) n = tgt_of g n"
  "req_of (g\<lparr>AlreadyPropagated := b\<rparr>) n = req_of g n"
  "tgt_of (g\<lparr>InternalNodes := ns\<rparr>) n = tgt_of g n"
  "req_of (g\<lparr>InternalNodes := ns\<rparr>) n = req_of g n"
  "tgt_of (g\<lparr>ExternalNodes := ns\<rparr>) n = tgt_of g n"
  "req_of (g\<lparr>ExternalNodes := ns\<rparr>) n = req_of g n"
  by (cases "nodes g n"; simp add: tgt_of_def req_of_def)+

lemma edge_propagated [simp]: "edge (g\<lparr>AlreadyPropagated := b\<rparr>) = edge g"
  by (simp add: edge_def fun_eq_iff)

lemma wg_okI:
  assumes "distinct (all_nodes g)" and "dom (nodes g) = set (all_nodes g)"
    and "\<And>n. n \<in> dom (nodes g) \<Longrightarrow> n < RunningId g"
    and "\<And>t. t \<in> dom (targets g) \<Longrightarrow> t < next_tid g"
    and "\<And>n T. tgt_of g n = Some T \<Longrightarrow> isValid T"
    and "\<And>n nd. nodes g n = Some nd \<Longrightarrow> Target nd \<in> dom (targets g)"
    and "\<And>n n' nd nd'. nodes g n = Some nd \<Longrightarrow> nodes g n' = Some nd' \<Longrightarrow>
      Target nd = Target nd' \<Longrightarrow> n = n'"
    and "\<And>n T. n \<in> set (InternalNodes g) \<Longrightarrow> tgt_of g n = Some T \<Longrightarrow> isWitnessSupplyIT T"
    and "\<And>n. set (req_of g n) \<subseteq> set (InternalNodes g)"
  shows "wg_ok g"
  unfolding wg_ok_def wg_struct_def using assms by blast

lemma wg_okD:
  assumes "wg_ok g"
  shows wg_ok_distinct: "distinct (all_nodes g)"
    and wg_ok_dom: "dom (nodes g) = set (all_nodes g)"
    and wg_ok_ids: "n \<in> dom (nodes g) \<Longrightarrow> n < RunningId g"
    and wg_ok_tids: "t \<in> dom (targets g) \<Longrightarrow> t < next_tid g"
    and wg_ok_valid: "tgt_of g n = Some T \<Longrightarrow> isValid T"
    and wg_ok_target: "nodes g n = Some nd \<Longrightarrow> Target nd \<in> dom (targets g)"
    and wg_ok_inj: "nodes g n = Some nd \<Longrightarrow> nodes g n' = Some nd' \<Longrightarrow>
      Target nd = Target nd' \<Longrightarrow> n = n'"
    and wg_ok_supply: "n \<in> set (InternalNodes g) \<Longrightarrow> tgt_of g n = Some T \<Longrightarrow>
      isWitnessSupplyIT T"
    and wg_ok_req: "set (req_of g n) \<subseteq> set (InternalNodes g)"
  using assms unfolding wg_ok_def wg_struct_def by blast+

lemma wg_structD:
  assumes "wg_struct g"
  shows wg_struct_distinct: "distinct (all_nodes g)"
    and wg_struct_dom: "dom (nodes g) = set (all_nodes g)"
    and wg_struct_req: "set (req_of g n) \<subseteq> set (InternalNodes g)"
    and wg_struct_target: "nodes g n = Some nd \<Longrightarrow> Target nd \<in> dom (targets g)"
  using assms unfolding wg_struct_def by blast+

lemma wg_ok_live: "wg_ok g \<Longrightarrow> n \<in> dom (nodes g) \<longleftrightarrow> n \<in> set (all_nodes g)"
  by (simp add: wg_ok_dom)

lemma wg_ok_tgt:
  assumes "wg_ok g" and "nodes g n = Some nd"
  obtains T where "targets g (Target nd) = Some T" and "tgt_of g n = Some T" and "isValid T"
proof -
  obtain T where T: "targets g (Target nd) = Some T"
    using wg_ok_target [OF assms] by blast
  then have "tgt_of g n = Some T" by (simp add: tgt_of_def assms(2))
  with T wg_ok_valid [OF assms(1)] that show ?thesis by blast
qed

lemma wg_ok_edge:
  assumes "wg_ok g" and "s \<in> set (req_of g n)"
  obtains snd S where "nodes g s = Some snd" and "s \<in> set (InternalNodes g)"
    and "targets g (Target snd) = Some S" and "tgt_of g s = Some S" and "isValid S"
    and "isWitnessSupplyIT S"
proof -
  have s: "s \<in> set (InternalNodes g)" using wg_ok_req [OF assms(1)] assms(2) by blast
  then have "s \<in> dom (nodes g)" by (simp add: wg_ok_dom [OF assms(1)] all_nodes_def)
  then obtain snd where "nodes g s = Some snd" by auto
  moreover obtain S where "targets g (Target snd) = Some S" "tgt_of g s = Some S" "isValid S"
    using wg_ok_tgt [OF assms(1) \<open>nodes g s = Some snd\<close>] .
  ultimately show ?thesis using s wg_ok_supply [OF assms(1) s] that by blast
qed

end
