(* ===== verification/Demo.thy ===== *)
theory Demo
  imports WitnessGraph
begin

text \<open>
  A small module and a small graph the witnesses of the theorems evaluate on: a function with a
  pointer argument, two address computations from it and a load through each.
\<close>

definition demo_value :: "vid \<Rightarrow> value_kind \<times> tyid" where
  "demo_value v =
     (if v = 1 then (Const FunctionVal, 3)
      else if v = 2 then (Argument, 1)
      else if v = 3 then (Inst (GetElementPtr 2 [] False), 1)
      else if v = 4 then (Inst (GetElementPtr 2 [] True), 1)
      else if v = 5 then (Inst (Load 3), 2)
      else if v = 6 then (Inst (Load 4), 2)
      else if v = 7 then (Inst (Ret None), 0)
      else (OtherValue, 0))"

definition demo_type :: "tyid \<Rightarrow> type_desc" where
  "demo_type t =
     (if t = 0 then VoidTy else if t = 1 then PointerTy 2 else if t = 2 then IntegerTy 32
      else if t = 3 then FunctionTy 0 [1] False else if t = 4 then PointerTy 5
      else if t = 5 then IntegerTy 8 else if t = 6 then IntegerTy 64 else if t = 7 then PointerTy 4 else OtherTy)"

definition demo_ctx_ty :: "string \<Rightarrow> tyid" where
  "demo_ctx_ty n = (if n = ''i8*'' then 4 else if n = ''i64'' then 6 else if n = ''fn'' then 3 else 0)"

definition demo :: ir where
  "demo =
     \<lparr>types = demo_type,
      vals = (\<lambda>v. \<lparr>v_kind = fst (demo_value v), v_type = snd (demo_value v), v_name = [],
                    v_md = Map.empty\<rparr>),
      bb_insts = (\<lambda>b. if b = 0 then [3, 4, 5, 6, 7] else []),
      inst_bb = (\<lambda>_. 0), bb_fun = (\<lambda>_. 1),
      fun_blocks = (\<lambda>f. if f = 1 then [0] else []),
      fun_args = (\<lambda>f. if f = 1 then [2] else []), fun_vararg = (\<lambda>_. False),
      mod_globals = [], mod_functions = [1], global_ctors = [],
      type_store_size = (\<lambda>t. if t = 2 then 4 else if t = 5 then 1 else 8),
      type_alloc_size = (\<lambda>t. if t = 2 then 4 else if t = 5 then 1 else 8),
      type_sized = (\<lambda>t. t \<noteq> 0 \<and> t \<noteq> 3), dominates = (\<lambda>a b. a < b),
      md_concat = (\<lambda>first new. case first of None \<Rightarrow> new | Some old \<Rightarrow> old @ new),
      get_as_integer = (\<lambda>_. None), ctx_ty = demo_ctx_ty, const_int = (\<lambda>t n. 1000 + n),
      fold_op = (\<lambda>_ _ _. None), print_value = (\<lambda>_. ''value''), debug_loc = (\<lambda>_. None),
      debug_col = (\<lambda>_. 0),
      strip_casts = (\<lambda>v. v), alloca_bits = (\<lambda>_. None), use_order = (\<lambda>us. us),
      ptr_to = (\<lambda>t. if t = 5 then 4 else if t = 2 then 1 else 7), ptr_bits = 64,
      next_vid = 100, next_bb = 1\<rparr>"

text \<open>An external target (kind \<open>k\<close>) that requires one source.\<close>

definition demo_target :: itarget where
  "demo_target = (mkITarget ITK_ConstSizeCheck (Some 3) 5 True True False)\<lparr>accessSize := 4\<rparr>"

definition demo_bounds :: itarget where
  "demo_bounds = BoundsIT 3 5 True True"

definition demo_source :: itarget where
  "demo_source = SourceIT 2 3"

definition demo_invariant :: itarget where
  "demo_invariant = mkITarget ITK_ValInvariant (Some 4) 6 False False False"

definition demo_graph :: "itarget \<Rightarrow> wgraph" where
  "demo_graph T =
     \<lparr>nodes = [0 \<mapsto> \<lparr>Target = 0, requirements = [1], requiredBy = [], HasAllRequirements = True\<rparr>,
               1 \<mapsto> \<lparr>Target = 1, requirements = [], requiredBy = [0], HasAllRequirements = True\<rparr>],
      targets = [0 \<mapsto> T, 1 \<mapsto> demo_source], RunningId = 2, next_tid = 2,
      InternalNodes = [1], ExternalNodes = [0], AlreadyPropagated = True\<rparr>"

text \<open>The targets of the two loads, before the graph is built.\<close>

definition demo_start :: wgraph where
  "demo_start =
     empty_graph [0 \<mapsto> demo_target, 1 \<mapsto> demo_target\<lparr>instrumentee := Some 4, location := 6\<rparr>] 2"

lemma demo_graph_tgt:
  "tgt_of (demo_graph T) n = (if n = 0 then Some T else if n = 1 then Some demo_source else None)"
  "req_of (demo_graph T) n = (if n = 0 then [1] else [])"
  by (simp_all add: tgt_of_def req_of_def demo_graph_def)

lemma demo_source_valid: "isValid demo_source" "isWitnessSupplyIT demo_source"
  by (simp_all add: demo_source_def it_ctor_defs isValid_def isWitnessSupplyIT_def kind_order)

lemma demo_graph_fields [simp]:
  "all_nodes (demo_graph T) = [0, 1]" "dom (nodes (demo_graph T)) = {0, 1}"
  "ExternalNodes (demo_graph T) = [0]" "InternalNodes (demo_graph T) = [1]"
  by (auto simp: demo_graph_def all_nodes_def)

lemma demo_graph_struct: "wg_struct (demo_graph T)"
proof -
  have 1: "Target nd = n \<and> n < 2" if "nodes (demo_graph T) n = Some nd" for n nd
    using that by (auto simp: demo_graph_def split: if_splits)
  have 2: "dom (targets (demo_graph T)) = {0, 1}" by (auto simp: demo_graph_def)
  have 3: "RunningId (demo_graph T) = 2" "next_tid (demo_graph T) = 2" by (simp_all add: demo_graph_def)
  have tgt: "Target nd \<in> {0, 1}" if "nodes (demo_graph T) n = Some nd" for n nd
    using 1 [OF that] by auto
  have inj: "n = n'" if "nodes (demo_graph T) n = Some nd" "nodes (demo_graph T) n' = Some nd'"
    "Target nd = Target nd'" for n n' nd nd'
    using 1 [OF that(1)] 1 [OF that(2)] that(3) by simp
  have rest: "\<forall>n \<in> set [1]. \<forall>S. tgt_of (demo_graph T) n = Some S \<longrightarrow> isWitnessSupplyIT S"
    "\<forall>n. set (req_of (demo_graph T) n) \<subseteq> set [1]"
    by (auto simp: demo_graph_tgt demo_source_valid)
  have small: "\<forall>n \<in> {0, 1}. n < (2 :: nat)" "distinct [0, 1 :: nat]" "{0, 1} = set [0, 1 :: nat]" by simp_all
  show ?thesis
    unfolding wg_struct_def demo_graph_fields 2 3
    using tgt inj rest small by blast
qed

lemma demo_graph_ok: "isValid T \<Longrightarrow> wg_ok (demo_graph T)"
  by (auto simp: wg_ok_def demo_graph_struct demo_graph_tgt demo_source_valid)

end
