(* ===== verification/Policies.thy ===== *)
theory Policies
  imports Demo
begin

text \<open>
  \<open>lib/instrumentation_policies\<close>: which targets an instruction gives rise to. A policy appends to
  the vector of targets or stops with an error. The command line options
  \<open>mi-policy-no-call-checks\<close> and \<open>mi-policy-ignore-inline-asm\<close> are the fields of \<open>policy_opts\<close>.
\<close>

section \<open>Helpers of the base class\<close>

text \<open>
  The accessors \<open>getSource\<close> and \<open>getDest\<close> of a memory intrinsic strip the pointer casts of the
  operand (\<open>strip_casts\<close>); \<open>getLength\<close> is operand 2.
\<close>

record policy_opts =
  NoCallChecks :: bool
  IgnoreInlineASM :: bool

type_synonym classifier = "ir \<Rightarrow> vid \<Rightarrow> itarget list \<Rightarrow> itarget list res"

definition push_target :: "itarget res \<Rightarrow> itarget list \<Rightarrow> itarget list res" where
  "push_target T Dest = bindE T (\<lambda>T. Inr (Dest @ [T]))"

definition arg_operand :: "call_info \<Rightarrow> nat \<Rightarrow> vid res" where
  "arg_operand c i = (if i < length (call_args c) then Inr (call_args c ! i) else Inl NullPointer)"

definition validateSize :: "ir \<Rightarrow> vid \<Rightarrow> unit res" where
  "validateSize m Ptr =
     (if hasPointerAccessSize m Ptr then Inr ()
      else Inl (ReportedError ''Found pointer to unsized type: ''))"

definition insertCheckTargetsForIntrinsic ::
  "ir \<Rightarrow> call_info \<Rightarrow> intrinsic \<Rightarrow> vid \<Rightarrow> itarget list \<Rightarrow> (bool \<times> itarget list) res" where
  "insertCheckTargetsForIntrinsic m c i II Dest =
     (case i of
        IntrMemset \<Rightarrow>
          bindE (arg_operand c 2) (\<lambda>Len.
          bindE (arg_operand c 0) (\<lambda>Dst.
          bindE (push_target (createSpatialCheckTargetVar (strip_casts m Dst) II Len True True) Dest) (\<lambda>D.
          Inr (True, D))))
      | _ \<Rightarrow>
          if i = IntrMemcpy \<or> i = IntrMemmove then
            bindE (arg_operand c 2) (\<lambda>Len.
            bindE (arg_operand c 1) (\<lambda>Src.
            bindE (arg_operand c 0) (\<lambda>Dst.
            bindE (push_target (createSpatialCheckTargetVar (strip_casts m Src) II Len True True) Dest) (\<lambda>D1.
            bindE (push_target (createSpatialCheckTargetVar (strip_casts m Dst) II Len True True) D1) (\<lambda>D2.
            Inr (True, D2))))))
          else Inr (False, Dest))"

definition access_pointer :: "ir \<Rightarrow> vid \<Rightarrow> vid option" where
  "access_pointer m ins =
     (case get_inst m ins of
        Some (Load p) \<Rightarrow> Some p
      | Some (Store v p) \<Rightarrow> Some p
      | _ \<Rightarrow> None)"

definition insertCheckTargetsLoadStore :: classifier where
  "insertCheckTargetsLoadStore m ins Dest =
     (case access_pointer m ins of
        None \<Rightarrow> Inl (AssertionFailed ''isa<LoadInst>(Inst) || isa<StoreInst>(Inst)'')
      | Some PtrOp \<Rightarrow>
          bindE (validateSize m PtrOp) (\<lambda>_.
          push_target (createSpatialCheckTarget m PtrOp ins True True) Dest))"

definition insertCheckTargetsForCall :: "policy_opts \<Rightarrow> ir \<Rightarrow> call_info \<Rightarrow> vid \<Rightarrow> itarget list \<Rightarrow> itarget list res"
  where
  "insertCheckTargetsForCall opts m c call dest =
     bindE (assertE (called_function c = None) ''!call->getCalledFunction()'') (\<lambda>_.
     if NoCallChecks opts then Inr dest
     else if val_kind m (called_operand c) = InlineAsm then
       (if IgnoreInlineASM opts then Inr dest
        else Inl (ReportedError ''Found inline assembler (to ignore inline assembler, use `-mi-policy-ignore-inline-asm`): ''))
     else push_target (createCallCheckTarget (called_operand c) call) dest)"

definition insertInvariantTargetStore :: "ir \<Rightarrow> vid \<Rightarrow> vid \<Rightarrow> itarget list \<Rightarrow> itarget list res" where
  "insertInvariantTargetStore m StoreOperand store Dest =
     (if \<not> is_pointer_ty (val_type m StoreOperand) then Inr Dest
      else push_target (createValInvariantTarget StoreOperand store) Dest)"

definition insertInvariantTargetReturn :: "ir \<Rightarrow> vid option \<Rightarrow> vid \<Rightarrow> itarget list \<Rightarrow> itarget list res" where
  "insertInvariantTargetReturn m retVal ret Dest =
     (case retVal of
        None \<Rightarrow> Inr Dest
      | Some Operand \<Rightarrow>
          if \<not> is_pointer_ty (val_type m Operand) then Inr Dest
          else push_target (createValInvariantTarget Operand ret) Dest)"

definition insertInvariantTargetInsertVal :: "ir \<Rightarrow> vid \<Rightarrow> vid \<Rightarrow> itarget list \<Rightarrow> itarget list res" where
  "insertInvariantTargetInsertVal m iValOp iVal dest =
     (if is_aggregate_ty (val_type m iValOp) then
        Inl (ReportedError ''Sub-aggregate inserts are not supported. Insertion found: '')
      else if \<not> is_pointer_ty (val_type m iValOp) then Inr dest
      else push_target (createValInvariantTarget iValOp iVal) dest)"

definition is_dbg_function :: "ir \<Rightarrow> vid \<Rightarrow> bool" where
  "is_dbg_function m f = prefix ''llvm.dbg.'' (v_name (vals m f))"

section \<open>The policies without metadata\<close>

definition none_classifyTargets :: classifier where
  "none_classifyTargets m Location Dest = Inr Dest"

definition accessonly_classifyTargets :: classifier where
  "accessonly_classifyTargets m Location Destination =
     (if hasVarArgHandling m Location then Inr Destination
      else if access_pointer m Location \<noteq> None then insertCheckTargetsLoadStore m Location Destination
      else
        (case (get_call m Location, get_intrinsic m Location) of
           (Some c, Some i) \<Rightarrow>
             bindE (insertCheckTargetsForIntrinsic m c i Location Destination) (\<lambda>(_, D). Inr D)
         | _ \<Rightarrow> Inr Destination))"

text \<open>
  The loop of \<open>BeforeOutflowPolicy\<close> over the arguments of a call; the iterator \<open>ArgIt\<close> of the
  source is advanced but never read.
\<close>

fun arg_invariants :: "ir \<Rightarrow> vid \<Rightarrow> nat \<Rightarrow> vid list \<Rightarrow> itarget list \<Rightarrow> itarget list res" where
  "arg_invariants m call i [] Dest = Inr Dest"
| "arg_invariants m call i (v # vs) Dest =
     (if \<not> is_pointer_ty (val_type m v) then arg_invariants m call (Suc i) vs Dest
      else if is_metadata_ty (val_type m v) then arg_invariants m call (Suc i) vs Dest
      else bindE (push_target (createArgInvariantTarget v call i) Dest)
             (arg_invariants m call (Suc i) vs))"

definition outflow_call :: "policy_opts \<Rightarrow> ir \<Rightarrow> call_info \<Rightarrow> vid \<Rightarrow> itarget list \<Rightarrow> itarget list res" where
  "outflow_call opts m c I Dest =
     bindE (if called_function c = None then
              bindE (validateSize m (called_operand c)) (\<lambda>_. insertCheckTargetsForCall opts m c I Dest)
            else Inr Dest) (\<lambda>D.
     case called_function c of
       Some Fun \<Rightarrow> if is_dbg_function m Fun then Inr D else arg_invariants m I 0 (call_args c) D
     | None \<Rightarrow> arg_invariants m I 0 (call_args c) D)"

definition beforeoutflow_classifyTargets :: "policy_opts \<Rightarrow> classifier" where
  "beforeoutflow_classifyTargets opts m Location Dest =
     (if hasVarArgHandling m Location then Inr Dest
      else
        (case get_inst m Location of
           Some (Ret v) \<Rightarrow> insertInvariantTargetReturn m v Location Dest
         | Some (Call c i) \<Rightarrow>
             (case i of
                None \<Rightarrow> outflow_call opts m c Location Dest
              | Some i \<Rightarrow>
                  bindE (insertCheckTargetsForIntrinsic m c i Location Dest) (\<lambda>(handled, D).
                  if handled then Inr D else outflow_call opts m c Location D))
         | Some (InsertValue _ v _) \<Rightarrow> insertInvariantTargetInsertVal m v Location Dest
         | Some (Store v _) \<Rightarrow>
             bindE (insertInvariantTargetStore m v Location Dest) (insertCheckTargetsLoadStore m Location)
         | Some (Load _) \<Rightarrow> insertCheckTargetsLoadStore m Location Dest
         | _ \<Rightarrow> Inr Dest))"

section \<open>PointerBoundsPolicy\<close>

definition isRelevantIntrinsic :: "intrinsic \<Rightarrow> bool" where
  "isRelevantIntrinsic i = (case i of IntrMemcpy \<Rightarrow> True | IntrMemmove \<Rightarrow> True | IntrMemset \<Rightarrow> True | _ \<Rightarrow> False)"

definition isNested :: "ir \<Rightarrow> tyid \<Rightarrow> bool res" where
  "isNested m Aggregate =
     bindE (assertE (is_aggregate_ty (types m Aggregate)) ''Aggregate->isAggregateType()'') (\<lambda>_.
     case types m Aggregate of
       ArrayTy el _ \<Rightarrow> Inr (is_pointer_ty (types m el))
     | StructTy _ ts \<Rightarrow> Inr (list_ex (\<lambda>t. is_aggregate_ty (types m t)) ts)
     | _ \<Rightarrow> Inl (UnreachableReached ''Aggregate type that is neither array nor struct encountered''))"

definition containsPointer :: "ir \<Rightarrow> tyid \<Rightarrow> bool res" where
  "containsPointer m Aggregate =
     bindE (assertE (is_aggregate_ty (types m Aggregate)) ''Aggregate->isAggregateType()'') (\<lambda>_.
     bindE (isNested m Aggregate) (\<lambda>nested.
     bindE (assertE (\<not> nested) ''!isNested(Aggregate)'') (\<lambda>_.
     Inr (case types m Aggregate of
            StructTy _ ts \<Rightarrow> list_ex (\<lambda>t. is_pointer_ty (types m t)) ts
          | ArrayTy el _ \<Rightarrow> is_pointer_ty (types m el)
          | _ \<Rightarrow> False))))"

definition insertInvariantTargetAggregate :: classifier where
  "insertInvariantTargetAggregate m inst vec =
     bindE (case get_inst m inst of
              Some (Ret v) \<Rightarrow> Inr v
            | Some (Store v _) \<Rightarrow> Inr (Some v)
            | _ \<Rightarrow> Inl (AssertionFailed ''isa<ReturnInst>(inst) || isa<StoreInst>(inst)'')) (\<lambda>agg.
     case agg of
       None \<Rightarrow> Inr vec
     | Some agg \<Rightarrow>
         if \<not> is_aggregate_ty (val_type m agg) then Inr vec
         else
           bindE (isNested m (v_type (vals m agg))) (\<lambda>nested.
           if nested then Inl (ReportedError ''Found nested aggregate: '')
           else bindE (containsPointer m (v_type (vals m agg))) (\<lambda>p.
                if \<not> p then Inr vec else push_target (createValInvariantTarget agg inst) vec)))"

fun required_args :: "ir \<Rightarrow> nat \<Rightarrow> vid list \<Rightarrow> (nat, vid) omap \<Rightarrow> (nat, vid) omap" where
  "required_args m i [] r = r"
| "required_args m i (v # vs) r =
     (if \<not> is_pointer_ty (val_type m v) then required_args m (Suc i) vs r
      else if is_metadata_ty (val_type m v) then required_args m (Suc i) vs r
      else required_args m (Suc i) vs (omap_set i v r))"

definition addCallTargets :: "policy_opts \<Rightarrow> ir \<Rightarrow> call_info \<Rightarrow> vid \<Rightarrow> itarget list \<Rightarrow> itarget list res" where
  "addCallTargets opts m c call dest =
     bindE (case get_intrinsic m call of
              Some i \<Rightarrow> bindE (insertCheckTargetsForIntrinsic m c i call dest) (\<lambda>(_, D). Inr D)
            | None \<Rightarrow> Inr dest) (\<lambda>D1.
     bindE (if called_function c = None then insertCheckTargetsForCall opts m c call D1 else Inr D1) (\<lambda>D2.
     if (case called_function c of Some f \<Rightarrow> is_dbg_function m f | None \<Rightarrow> False) then Inr D2
     else
       (case get_intrinsic m call of
          Some i \<Rightarrow>
            if isRelevantIntrinsic i then push_target (createCallInvariantTarget call []) D2 else Inr D2
        | None \<Rightarrow>
            push_target (createCallInvariantTarget call (required_args m 0 (call_args c) [])) D2)))"

definition vararg_call_targets :: "call_info \<Rightarrow> intrinsic \<Rightarrow> vid \<Rightarrow> itarget list \<Rightarrow> itarget list res" where
  "vararg_call_targets c i cb vec =
     (case i of
        IntrVacopy \<Rightarrow>
          bindE (arg_operand c 0) (\<lambda>a.
          bindE (arg_operand c 1) (\<lambda>b.
          push_target (createCallInvariantTarget cb (omap_set 1 b (omap_set 0 a []))) vec))
      | _ \<Rightarrow>
          if i = IntrVastart \<or> i = IntrVaend then
            bindE (arg_operand c 0) (\<lambda>a. push_target (createCallInvariantTarget cb (omap_set 0 a [])) vec)
          else Inl (UnreachableReached ''Unexpected intrinsic instruction encountered.''))"

definition insertVarArgInvariantTargets :: "policy_opts \<Rightarrow> classifier" where
  "insertVarArgInvariantTargets opts m inst vec =
     (case get_call m inst of
        Some c \<Rightarrow>
          (case get_intrinsic m inst of
             None \<Rightarrow> addCallTargets opts m c inst vec
           | Some i \<Rightarrow> vararg_call_targets c i inst vec)
      | None \<Rightarrow>
          (case get_inst m inst of
             Some (Load p) \<Rightarrow>
               if hasVarArgLoadArg m inst \<and> is_pointer_ty (val_type m inst)
               then push_target (createValInvariantTarget p inst) vec else Inr vec
           | Some (Store v _) \<Rightarrow>
               if isVarArgMetadataType m (v_type (vals m v))
               then push_target (createValInvariantTarget v inst) vec else Inr vec
           | Some (Ret v) \<Rightarrow>
               (case v of
                  None \<Rightarrow> Inl NullPointer
                | Some r \<Rightarrow>
                    bindE (assertE (isVarArgMetadataType m (v_type (vals m r)))
                      ''isVarArgMetadataType(ret->getReturnValue()->getType())'') (\<lambda>_.
                    insertInvariantTargetReturn m v inst vec))
           | _ \<Rightarrow> Inr vec))"

definition pointerbounds_classifyTargets :: "policy_opts \<Rightarrow> classifier" where
  "pointerbounds_classifyTargets opts m loc dest =
     (if hasVarArgHandling m loc then insertVarArgInvariantTargets opts m loc dest
      else
        (case get_inst m loc of
           Some (Call c _) \<Rightarrow> addCallTargets opts m c loc dest
         | Some (Invoke c _) \<Rightarrow> addCallTargets opts m c loc dest
         | Some (Ret v) \<Rightarrow>
             bindE (insertInvariantTargetAggregate m loc dest) (insertInvariantTargetReturn m v loc)
         | Some (Store v _) \<Rightarrow>
             bindE (insertInvariantTargetAggregate m loc dest) (\<lambda>D1.
             bindE (insertInvariantTargetStore m v loc D1) (insertCheckTargetsLoadStore m loc))
         | Some (Load _) \<Rightarrow> insertCheckTargetsLoadStore m loc dest
         | Some (InsertValue _ v _) \<Rightarrow> insertInvariantTargetInsertVal m v loc dest
         | _ \<Rightarrow> Inr dest))"

end
