(* ===== verification/PolicyLaws.thy ===== *)
theory PolicyLaws
  imports Policies
begin

text \<open>
  What the rest of the pass relies on when it calls \<open>classifyTargets\<close>: the interface \<open>policy\<close> (a
  policy only appends checks and invariants for the instruction it is asked about, independent of
  the targets that are there), and \<open>access_policy\<close> (loads and stores get a check of their access
  size), with the four policies as instances.
\<close>

named_theorems adds_intros "operations that only append targets for an instruction"

section \<open>Appending operations\<close>

definition fresh_at :: "vid \<Rightarrow> itarget \<Rightarrow> bool" where
  "fresh_at i T \<longleftrightarrow> location T = i \<and> isValid T \<and> boundWitnesses T = [] \<and> (isCheck T \<or> isInvariant T)"

definition adds_at :: "vid \<Rightarrow> (itarget list \<Rightarrow> itarget list res) \<Rightarrow> bool" where
  "adds_at i f \<longleftrightarrow> (\<exists>r. (\<forall>ts. f ts = bindE r (\<lambda>new. Inr (ts @ new))) \<and>
     (\<forall>new. r = Inr new \<longrightarrow> list_all (fresh_at i) new))"

lemma adds_atI:
  "(\<And>ts. f ts = bindE r (\<lambda>new. Inr (ts @ new))) \<Longrightarrow>
   (\<And>new. r = Inr new \<Longrightarrow> list_all (fresh_at i) new) \<Longrightarrow> adds_at i f"
  unfolding adds_at_def by blast

lemma adds_at_Inr [adds_intros]: "adds_at i Inr"
  by (rule adds_atI [where r = "Inr []"]) auto

lemma adds_at_Inr' [adds_intros]: "adds_at i (\<lambda>ts. Inr ts)"
  by (rule adds_atI [where r = "Inr []"]) auto

lemma adds_at_error [adds_intros]: "adds_at i (\<lambda>ts. Inl e)"
  by (rule adds_atI [where r = "Inl e"]) auto

lemma adds_at_push:
  assumes "\<And>t. T = Inr t \<Longrightarrow> fresh_at i t"
  shows "adds_at i (push_target T)"
proof (rule adds_atI)
  show "push_target T ts = bindE (bindE T (\<lambda>t. Inr [t])) (\<lambda>new. Inr (ts @ new))" for ts
    by (cases T) (auto simp: push_target_def)
  show "list_all (fresh_at i) new" if "bindE T (\<lambda>t. Inr [t]) = Inr new" for new
    using that assms by (auto simp: res_simps)
qed

lemma adds_at_bind [adds_intros]:
  assumes "adds_at i f" and "adds_at i g"
  shows "adds_at i (\<lambda>ts. bindE (f ts) g)"
proof -
  from assms obtain r s where
    r: "\<And>ts. f ts = bindE r (\<lambda>new. Inr (ts @ new))" "\<And>new. r = Inr new \<Longrightarrow> list_all (fresh_at i) new" and
    s: "\<And>ts. g ts = bindE s (\<lambda>new. Inr (ts @ new))" "\<And>new. s = Inr new \<Longrightarrow> list_all (fresh_at i) new"
    unfolding adds_at_def by blast
  show ?thesis
  proof (rule adds_atI [where r = "bindE r (\<lambda>a. bindE s (\<lambda>b. Inr (a @ b)))"])
    show "bindE (f ts) g = bindE (bindE r (\<lambda>a. bindE s (\<lambda>b. Inr (a @ b)))) (\<lambda>new. Inr (ts @ new))" for ts
      by (cases r; cases s) (auto simp: r(1) s(1))
    show "list_all (fresh_at i) new" if "bindE r (\<lambda>a. bindE s (\<lambda>b. Inr (a @ b))) = Inr new" for new
      using that r(2) s(2) by (auto simp: res_simps)
  qed
qed

lemma adds_at_given [adds_intros]:
  assumes "\<And>x. r = Inr x \<Longrightarrow> adds_at i (f x)"
  shows "adds_at i (\<lambda>ts. bindE r (\<lambda>x. f x ts))"
proof (cases r)
  case (Inl e)
  then show ?thesis by (simp add: adds_at_error)
next
  case (Inr x)
  then show ?thesis using assms by simp
qed

lemma adds_at_if [adds_intros]:
  "(b \<Longrightarrow> adds_at i f) \<Longrightarrow> (\<not> b \<Longrightarrow> adds_at i g) \<Longrightarrow> adds_at i (\<lambda>ts. if b then f ts else g ts)"
  by (cases b) auto

lemma adds_at_option [adds_intros]:
  "(v = None \<Longrightarrow> adds_at i f) \<Longrightarrow> (\<And>x. v = Some x \<Longrightarrow> adds_at i (g x)) \<Longrightarrow>
   adds_at i (\<lambda>ts. case v of None \<Rightarrow> f ts | Some x \<Rightarrow> g x ts)"
  by (cases v) auto

text \<open>What an appending operation did, seen from its result.\<close>

lemma adds_at_result:
  assumes "adds_at i f" and "f ts = Inr ts'"
  obtains new where "ts' = ts @ new" and "f [] = Inr new" and "list_all (fresh_at i) new"
proof -
  from assms(1) obtain r where
    r: "\<And>ts. f ts = bindE r (\<lambda>new. Inr (ts @ new))" "\<And>new. r = Inr new \<Longrightarrow> list_all (fresh_at i) new"
    unfolding adds_at_def by blast
  with assms(2) obtain new where "r = Inr new" "ts' = ts @ new" by (auto simp: res_simps)
  with r that show ?thesis by auto
qed

lemma adds_at_Nil:
  assumes "adds_at i f" and "f [] = Inr new"
  shows "f ts = Inr (ts @ new)" and "list_all (fresh_at i) new"
proof -
  from assms(1) obtain r where
    r: "\<And>ts. f ts = bindE r (\<lambda>new. Inr (ts @ new))" "\<And>new. r = Inr new \<Longrightarrow> list_all (fresh_at i) new"
    unfolding adds_at_def by blast
  with assms(2) have "r = Inr new" by (cases r) auto
  with r show "f ts = Inr (ts @ new)" and "list_all (fresh_at i) new" by simp_all
qed

lemma adds_at_error_iff:
  assumes "adds_at i f"
  shows "f ts = Inl e \<longleftrightarrow> f [] = Inl e"
  using assms unfolding adds_at_def by (auto simp: res_simps)

lemma adds_at_instr [adds_intros]:
  assumes
    "\<And>a b. adds_at i (f0 a b)" and "\<And>a. adds_at i (f1 a)" and
    "\<And>a b. adds_at i (f2 a b)" and "\<And>a b. adds_at i (f3 a b)" and
    "\<And>a b. adds_at i (f4 a b)" and "\<And>a. adds_at i (f5 a)" and
    "\<And>a. adds_at i (f6 a)" and "\<And>a b c. adds_at i (f7 a b c)" and
    "\<And>a b c. adds_at i (f8 a b c)" and "\<And>a. adds_at i (f9 a)" and
    "\<And>a. adds_at i (f10 a)" and "\<And>a. adds_at i (f11 a)" and
    "\<And>a b. adds_at i (f12 a b)" and "\<And>a b c. adds_at i (f13 a b c)" and
    "adds_at i (f14)" and "\<And>a. adds_at i (f15 a)" and "\<And>a. adds_at i (f16 a)" and "\<And>a. adds_at i (f17 a)" and
    "\<And>a. adds_at i (f18 a)" and "\<And>a. adds_at i (f19 a)" and "\<And>a. adds_at i (f20 a)" and "\<And>a. adds_at i (f21 a)" and
    "\<And>a. adds_at i (f22 a)" and "\<And>a. adds_at i (f23 a)" and "\<And>a b. adds_at i (f24 a b)"
  shows "adds_at i (\<lambda>ts. case x of
    Alloca a b \<Rightarrow> f0 a b ts | Load a \<Rightarrow> f1 a ts |
    Store a b \<Rightarrow> f2 a b ts | Call a b \<Rightarrow> f3 a b ts |
    Invoke a b \<Rightarrow> f4 a b ts | Ret a \<Rightarrow> f5 a ts |
    PHI a \<Rightarrow> f6 a ts | Select a b c \<Rightarrow> f7 a b c ts |
    GetElementPtr a b c \<Rightarrow> f8 a b c ts | BitCast a \<Rightarrow> f9 a ts |
    IntToPtr a \<Rightarrow> f10 a ts | PtrToInt a \<Rightarrow> f11 a ts |
    ExtractValue a b \<Rightarrow> f12 a b ts | InsertValue a b c \<Rightarrow> f13 a b c ts |
    LandingPad \<Rightarrow> f14 ts | ExtractElement a \<Rightarrow> f15 a ts |
    InsertElement a \<Rightarrow> f16 a ts | ShuffleVector a \<Rightarrow> f17 a ts |
    Br a \<Rightarrow> f18 a ts | Switch a \<Rightarrow> f19 a ts | Resume a \<Rightarrow> f20 a ts |
    IndirectBr a \<Rightarrow> f21 a ts | AtomicCmpXchg a \<Rightarrow> f22 a ts |
    AtomicRMW a \<Rightarrow> f23 a ts | OtherInst a b \<Rightarrow> f24 a b ts)"
  using assms by (cases x) simp_all

section \<open>The builders\<close>

lemma fresh_at_created:
  "createSpatialCheckTargetVar v i n u l = Inr t \<Longrightarrow> fresh_at i t"
  "createSpatialCheckTarget m v i u l = Inr t \<Longrightarrow> fresh_at i t"
  "createCallCheckTarget v i = Inr t \<Longrightarrow> fresh_at i t"
  "createValInvariantTarget v i = Inr t \<Longrightarrow> fresh_at i t"
  "createArgInvariantTarget v i k = Inr t \<Longrightarrow> fresh_at i t"
  "createCallInvariantTarget i args = Inr t \<Longrightarrow> fresh_at i t"
  by (auto simp: create_defs it_ctor_defs res_simps fresh_at_def isValid_def isCheck_iff isInvariant_iff)

lemma adds_at_created [adds_intros]:
  "adds_at i (push_target (createSpatialCheckTargetVar v i n u l))"
  "adds_at i (push_target (createSpatialCheckTarget m v i u l))"
  "adds_at i (push_target (createCallCheckTarget v i))"
  "adds_at i (push_target (createValInvariantTarget v i))"
  "adds_at i (push_target (createArgInvariantTarget v i k))"
  "adds_at i (push_target (createCallInvariantTarget i args))"
  by (rule adds_at_push, erule fresh_at_created)+

lemma created_total:
  "\<exists>t. createSpatialCheckTargetVar v i n True True = Inr t"
  "\<exists>t. createCallCheckTarget v i = Inr t"
  "\<exists>t. createValInvariantTarget v i = Inr t"
  "\<exists>t. createArgInvariantTarget v i k = Inr t"
  "\<exists>t. createCallInvariantTarget i args = Inr t"
  by (auto simp: create_defs it_ctor_defs kind_order)

section \<open>The helpers append\<close>

abbreviation intrinsic_targets :: "ir \<Rightarrow> call_info \<Rightarrow> intrinsic \<Rightarrow> vid \<Rightarrow> itarget list \<Rightarrow> itarget list res" where
  "intrinsic_targets m c i II ts \<equiv> bindE (insertCheckTargetsForIntrinsic m c i II ts) (\<lambda>(_, D). Inr D)"

definition handled_intrinsic :: "intrinsic \<Rightarrow> bool" where
  "handled_intrinsic i \<longleftrightarrow> i = IntrMemset \<or> i = IntrMemcpy \<or> i = IntrMemmove"

lemma insertCheckTargetsForIntrinsic_split:
  "insertCheckTargetsForIntrinsic m c i II ts =
     bindE (intrinsic_targets m c i II ts) (\<lambda>D. Inr (handled_intrinsic i, D))"
proof -
  have assoc: "bindE (bindE r f) g = bindE r (\<lambda>x. bindE (f x) g)" for r :: "'a res" and f :: "'a \<Rightarrow> 'b res"
    and g :: "'b \<Rightarrow> 'c res"
    by (cases r) auto
  show ?thesis
    by (cases i) (auto simp: insertCheckTargetsForIntrinsic_def handled_intrinsic_def assoc)
qed

lemma intrinsic_targets_adds [adds_intros]: "adds_at II (intrinsic_targets m c i II)"
proof -
  have eq: "intrinsic_targets m c i II =
      (if i = IntrMemset then (\<lambda>ts. bindE (arg_operand c 2) (\<lambda>Len. bindE (arg_operand c 0) (\<lambda>Dst.
          push_target (createSpatialCheckTargetVar (strip_casts m Dst) II Len True True) ts)))
       else if i = IntrMemcpy \<or> i = IntrMemmove then
         (\<lambda>ts. bindE (arg_operand c 2) (\<lambda>Len. bindE (arg_operand c 1) (\<lambda>Src. bindE (arg_operand c 0) (\<lambda>Dst.
           bindE (push_target (createSpatialCheckTargetVar (strip_casts m Src) II Len True True) ts)
             (push_target (createSpatialCheckTargetVar (strip_casts m Dst) II Len True True))))))
       else Inr)"
  proof
    fix ts
    have assoc: "bindE (bindE r f) g = bindE r (\<lambda>x. bindE (f x) g)" for r :: "'a res" and f :: "'a \<Rightarrow> 'b res"
      and g :: "'b \<Rightarrow> 'c res"
      by (cases r) auto
    have unit: "bindE r Inr = r" for r :: "itarget list res"
      by (cases r) auto
    show "intrinsic_targets m c i II ts = (if i = IntrMemset then (\<lambda>ts. bindE (arg_operand c 2) (\<lambda>Len. bindE (arg_operand c 0) (\<lambda>Dst.
          push_target (createSpatialCheckTargetVar (strip_casts m Dst) II Len True True) ts)))
       else if i = IntrMemcpy \<or> i = IntrMemmove then
         (\<lambda>ts. bindE (arg_operand c 2) (\<lambda>Len. bindE (arg_operand c 1) (\<lambda>Src. bindE (arg_operand c 0) (\<lambda>Dst.
           bindE (push_target (createSpatialCheckTargetVar (strip_casts m Src) II Len True True) ts)
             (push_target (createSpatialCheckTargetVar (strip_casts m Dst) II Len True True))))))
       else Inr) ts"
      by (cases i) (simp_all add: insertCheckTargetsForIntrinsic_def assoc unit)
  qed
  show ?thesis unfolding eq by (auto intro!: adds_intros)
qed

lemma insertCheckTargetsLoadStore_adds [adds_intros]:
  "adds_at i (insertCheckTargetsLoadStore m i)"
  unfolding insertCheckTargetsLoadStore_def by (auto intro!: adds_intros split: option.split)

lemma insertCheckTargetsForCall_adds [adds_intros]:
  "adds_at i (insertCheckTargetsForCall opts m c i)"
  unfolding insertCheckTargetsForCall_def by (intro adds_intros)

lemma invariant_helpers_add [adds_intros]:
  "adds_at i (insertInvariantTargetStore m v i)"
  "adds_at i (insertInvariantTargetReturn m r i)"
  "adds_at i (insertInvariantTargetInsertVal m v i)"
  unfolding insertInvariantTargetStore_def insertInvariantTargetReturn_def
    insertInvariantTargetInsertVal_def
  by (intro adds_intros)+

lemma arg_invariants_adds [adds_intros]: "adds_at i (arg_invariants m i k vs)"
proof (induction vs arbitrary: k)
  case Nil
  have "arg_invariants m i k [] = Inr" by (rule ext) simp
  then show ?case by (simp add: adds_at_Inr)
next
  case (Cons v vs)
  have "arg_invariants m i k (v # vs) = (\<lambda>ts.
      if \<not> is_pointer_ty (val_type m v) then arg_invariants m i (Suc k) vs ts
      else if is_metadata_ty (val_type m v) then arg_invariants m i (Suc k) vs ts
      else bindE (push_target (createArgInvariantTarget v i k) ts) (arg_invariants m i (Suc k) vs))"
    by (rule ext) simp
  then show ?case by (auto intro!: adds_intros Cons.IH)
qed

lemma outflow_call_adds [adds_intros]: "adds_at i (outflow_call opts m c i)"
  unfolding outflow_call_def by (intro adds_intros)

lemma insertInvariantTargetAggregate_adds [adds_intros]:
  "adds_at i (insertInvariantTargetAggregate m i)"
  unfolding insertInvariantTargetAggregate_def by (intro adds_intros)

lemma addCallTargets_adds [adds_intros]: "adds_at i (addCallTargets opts m c i)"
  unfolding addCallTargets_def by (intro adds_intros)

lemma vararg_call_targets_adds [adds_intros]: "adds_at i (vararg_call_targets c k i)"
  unfolding vararg_call_targets_def by (cases k; simp; intro adds_intros)

lemma insertVarArgInvariantTargets_adds [adds_intros]:
  "adds_at i (insertVarArgInvariantTargets opts m i)"
  unfolding insertVarArgInvariantTargets_def by (intro adds_intros)

section \<open>The interface of a policy\<close>

locale policy =
  fixes classify :: "ir \<Rightarrow> vid \<Rightarrow> itarget list \<Rightarrow> itarget list res"
  assumes classify_adds: "adds_at i (classify m i)"
begin

lemma classify_result:
  assumes "classify m i ts = Inr ts'"
  obtains new where "ts' = ts @ new" and "classify m i [] = Inr new" and "list_all (fresh_at i) new"
  using adds_at_result [OF classify_adds assms] .

lemma classify_error: "classify m i ts = Inl e \<longleftrightarrow> classify m i [] = Inl e"
  by (rule adds_at_error_iff [OF classify_adds])

lemma classify_keeps: "classify m i ts = Inr ts' \<Longrightarrow> T \<in> set ts \<Longrightarrow> T \<in> set ts'"
  by (metis classify_result in_set_conv_decomp append_assoc append_Cons)

end

definition access_check :: "ir \<Rightarrow> vid \<Rightarrow> vid \<Rightarrow> itarget \<Rightarrow> bool" where
  "access_check m i p T \<longleftrightarrow>
     kind T = ITK_ConstSizeCheck \<and> instrumentee T = Some p \<and> location T = i \<and> isValid T \<and>
     checkUpperBoundFlag T \<and> checkLowerBoundFlag T \<and> getPointerAccessSize m p = Inr (accessSize T)"

locale access_policy = policy +
  assumes access_checked:
    "access_pointer m i = Some p \<Longrightarrow> \<not> hasVarArgHandling m i \<Longrightarrow> classify m i [] = Inr new \<Longrightarrow>
     \<exists>T \<in> set new. access_check m i p T"

section \<open>The four policies\<close>

lemma none_adds: "adds_at i (none_classifyTargets m i)"
  unfolding none_classifyTargets_def by (intro adds_intros)

lemma accessonly_adds: "adds_at i (accessonly_classifyTargets m i)"
proof -
  have eq: "accessonly_classifyTargets m i = (\<lambda>ts.
      if hasVarArgHandling m i then Inr ts
      else if access_pointer m i \<noteq> None then insertCheckTargetsLoadStore m i ts
      else case get_call m i of None \<Rightarrow> Inr ts
        | Some c \<Rightarrow> (case get_intrinsic m i of None \<Rightarrow> Inr ts | Some k \<Rightarrow> intrinsic_targets m c k i ts))"
    by (rule ext) (auto simp: accessonly_classifyTargets_def split: option.splits)
  show ?thesis unfolding eq by (intro adds_intros)
qed

lemma intrinsic_or_call_eq:
  "bindE (insertCheckTargetsForIntrinsic m c k i ts) (\<lambda>(handled, D). if handled then Inr D else f D) =
   bindE (intrinsic_targets m c k i ts) (\<lambda>D. if handled_intrinsic k then Inr D else f D)"
  by (subst insertCheckTargetsForIntrinsic_split, cases "intrinsic_targets m c k i ts") auto

lemma intrinsic_or_call_adds [adds_intros]:
  assumes "adds_at i f"
  shows "adds_at i (\<lambda>ts. bindE (insertCheckTargetsForIntrinsic m c k i ts)
    (\<lambda>(handled, D). if handled then Inr D else f D))"
  unfolding intrinsic_or_call_eq by (intro adds_intros assms)

lemma beforeoutflow_adds: "adds_at i (beforeoutflow_classifyTargets opts m i)"
  unfolding beforeoutflow_classifyTargets_def by (intro adds_intros)

lemma pointerbounds_adds: "adds_at i (pointerbounds_classifyTargets opts m i)"
  unfolding pointerbounds_classifyTargets_def by (intro adds_intros)

interpretation none_policy: policy none_classifyTargets
  by unfold_locales (rule none_adds)

text \<open>The check of a load or store, and that the other helpers keep it.\<close>

lemma createSpatialCheckTarget_access_check:
  "createSpatialCheckTarget m p i True True = Inr T \<Longrightarrow> access_check m i p T"
  by (auto simp: create_defs it_ctor_defs access_check_def isValid_def res_simps)

lemma access_pointer_iff:
  "access_pointer m i = Some p \<longleftrightarrow>
     get_inst m i = Some (Load p) \<or> (\<exists>v. get_inst m i = Some (Store v p))"
  by (auto simp: access_pointer_def split: option.splits instr.splits)

lemma insertCheckTargetsLoadStore_checks:
  assumes "insertCheckTargetsLoadStore m i ts = Inr ts'" and "access_pointer m i = Some p"
  shows "\<exists>T \<in> set ts'. access_check m i p T"
proof -
  from assms obtain T where "createSpatialCheckTarget m p i True True = Inr T" "ts' = ts @ [T]"
    by (auto simp: insertCheckTargetsLoadStore_def push_target_def res_simps)
  with createSpatialCheckTarget_access_check show ?thesis by auto
qed

lemma load_checked:
  "insertCheckTargetsLoadStore m i ts = Inr ts' \<Longrightarrow> get_inst m i = Some (Load p) \<Longrightarrow>
   \<exists>T \<in> set ts'. access_check m i p T"
  "insertCheckTargetsLoadStore m i ts = Inr ts' \<Longrightarrow> get_inst m i = Some (Store v p) \<Longrightarrow>
   \<exists>T \<in> set ts'. access_check m i p T"
  by (auto simp: access_pointer_iff intro: insertCheckTargetsLoadStore_checks)

interpretation accessonly_policy: access_policy accessonly_classifyTargets
  by unfold_locales
    (auto simp: accessonly_adds accessonly_classifyTargets_def intro: insertCheckTargetsLoadStore_checks)

interpretation beforeoutflow_policy: access_policy "beforeoutflow_classifyTargets opts" for opts
  by unfold_locales
    (auto simp: beforeoutflow_adds beforeoutflow_classifyTargets_def res_simps
      access_pointer_iff intro: load_checked)

interpretation pointerbounds_policy: access_policy "pointerbounds_classifyTargets opts" for opts
  by unfold_locales
    (auto simp: pointerbounds_adds pointerbounds_classifyTargets_def res_simps
      access_pointer_iff intro: load_checked)


section \<open>What escapes before an outflow\<close>

text \<open>
  The pointers that leave the function at an instruction: returned, stored, inserted into an
  aggregate, or passed to a call. Intrinsics that move memory get checks instead, and the calls of
  debug intrinsics are skipped.
\<close>

definition skipped_call :: "ir \<Rightarrow> call_info \<Rightarrow> intrinsic option \<Rightarrow> bool" where
  "skipped_call m c k \<longleftrightarrow>
     (\<exists>j. k = Some j \<and> handled_intrinsic j) \<or> (\<exists>f. called_function c = Some f \<and> is_dbg_function m f)"

definition escapes :: "ir \<Rightarrow> vid \<Rightarrow> vid \<Rightarrow> bool" where
  "escapes m i v \<longleftrightarrow>
     is_pointer_ty (val_type m v) \<and>
     (case get_inst m i of
        Some (Ret r) \<Rightarrow> r = Some v
      | Some (Store w _) \<Rightarrow> w = v
      | Some (InsertValue _ w _) \<Rightarrow> w = v
      | Some (Call c k) \<Rightarrow> v \<in> set (call_args c) \<and> \<not> skipped_call m c k
      | _ \<Rightarrow> False)"

definition guarded_values :: "itarget list \<Rightarrow> vid set" where
  "guarded_values ts = {v. \<exists>T \<in> set ts. isInvariant T \<and> instrumentee T = Some v}"

lemma guarded_values_simps [simp]:
  "guarded_values [] = {}"
  "guarded_values (ts @ us) = guarded_values ts \<union> guarded_values us"
  "guarded_values [T] = (if isInvariant T then set_option (instrumentee T) else {})"
  by (auto simp: guarded_values_def)

lemma created_kinds:
  "createSpatialCheckTargetVar v i n u l = Inr t \<Longrightarrow> \<not> isInvariant t"
  "createSpatialCheckTarget m v i u l = Inr t \<Longrightarrow> \<not> isInvariant t"
  "createCallCheckTarget v i = Inr t \<Longrightarrow> \<not> isInvariant t"
  "createValInvariantTarget v i = Inr t \<Longrightarrow> isInvariant t \<and> instrumentee t = Some v"
  "createArgInvariantTarget v i k = Inr t \<Longrightarrow> isInvariant t \<and> instrumentee t = Some v"
  by (auto simp: create_defs it_ctor_defs res_simps isInvariant_iff)

lemma push_guarded:
  "push_target (createSpatialCheckTargetVar v i n u l) ts = Inr ts' \<Longrightarrow> guarded_values ts' = guarded_values ts"
  "push_target (createSpatialCheckTarget m v i u l) ts = Inr ts' \<Longrightarrow> guarded_values ts' = guarded_values ts"
  "push_target (createCallCheckTarget v i) ts = Inr ts' \<Longrightarrow> guarded_values ts' = guarded_values ts"
  "push_target (createValInvariantTarget v i) ts = Inr ts' \<Longrightarrow> guarded_values ts' = insert v (guarded_values ts)"
  "push_target (createArgInvariantTarget v i k) ts = Inr ts' \<Longrightarrow> guarded_values ts' = insert v (guarded_values ts)"
  by (auto simp: push_target_def res_simps dest!: created_kinds)

lemma check_helpers_guarded:
  "insertCheckTargetsLoadStore m i ts = Inr ts' \<Longrightarrow> guarded_values ts' = guarded_values ts"
  "insertCheckTargetsForCall opts m c i ts = Inr ts' \<Longrightarrow> guarded_values ts' = guarded_values ts"
  by (auto simp: insertCheckTargetsLoadStore_def insertCheckTargetsForCall_def res_simps
      split: option.splits if_splits dest: push_guarded)

lemma intrinsic_guarded:
  "intrinsic_targets m c k i ts = Inr ts' \<Longrightarrow> guarded_values ts' = guarded_values ts"
  by (cases k) (auto simp: insertCheckTargetsForIntrinsic_def res_simps dest!: push_guarded)

lemma arg_invariants_guarded:
  "arg_invariants m i k vs ts = Inr ts' \<Longrightarrow>
   guarded_values ts' = guarded_values ts \<union> {v \<in> set vs. is_pointer_ty (val_type m v)}"
proof (induction vs arbitrary: k ts)
  case (Cons v vs)
  have md: "\<not> is_metadata_ty (val_type m v)" if "is_pointer_ty (val_type m v)"
    using that by (auto simp: is_metadata_ty_def)
  show ?case
  proof (cases "is_pointer_ty (val_type m v)")
    case True
    with md Cons.prems obtain us where us: "push_target (createArgInvariantTarget v i k) ts = Inr us"
      "arg_invariants m i (Suc k) vs us = Inr ts'"
      by (auto simp: res_simps)
    from Cons.IH [OF us(2)] push_guarded(5) [OF us(1)] True show ?thesis by auto
  next
    case False
    with Cons show ?thesis by auto
  qed
qed simp

lemma outflow_call_guarded:
  assumes "outflow_call opts m c i ts = Inr ts'"
  shows "guarded_values ts' = guarded_values ts \<union>
    (if \<exists>f. called_function c = Some f \<and> is_dbg_function m f then {}
     else {v \<in> set (call_args c). is_pointer_ty (val_type m v)})"
  using assms
  by (auto simp: outflow_call_def res_simps split: option.splits if_splits
      dest!: check_helpers_guarded arg_invariants_guarded)

lemma call_guarded:
  assumes "(case k of None \<Rightarrow> outflow_call opts m c i ts
     | Some k \<Rightarrow> bindE (insertCheckTargetsForIntrinsic m c k i ts) (\<lambda>(handled, D).
         if handled then Inr D else outflow_call opts m c i D)) = Inr ts'"
  shows "guarded_values ts' = guarded_values ts \<union>
    (if skipped_call m c k then {} else {v \<in> set (call_args c). is_pointer_ty (val_type m v)})"
proof (cases k)
  case None
  with assms show ?thesis by (simp add: outflow_call_guarded skipped_call_def)
next
  case (Some j)
  with assms have "bindE (intrinsic_targets m c j i ts)
      (\<lambda>D. if handled_intrinsic j then Inr D else outflow_call opts m c i D) = Inr ts'"
    by (simp only: option.case intrinsic_or_call_eq)
  then obtain D where D: "intrinsic_targets m c j i ts = Inr D"
    "(if handled_intrinsic j then Inr D else outflow_call opts m c i D) = Inr ts'"
    by (rule bindE_obtain)
  show ?thesis
  proof (cases "handled_intrinsic j")
    case True
    with D Some intrinsic_guarded [OF D(1)] show ?thesis by (auto simp: skipped_call_def)
  next
    case False
    with D(2) have "outflow_call opts m c i D = Inr ts'" by simp
    from outflow_call_guarded [OF this] intrinsic_guarded [OF D(1)] False Some
    show ?thesis by (simp add: skipped_call_def)
  qed
qed


text \<open>The demo module with a store of a computed pointer through a pointer argument and a call that
  passes a loaded integer and a pointer.\<close>

definition demo_escape :: ir where
  "demo_escape = demo
     \<lparr>vals := (\<lambda>v. if v = 8 then \<lparr>v_kind = Inst (Store 3 9), v_type = 0, v_name = [], v_md = Map.empty\<rparr>
                 else if v = 9 then \<lparr>v_kind = Argument, v_type = 7, v_name = [], v_md = Map.empty\<rparr>
                 else if v = 11 then \<lparr>v_kind = Inst (Call \<lparr>called_operand = 1, called_function = Some 1,
                   call_args = [5, 3]\<rparr> None), v_type = 0, v_name = [], v_md = Map.empty\<rparr>
                 else vals demo v),
      types := (\<lambda>t. if t = 7 then PointerTy 1 else types demo t),
      bb_insts := (\<lambda>b. if b = 0 then [3, 4, 5, 6, 8, 11, 7] else [])\<rparr>"

definition demo_opts :: policy_opts where
  "demo_opts = \<lparr>NoCallChecks = False, IgnoreInlineASM = False\<rparr>"

definition demo_escape_targets :: "itarget list" where
  "demo_escape_targets =
     [mkITarget ITK_ValInvariant (Some 3) 8 False False False,
      (mkITarget ITK_ConstSizeCheck (Some 9) 8 True True False)\<lparr>accessSize := 8\<rparr>]"

lemma demo_escape_run:
  "beforeoutflow_classifyTargets demo_opts demo_escape 8 [] = Inr demo_escape_targets"
  "pointerbounds_classifyTargets demo_opts demo_escape 8 [] = Inr demo_escape_targets"
  "accessonly_classifyTargets demo_escape 8 [] = Inr [demo_escape_targets ! 1]"
  "\<not> hasVarArgHandling demo_escape 8"
  by code_simp+


section \<open>Calls and aggregates under PointerBoundsPolicy\<close>

lemma required_args_lookup:
  assumes "omap_ok r" and "\<forall>k \<in> set (map fst r). k < i"
  shows "map_of (required_args m i vs r) k =
    (if i \<le> k \<and> k < i + length vs \<and> is_pointer_ty (val_type m (vs ! (k - i)))
     then Some (vs ! (k - i)) else map_of r k)"
  using assms
proof (induction vs arbitrary: i r)
  case (Cons v vs)
  have md: "\<not> is_metadata_ty (val_type m v)" if "is_pointer_ty (val_type m v)"
    using that by (auto simp: is_metadata_ty_def)
  have none: "map_of r i = None"
    using Cons.prems(2) by (auto simp: map_of_eq_None_iff)
  let ?r = "if is_pointer_ty (val_type m v) then omap_set i v r else r"
  have step: "required_args m i (v # vs) r = required_args m (Suc i) vs ?r"
    using md by simp
  have keys: "set (map fst ?r) \<subseteq> insert i (set (map fst r))"
    by (cases "is_pointer_ty (val_type m v)") (simp_all only: if_True if_False keys_omap_set, auto)
  have ok: "omap_ok ?r" "\<forall>k \<in> set (map fst ?r). k < Suc i"
  proof -
    show "omap_ok ?r" using Cons.prems(1) by (simp add: omap_simps)
    show "\<forall>k \<in> set (map fst ?r). k < Suc i"
      using keys Cons.prems(2) less_SucI by blast
  qed
  have "map_of ?r = (if is_pointer_ty (val_type m v) then (map_of r)(i \<mapsto> v) else map_of r)"
    using Cons.prems(1) by (simp add: omap_simps)
  with Cons.IH [OF ok] none show ?case
    unfolding step by (cases "k = i") (auto simp: Suc_le_eq nth_Cons' Suc_diff_Suc)
qed auto

definition pointer_args :: "ir \<Rightarrow> call_info \<Rightarrow> nat \<rightharpoonup> vid" where
  "pointer_args m c k =
     (if k < length (call_args c) \<and> is_pointer_ty (val_type m (call_args c ! k))
      then Some (call_args c ! k) else None)"

lemma required_args_pointer_args: "map_of (required_args m 0 (call_args c) []) = pointer_args m c"
  by (rule ext) (simp add: required_args_lookup pointer_args_def)

text \<open>
  C19: \<open>PointerBoundsPolicy\<close> gives every call that is neither an intrinsic nor a debug call exactly
  one call invariant, and that invariant requires exactly the pointer arguments of the call at
  their positions.
\<close>

theorem pointerbounds_call_invariant:
  assumes "pointerbounds_classifyTargets opts m i [] = Inr new" and "\<not> hasVarArgHandling m i"
    and "get_call m i = Some c" and "get_intrinsic m i = None"
    and "\<forall>f. called_function c = Some f \<longrightarrow> \<not> is_dbg_function m f"
  shows "\<exists>T. filter isInvariant new = [T] \<and> isCallInvariantIT T \<and> location T = i \<and>
    map_of (requiredArgs T) = pointer_args m c"
proof -
  have "addCallTargets opts m c i [] = Inr new"
    using assms(1-3)
    by (auto simp: pointerbounds_classifyTargets_def get_call_def split: option.splits instr.splits)
  then obtain D where D: "(if called_function c = None then insertCheckTargetsForCall opts m c i [] else Inr []) = Inr D"
    and new: "push_target (createCallInvariantTarget i (required_args m 0 (call_args c) [])) D = Inr new"
    using assms(4,5) by (auto simp: addCallTargets_def res_simps split: option.splits)
  have "filter isInvariant D = []"
    using D by (auto simp: insertCheckTargetsForCall_def push_target_def res_simps split: if_splits
        dest: created_kinds)
  moreover obtain T where "createCallInvariantTarget i (required_args m 0 (call_args c) []) = Inr T"
    "new = D @ [T]"
    using new by (auto simp: push_target_def res_simps)
  ultimately show ?thesis
    using required_args_pointer_args
    by (auto simp: create_defs it_ctor_defs res_simps isInvariant_iff isCallInvariantIT_def)
qed

definition demo_call_target :: itarget where
  "demo_call_target = (mkITarget ITK_CallInvariant None 11 False False False)\<lparr>requiredArgs := [(1, 3)]\<rparr>"

lemma pointerbounds_call_invariant_witness:
  "\<exists>T. filter isInvariant [demo_call_target] = [T] \<and> isCallInvariantIT T \<and> location T = 11 \<and>
    map_of (requiredArgs T) =
      pointer_args demo_escape \<lparr>called_operand = 1, called_function = Some 1, call_args = [5, 3]\<rparr>"
proof -
  have "pointerbounds_classifyTargets demo_opts demo_escape 11 [] = Inr [demo_call_target]"
    "\<not> hasVarArgHandling demo_escape 11" "get_intrinsic demo_escape 11 = None"
    "get_call demo_escape 11 = Some \<lparr>called_operand = 1, called_function = Some 1, call_args = [5, 3]\<rparr>"
    "\<not> is_dbg_function demo_escape 1"
    by code_simp+
  then show ?thesis
    by (intro pointerbounds_call_invariant [where opts = demo_opts]) simp_all
qed

text \<open>
  \<open>PointerBoundsPolicy\<close> and arrays: a store or return of an array of pointers stops with an
  error, and a store or return of an array of structs gets no invariant, whatever the structs
  contain.
\<close>

theorem pointerbounds_arrays:
  assumes "get_inst m i = Some (Store v p) \<or> get_inst m i = Some (Ret (Some v))"
    and "val_type m v = ArrayTy el n"
  shows "insertInvariantTargetAggregate m i ts =
    (if is_pointer_ty (types m el) then Inl (ReportedError ''Found nested aggregate: '') else Inr ts)"
  using assms by (auto simp: insertInvariantTargetAggregate_def isNested_def containsPointer_def)

text \<open>A module that stores an array of two structs with a pointer each.\<close>

definition demo_array :: ir where
  "demo_array = demo
     \<lparr>vals := (\<lambda>v. if v = 8 then \<lparr>v_kind = Inst (Store 10 9), v_type = 0, v_name = [], v_md = Map.empty\<rparr>
                 else if v = 10 then \<lparr>v_kind = Argument, v_type = 8, v_name = [], v_md = Map.empty\<rparr>
                 else vals demo v),
      types := (\<lambda>t. if t = 8 then ArrayTy 9 2 else if t = 9 then StructTy None [1] else types demo t)\<rparr>"

lemma pointerbounds_arrays_witness:
  "is_pointer_ty (types demo_array 1) \<and> types demo_array 9 = StructTy None [1] \<and>
   insertInvariantTargetAggregate demo_array 8 [] = Inr []"
proof -
  have "insertInvariantTargetAggregate demo_array 8 [] =
    (if is_pointer_ty (types demo_array 9) then Inl (ReportedError ''Found nested aggregate: '') else Inr [])"
    by (rule pointerbounds_arrays [where v = 10 and p = 9 and n = 2])
      (simp_all add: demo_array_def get_inst_def)
  then show ?thesis by (simp add: demo_array_def demo_def demo_type_def)
qed

end
