(* ===== verification/Gathering.thy ===== *)
theory Gathering
  imports PolicyLaws
begin

text \<open>
  \<open>lib/pass/ITargetGathering.cpp\<close>: the targets of a function are what the policy classifies, in the
  order of its instructions, and the counters of the gathering phase. The counters are global in
  the source, so they are threaded through. The debug output is not modelled.
\<close>

section \<open>Code\<close>

record gather_stats =
  NumITargetsGathered :: nat
  NumInvariantTargets :: nat
  AccessCheckTargets :: nat
  CallCheckTargets :: nat
  BoundsTargets :: nat

definition count_target :: "itarget \<Rightarrow> gather_stats \<Rightarrow> gather_stats res" where
  "count_target T st =
     bindE (assertE (isValid T \<and> \<not> isWitnessSupplyIT T) ''target->isValid() && !isa<WitnessSupplyIT>(target)'') (\<lambda>_.
     Inr (st\<lparr>NumInvariantTargets := NumInvariantTargets st + (if isInvariant T then 1 else 0),
             AccessCheckTargets := AccessCheckTargets st + (if isConstSizeCheckIT T \<or> isVarSizeCheckIT T then 1 else 0),
             CallCheckTargets := CallCheckTargets st + (if isCallCheckIT T then 1 else 0),
             BoundsTargets := BoundsTargets st + (if isBoundsIT T then 1 else 0)\<rparr>))"

definition collectStatistics :: "itarget list \<Rightarrow> gather_stats \<Rightarrow> gather_stats res" where
  "collectStatistics ts st =
     foldE count_target ts
       (st\<lparr>NumITargetsGathered := NumITargetsGathered st + getNumValidITargets ts\<rparr>)"

definition gather_inst :: "classifier \<Rightarrow> ir \<Rightarrow> vid \<Rightarrow> itarget list \<Rightarrow> itarget list res" where
  "gather_inst IP m inst dest = (if hasNoInstrument m inst then Inr dest else IP m inst dest)"

definition gatherITargets ::
  "classifier \<Rightarrow> ir \<Rightarrow> vid \<Rightarrow> itarget list \<times> gather_stats \<Rightarrow> (itarget list \<times> gather_stats) res" where
  "gatherITargets IP m fun ds =
     bindE (foldE (gather_inst IP m) (fun_insts m fun) (fst ds)) (\<lambda>ts.
     bindE (collectStatistics ts (snd ds)) (\<lambda>st. Inr (ts, st)))"

section \<open>Statistics\<close>

text \<open>The targets the phase may meet: valid checks and invariants.\<close>

definition gatherable :: "itarget \<Rightarrow> bool" where
  "gatherable T \<longleftrightarrow> isValid T \<and> (isCheck T \<or> isInvariant T)"

lemma fresh_gatherable: "fresh_at i T \<Longrightarrow> gatherable T"
  by (simp add: fresh_at_def gatherable_def)

definition counted :: "gather_stats \<Rightarrow> nat" where
  "counted st = NumInvariantTargets st + AccessCheckTargets st + CallCheckTargets st"

lemma count_target_gatherable:
  assumes "gatherable T"
  obtains st' where "count_target T st = Inr st'" and "counted st' = Suc (counted st)"
    and "BoundsTargets st' = BoundsTargets st" and "NumITargetsGathered st' = NumITargetsGathered st"
  using assms it_class_disjoint [of T]
  by (auto simp: count_target_def gatherable_def counted_def isCheck_iff isInvariant_iff
      isConstSizeCheckIT_def isVarSizeCheckIT_def isCallCheckIT_def isBoundsIT_def isWitnessSupplyIT_iff)

lemma foldE_count_target:
  assumes "list_all gatherable ts"
  shows "\<exists>st'. foldE count_target ts st = Inr st' \<and> counted st' = counted st + length ts \<and>
    BoundsTargets st' = BoundsTargets st \<and> NumITargetsGathered st' = NumITargetsGathered st"
  using assms
proof (induction ts arbitrary: st)
  case (Cons T ts)
  then obtain st1 where st1: "count_target T st = Inr st1" "counted st1 = Suc (counted st)"
    "BoundsTargets st1 = BoundsTargets st" "NumITargetsGathered st1 = NumITargetsGathered st"
    by (auto elim: count_target_gatherable)
  with Cons.IH [of st1] Cons.prems show ?case by simp
qed simp

lemma collectStatistics_gatherable:
  assumes "list_all gatherable ts"
  shows "\<exists>st'. collectStatistics ts st = Inr st' \<and> counted st' = counted st + length ts \<and>
    BoundsTargets st' = BoundsTargets st \<and>
    NumITargetsGathered st' = NumITargetsGathered st + length ts"
proof -
  have "getNumValidITargets ts = length ts"
    using assms by (auto simp: getNumValidITargets_def getNumITargets_filter gatherable_def list_all_iff
        intro!: filter_True)
  with foldE_count_target [OF assms, of "st\<lparr>NumITargetsGathered := NumITargetsGathered st + length ts\<rparr>"]
  show ?thesis by (auto simp: collectStatistics_def counted_def)
qed

section \<open>Gathering with any policy\<close>

text \<open>Concatenation of what the policy says about each instruction.\<close>

fun classify_all :: "classifier \<Rightarrow> ir \<Rightarrow> vid list \<Rightarrow> itarget list res" where
  "classify_all IP m [] = Inr []"
| "classify_all IP m (i # is) =
     bindE (gather_inst IP m i []) (\<lambda>new. bindE (classify_all IP m is) (\<lambda>rest. Inr (new @ rest)))"

context policy
begin

lemma gather_inst_adds: "adds_at i (gather_inst classify m i)"
  unfolding gather_inst_def by (intro adds_intros classify_adds)

lemma gather_fold:
  "foldE (gather_inst classify m) is ts = bindE (classify_all classify m is) (\<lambda>new. Inr (ts @ new))"
proof (induction "is" arbitrary: ts)
  case (Cons i "is")
  show ?case
  proof (cases "gather_inst classify m i []")
    case (Inl e)
    then have "gather_inst classify m i ts = Inl e"
      using adds_at_error_iff [OF gather_inst_adds] by blast
    with Inl show ?thesis by simp
  next
    case (Inr new)
    have "gather_inst classify m i ts = Inr (ts @ new)"
      by (rule adds_at_Nil(1) [OF gather_inst_adds Inr])
    with Inr Cons.IH show ?thesis by (cases "classify_all classify m is") auto
  qed
qed simp

lemma classify_all_fresh:
  "classify_all classify m is = Inr new \<Longrightarrow> T \<in> set new \<Longrightarrow>
   \<exists>i \<in> set is. fresh_at i T \<and> \<not> hasNoInstrument m i"
proof (induction "is" arbitrary: new)
  case (Cons i "is")
  then obtain a b where ab: "gather_inst classify m i [] = Inr a" "classify_all classify m is = Inr b"
    "new = a @ b"
    by (auto simp: res_simps)
  from ab(1) have "list_all (fresh_at i) a" "hasNoInstrument m i \<Longrightarrow> a = []"
    using adds_at_Nil(2) [OF gather_inst_adds] by (simp, simp add: gather_inst_def)
  with Cons ab show ?case by (auto simp: list_all_iff)
qed simp

lemma classify_all_gatherable: "classify_all classify m is = Inr new \<Longrightarrow> list_all gatherable new"
  using classify_all_fresh fresh_gatherable by (fastforce simp: list_all_iff)

text \<open>Gathering fails only where the policy does, and counts every target it finds once.\<close>

lemma gather_outcome:
  shows "\<exists>st'. gatherITargets classify m f ([], st) =
      bindE (classify_all classify m (fun_insts m f)) (\<lambda>new. Inr (new, st')) \<and>
    (\<forall>new. classify_all classify m (fun_insts m f) = Inr new \<longrightarrow>
       counted st' = counted st + length new \<and> BoundsTargets st' = BoundsTargets st \<and>
       NumITargetsGathered st' = NumITargetsGathered st + length new)"
proof (cases "classify_all classify m (fun_insts m f)")
  case (Inl e)
  then show ?thesis by (simp add: gatherITargets_def gather_fold)
next
  case (Inr new)
  from collectStatistics_gatherable [OF classify_all_gatherable [OF Inr], of st]
  show ?thesis using Inr by (auto simp: gatherITargets_def gather_fold)
qed

end

context policy
begin

lemma classify_all_error:
  "classify_all classify m is = Inl e \<Longrightarrow> \<exists>i \<in> set is. \<not> hasNoInstrument m i \<and> classify m i [] = Inl e"
  by (induction "is") (auto simp: res_simps gather_inst_def split: if_splits)

lemma gathered:
  assumes "gatherITargets classify m f ([], st) = Inr (ts, st')"
  shows "classify_all classify m (fun_insts m f) = Inr ts"
    and "counted st' = counted st + length ts" and "BoundsTargets st' = BoundsTargets st"
    and "NumITargetsGathered st' = NumITargetsGathered st + length ts"
proof -
  obtain st1 where st1: "gatherITargets classify m f ([], st) =
      bindE (classify_all classify m (fun_insts m f)) (\<lambda>new. Inr (new, st1))"
    and counts: "\<And>new. classify_all classify m (fun_insts m f) = Inr new \<Longrightarrow>
       counted st1 = counted st + length new \<and> BoundsTargets st1 = BoundsTargets st \<and>
       NumITargetsGathered st1 = NumITargetsGathered st + length new"
    using gather_outcome by blast
  from st1 assms have all: "classify_all classify m (fun_insts m f) = Inr ts" and "st' = st1"
    by (cases "classify_all classify m (fun_insts m f)"; simp)+
  with counts [OF all] show "classify_all classify m (fun_insts m f) = Inr ts"
    and "counted st' = counted st + length ts" and "BoundsTargets st' = BoundsTargets st"
    and "NumITargetsGathered st' = NumITargetsGathered st + length ts"
    by simp_all
qed

lemma gathering_error:
  assumes "gatherITargets classify m f ([], st) = Inl e"
  shows "\<exists>i \<in> set (fun_insts m f). \<not> hasNoInstrument m i \<and> classify m i [] = Inl e"
proof -
  have "classify_all classify m (fun_insts m f) = Inl e"
    using assms gather_outcome [of m f st] by (cases "classify_all classify m (fun_insts m f)") auto
  then show ?thesis by (rule classify_all_error)
qed

lemma gathered_fresh:
  assumes "gatherITargets classify m f ([], st) = Inr (ts, st')" and "T \<in> set ts"
  shows "\<exists>i \<in> set (fun_insts m f). fresh_at i T \<and> \<not> hasNoInstrument m i"
  by (rule classify_all_fresh [OF gathered(1) [OF assms(1)] assms(2)])

end

context access_policy
begin

lemma classify_all_checks:
  assumes "classify_all classify m is = Inr ts" and "i \<in> set is"
    and "access_pointer m i = Some p" and "\<not> hasNoInstrument m i" and "\<not> hasVarArgHandling m i"
  shows "\<exists>T \<in> set ts. access_check m i p T"
  using assms(1,2)
proof (induction "is" arbitrary: ts)
  case (Cons j "is")
  then obtain a b where ab: "gather_inst classify m j [] = Inr a" "classify_all classify m is = Inr b"
    "ts = a @ b"
    by (auto simp: res_simps)
  show ?case
  proof (cases "i = j")
    case True
    with ab(1) assms(4) have "classify m i [] = Inr a" by (simp add: gather_inst_def)
    from access_checked [OF assms(3,5) this] ab(3) show ?thesis by auto
  next
    case False
    with Cons ab show ?thesis by auto
  qed
qed simp

lemma gathered_checks:
  assumes "gatherITargets classify m f ([], st) = Inr (ts, st')" and "i \<in> set (fun_insts m f)"
    and "access_pointer m i = Some p" and "\<not> hasNoInstrument m i" and "\<not> hasVarArgHandling m i"
  shows "\<exists>T \<in> set ts. access_check m i p T"
  by (rule classify_all_checks [OF gathered(1) [OF assms(1)] assms(2-)])

end

section \<open>Gathering with the policies of the pass\<close>

definition no_stats :: gather_stats where
  "no_stats = \<lparr>NumITargetsGathered = 0, NumInvariantTargets = 0, AccessCheckTargets = 0,
     CallCheckTargets = 0, BoundsTargets = 0\<rparr>"

definition policies :: "policy_opts \<Rightarrow> classifier set" where
  "policies opts = {none_classifyTargets, accessonly_classifyTargets,
     beforeoutflow_classifyTargets opts, pointerbounds_classifyTargets opts}"

text \<open>
  C16: With every policy but \<open>NonePolicy\<close>, gathering the targets of a function finds a check for
  every load and store that carries neither of the marks that exempt it: at the instruction, of
  its pointer operand, of both bounds and of the store size of the pointee.
\<close>

theorem gather_checks_accesses:
  assumes "IP \<in> policies opts" and "IP \<noteq> none_classifyTargets"
    and "gatherITargets IP m f ([], st) = Inr (ts, st')" and "i \<in> set (fun_insts m f)"
    and "access_pointer m i = Some p" and "\<not> hasNoInstrument m i" and "\<not> hasVarArgHandling m i"
  shows "\<exists>T \<in> set ts. access_check m i p T"
  using assms(1-3) accessonly_policy.gathered_checks [OF _ assms(4-)]
    beforeoutflow_policy.gathered_checks [OF _ assms(4-)]
    pointerbounds_policy.gathered_checks [OF _ assms(4-)]
  by (auto simp: policies_def)

lemma demo_escape_gather:
  "gatherITargets accessonly_classifyTargets demo_escape 1 ([], no_stats) =
   Inr ([(mkITarget ITK_ConstSizeCheck (Some 3) 5 True True False)\<lparr>accessSize := 4\<rparr>,
         (mkITarget ITK_ConstSizeCheck (Some 4) 6 True True False)\<lparr>accessSize := 4\<rparr>,
         (mkITarget ITK_ConstSizeCheck (Some 9) 8 True True False)\<lparr>accessSize := 8\<rparr>],
     \<lparr>NumITargetsGathered = 3, NumInvariantTargets = 0, AccessCheckTargets = 3, CallCheckTargets = 0,
      BoundsTargets = 0\<rparr>)"
  by code_simp

lemma gather_checks_accesses_witness:
  "\<exists>T \<in> set [(mkITarget ITK_ConstSizeCheck (Some 3) 5 True True False)\<lparr>accessSize := 4\<rparr>,
         (mkITarget ITK_ConstSizeCheck (Some 4) 6 True True False)\<lparr>accessSize := 4\<rparr>,
         (mkITarget ITK_ConstSizeCheck (Some 9) 8 True True False)\<lparr>accessSize := 8\<rparr>].
     access_check demo_escape 8 9 T"
proof (rule gather_checks_accesses [OF _ _ demo_escape_gather, where opts = demo_opts])
  show "accessonly_classifyTargets \<in> policies demo_opts" by (simp add: policies_def)
  have "accessonly_classifyTargets demo_escape 8 [] \<noteq> none_classifyTargets demo_escape 8 []"
    by code_simp
  then show "accessonly_classifyTargets \<noteq> none_classifyTargets" by auto
  show "8 \<in> set (fun_insts demo_escape 1)" "access_pointer demo_escape 8 = Some 9"
    "\<not> hasNoInstrument demo_escape 8" "\<not> hasVarArgHandling demo_escape 8"
    by code_simp+
qed

text \<open>
  C17: The assertion of the statistics never fails: gathering stops with an error only if the policy
  stops on an instruction. Otherwise every target is a fresh check or invariant of an instruction
  that is not exempt, and the counters of invariants, access checks and call checks grow by the
  number of targets together; no bounds target is gathered.
\<close>

theorem gather_statistics_partition:
  assumes "IP \<in> policies opts"
  shows "case gatherITargets IP m f ([], st) of
      Inl e \<Rightarrow> \<exists>i \<in> set (fun_insts m f). \<not> hasNoInstrument m i \<and> IP m i [] = Inl e
    | Inr (ts, st') \<Rightarrow>
        (\<forall>T \<in> set ts. \<exists>i \<in> set (fun_insts m f). fresh_at i T \<and> \<not> hasNoInstrument m i) \<and>
        NumInvariantTargets st' + AccessCheckTargets st' + CallCheckTargets st' =
          NumInvariantTargets st + AccessCheckTargets st + CallCheckTargets st + length ts \<and>
        NumITargetsGathered st' = NumITargetsGathered st + length ts \<and>
        BoundsTargets st' = BoundsTargets st"
proof -
  have IP: "policy IP"
    using assms none_policy.policy_axioms accessonly_policy.policy_axioms
      beforeoutflow_policy.policy_axioms pointerbounds_policy.policy_axioms
    by (auto simp: policies_def)
  show ?thesis
  proof (cases "gatherITargets IP m f ([], st)")
    case (Inl e)
    then show ?thesis using policy.gathering_error [OF IP Inl] by simp
  next
    case (Inr r)
    obtain ts st' where r: "r = (ts, st')" by (cases r)
    note run = Inr [unfolded r]
    show ?thesis
      using policy.gathered(2-4) [OF IP run] policy.gathered_fresh [OF IP run]
      unfolding run counted_def by simp
  qed
qed

lemma gather_statistics_partition_witness:
  "case gatherITargets accessonly_classifyTargets demo 1 ([], no_stats) of
      Inl e \<Rightarrow> \<exists>i \<in> set (fun_insts demo 1). \<not> hasNoInstrument demo i \<and> accessonly_classifyTargets demo i [] = Inl e
    | Inr (ts, st') \<Rightarrow>
        (\<forall>T \<in> set ts. \<exists>i \<in> set (fun_insts demo 1). fresh_at i T \<and> \<not> hasNoInstrument demo i) \<and>
        NumInvariantTargets st' + AccessCheckTargets st' + CallCheckTargets st' =
          NumInvariantTargets no_stats + AccessCheckTargets no_stats + CallCheckTargets no_stats + length ts \<and>
        NumITargetsGathered st' = NumITargetsGathered no_stats + length ts \<and>
        BoundsTargets st' = BoundsTargets no_stats"
  by (rule gather_statistics_partition [where opts = demo_opts]) (simp add: policies_def)

end
