(* ===== verification/Builder.thy ===== *)
theory Builder
  imports Util
begin

text \<open>
  Building code: the insertion of instructions into the blocks of the module, and the helpers of
  \<open>lib/instrumentation_mechanisms/InstrumentationMechanism.cpp\<close> on top of it. An insertion point
  is before an instruction or at the end of a block. A declared function is a value of the
  module; a callee is that value with its return type.
\<close>

section \<open>Insertion\<close>

datatype ipoint = Before vid | AtEnd bbid

type_synonym callee = "vid \<times> tyid"

fun insert_before :: "vid \<Rightarrow> vid \<Rightarrow> vid list \<Rightarrow> vid list" where
  "insert_before loc n [] = [n]"
| "insert_before loc n (v # vs) = (if v = loc then n # v # vs else v # insert_before loc n vs)"

definition ip_block :: "ir \<Rightarrow> ipoint \<Rightarrow> bbid" where
  "ip_block m p = (case p of Before loc \<Rightarrow> inst_bb m loc | AtEnd b \<Rightarrow> b)"

definition ip_insert :: "ipoint \<Rightarrow> vid \<Rightarrow> vid list \<Rightarrow> vid list" where
  "ip_insert p n vs = (case p of Before loc \<Rightarrow> insert_before loc n vs | AtEnd b \<Rightarrow> vs @ [n])"

definition new_value :: "value_kind \<Rightarrow> tyid \<Rightarrow> string \<Rightarrow> ir \<Rightarrow> vid \<times> ir" where
  "new_value k ty name m =
     (next_vid m,
      m\<lparr>vals := (vals m)(next_vid m := \<lparr>v_kind = k, v_type = ty, v_name = name, v_md = Map.empty\<rparr>),
        next_vid := Suc (next_vid m)\<rparr>)"

definition emit :: "ipoint \<Rightarrow> instr \<Rightarrow> tyid \<Rightarrow> string \<Rightarrow> ir \<Rightarrow> vid \<times> ir" where
  "emit p i ty name m =
     (let (n, m1) = new_value (Inst i) ty name m;
          b = ip_block m p
      in (n, m1\<lparr>bb_insts := (bb_insts m1)(b := ip_insert p n (bb_insts m1 b)),
                inst_bb := (inst_bb m1)(n := b)\<rparr>))"

text \<open>An operation the folder may take over.\<close>

definition emit_op ::
  "ipoint \<Rightarrow> string \<Rightarrow> vid list \<Rightarrow> instr \<Rightarrow> tyid \<Rightarrow> string \<Rightarrow> ir \<Rightarrow> vid \<times> ir" where
  "emit_op p oper args i ty name m =
     (case fold_op m oper args ty of Some v \<Rightarrow> (v, m) | None \<Rightarrow> emit p i ty name m)"

section \<open>Declarations\<close>

definition getOrInsertFunction :: "string \<Rightarrow> ir \<Rightarrow> vid \<times> ir" where
  "getOrInsertFunction name m =
     (case filter (\<lambda>f. v_name (vals m f) = name) (mod_functions m) of
        f # _ \<Rightarrow> (f, m)
      | [] \<Rightarrow> (let (f, m1) = new_value (Const FunctionVal) (ctx_ty m ''fn'') name m
               in (f, m1\<lparr>mod_functions := mod_functions m1 @ [f],
                         fun_blocks := (fun_blocks m1)(f := [])\<rparr>)))"

definition insertFunDecl :: "string \<Rightarrow> string \<Rightarrow> ir \<Rightarrow> (callee \<times> ir) res" where
  "insertFunDecl name ret m =
     (let (f, m1) = getOrInsertFunction name m
      in bindE (setNoInstrument f m1) (\<lambda>m2. Inr ((f, ctx_ty m ret), m2)))"

definition insertCommonFunctionDeclarations :: "ir \<Rightarrow> (callee list \<times> ir) res" where
  "insertCommonFunctionDeclarations m =
     bindE (insertFunDecl ''__mi_fail'' ''void'' m) (\<lambda>(failFunction, m1).
     bindE (insertFunDecl ''__mi_fail_with_msg'' ''void'' m1) (\<lambda>(verboseFailFunction, m2).
     bindE (insertFunDecl ''__mi_warning'' ''void'' m2) (\<lambda>(warningFunction, m3).
     Inr ([failFunction, verboseFailFunction, warningFunction], m3))))"

definition insertStringLiteral :: "string \<Rightarrow> ir \<Rightarrow> (vid \<times> ir) res" where
  "insertStringLiteral str m =
     (let (gv, m1) = new_value (Const GlobalVariable) (ctx_ty m ''string'') (''stringliteral.'' @ str) m;
          m2 = m1\<lparr>mod_globals := mod_globals m1 @ [gv]\<rparr>
      in bindE (setNoInstrument gv m2) (\<lambda>m3. Inr (gv, m3)))"

section \<open>Calls and casts\<close>

definition insertCall :: "ipoint \<Rightarrow> callee \<Rightarrow> vid list \<Rightarrow> string \<Rightarrow> ir \<Rightarrow> (vid \<times> ir) res" where
  "insertCall p fn args name m =
     (let ci = \<lparr>called_operand = fst fn, called_function = Some (fst fn), call_args = args\<rparr>;
          nm = (if types m (snd fn) = VoidTy then [] else name);
          (c, m1) = emit p (Call ci None) (snd fn) nm m
      in bindE (setNoInstrument c m1) (\<lambda>m2. Inr (c, m2)))"

definition insertCallNoName :: "ipoint \<Rightarrow> callee \<Rightarrow> vid list \<Rightarrow> ir \<Rightarrow> (vid \<times> ir) res" where
  "insertCallNoName p fn args = insertCall p fn args ''inserted.call''"

definition insertCast :: "tyid \<Rightarrow> vid \<Rightarrow> ipoint \<Rightarrow> string \<Rightarrow> ir \<Rightarrow> (vid \<times> ir) res" where
  "insertCast DestType FromVal p Suffix m =
     (let (r, m1) = emit_op p ''bitcast'' [FromVal] (BitCast FromVal) DestType
                      (v_name (vals m FromVal) @ Suffix) m
      in if is_instruction m1 r then bindE (setNoInstrument r m1) (\<lambda>m2. Inr (r, m2)) else Inr (r, m1))"

definition insertCastNoSuffix :: "tyid \<Rightarrow> vid \<Rightarrow> ipoint \<Rightarrow> ir \<Rightarrow> (vid \<times> ir) res" where
  "insertCastNoSuffix DestType FromVal p = insertCast DestType FromVal p ''_casted''"

section \<open>Constructors\<close>

text \<open>
  \<open>registerCtors\<close>: internal functions that run before the program. The variable
  \<open>llvm.global_ctors\<close> is replaced by one that lists the new functions before the old ones.
\<close>

fun newCtorFunctions :: "string list \<Rightarrow> ir \<Rightarrow> (vid list \<times> ir) res" where
  "newCtorFunctions [] m = Inr ([], m)"
| "newCtorFunctions (name # names) m =
     (let (f, m1) = new_value (Const FunctionVal) (ctx_ty m ''fn'') name m;
          m2 = m1\<lparr>mod_functions := mod_functions m1 @ [f], fun_blocks := (fun_blocks m1)(f := [])\<rparr>
      in bindE (setNoInstrument f m2) (\<lambda>m3.
         bindE (newCtorFunctions names m3) (\<lambda>(fs, m4). Inr (f # fs, m4))))"

definition registerCtors :: "string list \<Rightarrow> ir \<Rightarrow> (vid list \<times> ir) res" where
  "registerCtors names m =
     bindE (newCtorFunctions names m) (\<lambda>(fs, m1).
     let m2 = m1\<lparr>mod_globals := filter (\<lambda>g. v_name (vals m1 g) \<noteq> ''llvm.global_ctors'') (mod_globals m1)\<rparr>;
         (gv, m3) = new_value (Const GlobalVariable) (ctx_ty m ''ctors'') ''llvm.global_ctors'' m2;
         m4 = m3\<lparr>mod_globals := mod_globals m3 @ [gv], global_ctors := fs @ global_ctors m3\<rparr>
     in bindE (setNoInstrument gv m4) (\<lambda>m5. Inr (fs, m5)))"

definition new_block :: "vid \<Rightarrow> ir \<Rightarrow> bbid \<times> ir" where
  "new_block f m =
     (next_bb m,
      m\<lparr>bb_insts := (bb_insts m)(next_bb m := []), bb_fun := (bb_fun m)(next_bb m := f),
        fun_blocks := (fun_blocks m)(f := fun_blocks m f @ [next_bb m]), next_bb := Suc (next_bb m)\<rparr>)"

section \<open>What insertion does\<close>

lemma set_insert_before: "set (insert_before loc n vs) = insert n (set vs)"
  by (induction vs) auto

lemma next_in_insert_before:
  "loc \<in> set vs \<Longrightarrow> n \<noteq> loc \<Longrightarrow> n \<notin> set vs \<Longrightarrow> next_in n (insert_before loc n vs) = Some loc"
proof (induction vs)
  case (Cons v vs)
  show ?case
  proof (cases "v = loc")
    case True
    then show ?thesis by simp
  next
    case False
    then have IH: "next_in n (insert_before loc n vs) = Some loc" using Cons by simp
    obtain w ws where "insert_before loc n vs = w # ws" by (cases "insert_before loc n vs") (use IH in auto)
    then show ?thesis using False IH Cons.prems by auto
  qed
qed simp

text \<open>
  \<open>only_adds m m'\<close>: the instructions of \<open>m\<close> are still there, in their order, with their kind and
  type; everything else in the blocks of \<open>m'\<close> is new.
\<close>

definition fresh_ids :: "ir \<Rightarrow> bool" where
  "fresh_ids m \<longleftrightarrow> (\<forall>b. \<forall>v \<in> set (bb_insts m b). v < next_vid m)"

definition only_adds :: "ir \<Rightarrow> ir \<Rightarrow> bool" where
  "only_adds m m' \<longleftrightarrow>
     next_vid m \<le> next_vid m' \<and> types m' = types m \<and> const_int m' = const_int m \<and> ctx_ty m' = ctx_ty m \<and>
     (\<forall>v < next_vid m. v_kind (vals m' v) = v_kind (vals m v) \<and> v_type (vals m' v) = v_type (vals m v) \<and>
       inst_bb m' v = inst_bb m v) \<and>
     (fresh_ids m \<longrightarrow> fresh_ids m' \<and>
       (\<forall>b. filter (\<lambda>v. v < next_vid m) (bb_insts m' b) = bb_insts m b))"

lemma only_adds_refl [simp]: "only_adds m m"
  by (auto simp: only_adds_def fresh_ids_def filter_id_conv)

lemma only_adds_trans:
  assumes "only_adds m m1" and "only_adds m1 m2"
  shows "only_adds m m2"
  unfolding only_adds_def
proof (intro conjI allI impI)
  note 1 = assms(1) [unfolded only_adds_def] and 2 = assms(2) [unfolded only_adds_def]
  show le: "next_vid m \<le> next_vid m2" using 1 2 by linarith
  show "types m2 = types m" "const_int m2 = const_int m" "ctx_ty m2 = ctx_ty m" using 1 2 by simp_all
  fix v assume v: "v < next_vid m"
  then have "v < next_vid m1" using 1 by linarith
  with v 1 2 show "v_kind (vals m2 v) = v_kind (vals m v)" "v_type (vals m2 v) = v_type (vals m v)"
    "inst_bb m2 v = inst_bb m v"
    by simp_all
next
  note 1 = assms(1) [unfolded only_adds_def] and 2 = assms(2) [unfolded only_adds_def]
  assume f: "fresh_ids m"
  then show "fresh_ids m2" using 1 2 by blast
  fix b
  have b1: "filter (\<lambda>v. v < next_vid m) (bb_insts m1 b) = bb_insts m b"
    and b2: "filter (\<lambda>v. v < next_vid m1) (bb_insts m2 b) = bb_insts m1 b"
    using 1 2 f by blast+
  have "next_vid m \<le> next_vid m1" using 1 by blast
  then have "filter (\<lambda>v. v < next_vid m) (bb_insts m2 b) =
      filter (\<lambda>v. v < next_vid m) (filter (\<lambda>v. v < next_vid m1) (bb_insts m2 b))"
    by (auto simp: filter_filter intro!: filter_cong)
  then show "filter (\<lambda>v. v < next_vid m) (bb_insts m2 b) = bb_insts m b"
    by (simp only: b1 b2)
qed

lemma only_addsD:
  "only_adds m m' \<Longrightarrow> fresh_ids m \<Longrightarrow> fresh_ids m'"
  "only_adds m m' \<Longrightarrow> fresh_ids m \<Longrightarrow> filter (\<lambda>v. v < next_vid m) (bb_insts m' b) = bb_insts m b"
  "only_adds m m' \<Longrightarrow> v < next_vid m \<Longrightarrow> inst_bb m' v = inst_bb m v"
  "only_adds m m' \<Longrightarrow> v < next_vid m \<Longrightarrow> v_kind (vals m' v) = v_kind (vals m v)"
  "only_adds m m' \<Longrightarrow> const_int m' = const_int m" "only_adds m m' \<Longrightarrow> ctx_ty m' = ctx_ty m"
  by (simp_all add: only_adds_def)

text \<open>An instruction stays in its block.\<close>

definition placed :: "ir \<Rightarrow> vid \<Rightarrow> bool" where
  "placed m v \<longleftrightarrow> fresh_ids m \<and> v \<in> set (bb_insts m (inst_bb m v))"

lemma only_adds_placed: "only_adds m m' \<Longrightarrow> placed m v \<Longrightarrow> placed m' v"
proof -
  assume a: "only_adds m m'" and p: "placed m v"
  then have f: "fresh_ids m" "v \<in> set (bb_insts m (inst_bb m v))" by (simp_all add: placed_def)
  then have "v < next_vid m" by (simp add: fresh_ids_def)
  then have bb: "inst_bb m' v = inst_bb m v" using a by (simp add: only_addsD)
  have "v \<in> set (filter (\<lambda>v. v < next_vid m) (bb_insts m' (inst_bb m v)))"
    using only_addsD(2) [OF a f(1)] f(2) by simp
  then show ?thesis using only_addsD(1) [OF a f(1)] bb by (simp add: placed_def)
qed

lemma filter_insert_before_old:
  "\<not> n < k \<Longrightarrow> filter (\<lambda>v. v < k) (insert_before loc n vs) = filter (\<lambda>v. v < (k::vid)) vs"
  by (induction vs) simp_all

lemma filter_ip_insert_old: "\<not> n < k \<Longrightarrow> filter (\<lambda>v. v < k) (ip_insert p n vs) = filter (\<lambda>v. v < k) vs"
  by (simp add: ip_insert_def filter_insert_before_old split: ipoint.splits)

lemma set_ip_insert: "set (ip_insert p n vs) = insert n (set vs)"
  by (auto simp: ip_insert_def set_insert_before split: ipoint.splits)

lemma filter_all_old: "\<forall>v \<in> set vs. v < k \<Longrightarrow> filter (\<lambda>v. v < k) vs = (vs :: vid list)"
  by (simp add: filter_id_conv)

lemma only_adds_new_value: "new_value k ty name m = (n, m') \<Longrightarrow> only_adds m m'"
  by (fastforce simp: new_value_def only_adds_def fresh_ids_def filter_all_old less_Suc_eq)

lemma emit_fields:
  assumes "emit p i ty name m = (n, m')"
  shows "n = next_vid m" and "next_vid m' = Suc (next_vid m)" and "types m' = types m"
    and "const_int m' = const_int m" and "ctx_ty m' = ctx_ty m"
    and "vals m' = (vals m)(n := \<lparr>v_kind = Inst i, v_type = ty, v_name = name, v_md = Map.empty\<rparr>)"
    and "bb_insts m' = (bb_insts m)(ip_block m p := ip_insert p n (bb_insts m (ip_block m p)))"
    and "inst_bb m' = (inst_bb m)(n := ip_block m p)"
  using assms by (auto simp: emit_def new_value_def Let_def)

lemma only_adds_emit:
  assumes "emit p i ty name m = (n, m')"
  shows "only_adds m m'"
  unfolding only_adds_def
proof (intro conjI allI impI)
  note f = emit_fields [OF assms]
  show "next_vid m \<le> next_vid m'" "types m' = types m" "const_int m' = const_int m" "ctx_ty m' = ctx_ty m" by (simp_all add: f)
  show "v_kind (vals m' v) = v_kind (vals m v)" "v_type (vals m' v) = v_type (vals m v)"
    "inst_bb m' v = inst_bb m v"
    if "v < next_vid m" for v using that by (simp_all add: f)
  assume fr: "fresh_ids m"
  then have old: "filter (\<lambda>v. v < next_vid m) (bb_insts m b) = bb_insts m b" for b
    by (intro filter_all_old) (simp add: fresh_ids_def)
  show "fresh_ids m'" using fr by (fastforce simp: fresh_ids_def f set_ip_insert less_Suc_eq)
  show "filter (\<lambda>v. v < next_vid m) (bb_insts m' b) = bb_insts m b" for b
    by (simp add: f filter_ip_insert_old old)
qed

lemma only_adds_emit_op: "emit_op p oper args i ty name m = (n, m') \<Longrightarrow> only_adds m m'"
  by (auto simp: emit_op_def only_adds_emit split: option.splits)

lemma only_adds_frame:
  assumes "only_adds m m1" and "next_vid m2 = next_vid m1" and "types m2 = types m1"
    and "const_int m2 = const_int m1" and "ctx_ty m2 = ctx_ty m1"
    and "bb_insts m2 = bb_insts m1" and "\<And>v. v_kind (vals m2 v) = v_kind (vals m1 v)"
    and "\<And>v. v_type (vals m2 v) = v_type (vals m1 v)" and "inst_bb m2 = inst_bb m1"
  shows "only_adds m m2"
  using assms by (simp add: only_adds_def fresh_ids_def)

lemma addMIMetadata_fields:
  assumes "addMIMetadata V k m = Inr m'"
  shows "next_vid m' = next_vid m" "types m' = types m" "const_int m' = const_int m"
    "ctx_ty m' = ctx_ty m" "bb_insts m' = bb_insts m"
    "v_kind (vals m' v) = v_kind (vals m v)" "v_type (vals m' v) = v_type (vals m v)"
    "inst_bb m' = inst_bb m"
  using assms by (auto simp: addMIMetadata_def set_metadata_def Let_def split: if_splits)

lemma only_adds_mark: "setNoInstrument V m = Inr m' \<Longrightarrow> only_adds m m'"
  unfolding setNoInstrument_def
  by (rule only_adds_frame [OF only_adds_refl]) (simp_all add: addMIMetadata_fields)

lemma only_adds_insertCall:
  assumes "insertCall p fn args name m = Inr (c, m')"
  shows "only_adds m m'"
proof -
  obtain c1 m1 where e: "emit p (Call \<lparr>called_operand = fst fn, called_function = Some (fst fn), call_args = args\<rparr>
      None) (snd fn) (if types m (snd fn) = VoidTy then [] else name) m = (c1, m1)"
    by (metis surj_pair)
  with assms have "setNoInstrument c1 m1 = Inr m'"
    by (auto simp: insertCall_def Let_def bindE_eq_Inr)
  from only_adds_trans [OF only_adds_emit [OF e] only_adds_mark [OF this]] show ?thesis .
qed

lemma only_adds_insertCast:
  assumes "insertCast ty v p sfx m = Inr (r, m')"
  shows "only_adds m m'"
proof -
  obtain r1 m1 where e: "emit_op p ''bitcast'' [v] (BitCast v) ty (v_name (vals m v) @ sfx) m = (r1, m1)"
    by (metis surj_pair)
  with assms have "m' = m1 \<or> setNoInstrument r1 m1 = Inr m'"
    by (auto simp: insertCast_def Let_def bindE_eq_Inr split: if_splits)
  with only_adds_emit_op [OF e] only_adds_mark only_adds_trans show ?thesis by blast
qed

lemma only_adds_string:
  assumes "insertStringLiteral str m = Inr (gv, m')"
  shows "only_adds m m'"
proof -
  obtain v m1 where e: "new_value (Const GlobalVariable) (ctx_ty m ''string'') (''stringliteral.'' @ str) m = (v, m1)"
    by (metis surj_pair)
  with assms have "setNoInstrument v (m1\<lparr>mod_globals := mod_globals m1 @ [v]\<rparr>) = Inr m'"
    by (auto simp: insertStringLiteral_def Let_def bindE_eq_Inr)
  from only_adds_mark [OF this] have 2: "only_adds (m1\<lparr>mod_globals := mod_globals m1 @ [v]\<rparr>) m'" .
  have "only_adds m (m1\<lparr>mod_globals := mod_globals m1 @ [v]\<rparr>)"
    by (rule only_adds_frame [OF only_adds_new_value [OF e]]) simp_all
  from only_adds_trans [OF this 2] show ?thesis .
qed

lemma only_adds_decl:
  assumes "insertFunDecl name ret m = Inr (f, m')"
  shows "only_adds m m'"
proof -
  obtain v m1 where e: "getOrInsertFunction name m = (v, m1)" by (metis surj_pair)
  have "only_adds m m1"
  proof (cases "filter (\<lambda>f. v_name (vals m f) = name) (mod_functions m)")
    case Nil
    obtain w m2 where n: "new_value (Const FunctionVal) (ctx_ty m ''fn'') name m = (w, m2)"
      by (metis surj_pair)
    then have "m1 = m2\<lparr>mod_functions := mod_functions m2 @ [w], fun_blocks := (fun_blocks m2)(w := [])\<rparr>"
      using e Nil by (auto simp: getOrInsertFunction_def)
    then show ?thesis by (intro only_adds_frame [OF only_adds_new_value [OF n]]) simp_all
  qed (use e in \<open>simp add: getOrInsertFunction_def\<close>)
  moreover have "setNoInstrument v m1 = Inr m'"
    using assms e by (auto simp: insertFunDecl_def bindE_eq_Inr)
  ultimately show ?thesis using only_adds_mark only_adds_trans by blast
qed

lemmas only_adds_ops = only_adds_emit only_adds_emit_op only_adds_mark only_adds_insertCall
  only_adds_insertCast only_adds_string only_adds_decl

text \<open>A call inserted before an instruction is the instruction right before it.\<close>

lemma insertCall_position:
  assumes "insertCall (Before loc) fn args name m = Inr (c, m')" and "placed m loc"
  shows "c = next_vid m" and "next_in c (bb_insts m' (inst_bb m' loc)) = Some loc"
    and "get_inst m' c = Some (Call \<lparr>called_operand = fst fn, called_function = Some (fst fn), call_args = args\<rparr>
      None)"
proof -
  let ?i = "Call \<lparr>called_operand = fst fn, called_function = Some (fst fn), call_args = args\<rparr> None"
  obtain c1 m1 where e: "emit (Before loc) ?i (snd fn) (if types m (snd fn) = VoidTy then [] else name) m = (c1, m1)"
    by (metis surj_pair)
  then have c: "c = c1" "setNoInstrument c1 m1 = Inr m'"
    using assms(1) by (auto simp: insertCall_def Let_def bindE_eq_Inr)
  note f = emit_fields [OF e] and mk = addMIMetadata_fields [OF c(2) [unfolded setNoInstrument_def]]
  show "c = next_vid m" by (simp add: c f)
  have loc: "loc \<in> set (bb_insts m (inst_bb m loc))" and fr: "fresh_ids m"
    using assms(2) by (simp_all add: placed_def)
  have new: "c1 \<notin> set (bb_insts m (inst_bb m loc))" using fr f(1) by (auto simp: fresh_ids_def)
  then have "c1 \<noteq> loc" using loc by blast
  then show "next_in c (bb_insts m' (inst_bb m' loc)) = Some loc"
    using next_in_insert_before [OF loc _ new]
    by (simp add: c mk f(7,8) ip_block_def ip_insert_def)
  show "get_inst m' c = Some ?i" by (simp add: get_inst_def c mk f(6))
qed

end
