(* ===== verification/SplitBlock.thy ===== *)
theory SplitBlock
  imports Builder
begin

text \<open>
  \<open>SplitBlockAndInsertIfThen\<close>, by which the example pass and the example mechanism place a check:
  the block is split before an instruction, its first part branches to a new block when the
  condition holds, and that block ends in an unreachable instruction. Splitting moves
  instructions to another block, so \<open>only_adds\<close> does not describe it; \<open>extends_code\<close> says that the
  code of every function, read over its blocks in order, only grows.
\<close>

section \<open>Code\<close>

definition redirect_phi :: "bbid \<Rightarrow> bbid \<Rightarrow> value_kind \<Rightarrow> value_kind" where
  "redirect_phi from_bb to_bb k =
     (case k of
        Inst (PHI ins) \<Rightarrow> Inst (PHI (map (\<lambda>(v, b). (v, if b = from_bb then to_bb else b)) ins))
      | _ \<Rightarrow> k)"

text \<open>The blocks \<open>Then\<close> and \<open>Tail\<close> follow \<open>Head\<close>; \<open>Tail\<close> starts with \<open>loc\<close> and takes over its successors.\<close>

definition split_block :: "vid \<Rightarrow> ir \<Rightarrow> ir" where
  "split_block loc m =
     (let Head = inst_bb m loc; Then = next_bb m; Tail = Suc (next_bb m); F = bb_fun m Head;
          old = bb_insts m Head;
          moved = dropWhile (\<lambda>v. v \<noteq> loc) old
      in m\<lparr>vals := (\<lambda>v. (vals m v)\<lparr>v_kind := redirect_phi Head Tail (v_kind (vals m v))\<rparr>),
           bb_insts := (bb_insts m)(Head := takeWhile (\<lambda>v. v \<noteq> loc) old, Then := [], Tail := moved),
           inst_bb := (\<lambda>v. if v \<in> set moved then Tail else inst_bb m v),
           bb_fun := (bb_fun m)(Then := F, Tail := F),
           fun_blocks := (fun_blocks m)(F := concat (map (\<lambda>b. if b = Head then [Head, Then, Tail] else [b])
                                                       (fun_blocks m F))),
           next_bb := Suc (Suc (next_bb m))\<rparr>)"

definition SplitBlockAndInsertIfThen :: "vid \<Rightarrow> vid \<Rightarrow> ir \<Rightarrow> vid \<times> ir" where
  "SplitBlockAndInsertIfThen Cond SplitBefore m =
     (let Head = inst_bb m SplitBefore; Then = next_bb m;
          m1 = split_block SplitBefore m;
          (unreach, m2) = emit (AtEnd Then) (OtherInst ''unreachable'' []) (ctx_ty m ''void'') [] m1;
          (br, m3) = emit (AtEnd Head) (Br (Some Cond)) (ctx_ty m ''void'') [] m2
      in (unreach, m3))"

section \<open>Well-formed modules\<close>

text \<open>
  Every block belongs to one function, every instruction to the block that lists it, and the
  identifiers of values and blocks handed out next are new.
\<close>

definition code_ok :: "ir \<Rightarrow> bool" where
  "code_ok m \<longleftrightarrow> fresh_ids m \<and>
     (\<forall>F. distinct (fun_blocks m F) \<and> (\<forall>b \<in> set (fun_blocks m F). bb_fun m b = F \<and> b < next_bb m)) \<and>
     (\<forall>b. distinct (bb_insts m b) \<and> (\<forall>v \<in> set (bb_insts m b). inst_bb m v = b)) \<and>
     (\<forall>b \<ge> next_bb m. bb_insts m b = [])"

definition in_code :: "ir \<Rightarrow> vid \<Rightarrow> bool" where
  "in_code m v \<longleftrightarrow> v \<in> set (bb_insts m (inst_bb m v)) \<and>
     inst_bb m v \<in> set (fun_blocks m (parent_fun m v))"

text \<open>
  The instructions of \<open>m\<close> are those of \<open>m'\<close> without the new ones, in order, in every function.
\<close>

definition extends_code :: "ir \<Rightarrow> ir \<Rightarrow> bool" where
  "extends_code m m' \<longleftrightarrow>
     next_vid m \<le> next_vid m' \<and>
     (code_ok m \<longrightarrow> code_ok m' \<and> (\<forall>F. filter (\<lambda>v. v < next_vid m) (fun_insts m' F) = fun_insts m F) \<and>
        (\<forall>v. in_code m v \<longrightarrow> in_code m' v))"

lemma code_ok_old: "code_ok m \<Longrightarrow> v \<in> set (fun_insts m F) \<Longrightarrow> v < next_vid m"
  by (auto simp: code_ok_def fresh_ids_def fun_insts_def)

lemma extends_code_refl [simp]: "extends_code m m"
  by (auto simp: extends_code_def filter_id_conv code_ok_old)

lemma extends_code_trans:
  assumes "extends_code m m1" and "extends_code m1 m2"
  shows "extends_code m m2"
  unfolding extends_code_def
proof (intro conjI impI allI)
  note 1 = assms(1) [unfolded extends_code_def] and 2 = assms(2) [unfolded extends_code_def]
  show "next_vid m \<le> next_vid m2" using 1 2 by linarith
  assume ok: "code_ok m"
  then show "code_ok m2" using 1 2 by blast
  show "in_code m2 v" if "in_code m v" for v using that ok 1 2 by blast
  fix F
  have "filter (\<lambda>v. v < next_vid m) (fun_insts m2 F) =
      filter (\<lambda>v. v < next_vid m) (filter (\<lambda>v. v < next_vid m1) (fun_insts m2 F))"
    using 1 by (auto simp: filter_filter intro!: filter_cong)
  also have "\<dots> = fun_insts m F" using ok 1 2 by simp
  finally show "filter (\<lambda>v. v < next_vid m) (fun_insts m2 F) = fun_insts m F" .
qed

section \<open>Insertion extends the code\<close>

text \<open>An insertion before an instruction of the module, or at the end of a block of a function.\<close>

definition ip_ok :: "ir \<Rightarrow> ipoint \<Rightarrow> bool" where
  "ip_ok m p \<longleftrightarrow> (case p of Before loc \<Rightarrow> in_code m loc | AtEnd b \<Rightarrow> b < next_bb m)"

lemma distinct_ip_insert: "distinct vs \<Longrightarrow> n \<notin> set vs \<Longrightarrow> distinct (ip_insert p n vs)"
proof -
  have "distinct (insert_before loc n vs)" if "distinct vs" "n \<notin> set vs" for loc
    using that by (induction vs) (auto simp: set_insert_before)
  then show "distinct vs \<Longrightarrow> n \<notin> set vs \<Longrightarrow> distinct (ip_insert p n vs)"
    by (simp add: ip_insert_def split: ipoint.splits)
qed

lemma filter_concat_map: "filter P (concat (map f xs)) = concat (map (\<lambda>x. filter P (f x)) xs)"
  by (induction xs) auto

lemma extends_code_emit:
  assumes e: "emit p i ty name m = (n, m')" and p: "code_ok m \<Longrightarrow> ip_ok m p"
  shows "extends_code m m'"
  unfolding extends_code_def
proof (intro conjI impI allI)
  note f = emit_fields [OF e]
  show "next_vid m \<le> next_vid m'" by (simp add: f)
  assume ok: "code_ok m"
  have bb: "fun_blocks m' = fun_blocks m" "bb_fun m' = bb_fun m" "next_bb m' = next_bb m"
    using e by (auto simp: emit_def new_value_def Let_def)
  have old: "v < next_vid m \<and> inst_bb m v = b" if "v \<in> set (bb_insts m b)" for v b
    using ok that by (auto simp: code_ok_def fresh_ids_def)
  have ib: "ip_block m p < next_bb m"
    using ok p by (cases p) (auto simp: ip_ok_def in_code_def code_ok_def ip_block_def)
  show "code_ok m'"
    unfolding code_ok_def
  proof (intro conjI allI impI ballI)
    show "fresh_ids m'" using old by (fastforce simp: fresh_ids_def f set_ip_insert)
    show "distinct (fun_blocks m' F)" for F using ok by (simp add: bb code_ok_def)
    show "bb_fun m' b = F" "b < next_bb m'" if "b \<in> set (fun_blocks m' F)" for F b
      using ok that by (simp_all add: bb code_ok_def)
    have "n \<notin> set (bb_insts m (ip_block m p))" using old f(1) by blast
    then show "distinct (bb_insts m' b)" for b
      using ok by (simp add: f(7) code_ok_def distinct_ip_insert)
    show "inst_bb m' v = b" if "v \<in> set (bb_insts m' b)" for v b
      using that old by (auto simp: f set_ip_insert split: if_splits)
    show "bb_insts m' b = []" if "next_bb m' \<le> b" for b
      using that ok ib by (auto simp: f bb code_ok_def)
  qed
  show "filter (\<lambda>v. v < next_vid m) (fun_insts m' F) = fun_insts m F" for F
  proof -
    have "filter (\<lambda>v. v < next_vid m) (bb_insts m' b) = bb_insts m b" for b
      using old by (simp add: f filter_ip_insert_old filter_all_old)
    then show ?thesis by (simp add: fun_insts_def bb filter_concat_map)
  qed
  show "in_code m' v" if v: "in_code m v" for v
  proof -
    have "v < next_vid m" using v old by (auto simp: in_code_def)
    with v show ?thesis by (auto simp: in_code_def parent_fun_def f bb set_ip_insert)
  qed
qed

text \<open>The parts of a module \<open>extends_code\<close> reads.\<close>

lemma extends_code_frame:
  assumes "extends_code m m1" and "next_vid m2 = next_vid m1" and "bb_insts m2 = bb_insts m1"
    and "inst_bb m2 = inst_bb m1" and "bb_fun m2 = bb_fun m1" and "fun_blocks m2 = fun_blocks m1"
    and "next_bb m2 = next_bb m1"
  shows "extends_code m m2"
  using assms by (simp add: extends_code_def code_ok_def fresh_ids_def fun_insts_def in_code_def parent_fun_def)

lemma extends_code_emit_op:
  assumes "emit_op p oper args i ty name m = (n, m')" and "code_ok m \<Longrightarrow> ip_ok m p"
  shows "extends_code m m'"
  using assms by (auto simp: emit_op_def intro: extends_code_emit split: option.splits)

lemma extends_code_mark: "setNoInstrument V m = Inr m' \<Longrightarrow> extends_code m m'"
  by (rule extends_code_frame [OF extends_code_refl])
    (auto simp: setNoInstrument_def addMIMetadata_def set_metadata_def Let_def split: if_splits)

section \<open>Splitting extends the code\<close>

lemma takeWhile_dropWhile_concat:
  "concat (map f (concat (map (\<lambda>b. if b = h then [h, t, u] else [b]) bs))) =
     concat (map (\<lambda>b. if b = h then f h @ f t @ f u else f b) bs)"
  by (induction bs) auto

lemma split_fields:
  assumes "b = inst_bb m loc"
  shows "next_vid (split_block loc m) = next_vid m"
    and "next_bb (split_block loc m) = Suc (Suc (next_bb m))"
    and "bb_insts (split_block loc m) = (bb_insts m)(b := takeWhile (\<lambda>v. v \<noteq> loc) (bb_insts m b),
          next_bb m := [], Suc (next_bb m) := dropWhile (\<lambda>v. v \<noteq> loc) (bb_insts m b))"
    and "inst_bb (split_block loc m) =
          (\<lambda>v. if v \<in> set (dropWhile (\<lambda>v. v \<noteq> loc) (bb_insts m b)) then Suc (next_bb m) else inst_bb m v)"
    and "bb_fun (split_block loc m) = (bb_fun m)(next_bb m := bb_fun m b, Suc (next_bb m) := bb_fun m b)"
    and "fun_blocks (split_block loc m) = (fun_blocks m)(bb_fun m b := concat (map (\<lambda>c. if c = b then [b, next_bb m, Suc (next_bb m)] else [c])
          (fun_blocks m (bb_fun m b))))"
  unfolding assms split_block_def Let_def by simp_all

lemma distinct_split:
  assumes "distinct bs" and "\<forall>b \<in> set bs. b < n" and "h < n"
  shows "distinct (concat (map (\<lambda>c. if c = h then [h, n, Suc n] else [c]) bs))"
  using assms
proof (induction bs)
  case (Cons b bs)
  have "set (concat (map (\<lambda>c. if c = h then [h, n, Suc n] else [c]) bs)) \<subseteq>
      set bs \<union> (if h \<in> set bs then {n, Suc n} else {})"
    by (induction bs) auto
  with Cons show ?case by (auto split: if_splits)
qed simp

lemma split_extends:
  assumes loc: "code_ok m \<Longrightarrow> in_code m loc"
  shows "extends_code m (split_block loc m)"
  unfolding extends_code_def
proof (intro conjI impI allI)
  let ?b = "inst_bb m loc" and ?m = "split_block loc m"
  let ?pre = "takeWhile (\<lambda>v. v \<noteq> loc) (bb_insts m ?b)" and ?post = "dropWhile (\<lambda>v. v \<noteq> loc) (bb_insts m ?b)"
  let ?bs = "\<lambda>F. concat (map (\<lambda>c. if c = ?b then [?b, next_bb m, Suc (next_bb m)] else [c]) (fun_blocks m F))"
  note f = split_fields [OF refl, where m = m and loc = loc]
  show "next_vid m \<le> next_vid ?m" by (simp add: f)
  assume ok: "code_ok m"
  have old: "v < next_vid m \<and> inst_bb m v = b" if "v \<in> set (bb_insts m b)" for v b
    using ok that by (auto simp: code_ok_def fresh_ids_def)
  have blocks: "bb_fun m b = F" "b < next_bb m" if "b \<in> set (fun_blocks m F)" for F b
    using ok that by (simp_all add: code_ok_def)
  from loc [OF ok] have bF: "?b \<in> set (fun_blocks m (bb_fun m ?b))" by (simp add: in_code_def parent_fun_def)
  then have bn: "?b < next_bb m" using blocks by blast
  have dist: "distinct (bb_insts m ?b)" using ok by (simp add: code_ok_def)
  have parts: "?pre @ ?post = bb_insts m ?b" by simp
  then have sub: "set ?pre \<subseteq> set (bb_insts m ?b)" "set ?post \<subseteq> set (bb_insts m ?b)"
    by (metis Un_upper1 set_append, metis Un_upper2 set_append)
  have fb: "fun_blocks ?m F = (if F = bb_fun m ?b then ?bs F else fun_blocks m F)" for F by (simp add: f)
  have setbs: "set (?bs F) = set (fun_blocks m F) \<union> (if ?b \<in> set (fun_blocks m F) then {next_bb m, Suc (next_bb m)} else {})" for F
    by (auto split: if_splits)
  show "code_ok ?m"
    unfolding code_ok_def
  proof (intro conjI allI impI ballI)
    show "fresh_ids ?m" using old sub by (fastforce simp: fresh_ids_def f)
    show "distinct (fun_blocks ?m F)" for F
      using distinct_split [of "fun_blocks m F" "next_bb m" ?b] ok bn blocks by (auto simp: fb code_ok_def)
    fix F b assume b: "b \<in> set (fun_blocks ?m F)"
    have "set (fun_blocks ?m F) \<subseteq> set (fun_blocks m F) \<union> (if F = bb_fun m ?b then {next_bb m, Suc (next_bb m)} else {})"
      using bF by (auto simp: fb)
    with b consider "b \<in> set (fun_blocks m F)" | "F = bb_fun m ?b" "b = next_bb m \<or> b = Suc (next_bb m)"
      by (auto split: if_splits)
    then have "bb_fun ?m b = F \<and> b < next_bb ?m"
    proof cases
      case 1
      then have "bb_fun m b = F" "b < next_bb m" using blocks by blast+
      then show ?thesis by (simp add: f)
    next
      case 2
      then show ?thesis by (auto simp: f)
    qed
    then show "bb_fun ?m b = F" "b < next_bb ?m" by simp_all
  next
    have dis: "set ?pre \<inter> set ?post = {}" and dparts: "distinct ?pre" "distinct ?post"
      using dist by (metis distinct_append parts)+
    show "distinct (bb_insts ?m b)" for b using ok dparts by (simp add: f code_ok_def)
    show "inst_bb ?m v = b" if "v \<in> set (bb_insts ?m b)" for v b
    proof (cases "b = Suc (next_bb m)")
      case False
      with that sub bn have v: "v \<in> set (bb_insts m b)" "b = ?b \<longrightarrow> v \<in> set ?pre"
        by (auto simp: f split: if_splits)
      then have "v \<notin> set ?post" using dis sub(2) old by blast
      with v(1) old show ?thesis by (simp add: f)
    qed (use that in \<open>simp add: f\<close>)
    show "bb_insts ?m b = []" if "next_bb ?m \<le> b" for b
      using that ok bn by (auto simp: f code_ok_def)
  qed
  have keep: "bb_insts ?m c = bb_insts m c" if "c \<in> set (fun_blocks m F)" "c \<noteq> ?b" for c F
  proof -
    from that blocks have "c < next_bb m" by blast
    with that show ?thesis by (simp add: f)
  qed
  have at: "bb_insts ?m ?b @ bb_insts ?m (next_bb m) @ bb_insts ?m (Suc (next_bb m)) = bb_insts m ?b"
    using bn by (simp add: f)
  have code: "concat (map (bb_insts ?m) (?bs F)) = concat (map (bb_insts m) (fun_blocks m F))" for F
  proof -
    have "concat (map (bb_insts ?m) (?bs F)) = concat (map (\<lambda>c. if c = ?b then bb_insts ?m ?b @
        bb_insts ?m (next_bb m) @ bb_insts ?m (Suc (next_bb m)) else bb_insts ?m c) (fun_blocks m F))"
      by (rule takeWhile_dropWhile_concat)
    also have "\<dots> = concat (map (bb_insts m) (fun_blocks m F))"
      using at keep by (intro arg_cong [of _ _ concat] map_cong refl) simp
    finally show ?thesis .
  qed
  have other: "map (bb_insts ?m) (fun_blocks m F) = map (bb_insts m) (fun_blocks m F)"
    if "F \<noteq> bb_fun m ?b" for F
  proof (intro map_cong refl)
    fix c assume c: "c \<in> set (fun_blocks m F)"
    with that blocks have "c \<noteq> ?b" by blast
    with c show "bb_insts ?m c = bb_insts m c" by (rule keep)
  qed
  show "filter (\<lambda>v. v < next_vid m) (fun_insts ?m F) = fun_insts m F" for F
  proof -
    have "fun_insts ?m F = fun_insts m F"
    proof (cases "F = bb_fun m ?b")
      case True
      show ?thesis unfolding fun_insts_def fb if_P [OF True] by (rule code)
    next
      case False
      with other [OF False] show ?thesis unfolding fun_insts_def fb if_not_P [OF False] by (simp only:)
    qed
    then show ?thesis using code_ok_old [OF ok] by (simp add: filter_id_conv)
  qed
  show "in_code ?m v" if v: "in_code m v" for v
  proof (cases "v \<in> set ?post")
    case True
    then have "inst_bb ?m v = Suc (next_bb m)" by (simp add: f)
    with True bF show ?thesis by (simp add: in_code_def parent_fun_def fb setbs) (simp add: f setbs)
  next
    case False
    from v have vb: "v \<in> set (bb_insts m (inst_bb m v))" "inst_bb m v \<in> set (fun_blocks m (bb_fun m (inst_bb m v)))"
      by (simp_all add: in_code_def parent_fun_def)
    with False have "inst_bb m v = ?b \<longrightarrow> v \<in> set ?pre" by (metis Un_iff parts set_append)
    moreover have "inst_bb m v < next_bb m" using vb blocks by blast
    ultimately show ?thesis using False vb by (auto simp: in_code_def parent_fun_def f)
  qed
qed

text \<open>The check splits the block and adds an unreachable instruction and a branch.\<close>

lemma extends_code_split_if:
  assumes s: "SplitBlockAndInsertIfThen c loc m = (u, m')" and loc: "code_ok m \<Longrightarrow> in_code m loc"
  shows "extends_code m m'" and "code_ok m \<Longrightarrow> in_code m' u"
proof -
  obtain m2 b where e: "emit (AtEnd (next_bb m)) (OtherInst ''unreachable'' []) (ctx_ty m ''void'') [] (split_block loc m) = (u, m2)"
    "emit (AtEnd (inst_bb m loc)) (Br (Some c)) (ctx_ty m ''void'') [] m2 = (b, m')"
    using s by (auto simp: SplitBlockAndInsertIfThen_def Let_def split: prod.splits)
  have nb: "next_bb m2 = Suc (Suc (next_bb m))"
    using e(1) by (auto simp: emit_def new_value_def Let_def split_fields)
  have low: "inst_bb m loc < next_bb m" if "code_ok m"
    using loc [OF that] that by (auto simp: in_code_def code_ok_def)
  have 1: "extends_code m (split_block loc m)" by (rule split_extends) (rule loc)
  then have ok1: "code_ok m \<Longrightarrow> code_ok (split_block loc m)" by (simp add: extends_code_def)
  have 2: "extends_code (split_block loc m) m2"
    by (rule extends_code_emit [OF e(1)]) (simp add: ip_ok_def split_fields)
  show "extends_code m m'"
  proof (cases "code_ok m")
    case True
    have "extends_code m2 m'"
      by (rule extends_code_emit [OF e(2)]) (use low [OF True] in \<open>simp add: ip_ok_def nb\<close>)
    with 1 2 show ?thesis using extends_code_trans by blast
  next
    case False
    have "next_vid m \<le> next_vid m'" using emit_fields(2) [OF e(1)] emit_fields(2) [OF e(2)] by (simp add: split_fields)
    with False show ?thesis by (simp add: extends_code_def)
  qed
  assume ok: "code_ok m"
  let ?F = "bb_fun m (inst_bb m loc)"
  have "in_code m loc" using loc ok by blast
  then have F: "inst_bb m loc \<in> set (fun_blocks m ?F)" by (simp add: in_code_def parent_fun_def)
  have "in_code m2 u"
    using emit_fields [OF e(1)] e(1) F
    by (auto simp: in_code_def parent_fun_def ip_block_def ip_insert_def emit_def new_value_def Let_def split_fields)
  moreover have "extends_code m2 m'"
    by (rule extends_code_emit [OF e(2)]) (use low [OF ok] in \<open>simp add: ip_ok_def nb\<close>)
  moreover have "code_ok m2" using 2 ok1 [OF ok] by (simp add: extends_code_def)
  ultimately show "in_code m' u" by (simp add: extends_code_def)
qed

end
