(* ===== verification/Mechanism.thy ===== *)
theory Mechanism
  imports ITargets
begin

text \<open>
  \<open>include/meminstrument/instrumentation_mechanisms/InstrumentationMechanism.h\<close> and the parts of
  \<open>lib/instrumentation_mechanisms/InstrumentationMechanism.cpp\<close> that do not build code: the
  interface of the instrumentation mechanisms as a record of operations on the state \<open>'s\<close> of a
  mechanism (the module it changes, its witness objects and its tables), the computation of the
  positions of pointers in aggregates, and the contract the witness strategies rely on.
\<close>

section \<open>The interface\<close>

record 's mechanism =
  im_name :: string
  im_invariantsAreChecks :: bool
  im_insertWitnesses :: "itarget \<Rightarrow> 's \<Rightarrow> (itarget \<times> 's) res"
  im_getRelocatedClone :: "wid \<Rightarrow> vid \<Rightarrow> 's \<Rightarrow> (wid \<times> 's) res"
  im_getWitnessPhi :: "vid \<Rightarrow> 's \<Rightarrow> (wid \<times> 's) res"
  im_addIncomingWitnessToPhi :: "witness_ptr \<Rightarrow> witness_ptr \<Rightarrow> bbid \<Rightarrow> 's \<Rightarrow> 's res"
  im_getWitnessSelect :: "vid \<Rightarrow> witness_ptr \<Rightarrow> witness_ptr \<Rightarrow> 's \<Rightarrow> (wid \<times> 's) res"
  im_materializeBounds :: "itarget \<Rightarrow> 's \<Rightarrow> 's res"
  im_insertCheck :: "itarget \<Rightarrow> 's \<Rightarrow> 's res"

section \<open>Pointers in aggregates\<close>

fun pointer_positions :: "ir \<Rightarrow> nat \<Rightarrow> tyid list \<Rightarrow> nat list" where
  "pointer_positions m i [] = []"
| "pointer_positions m i (t # ts) =
     (if is_pointer_ty (types m t) then i # pointer_positions m (Suc i) ts
      else pointer_positions m (Suc i) ts)"

definition computePointerIndices :: "ir \<Rightarrow> tyid \<Rightarrow> nat list res" where
  "computePointerIndices m ty =
     (if \<not> is_aggregate_ty (types m ty) then
        bindE (assertE (is_pointer_ty (types m ty)) ''ty->isPointerTy()'') (\<lambda>_. Inr [0])
      else
        bindE (case types m ty of
                 StructTy _ ts \<Rightarrow> Inr (pointer_positions m 0 ts)
               | ArrayTy el n \<Rightarrow>
                   bindE (assertE (is_pointer_ty (types m el)) ''getElementType()->isPointerTy()'')
                     (\<lambda>_. Inr [0..<n])
               | _ \<Rightarrow> Inr []) (\<lambda>indices.
        bindE (assertE (length indices > 0) ''indices.size() > 0'') (\<lambda>_. Inr indices)))"

fun pointer_operands :: "ir \<Rightarrow> nat \<Rightarrow> vid list \<Rightarrow> (nat, vid) omap" where
  "pointer_operands m i [] = []"
| "pointer_operands m i (v # vs) =
     (if is_pointer_ty (val_type m v) then (i, v) # pointer_operands m (Suc i) vs
      else pointer_operands m (Suc i) vs)"

definition getAggregatePointerIndicesAndValues :: "ir \<Rightarrow> vid \<Rightarrow> (nat, vid) omap res" where
  "getAggregatePointerIndicesAndValues m c =
     bindE (assertE (is_aggregate_ty (val_type m c)) ''constTy->isAggregateType()'') (\<lambda>_.
     bindE (computePointerIndices m (v_type (vals m c))) (\<lambda>indices.
     bindE (case get_const m c of
              Some UndefValue \<Rightarrow> Inr (fold (\<lambda>i r. omap_set i c r) indices [])
            | Some (AggregateZero elems) \<Rightarrow>
                foldE (\<lambda>i r. if i < length elems then Inr (omap_set i (elems ! i) r)
                             else Inl NullPointer) indices []
            | Some (ConstantAggregate ops) \<Rightarrow> Inr (pointer_operands m 0 ops)
            | _ \<Rightarrow> Inr []) (\<lambda>result.
     bindE (assertE (length result = length indices) ''result.size() == indices.size()'') (\<lambda>_.
     Inr result))))"

section \<open>The contract of a mechanism\<close>

text \<open>
  What the witness strategies rely on: a successful \<open>insertWitnesses\<close> stores at least one witness
  in the target and changes nothing else of it.
\<close>

locale witness_provider =
  fixes im :: "'s mechanism"
  assumes insertWitnesses_stores:
    "isValid T \<Longrightarrow> boundWitnesses T = [] \<Longrightarrow> im_insertWitnesses im T s = Inr (T', s') \<Longrightarrow>
       boundWitnesses T' \<noteq> [] \<and> omap_ok (boundWitnesses T') \<and>
       T' = T\<lparr>boundWitnesses := boundWitnesses T'\<rparr>"

section \<open>Facts about pointer positions\<close>

lemma pointer_positions_bounds: "j \<in> set (pointer_positions m i ts) \<Longrightarrow> i \<le> j \<and> j < i + length ts"
proof (induction ts arbitrary: i)
  case (Cons t ts)
  then show ?case by (fastforce split: if_splits)
qed simp

lemma pointer_positions_iff:
  "j \<in> set (pointer_positions m i ts) \<longleftrightarrow>
     i \<le> j \<and> j < i + length ts \<and> is_pointer_ty (types m (ts ! (j - i)))"
proof (induction ts arbitrary: i)
  case (Cons t ts)
  consider "j < i" | "j = i" | "Suc i \<le> j" by linarith
  then show ?case
  proof cases
    case 1
    with Cons.IH [of "Suc i"] show ?thesis by simp
  next
    case 2
    with Cons.IH [of "Suc i"] show ?thesis by simp
  next
    case 3
    then have "(t # ts) ! (j - i) = ts ! (j - Suc i)" by (simp add: nth_Cons')
    with 3 Cons.IH [of "Suc i"] show ?thesis by simp
  qed
qed simp

lemma sorted_pointer_positions: "sorted_wrt (<) (pointer_positions m i ts)"
proof (induction ts arbitrary: i)
  case (Cons t ts)
  then show ?case
    using pointer_positions_bounds [of _ m "Suc i" ts] by (auto simp: Suc_le_eq)
qed simp

lemma pointer_operands_bound: "k \<in> set (map fst (pointer_operands m i vs)) \<Longrightarrow> i \<le> k"
proof (induction vs arbitrary: i)
  case (Cons v vs)
  from Cons.prems have "k = i \<or> k \<in> set (map fst (pointer_operands m (Suc i) vs))"
    by (auto split: if_splits)
  with Cons.IH [of "Suc i"] show ?case by (meson Suc_leD order_refl)
qed simp

lemma omap_ok_pointer_operands: "omap_ok (pointer_operands m i vs)"
proof (induction vs arbitrary: i)
  case (Cons v vs)
  have "i < k" if "k \<in> set (map fst (pointer_operands m (Suc i) vs))" for k
    using pointer_operands_bound [OF that] by simp
  with Cons.IH [of "Suc i"] show ?case by (auto simp: omap_ok_def)
qed simp

lemma computePointerIndices_nonempty: "computePointerIndices m ty = Inr idx \<Longrightarrow> idx \<noteq> []"
  by (auto simp: computePointerIndices_def res_simps split: if_splits)

lemma getAggregatePointerIndicesAndValues_ok:
  assumes "getAggregatePointerIndicesAndValues m c = Inr r"
  shows "r \<noteq> []" and "omap_ok r"
proof -
  from assms obtain idx where idx: "computePointerIndices m (v_type (vals m c)) = Inr idx"
      and len: "length r = length idx"
    by (auto simp: getAggregatePointerIndicesAndValues_def res_simps)
  from computePointerIndices_nonempty [OF idx] len show "r \<noteq> []" by auto
  have fold_ok: "omap_ok (fold (\<lambda>i r. omap_set i c r) xs r0)" if "omap_ok r0" for xs r0
    using that by (induction xs arbitrary: r0) (auto simp: omap_ok_set)
  have foldE_ok: "omap_ok r1" if "foldE (\<lambda>i r. if i < length es then Inr (omap_set i (es ! i) r)
      else Inl NullPointer) xs [] = Inr r1" for es xs r1
    by (rule foldE_invariant [OF that, where I = omap_ok])
      (auto simp: omap_ok_set split: if_splits)
  let ?R = "case get_const m c of
      Some UndefValue \<Rightarrow> Inr (fold (\<lambda>i r. omap_set i c r) idx [])
    | Some (AggregateZero elems) \<Rightarrow>
        foldE (\<lambda>i r. if i < length elems then Inr (omap_set i (elems ! i) r)
                     else Inl NullPointer) idx []
    | Some (ConstantAggregate ops) \<Rightarrow> Inr (pointer_operands m 0 ops)
    | _ \<Rightarrow> Inr []"
  have "?R = Inr r"
    using assms idx by (auto simp: getAggregatePointerIndicesAndValues_def bindE_eq_Inr assertE_def
        split: if_splits)
  then show "omap_ok r"
    by (auto simp: omap_ok_pointer_operands fold_ok foldE_ok
        split: option.splits ir_constant.splits)
qed

text \<open>
  On a struct, the indices are the positions of its pointer fields, in order and without
  repetition; on an array of pointers, all positions.
\<close>

lemma computePointerIndices_struct:
  assumes "types m ty = StructTy nm ts" and "computePointerIndices m ty = Inr idx"
  shows "sorted_wrt (<) idx \<and> set idx = {i. i < length ts \<and> is_pointer_ty (types m (ts ! i))}"
proof -
  from assms have "idx = pointer_positions m 0 ts"
    by (auto simp: computePointerIndices_def res_simps)
  then show ?thesis
    by (auto simp: sorted_pointer_positions pointer_positions_iff)
qed

end
