(* ===== verification/Strategy.thy ===== *)
theory Strategy
  imports WitnessGraph Mechanism
begin

text \<open>
  \<open>lib/witness_strategies\<close>: how the witness graph is built and how witnesses are created along
  it. The virtual call from the helpers of \<open>WitnessStrategy\<close> back to \<open>addRequired\<close> is the
  argument \<open>rec\<close>; the recursion is over fuel.
\<close>

section \<open>Helpers of the base class\<close>

definition ws_getInternalNode :: "vid \<Rightarrow> vid \<Rightarrow> wgraph \<Rightarrow> (nid \<times> wgraph) res" where
  "ws_getInternalNode instr loc g = getInternalNodeOf (createIntermediateTarget instr loc) g"

definition ws_getSourceNode :: "vid \<Rightarrow> vid \<Rightarrow> wgraph \<Rightarrow> (nid \<times> wgraph) res" where
  "ws_getSourceNode instr loc g =
     bindE (getInternalNodeOf (createSourceTarget instr loc) g) (\<lambda>(n, g1).
     bindE (upd_node n (\<lambda>nd. nd\<lparr>HasAllRequirements := True\<rparr>) g1) (\<lambda>g2. Inr (n, g2)))"

definition requireRecursively ::
  "(nid \<Rightarrow> wgraph \<Rightarrow> wgraph res) \<Rightarrow> nid \<Rightarrow> vid \<Rightarrow> vid \<Rightarrow> wgraph \<Rightarrow> wgraph res" where
  "requireRecursively rec node req loc g =
     bindE (ws_getInternalNode req loc g) (\<lambda>(n, g1).
     bindE (rec n g1) (addRequirement node n))"

definition requireSource :: "nid \<Rightarrow> vid \<Rightarrow> vid \<Rightarrow> wgraph \<Rightarrow> wgraph res" where
  "requireSource node req loc g =
     bindE (ws_getSourceNode req loc g) (\<lambda>(n, g1).
     bindE (assertE (n \<noteq> node) ''NewNode != Node'') (\<lambda>_.
     addRequirement node n g1))"

section \<open>NoneStrategy\<close>

definition none_addRequired :: "nid \<Rightarrow> wgraph \<Rightarrow> wgraph res" where
  "none_addRequired node = upd_node node (\<lambda>nd. nd\<lparr>HasAllRequirements := True\<rparr>)"

definition none_createWitness :: "'s mechanism \<Rightarrow> nid \<Rightarrow> wgraph \<times> 's \<Rightarrow> (wgraph \<times> 's) res" where
  "none_createWitness im node gs =
     (case gs of (g, s) \<Rightarrow>
     bindE (deref (nodes g) node) (\<lambda>nd.
     bindE (node_target g node) (\<lambda>T.
     bindE (hasBoundWitnesses T) (\<lambda>b.
     if b then Inr (g, s)
     else if needsNoBoundWitnesses T then Inr (g, s)
     else bindE (im_insertWitnesses im T s) (\<lambda>(T', s').
          Inr (set_target (Target nd) T' g, s'))))))"

section \<open>AfterInflowStrategy: requirements\<close>

fun getPointerOperands :: "nat \<Rightarrow> ir \<Rightarrow> vid \<Rightarrow> vid list res" where
  "getPointerOperands fuel m C =
     bindE (assertE (is_pointer_ty (val_type m C))
       ''getPointerOperands() called for non-pointer constant!'') (\<lambda>_.
     case get_const m C of
       Some GlobalVariable \<Rightarrow> Inr [C]
     | Some FunctionVal \<Rightarrow> Inr [C]
     | Some OtherGlobalValue \<Rightarrow> Inr [C]
     | Some UndefValue \<Rightarrow> Inr [C]
     | Some (AggregateZero _) \<Rightarrow> Inr [C]
     | Some OtherConstantData \<Rightarrow> Inr [C]
     | Some (ConstantExpr op ops) \<Rightarrow>
         (case op of
            CEGetElementPtr \<Rightarrow>
              (case ops of [] \<Rightarrow> Inl NullPointer
               | p # _ \<Rightarrow> (case fuel of 0 \<Rightarrow> Inl OutOfFuel | Suc f \<Rightarrow> getPointerOperands f m p))
          | CEBitCast \<Rightarrow>
              (case ops of [] \<Rightarrow> Inl NullPointer
               | p # _ \<Rightarrow> (case fuel of 0 \<Rightarrow> Inl OutOfFuel | Suc f \<Rightarrow> getPointerOperands f m p))
          | CEIntToPtr \<Rightarrow> Inr [C]
          | CEOther \<Rightarrow> Inl (UnreachableReached ''Unexpected constant expression encountered.''))
     | _ \<Rightarrow> Inl (UnreachableReached ''Unexpected constant value encountered.''))"

declare getPointerOperands.simps [simp del]

text \<open>
  The cases of \<open>addRequired\<close> for an instrumentee \<open>v\<close> that is the instruction \<open>i\<close>.
\<close>

definition require_phi ::
  "(nid \<Rightarrow> wgraph \<Rightarrow> wgraph res) \<Rightarrow> ir \<Rightarrow> nid \<Rightarrow> vid \<Rightarrow> (vid \<times> bbid) list \<Rightarrow> wgraph \<Rightarrow> wgraph res"
  where
  "require_phi rec m node v incoming g =
     bindE (ws_getInternalNode v v g) (\<lambda>(phiNode, g1).
     bindE (addRequirement node phiNode g1) (\<lambda>g2.
     bindE (deref (nodes g2) phiNode) (\<lambda>pnd.
     if HasAllRequirements pnd then Inr g2
     else bindE (upd_node phiNode (\<lambda>nd. nd\<lparr>HasAllRequirements := True\<rparr>) g2)
       (foldE (\<lambda>(inVal, inBB) g.
          bindE (block_back m inBB) (\<lambda>loc. requireRecursively rec phiNode inVal loc g))
        incoming))))"

definition require_inst ::
  "(nid \<Rightarrow> wgraph \<Rightarrow> wgraph res) \<Rightarrow> ir \<Rightarrow> nid \<Rightarrow> vid \<Rightarrow> instr \<Rightarrow> wgraph \<Rightarrow> wgraph res" where
  "require_inst rec m node v i g =
     (case i of
        Alloca _ _ \<Rightarrow> bindE (get_next_node m v) (\<lambda>loc. requireSource node v loc g)
      | Call _ _ \<Rightarrow> bindE (get_next_node m v) (\<lambda>loc. requireSource node v loc g)
      | LandingPad \<Rightarrow> bindE (get_next_node m v) (\<lambda>loc. requireSource node v loc g)
      | IntToPtr _ \<Rightarrow> bindE (get_next_node m v) (\<lambda>loc. requireSource node v loc g)
      | Load ptr \<Rightarrow>
          if \<not> hasVarArgLoadArg m v \<and> hasVarArgHandling m v \<and>
             \<not> isVarArgMetadataType m (v_type (vals m v))
          then requireRecursively rec node ptr v g
          else bindE (get_next_node m v) (\<lambda>loc. requireSource node v loc g)
      | Invoke _ normalDest \<Rightarrow>
          bindE (first_insertion_pt m normalDest) (\<lambda>loc. requireSource node v loc g)
      | PHI incoming \<Rightarrow> require_phi rec m node v incoming g
      | Select c t f \<Rightarrow>
          bindE (requireRecursively rec node t v g) (requireRecursively rec node f v)
      | GetElementPtr ptr _ _ \<Rightarrow> requireRecursively rec node ptr v g
      | BitCast op \<Rightarrow> requireRecursively rec node op v g
      | ExtractValue agg _ \<Rightarrow> requireRecursively rec node agg v g
      | InsertValue agg ins _ \<Rightarrow>
          bindE (requireRecursively rec node agg v g) (\<lambda>g1.
          if is_pointer_ty (val_type m ins) then requireRecursively rec node ins v g1 else Inr g1)
      | ExtractElement _ \<Rightarrow> Inl (ReportedError ''Vector instructions on pointers are unsupported.'')
      | InsertElement _ \<Rightarrow> Inl (ReportedError ''Vector instructions on pointers are unsupported.'')
      | ShuffleVector _ \<Rightarrow> Inl (ReportedError ''Vector instructions on pointers are unsupported.'')
      | _ \<Rightarrow> Inl (UnreachableReached ''Unknown instruction encountered.''))"

definition require_noninst ::
  "nat \<Rightarrow> ir \<Rightarrow> nid \<Rightarrow> itarget \<Rightarrow> vid \<Rightarrow> wgraph \<Rightarrow> wgraph res" where
  "require_noninst fuel m node T v g =
     bindE (getLocation T) (\<lambda>tloc.
     bindE (entry_loc m (parent_fun m tloc)) (\<lambda>entryLoc.
     case val_kind m v of
       Argument \<Rightarrow> requireSource node v entryLoc g
     | Const c \<Rightarrow>
         if is_aggregate_ty (val_type m v) then requireSource node v tloc g
         else if c = UndefValue then requireSource node v tloc g
         else bindE (getPointerOperands fuel m v)
                (\<lambda>pointers. foldE (\<lambda>p. requireSource node p entryLoc) pointers g)
     | _ \<Rightarrow> Inl (UnreachableReached ''Unexpected value operand encountered.'')))"

definition addRequired_body ::
  "nat \<Rightarrow> (nid \<Rightarrow> wgraph \<Rightarrow> wgraph res) \<Rightarrow> ir \<Rightarrow> nid \<Rightarrow> wgraph \<Rightarrow> wgraph res" where
  "addRequired_body fuel rec m node g =
     bindE (deref (nodes g) node) (\<lambda>nd.
     if HasAllRequirements nd then Inr g
     else
       bindE (upd_node node (\<lambda>nd. nd\<lparr>HasAllRequirements := True\<rparr>) g) (\<lambda>g1.
       bindE (node_target g1 node) (\<lambda>T.
       if isCallInvariantIT T then
         foldE (\<lambda>(i, v) g. bindE (getCall m T) (\<lambda>call. requireRecursively rec node v call g))
           (requiredArgs T) g1
       else
         bindE (hasInstrumentee T) (\<lambda>h.
         bindE (assertE h ''Target->hasInstrumentee()'') (\<lambda>_.
         bindE (getInstrumentee T) (\<lambda>v.
         case get_inst m v of
           Some i \<Rightarrow> require_inst rec m node v i g1
         | None \<Rightarrow> require_noninst fuel m node T v g1))))))"

primrec addRequired :: "nat \<Rightarrow> ir \<Rightarrow> nid \<Rightarrow> wgraph \<Rightarrow> wgraph res" where
  "addRequired 0 m node g = Inl OutOfFuel"
| "addRequired (Suc fuel) m node g = addRequired_body fuel (addRequired fuel m) m node g"

end
