(* ===== verification/FlagPropagation.thy ===== *)
theory FlagPropagation
  imports Demo
begin

text \<open>
  The worklist of \<open>WitnessGraph::propagateFlags\<close> stops and computes the least assignment of
  flags in which every required node has at least the flags of the nodes that require it.
\<close>

section \<open>Flag propagation computes the least solution\<close>

text \<open>
  Writing the joined flags back to the target of a live witness supplying node keeps the graph
  well formed and changes the target of no other node.
\<close>

definition join_at :: "nid \<Rightarrow> itarget \<Rightarrow> wgraph \<Rightarrow> wgraph" where
  "join_at s T g = (case nodes g s of None \<Rightarrow> g
     | Some nd \<Rightarrow> (case targets g (Target nd) of None \<Rightarrow> g
         | Some S \<Rightarrow> set_target (Target nd) (join_flags S T) g))"

lemma join_at_shape: "\<exists>ts. join_at s T g = g\<lparr>targets := ts\<rparr> \<and> dom ts = dom (targets g)"
proof (cases "nodes g s")
  case None
  then show ?thesis by (intro exI [of _ "targets g"]) (simp add: join_at_def)
next
  case (Some nd)
  show ?thesis
  proof (cases "targets g (Target nd)")
    case None
    with Some show ?thesis by (intro exI [of _ "targets g"]) (simp add: join_at_def)
  next
    case (Some S)
    with \<open>nodes g s = Some nd\<close> show ?thesis
      by (intro exI [of _ "(targets g)(Target nd \<mapsto> join_flags S T)"])
        (auto simp: join_at_def set_target_def)
  qed
qed

lemma join_at_fields [simp]:
  "nodes (join_at s T g) = nodes g" "InternalNodes (join_at s T g) = InternalNodes g"
  "ExternalNodes (join_at s T g) = ExternalNodes g" "RunningId (join_at s T g) = RunningId g"
  "next_tid (join_at s T g) = next_tid g" "dom (targets (join_at s T g)) = dom (targets g)"
  using join_at_shape [of s T g] by (elim exE conjE, simp)+

lemma join_at_derived [simp]:
  "req_of (join_at s T g) = req_of g" "edge (join_at s T g) = edge g"
  "all_nodes (join_at s T g) = all_nodes g"
  by (simp_all add: req_of_def edge_def all_nodes_def fun_eq_iff)

lemma tgt_of_join_at:
  assumes "wg_ok g" and "tgt_of g s = Some S"
  shows "tgt_of (join_at s T g) n = (if n = s then Some (join_flags S T) else tgt_of g n)"
proof -
  obtain nd where nd: "nodes g s = Some nd" "targets g (Target nd) = Some S"
    using assms(2) by (auto simp: tgt_of_def split: option.splits)
  show ?thesis
  proof (cases "nodes g n")
    case None
    with nd show ?thesis by (auto simp: tgt_of_def)
  next
    case (Some nd')
    have "Target nd' = Target nd \<longleftrightarrow> n = s"
      using wg_ok_inj [OF assms(1) Some nd(1)] Some nd(1) by auto
    with nd Some show ?thesis by (simp add: tgt_of_def join_at_def set_target_def)
  qed
qed

lemma wg_ok_join_at:
  assumes "wg_ok g" and "tgt_of g s = Some S"
  shows "wg_ok (join_at s T g)"
proof -
  note t = tgt_of_join_at [OF assms]
  show ?thesis
  proof (rule wg_okI)
    fix n U assume "tgt_of (join_at s T g) n = Some U"
    then show "isValid U"
      using wg_ok_valid [OF assms(1)] assms(2) by (auto simp: t split: if_splits)
  next
    fix n U assume "n \<in> set (InternalNodes (join_at s T g))" "tgt_of (join_at s T g) n = Some U"
    then show "isWitnessSupplyIT U"
      using wg_ok_supply [OF assms(1)] assms(2) by (auto simp: t split: if_splits)
  qed (use wg_okD [OF assms(1)] in \<open>simp_all\<close>)
qed

lemma propagate_succ_eq:
  assumes "wg_ok g" and "s \<in> set (req_of g n)" and "tgt_of g n = Some T"
    and "tgt_of g s = Some S"
  shows "propagate_succ n s (wl, g) =
    Inr (if flags_le T S then wl else wl @ [s], join_at s T g)"
proof -
  obtain sn where sn: "nodes g s = Some sn" "targets g (Target sn) = Some S" "isValid S"
    "isWitnessSupplyIT S"
    using wg_ok_edge [OF assms(1,2)] assms(4) by (metis option.inject)
  have "isValid T" using wg_ok_valid [OF assms(1,3)] .
  with sn have "joinFlags S T = Inr (\<not> flags_le T S, join_flags S T)"
    by (simp add: joinFlags_supply)
  moreover have "node_target g n = Inr T" using assms(3) by (simp add: node_target_eq_Inr)
  ultimately show ?thesis
    using sn by (simp add: propagate_succ_def join_at_def Let_def)
qed

text \<open>
  The invariant of the worklist: an edge whose flags do not agree yet starts at a node of the
  worklist, or is one of the edges \<open>X\<close> still to be processed; and every flag comes from a flag of
  the initial graph \<open>g0\<close> along requirements.
\<close>

definition agree_except :: "wgraph \<Rightarrow> (nid \<times> nid) set \<Rightarrow> bool" where
  "agree_except g X \<longleftrightarrow>
     (\<forall>n s N S. edge g n s \<longrightarrow> (n, s) \<notin> X \<longrightarrow> tgt_of g n = Some N \<longrightarrow> tgt_of g s = Some S \<longrightarrow>
        flags_le N S)"

definition justified :: "wgraph \<Rightarrow> wgraph \<Rightarrow> bool" where
  "justified g0 g \<longleftrightarrow>
     (\<forall>n N k. tgt_of g n = Some N \<longrightarrow> k < 4 \<longrightarrow> it_flags N ! k \<longrightarrow>
        (\<exists>n0 N0. (edge g0)\<^sup>*\<^sup>* n0 n \<and> tgt_of g0 n0 = Some N0 \<and> it_flags N0 ! k))"

definition flags_grow :: "wgraph \<Rightarrow> wgraph \<Rightarrow> bool" where
  "flags_grow g0 g \<longleftrightarrow>
     (\<forall>n N0. tgt_of g0 n = Some N0 \<longrightarrow> (\<exists>N. tgt_of g n = Some N \<and> flags_le N0 N))"

definition prop_inv :: "wgraph \<Rightarrow> nid list \<Rightarrow> (nid \<times> nid) set \<Rightarrow> wgraph \<Rightarrow> bool" where
  "prop_inv g0 wl X g \<longleftrightarrow>
     wg_ok g \<and> edge g = edge g0 \<and> req_of g = req_of g0 \<and> all_nodes g = all_nodes g0 \<and>
     InternalNodes g = InternalNodes g0 \<and>
     set wl \<subseteq> set (all_nodes g0) \<and> agree_except g ({(n, s). n \<in> set wl} \<union> X) \<and>
     justified g0 g \<and> flags_grow g0 g"

definition missing_flags :: "wgraph \<Rightarrow> nat" where
  "missing_flags g =
     (\<Sum>n \<in> set (InternalNodes g). case tgt_of g n of None \<Rightarrow> 0 | Some T \<Rightarrow> unset_flags T)"

lemma missing_flags_join_at:
  assumes "wg_ok g" and "tgt_of g s = Some S" and "s \<in> set (InternalNodes g)"
    and "isWitnessSupplyIT S"
  shows "missing_flags (join_at s T g) + (if flags_le T S then 0 else 1) \<le> missing_flags g"
proof -
  let ?I = "set (InternalNodes g)"
  let ?f = "\<lambda>h n. case tgt_of h n of None \<Rightarrow> 0 | Some T \<Rightarrow> unset_flags T"
  have "sum (?f (join_at s T g)) (?I - {s}) = sum (?f g) (?I - {s})"
    by (rule sum.cong) (auto simp: tgt_of_join_at [OF assms(1,2)])
  then have "missing_flags (join_at s T g) =
      unset_flags (join_flags S T) + sum (?f g) (?I - {s})"
    unfolding missing_flags_def join_at_fields
    by (subst sum.remove [OF _ assms(3)]) (simp_all add: tgt_of_join_at [OF assms(1,2)])
  moreover have "missing_flags g = unset_flags S + sum (?f g) (?I - {s})"
    unfolding missing_flags_def by (subst sum.remove [OF _ assms(3)]) (auto simp: assms(2))
  moreover have "unset_flags (join_flags S T) + (if flags_le T S then 0 else 1) \<le> unset_flags S"
    using unset_join_less [OF assms(4), of T] join_flags_id [OF assms(4), of T] by auto
  ultimately show ?thesis by simp
qed

lemma justified_join_at:
  assumes "wg_ok g" and "justified g0 g" and "edge g = edge g0" and "edge g n s"
    and "tgt_of g n = Some T" and "tgt_of g s = Some S" and "isWitnessSupplyIT S"
  shows "justified g0 (join_at s T g)"
proof -
  have "\<exists>n0 N0. (edge g0)\<^sup>*\<^sup>* n0 s \<and> tgt_of g0 n0 = Some N0 \<and> it_flags N0 ! k"
    if k: "k < 4" "it_flags (join_flags S T) ! k" for k
  proof -
    have len: "length (it_flags S) = 4" "length (it_flags T) = 4"
      by (simp_all add: it_flags_def)
    with k have "it_flags S ! k \<or> it_flags T ! k"
      by (simp add: flags_of_join [OF assms(7)])
    then show ?thesis
    proof
      assume "it_flags S ! k"
      with assms(2,6) k(1) show ?thesis unfolding justified_def by blast
    next
      assume "it_flags T ! k"
      with assms(2,5) k(1) obtain n0 N0
        where "(edge g0)\<^sup>*\<^sup>* n0 n" "tgt_of g0 n0 = Some N0" "it_flags N0 ! k"
        unfolding justified_def by blast
      moreover have "edge g0 n s" using assms(3,4) by simp
      ultimately show ?thesis by (meson rtranclp.rtrancl_into_rtrancl)
    qed
  qed
  then show ?thesis
    using assms(2) by (auto simp: justified_def tgt_of_join_at [OF assms(1,6)])
qed

lemma agree_except_join_at:
  assumes "wg_ok g" and "tgt_of g n = Some T" and "tgt_of g s = Some S" and "isWitnessSupplyIT S"
    and "agree_except g (W \<union> insert (n, s) X)"
    and "\<And>t. \<not> flags_le T S \<Longrightarrow> (s, t) \<in> W'" and "W \<subseteq> W'"
  shows "agree_except (join_at s T g) (W' \<union> X)"
  unfolding agree_except_def
proof (intro allI impI)
  fix a b A B
  assume e: "edge (join_at s T g) a b" "(a, b) \<notin> W' \<union> X"
    and A: "tgt_of (join_at s T g) a = Some A" and B: "tgt_of (join_at s T g) b = Some B"
  note t = tgt_of_join_at [OF assms(1,3)]
  show "flags_le A B"
  proof (cases "flags_le T S")
    case True
    then have same: "tgt_of (join_at s T g) = tgt_of g"
      using assms(3) join_flags_id [OF assms(4)] by (auto simp: t fun_eq_iff)
    show ?thesis
    proof (cases "(a, b) = (n, s)")
      case True
      with \<open>flags_le T S\<close> A B assms(2,3) same show ?thesis by simp
    next
      case False
      with e A B same assms(5,7) show ?thesis by (auto simp: agree_except_def)
    qed
  next
    case False
    have "a \<noteq> s" using assms(6) [OF False] e(2) by auto
    then have A': "tgt_of g a = Some A" using A by (simp add: t)
    show ?thesis
    proof (cases "b = s")
      case True
      show ?thesis
      proof (cases "a = n")
        case True
        then have "A = T" using A' assms(2) by simp
        moreover have "B = join_flags S T" using B \<open>b = s\<close> by (simp add: t)
        ultimately show ?thesis using join_flags_upper(2) [OF assms(4)] by simp
      next
        case False
        then have "flags_le A S"
          using e A' \<open>b = s\<close> assms(3,5,7) by (auto simp: agree_except_def)
        with B \<open>b = s\<close> show ?thesis
          using join_flags_upper(1) [OF assms(4)] by (auto simp: t intro: flags_le_trans)
      qed
    next
      case False
      then have "tgt_of g b = Some B" using B by (simp add: t)
      with e A' False assms(5,7) show ?thesis by (auto simp: agree_except_def)
    qed
  qed
qed

text \<open>Processing the outgoing edges of one node.\<close>

lemma propagate_node:
  assumes "prop_inv g0 wl ({n} \<times> set ss) g" and "set ss \<subseteq> set (req_of g0 n)"
    and "n \<in> set (all_nodes g0)"
  shows "\<exists>wl' g'. foldE (propagate_succ n) ss (wl, g) = Inr (wl', g') \<and> prop_inv g0 wl' {} g' \<and>
      length wl' + missing_flags g' \<le> length wl + missing_flags g"
  using assms
proof (induction ss arbitrary: wl g)
  case Nil
  then show ?case by (auto simp: prop_inv_def)
next
  case (Cons s ss)
  have inv: "wg_ok g" "edge g = edge g0" "req_of g = req_of g0" "all_nodes g = all_nodes g0"
      "InternalNodes g = InternalNodes g0" "set wl \<subseteq> set (all_nodes g0)"
      "agree_except g ({(n, s). n \<in> set wl} \<union> {n} \<times> set (s # ss))"
      "justified g0 g" "flags_grow g0 g"
    using Cons.prems(1) by (auto simp: prop_inv_def)
  have s: "s \<in> set (req_of g n)" using Cons.prems(2) inv(3) by simp
  then have e: "edge g n s" by (simp add: edge_def)
  obtain snd S where S: "nodes g s = Some snd" "s \<in> set (InternalNodes g)"
    "targets g (Target snd) = Some S" "tgt_of g s = Some S" "isValid S" "isWitnessSupplyIT S"
    using wg_ok_edge [OF inv(1) s] .
  obtain nd T where T: "nodes g n = Some nd" "tgt_of g n = Some T"
    using Cons.prems(3) inv(1,4) wg_ok_live [OF inv(1)] wg_ok_tgt [OF inv(1)] by (metis domD)
  let ?wl = "if flags_le T S then wl else wl @ [s]" and ?g = "join_at s T g"
  note step = propagate_succ_eq [OF inv(1) s T(2) S(4), of wl]
  have "prop_inv g0 ?wl ({n} \<times> set ss) ?g"
    unfolding prop_inv_def
  proof (intro conjI)
    show "wg_ok ?g" by (rule wg_ok_join_at [OF inv(1) S(4)])
    show "agree_except ?g ({(n, s). n \<in> set ?wl} \<union> {n} \<times> set ss)"
      by (rule agree_except_join_at [OF inv(1) T(2) S(4) S(6),
            where W = "{(n, s). n \<in> set wl}"]) (use inv(7) in \<open>auto simp: insert_Times_insert\<close>)
    show "justified g0 ?g"
      by (rule justified_join_at [OF inv(1,8,2) e T(2) S(4) S(6)])
    show "flags_grow g0 ?g"
      unfolding flags_grow_def
    proof (intro allI impI)
      fix a A0 assume "tgt_of g0 a = Some A0"
      with inv(9) obtain A where "tgt_of g a = Some A" "flags_le A0 A"
        by (auto simp: flags_grow_def)
      then show "\<exists>N. tgt_of ?g a = Some N \<and> flags_le A0 N"
        using join_flags_upper(1) [OF S(6)] S(4)
        by (auto simp: tgt_of_join_at [OF inv(1) S(4)] intro: flags_le_trans)
    qed
    show "set ?wl \<subseteq> set (all_nodes g0)"
    proof -
      have "s \<in> set (all_nodes g0)" using inv(4) S(2) by (metis UnCI all_nodes_def set_append)
      with inv(6) show ?thesis by auto
    qed
  qed (use inv in auto)
  then obtain wl' g' where rest: "foldE (propagate_succ n) ss (?wl, ?g) = Inr (wl', g')"
      "prop_inv g0 wl' {} g'" "length wl' + missing_flags g' \<le> length ?wl + missing_flags ?g"
    using Cons.IH [of ?wl ?g] Cons.prems(2,3) by auto
  have "length ?wl + missing_flags ?g \<le> length wl + missing_flags g"
    using missing_flags_join_at [OF inv(1) S(4) S(2) S(6), of T] by auto
  with rest step show ?case by auto
qed

lemma propagate_loop_ok:
  assumes "prop_inv g0 wl {} g" and "length wl + missing_flags g \<le> fuel"
  shows "\<exists>g'. propagate_loop fuel wl g = Inr g' \<and> prop_inv g0 [] {} g'"
  using assms
proof (induction fuel arbitrary: wl g)
  case (Suc fuel)
  show ?case
  proof (cases wl)
    case (Cons n wl')
    have inv: "wg_ok g" "all_nodes g = all_nodes g0" "n \<in> set (all_nodes g0)"
        "req_of g = req_of g0"
      using Suc.prems(1) Cons by (auto simp: prop_inv_def)
    then obtain nd where nd: "nodes g n = Some nd" using wg_ok_live [OF inv(1)] by (metis domD)
    have req: "requirements nd = req_of g0 n" using nd inv(4) by (metis option.simps(5) req_of_def)
    have agree: "agree_except g ({(a, s). a \<in> set wl'} \<union> {n} \<times> set (requirements nd))"
      unfolding agree_except_def
    proof (intro allI impI)
      fix a b A B
      assume e: "edge g a b" "(a, b) \<notin> {(a, s). a \<in> set wl'} \<union> {n} \<times> set (requirements nd)"
        and t: "tgt_of g a = Some A" "tgt_of g b = Some B"
      have "a \<noteq> n" using e req inv(4) by (auto simp: edge_def)
      with e have "(a, b) \<notin> {(a, s). a \<in> set wl} \<union> {}" by (auto simp: Cons)
      with Suc.prems(1) e(1) t show "flags_le A B"
        unfolding prop_inv_def agree_except_def by blast
    qed
    have "prop_inv g0 wl' ({n} \<times> set (requirements nd)) g"
      using Suc.prems(1) agree unfolding prop_inv_def Cons by auto
    then obtain wl'' g' where "foldE (propagate_succ n) (requirements nd) (wl', g) = Inr (wl'', g')"
        "prop_inv g0 wl'' {} g'" "length wl'' + missing_flags g' \<le> length wl' + missing_flags g"
      using propagate_node [of g0 wl' n "requirements nd" g] inv(3) req by auto
    with Suc.IH [of wl'' g'] Suc.prems(2) nd Cons show ?thesis by auto
  qed (use Suc.prems in auto)
qed auto

text \<open>
  The graph before propagation: only the external targets carry flags, as the witness supplying
  targets are created without.
\<close>

definition flags_fresh :: "wgraph \<Rightarrow> bool" where
  "flags_fresh g \<longleftrightarrow>
     (\<forall>n \<in> set (InternalNodes g). \<forall>T. tgt_of g n = Some T \<longrightarrow> \<not> list_ex id (it_flags T))"

lemma fresh_flags_le: "\<not> list_ex id (it_flags T) \<Longrightarrow> flags_le T S"
  by (auto simp: flags_le_iff it_flags_def)

lemma flags_le_nth: "flags_le S T \<Longrightarrow> k < 4 \<Longrightarrow> it_flags S ! k \<Longrightarrow> it_flags T ! k"
  by (auto simp: flags_le_def list_all2_conv_all_nth it_flags_def)

lemma propagate_start: "wg_ok g \<Longrightarrow> flags_fresh g \<Longrightarrow> prop_inv g (ExternalNodes g) {} g"
proof -
  assume ok: "wg_ok g" and fresh: "flags_fresh g"
  have "agree_except g ({(n, s). n \<in> set (ExternalNodes g)} \<union> {})"
    unfolding agree_except_def
  proof (intro allI impI)
    fix n s N S
    assume e: "edge g n s" "(n, s) \<notin> {(n, s). n \<in> set (ExternalNodes g)} \<union> {}"
      and N: "tgt_of g n = Some N" and "tgt_of g s = Some S"
    from N have "n \<in> dom (nodes g)" by (auto simp: tgt_of_def split: option.splits)
    with e(2) have "n \<in> set (InternalNodes g)" by (auto simp: wg_ok_dom [OF ok] all_nodes_def)
    with fresh N show "flags_le N S" by (auto simp: flags_fresh_def intro: fresh_flags_le)
  qed
  moreover have "justified g g" unfolding justified_def by blast
  moreover have "flags_grow g g" unfolding flags_grow_def by auto
  ultimately show ?thesis using ok by (auto simp: prop_inv_def all_nodes_def)
qed

lemma missing_flags_bound: "missing_flags g \<le> 4 * length (InternalNodes g)"
proof -
  have "missing_flags g \<le> (\<Sum>n \<in> set (InternalNodes g). 4)"
    unfolding missing_flags_def by (rule sum_mono) (auto simp: unset_flags_le split: option.splits)
  also have "\<dots> \<le> 4 * length (InternalNodes g)" using card_length by auto
  finally show ?thesis .
qed

lemma propagateFlags_inv:
  assumes "wg_ok g" and "flags_fresh g"
    and "length (ExternalNodes g) + 4 * length (InternalNodes g) \<le> fuel"
  shows "\<exists>g'. propagateFlags fuel g = Inr (g'\<lparr>AlreadyPropagated := True\<rparr>) \<and> prop_inv g [] {} g'"
proof -
  have "length (ExternalNodes g) + missing_flags g \<le> fuel"
    using assms(3) missing_flags_bound [of g] by linarith
  from propagate_loop_ok [OF propagate_start [OF assms(1,2)] this]
  show ?thesis by (auto simp: propagateFlags_def)
qed

lemma closed_flags_along:
  assumes "wg_ok g'" and "agree_except g' {}" and "(edge g')\<^sup>*\<^sup>* a b" and "tgt_of g' a = Some A"
  shows "\<exists>B. tgt_of g' b = Some B \<and> flags_le A B"
  using assms(3,4)
proof (induction rule: rtranclp_induct)
  case (step b c)
  then obtain B where "tgt_of g' b = Some B" "flags_le A B" by blast
  moreover obtain C where C: "tgt_of g' c = Some C"
    using wg_ok_edge [OF assms(1)] step.hyps(2) unfolding edge_def by blast
  ultimately show ?case
    using assms(2) step.hyps(2) unfolding agree_except_def by (blast intro: flags_le_trans)
qed auto

text \<open>
  C4: after \<open>propagateFlags\<close> a node carries a flag exactly if some node from which it is reachable
  along requirements carried it before.
\<close>

theorem propagateFlags_least_solution:
  assumes "wg_ok g" and "flags_fresh g"
    and "length (ExternalNodes g) + 4 * length (InternalNodes g) \<le> fuel"
  shows "\<exists>g'. propagateFlags fuel g = Inr g' \<and> AlreadyPropagated g' \<and> edge g' = edge g \<and>
    (\<forall>n. (tgt_of g' n = None) = (tgt_of g n = None)) \<and>
    (\<forall>n N k. tgt_of g' n = Some N \<longrightarrow> k < 4 \<longrightarrow>
       (it_flags N ! k \<longleftrightarrow>
        (\<exists>n0 N0. (edge g)\<^sup>*\<^sup>* n0 n \<and> tgt_of g n0 = Some N0 \<and> it_flags N0 ! k)))"
proof -
  obtain g' where run: "propagateFlags fuel g = Inr (g'\<lparr>AlreadyPropagated := True\<rparr>)"
      and inv: "prop_inv g [] {} g'"
    using propagateFlags_inv [OF assms] by blast
  have ok: "wg_ok g'" and e: "edge g' = edge g" and all: "all_nodes g' = all_nodes g"
    and agree: "agree_except g' {}" and just: "justified g g'" and grow: "flags_grow g g'"
    using inv by (auto simp: prop_inv_def)
  have live: "(tgt_of h n = None) = (n \<notin> set (all_nodes h))" if "wg_ok h" for h n
    using wg_ok_live [OF that] wg_ok_tgt [OF that]
    by (metis domD domIff option.distinct(1) option.simps(4) tgt_of_def)
  have "it_flags N ! k \<longleftrightarrow>
      (\<exists>n0 N0. (edge g)\<^sup>*\<^sup>* n0 n \<and> tgt_of g n0 = Some N0 \<and> it_flags N0 ! k)"
    if N: "tgt_of g' n = Some N" and k: "k < 4" for n N k
  proof
    assume "it_flags N ! k"
    with just N k show "\<exists>n0 N0. (edge g)\<^sup>*\<^sup>* n0 n \<and> tgt_of g n0 = Some N0 \<and> it_flags N0 ! k"
      by (auto simp: justified_def)
  next
    assume "\<exists>n0 N0. (edge g)\<^sup>*\<^sup>* n0 n \<and> tgt_of g n0 = Some N0 \<and> it_flags N0 ! k"
    then obtain n0 N0 where p: "(edge g')\<^sup>*\<^sup>* n0 n" "tgt_of g n0 = Some N0" "it_flags N0 ! k"
      using e by auto
    then obtain N1 where N1: "tgt_of g' n0 = Some N1" "flags_le N0 N1"
      using grow by (auto simp: flags_grow_def)
    with closed_flags_along [OF ok agree p(1) N1(1)] N have "flags_le N0 N"
      by (auto intro: flags_le_trans)
    with k p(3) show "it_flags N ! k" by (blast intro: flags_le_nth)
  qed
  with run e show ?thesis
    using live [OF ok] live [OF assms(1)] all by (intro exI [of _ "g'\<lparr>AlreadyPropagated := True\<rparr>"]) auto
qed

theorem propagateFlags_witness:
  "\<exists>g'. propagateFlags 10 (demo_graph demo_target) = Inr g' \<and> edge g' = edge (demo_graph demo_target)"
proof -
  have "isValid demo_target" by (simp add: demo_target_def mkITarget_def isValid_def)
  then have "wg_ok (demo_graph demo_target)" by (rule demo_graph_ok)
  moreover have "flags_fresh (demo_graph demo_target)"
    by (simp add: flags_fresh_def demo_graph_tgt demo_source_def it_ctor_defs it_flags_def isBoundsIT_def)
  ultimately show ?thesis
    using propagateFlags_least_solution [of "demo_graph demo_target" 10] by auto
qed

end
