(* ===== verification/CreateWitness.thy ===== *)
theory CreateWitness
  imports Strategy FlagPropagation
begin

text \<open>
  \<open>AfterInflowStrategy::createWitness\<close>: witnesses are created along the witness graph by a
  recursion over requirements. The state is the graph together with the state \<open>'s\<close> of the
  instrumentation mechanism \<open>im\<close>; the recursive call is the argument \<open>rec\<close> of the cases and
  the recursion is over fuel. \<open>noShare\<close> is the option \<open>mi-no-bounds-share\<close>.
\<close>

section \<open>The cases\<close>

type_synonym 's wstate = "wgraph \<times> 's"

definition ws_target :: "'s wstate \<Rightarrow> nid \<Rightarrow> itarget res" where
  "ws_target gs n = node_target (fst gs) n"

definition ws_update :: "nid \<Rightarrow> (itarget \<Rightarrow> itarget) \<Rightarrow> 's wstate \<Rightarrow> 's wstate res" where
  "ws_update n f gs =
     bindE (deref (nodes (fst gs)) n) (\<lambda>nd.
     bindE (deref (targets (fst gs)) (Target nd)) (\<lambda>T.
     Inr (set_target (Target nd) (f T) (fst gs), snd gs)))"

definition cw_insert :: "'s mechanism \<Rightarrow> nid \<Rightarrow> 's wstate \<Rightarrow> 's wstate res" where
  "cw_insert im node gs =
     bindE (ws_target gs node) (\<lambda>T.
     bindE (im_insertWitnesses im T (snd gs)) (\<lambda>(T', s).
     ws_update node (\<lambda>_. T') (fst gs, s)))"

text \<open>All arguments of a call invariant whose value is the instrumentee of the requirement.\<close>

definition call_witnesses ::
  "(nat, vid) omap \<Rightarrow> vid \<Rightarrow> witness_ptr \<Rightarrow> witness_map \<Rightarrow> witness_map" where
  "call_witnesses args v w ws =
     fold (\<lambda>(i, a) ws. if a = v then omap_set i w ws else ws) args ws"

definition cw_call ::
  "(nid \<Rightarrow> 's wstate \<Rightarrow> 's wstate res) \<Rightarrow> nid \<Rightarrow> (nat, vid) omap \<Rightarrow> nid list \<Rightarrow>
     's wstate \<Rightarrow> 's wstate res" where
  "cw_call rec node args reqs gs =
     bindE (foldE (\<lambda>requirement (witnesses, gs).
        bindE (rec requirement gs) (\<lambda>gs1.
        bindE (ws_target gs1 requirement) (\<lambda>R.
        bindE (getSingleBoundWitness R) (\<lambda>witness.
        bindE (getInstrumentee R) (\<lambda>v.
        let witnesses' = call_witnesses args v witness witnesses in
        bindE (ws_update node (setBoundWitnesses witnesses') gs1) (\<lambda>gs2.
        Inr (witnesses', gs2)))))))
      reqs ([], gs)) (\<lambda>(_, gs'). Inr gs')"

text \<open>\<open>witnesses[i]\<close> creates a null witness when there is none.\<close>

definition single_witness :: "ir \<Rightarrow> itarget \<Rightarrow> witness_map \<Rightarrow> witness_map res" where
  "single_witness m T witnesses =
     bindE (hasInstrumentee T) (\<lambda>h.
     if \<not> h then Inr witnesses
     else bindE (getInstrumentee T) (\<lambda>v.
       case get_inst m v of
         Some (ExtractValue _ indices) \<Rightarrow>
           bindE (assertE (length indices = 1) ''indices.size() == 1'') (\<lambda>_.
           Inr [(0, case map_of witnesses (indices ! 0) of None \<Rightarrow> None | Some w \<Rightarrow> w)])
       | _ \<Rightarrow> Inr witnesses))"

definition clone_witnesses ::
  "'s mechanism \<Rightarrow> vid \<Rightarrow> witness_map \<Rightarrow> 's \<Rightarrow> (witness_map \<times> 's) res" where
  "clone_witnesses im loc witnesses s =
     foldE (\<lambda>(i, w) (ws, s).
        case w of
          None \<Rightarrow> Inl NullPointer
        | Some w \<Rightarrow> bindE (im_getRelocatedClone im w loc s) (\<lambda>(w', s').
            Inr (omap_set i (Some w') ws, s')))
      witnesses ([], s)"

definition cw_single ::
  "bool \<Rightarrow> 's mechanism \<Rightarrow> ir \<Rightarrow> (nid \<Rightarrow> 's wstate \<Rightarrow> 's wstate res) \<Rightarrow> nid \<Rightarrow> nid \<Rightarrow>
     's wstate \<Rightarrow> 's wstate res" where
  "cw_single noShare im m rec node requirement gs =
     bindE (rec requirement gs) (\<lambda>gs1.
     bindE (ws_target gs1 requirement) (\<lambda>R.
     bindE (getBoundWitnesses R) (\<lambda>ws.
     bindE (ws_target gs1 node) (\<lambda>T.
     bindE (single_witness m T ws) (\<lambda>witnesses.
     if noShare then
       bindE (getLocation T) (\<lambda>loc.
       bindE (clone_witnesses im loc witnesses (snd gs1)) (\<lambda>(newWitnesses, s).
       ws_update node (setBoundWitnesses newWitnesses) (fst gs1, s)))
     else ws_update node (setBoundWitnesses witnesses) gs1)))))"

definition cw_insertvalue ::
  "(nid \<Rightarrow> 's wstate \<Rightarrow> 's wstate res) \<Rightarrow> nid \<Rightarrow> vid \<Rightarrow> nat list \<Rightarrow> nid list \<Rightarrow>
     's wstate \<Rightarrow> 's wstate res" where
  "cw_insertvalue rec node valOp indices reqs gs =
     bindE (assertE (length reqs = 2) ''Node->getRequiredNodes().size() == 2'') (\<lambda>_.
     bindE (foldE rec reqs gs) (\<lambda>gs1.
     bindE (ws_target gs1 (reqs ! 0)) (\<lambda>targetOne.
     bindE (ws_target gs1 (reqs ! 1)) (\<lambda>targetTwo.
     bindE (getInstrumentee targetOne) (\<lambda>v1.
     let valOpTarget = (if v1 = valOp then targetOne else targetTwo);
         aggrTarget = (if v1 = valOp then targetTwo else targetOne)
     in bindE (getInstrumentee valOpTarget) (\<lambda>v.
     bindE (assertE (v = valOp) ''valOpTarget->getInstrumentee() == valOp'') (\<lambda>_.
     bindE (assertE (length indices = 1) ''indices.size() == 1'') (\<lambda>_.
     bindE (getBoundWitnesses aggrTarget) (\<lambda>previousWitnesses.
     bindE (getSingleBoundWitness valOpTarget) (\<lambda>w.
     ws_update node
       (setBoundWitnesses (omap_set (indices ! 0) w previousWitnesses)) gs1))))))))))"

definition cw_phi ::
  "'s mechanism \<Rightarrow> ir \<Rightarrow> (nid \<Rightarrow> 's wstate \<Rightarrow> 's wstate res) \<Rightarrow> nid \<Rightarrow> vid \<Rightarrow>
     (vid \<times> bbid) list \<Rightarrow> nid list \<Rightarrow> 's wstate \<Rightarrow> 's wstate res" where
  "cw_phi im m rec node phi incoming reqs gs =
     bindE (assertE (length reqs = length incoming)
       ''Node->getRequiredNodes().size() == Phi->getNumIncomingValues()'') (\<lambda>_.
     bindE (if is_aggregate_ty (val_type m phi) then computePointerIndices m (v_type (vals m phi))
            else Inr [0]) (\<lambda>indices.
     bindE (foldE (\<lambda>index gs.
        bindE (im_getWitnessPhi im phi (snd gs)) (\<lambda>(w, s).
        ws_update node (setBoundWitness (Some w) index) (fst gs, s))) indices gs) (\<lambda>gs1.
     foldE (\<lambda>(reqNode, bb) gs.
        bindE (rec reqNode gs) (\<lambda>gs2.
        bindE (ws_target gs2 reqNode) (\<lambda>R.
        bindE (getBoundWitnesses R) (\<lambda>ws.
        foldE (\<lambda>(k, w) gs.
          bindE (ws_target gs node) (\<lambda>T.
          bindE (getBoundWitness T k) (\<lambda>phiWitness.
          bindE (im_addIncomingWitnessToPhi im phiWitness w bb (snd gs)) (\<lambda>s.
          Inr (fst gs, s))))) ws gs2))))
      (zip reqs (map snd incoming)) gs1)))"

definition cw_select ::
  "'s mechanism \<Rightarrow> (nid \<Rightarrow> 's wstate \<Rightarrow> 's wstate res) \<Rightarrow> nid \<Rightarrow> vid \<Rightarrow> nid list \<Rightarrow>
     's wstate \<Rightarrow> 's wstate res" where
  "cw_select im rec node sel reqs gs =
     bindE (assertE (length reqs = 2) ''Node->getRequiredNodes().size() == 2'') (\<lambda>_.
     bindE (foldE rec reqs gs) (\<lambda>gs1.
     bindE (ws_target gs1 (reqs ! 0)) (\<lambda>target1.
     bindE (ws_target gs1 (reqs ! 1)) (\<lambda>target2.
     bindE (getBoundWitnesses target1) (\<lambda>ws1.
     bindE (getBoundWitnesses target2) (\<lambda>ws2.
     bindE (assertE (length ws1 = length ws2) ''target1 and target2 witnesses'') (\<lambda>_.
     foldE (\<lambda>(k, wt1) gs.
        bindE (getBoundWitness target2 k) (\<lambda>wt2.
        bindE (im_getWitnessSelect im sel wt1 wt2 (snd gs)) (\<lambda>(w, s).
        ws_update node (setBoundWitness (Some w) k) (fst gs, s)))) ws1 gs1)))))))"

section \<open>The recursion\<close>

definition cw_many ::
  "'s mechanism \<Rightarrow> ir \<Rightarrow> (nid \<Rightarrow> 's wstate \<Rightarrow> 's wstate res) \<Rightarrow> nid \<Rightarrow> itarget \<Rightarrow> nid list \<Rightarrow>
     's wstate \<Rightarrow> 's wstate res" where
  "cw_many im m rec node T reqs gs =
     bindE (hasInstrumentee T) (\<lambda>h.
     bindE (assertE h ''Target->hasInstrumentee()'') (\<lambda>_.
     bindE (getInstrumentee T) (\<lambda>v.
     case get_inst m v of
       None \<Rightarrow> Inl (AssertionFailed ''Instrumentee'')
     | Some i \<Rightarrow>
        (case i of
           InsertValue _ valOp indices \<Rightarrow> cw_insertvalue rec node valOp indices reqs gs
         | PHI incoming \<Rightarrow> cw_phi im m rec node v incoming reqs gs
         | Select _ _ _ \<Rightarrow> cw_select im rec node v reqs gs
         | _ \<Rightarrow> Inl (UnreachableReached ''Invalid Node'')))))"

definition createWitness_body ::
  "bool \<Rightarrow> 's mechanism \<Rightarrow> ir \<Rightarrow> (nid \<Rightarrow> 's wstate \<Rightarrow> 's wstate res) \<Rightarrow> nid \<Rightarrow>
     's wstate \<Rightarrow> 's wstate res" where
  "createWitness_body noShare im m rec node gs =
     bindE (deref (nodes (fst gs)) node) (\<lambda>nd.
     bindE (ws_target gs node) (\<lambda>T.
     bindE (hasBoundWitnesses T) (\<lambda>b.
     if b then Inr gs
     else if needsNoBoundWitnesses T then Inr gs
     else case requirements nd of
       [] \<Rightarrow> cw_insert im node gs
     | reqs \<Rightarrow>
         if isCallInvariantIT T then cw_call rec node (requiredArgs T) reqs gs
         else if length reqs = 1 then cw_single noShare im m rec node (reqs ! 0) gs
         else cw_many im m rec node T reqs gs)))"

primrec createWitness ::
  "nat \<Rightarrow> bool \<Rightarrow> 's mechanism \<Rightarrow> ir \<Rightarrow> nid \<Rightarrow> 's wstate \<Rightarrow> 's wstate res" where
  "createWitness 0 noShare im m node gs = Inl OutOfFuel"
| "createWitness (Suc fuel) noShare im m node gs =
     createWitness_body noShare im m (createWitness fuel noShare im m) node gs"

text \<open>\<open>WitnessGraph::createWitnesses\<close>.\<close>

definition createWitnesses ::
  "nat \<Rightarrow> bool \<Rightarrow> 's mechanism \<Rightarrow> ir \<Rightarrow> 's wstate \<Rightarrow> 's wstate res" where
  "createWitnesses fuel noShare im m gs =
     bindE (assertE (AlreadyPropagated (fst gs)) ''AlreadyPropagated'') (\<lambda>_.
     foldE (createWitness fuel noShare im m) (ExternalNodes (fst gs)) gs)"

section \<open>Creating witnesses only adds witnesses\<close>

definition grow :: "wgraph \<Rightarrow> wgraph \<Rightarrow> bool" where
  "grow g g' \<longleftrightarrow>
     g'\<lparr>targets := targets g\<rparr> = g \<and> dom (targets g') = dom (targets g) \<and>
     (\<forall>t T. targets g t = Some T \<longrightarrow>
        (\<exists>ws. targets g' t = Some (T\<lparr>boundWitnesses := ws\<rparr>) \<and> (boundWitnesses T \<noteq> [] \<longrightarrow> ws \<noteq> [])))"

definition supplied :: "wgraph \<Rightarrow> nid \<Rightarrow> bool" where
  "supplied g n \<longleftrightarrow>
     (\<forall>T. tgt_of g n = Some T \<longrightarrow> needsNoBoundWitnesses T \<or> boundWitnesses T \<noteq> [])"

text \<open>
  What witness creation expects of a graph: requirements have witness supplying targets, and the
  requirements of a call invariant cover one of its arguments.
\<close>

definition creatable :: "wgraph \<Rightarrow> bool" where
  "creatable g \<longleftrightarrow>
     (\<forall>n r R. r \<in> set (req_of g n) \<longrightarrow> tgt_of g r = Some R \<longrightarrow> isWitnessSupplyIT R) \<and>
     (\<forall>n T. tgt_of g n = Some T \<longrightarrow> isCallInvariantIT T \<longrightarrow> req_of g n \<noteq> [] \<longrightarrow>
        (\<exists>r \<in> set (req_of g n). \<exists>R v. tgt_of g r = Some R \<and> instrumentee R = Some v \<and>
           v \<in> snd ` set (requiredArgs T)))"

lemma grow_refl [simp]: "grow g g"
proof -
  have "T\<lparr>boundWitnesses := boundWitnesses T\<rparr> = T" for T :: itarget by simp
  then show ?thesis unfolding grow_def by (metis surjective wgraph.surjective wgraph.update_convs(2))
qed

lemma grow_nodes: "grow g g' \<Longrightarrow> nodes g' = nodes g"
  unfolding grow_def by (metis wgraph.ext_inject wgraph.surjective wgraph.update_convs(2))

lemma grow_external: "grow g g' \<Longrightarrow> ExternalNodes g' = ExternalNodes g"
  unfolding grow_def by (metis wgraph.ext_inject wgraph.surjective wgraph.update_convs(2))

lemma grow_req: "grow g g' \<Longrightarrow> req_of g' n = req_of g n"
  by (simp add: req_of_def grow_nodes)

lemma grow_trans:
  assumes "grow g h" and "grow h k"
  shows "grow g k"
  unfolding grow_def
proof (intro conjI allI impI)
  have "h\<lparr>targets := targets g\<rparr> = g" "k\<lparr>targets := targets h\<rparr> = h"
    using assms by (simp_all add: grow_def)
  then show "k\<lparr>targets := targets g\<rparr> = g" by (metis wgraph.surjective wgraph.update_convs(2))
  show "dom (targets k) = dom (targets g)" using assms by (simp add: grow_def)
  fix t T assume "targets g t = Some T"
  then obtain ws where ws: "targets h t = Some (T\<lparr>boundWitnesses := ws\<rparr>)" "boundWitnesses T \<noteq> [] \<longrightarrow> ws \<noteq> []"
    using assms(1) unfolding grow_def by blast
  then obtain ws' where "targets k t = Some (T\<lparr>boundWitnesses := ws, boundWitnesses := ws'\<rparr>)"
    "ws \<noteq> [] \<longrightarrow> ws' \<noteq> []"
    using assms(2) unfolding grow_def by fastforce
  with ws(2) show "\<exists>ws. targets k t = Some (T\<lparr>boundWitnesses := ws\<rparr>) \<and> (boundWitnesses T \<noteq> [] \<longrightarrow> ws \<noteq> [])"
    by auto
qed

lemma grow_set:
  assumes "grow g0 g" and "targets g t = Some T"
    and "\<And>T0. targets g0 t = Some T0 \<Longrightarrow> boundWitnesses T0 \<noteq> [] \<Longrightarrow> ws \<noteq> []"
  shows "grow g0 (set_target t (T\<lparr>boundWitnesses := ws\<rparr>) g)"
  unfolding grow_def
proof (intro conjI allI impI)
  show "(set_target t (T\<lparr>boundWitnesses := ws\<rparr>) g)\<lparr>targets := targets g0\<rparr> = g0"
    using assms(1) by (simp add: grow_def set_target_def)
  show "dom (targets (set_target t (T\<lparr>boundWitnesses := ws\<rparr>) g)) = dom (targets g0)"
    using assms(1,2) by (auto simp: grow_def set_target_def)
  fix s S assume S: "targets g0 s = Some S"
  then obtain ws' where ws': "targets g s = Some (S\<lparr>boundWitnesses := ws'\<rparr>)" "boundWitnesses S \<noteq> [] \<longrightarrow> ws' \<noteq> []"
    using assms(1) unfolding grow_def by blast
  show "\<exists>ws'. targets (set_target t (T\<lparr>boundWitnesses := ws\<rparr>) g) s = Some (S\<lparr>boundWitnesses := ws'\<rparr>) \<and>
      (boundWitnesses S \<noteq> [] \<longrightarrow> ws' \<noteq> [])"
  proof (cases "s = t")
    case True
    with ws' assms(2) have "T = S\<lparr>boundWitnesses := ws'\<rparr>" by simp
    then show ?thesis using True S assms(3) by (auto simp: set_target_def)
  next
    case False
    then show ?thesis using ws' by (auto simp: set_target_def)
  qed
qed

lemma grow_tgt:
  assumes "grow g g'"
  shows "tgt_of g n = Some T \<Longrightarrow>
      \<exists>ws. tgt_of g' n = Some (T\<lparr>boundWitnesses := ws\<rparr>) \<and> (boundWitnesses T \<noteq> [] \<longrightarrow> ws \<noteq> [])"
    and "tgt_of g' n = Some T' \<Longrightarrow>
      \<exists>T ws. tgt_of g n = Some T \<and> T' = T\<lparr>boundWitnesses := ws\<rparr> \<and> (boundWitnesses T \<noteq> [] \<longrightarrow> ws \<noteq> [])"
proof -
  show 1: "\<exists>ws. tgt_of g' n = Some (T\<lparr>boundWitnesses := ws\<rparr>) \<and> (boundWitnesses T \<noteq> [] \<longrightarrow> ws \<noteq> [])"
    if T: "tgt_of g n = Some T" for T
  proof -
    obtain nd where nd: "nodes g n = Some nd" "targets g (Target nd) = Some T"
      using T by (auto simp: tgt_of_def split: option.splits)
    then show ?thesis
      using assms grow_nodes [OF assms] unfolding grow_def by (simp add: tgt_of_def)
  qed
  show "\<exists>T ws. tgt_of g n = Some T \<and> T' = T\<lparr>boundWitnesses := ws\<rparr> \<and> (boundWitnesses T \<noteq> [] \<longrightarrow> ws \<noteq> [])"
    if T': "tgt_of g' n = Some T'"
  proof -
    obtain nd where nd: "nodes g' n = Some nd" "targets g' (Target nd) = Some T'"
      using T' by (auto simp: tgt_of_def split: option.splits)
    then have "Target nd \<in> dom (targets g)" using assms by (auto simp: grow_def)
    then obtain T where "tgt_of g n = Some T"
      using nd grow_nodes [OF assms] by (auto simp: tgt_of_def)
    with 1 [OF this] T' show ?thesis by auto
  qed
qed

lemma grow_supplied: "grow g g' \<Longrightarrow> supplied g n \<Longrightarrow> supplied g' n"
proof -
  assume g: "grow g g'" and s: "supplied g n"
  show "supplied g' n"
    unfolding supplied_def
  proof (intro allI impI)
    fix T assume "tgt_of g' n = Some T"
    from grow_tgt(2) [OF g this] obtain T0 ws where T0: "tgt_of g n = Some T0"
      "T = T0\<lparr>boundWitnesses := ws\<rparr>" "boundWitnesses T0 \<noteq> [] \<longrightarrow> ws \<noteq> []" by blast
    with s have "needsNoBoundWitnesses T0 \<or> boundWitnesses T0 \<noteq> []" by (simp add: supplied_def)
    with T0 show "needsNoBoundWitnesses T \<or> boundWitnesses T \<noteq> []"
      by (auto simp: needsNoBoundWitnesses_def isCallInvariantIT_def)
  qed
qed

lemma grow_creatable:
  assumes g: "grow g g'" and c: "creatable g"
  shows "creatable g'"
  unfolding creatable_def
proof (intro conjI allI impI)
  fix n r R assume "r \<in> set (req_of g' n)" "tgt_of g' r = Some R"
  then obtain T ws where "r \<in> set (req_of g n)" "tgt_of g r = Some T" "R = T\<lparr>boundWitnesses := ws\<rparr>"
    using grow_req [OF g] grow_tgt(2) [OF g] by metis
  then show "isWitnessSupplyIT R" using c by (auto simp: creatable_def isWitnessSupplyIT_def)
next
  fix n T assume T: "tgt_of g' n = Some T" "isCallInvariantIT T" "req_of g' n \<noteq> []"
  obtain T0 ws where T0: "tgt_of g n = Some T0" "T = T0\<lparr>boundWitnesses := ws\<rparr>"
    using grow_tgt(2) [OF g T(1)] by blast
  then have "isCallInvariantIT T0" "req_of g n \<noteq> []" "requiredArgs T0 = requiredArgs T"
    using T grow_req [OF g] by (simp_all add: isCallInvariantIT_def)
  with c T0(1) obtain r R v where r: "r \<in> set (req_of g n)" "tgt_of g r = Some R" "instrumentee R = Some v"
    "v \<in> snd ` set (requiredArgs T)" unfolding creatable_def by metis
  from grow_tgt(1) [OF g r(2)] obtain ws where "tgt_of g' r = Some (R\<lparr>boundWitnesses := ws\<rparr>)" by blast
  with r grow_req [OF g] show "\<exists>r \<in> set (req_of g' n). \<exists>R v. tgt_of g' r = Some R \<and>
      instrumentee R = Some v \<and> v \<in> snd ` set (requiredArgs T)"
    by (intro bexI [of _ r]) auto
qed

lemma supply_needs: "isWitnessSupplyIT T \<Longrightarrow> \<not> needsNoBoundWitnesses T"
  by (auto simp: needsNoBoundWitnesses_def isWitnessSupplyIT_def isCallInvariantIT_def kind_order)

text \<open>The effect of storing witnesses in the target of a node that had none at the start.\<close>

lemma ws_update_grow:
  assumes g: "grow g0 (fst gs)" and T0: "tgt_of g0 node = Some T0" "boundWitnesses T0 = []"
    and f: "\<And>T. \<exists>ws. f T = T\<lparr>boundWitnesses := ws\<rparr>"
    and u: "ws_update node f gs = Inr gs'"
  shows "grow g0 (fst gs')" and "snd gs' = snd gs"
    and "\<exists>T. tgt_of (fst gs) node = Some T \<and> tgt_of (fst gs') node = Some (f T)"
proof -
  from u obtain nd T where nd: "nodes (fst gs) node = Some nd" and T: "targets (fst gs) (Target nd) = Some T"
    and gs': "gs' = (set_target (Target nd) (f T) (fst gs), snd gs)"
    by (auto simp: ws_update_def res_simps)
  obtain ws where ws: "f T = T\<lparr>boundWitnesses := ws\<rparr>" using f by blast
  have "targets g0 (Target nd) = Some T0"
    using T0(1) nd grow_nodes [OF g] by (simp add: tgt_of_def)
  then have "grow g0 (set_target (Target nd) (T\<lparr>boundWitnesses := ws\<rparr>) (fst gs))"
    using T0(2) by (intro grow_set [OF g T]) simp
  then show "grow g0 (fst gs')" by (simp add: gs' ws)
  show "snd gs' = snd gs" by (simp add: gs')
  show "\<exists>T. tgt_of (fst gs) node = Some T \<and> tgt_of (fst gs') node = Some (f T)"
    using nd T by (simp add: gs' tgt_of_def set_target_def)
qed

section \<open>Every case supplies the target\<close>

text \<open>What the recursive call is assumed to do.\<close>

definition rec_supplies :: "(nid \<Rightarrow> 's wstate \<Rightarrow> 's wstate res) \<Rightarrow> bool" where
  "rec_supplies rec \<longleftrightarrow>
     (\<forall>n gs gs'. creatable (fst gs) \<longrightarrow> rec n gs = Inr gs' \<longrightarrow>
        grow (fst gs) (fst gs') \<and> supplied (fst gs') n)"

lemma rec_suppliesD:
  assumes "rec_supplies rec" and "creatable g0" and "grow g0 (fst gs)" and "rec n gs = Inr gs'"
  shows "grow g0 (fst gs')" and "grow (fst gs) (fst gs')" and "supplied (fst gs') n"
proof -
  have "creatable (fst gs)" by (rule grow_creatable [OF assms(3,2)])
  from assms(1) [unfolded rec_supplies_def, rule_format, OF this assms(4)]
  show "grow (fst gs) (fst gs')" and "supplied (fst gs') n" by simp_all
  from grow_trans [OF assms(3) this(1)] show "grow g0 (fst gs')" .
qed

lemma rec_supplies_list:
  assumes "rec_supplies rec" and "creatable g0"
  shows "grow g0 (fst gs) \<Longrightarrow> foldE rec ns gs = Inr gs' \<Longrightarrow>
    grow g0 (fst gs') \<and> grow (fst gs) (fst gs') \<and> (\<forall>n \<in> set ns. supplied (fst gs') n)"
proof (induction ns arbitrary: gs)
  case (Cons n ns)
  from Cons.prems(2) obtain gs1 where 1: "rec n gs = Inr gs1" and 2: "foldE rec ns gs1 = Inr gs'"
    by (auto simp: res_simps)
  note r = rec_suppliesD [OF assms Cons.prems(1) 1]
  note IH = Cons.IH [OF r(1) 2]
  have g2: "grow (fst gs1) (fst gs')" using IH by blast
  have "grow (fst gs) (fst gs')" by (rule grow_trans [OF r(2) g2])
  moreover have "supplied (fst gs') n" by (rule grow_supplied [OF g2 r(3)])
  ultimately show ?case using IH by simp
qed simp

lemma call_witnesses_nonempty: "ws \<noteq> [] \<Longrightarrow> call_witnesses args v w ws \<noteq> []"
proof (induction args arbitrary: ws)
  case (Cons a args)
  obtain i x where a: "a = (i, x)" by (cases a)
  show ?case
    using Cons.IH [of "omap_set i w ws"] Cons.IH [of ws] Cons.prems by (simp add: a call_witnesses_def)
qed (simp add: call_witnesses_def)

lemma call_witnesses_hit: "v \<in> snd ` set args \<Longrightarrow> call_witnesses args v w ws \<noteq> []"
proof (induction args arbitrary: ws)
  case (Cons a args)
  obtain i x where a: "a = (i, x)" by (cases a)
  show ?case
  proof (cases "x = v")
    case True
    then show ?thesis
      using call_witnesses_nonempty [of "omap_set i w ws" args v w]
      by (simp add: a call_witnesses_def)
  next
    case False
    with Cons.prems a have "v \<in> snd ` set args" by auto
    from Cons.IH [OF this] False show ?thesis by (simp add: a call_witnesses_def)
  qed
qed simp

lemma setBoundWitnesses_form: "\<exists>ws'. setBoundWitnesses ws T = T\<lparr>boundWitnesses := ws'\<rparr>"
  by (auto simp: setBoundWitnesses_def)

lemma setBoundWitness_form: "\<exists>ws'. setBoundWitness w i T = T\<lparr>boundWitnesses := ws'\<rparr>"
  by (auto simp: setBoundWitness_def)

lemma supplied_set:
  "tgt_of g n = Some (setBoundWitnesses ws T) \<Longrightarrow> ws \<noteq> [] \<Longrightarrow> supplied g n"
  "tgt_of g n = Some (setBoundWitness w i T) \<Longrightarrow> supplied g n"
  by (auto simp: supplied_def setBoundWitnesses_def setBoundWitness_def)

lemma cw_call_loop:
  assumes rec: "rec_supplies rec" and c: "creatable g0"
    and T0: "tgt_of g0 node = Some T0" "boundWitnesses T0 = []"
  shows "foldE (\<lambda>requirement (witnesses, gs).
        bindE (rec requirement gs) (\<lambda>gs1.
        bindE (ws_target gs1 requirement) (\<lambda>R.
        bindE (getSingleBoundWitness R) (\<lambda>witness.
        bindE (getInstrumentee R) (\<lambda>v.
        let witnesses' = call_witnesses args v witness witnesses in
        bindE (ws_update node (setBoundWitnesses witnesses') gs1) (\<lambda>gs2.
        Inr (witnesses', gs2))))))) reqs (ws, gs) = Inr (ws', gs') \<Longrightarrow>
     grow g0 (fst gs) \<Longrightarrow>
     grow g0 (fst gs') \<and> (ws \<noteq> [] \<longrightarrow> ws' \<noteq> []) \<and>
     ((\<exists>r \<in> set reqs. \<exists>R v. tgt_of g0 r = Some R \<and> instrumentee R = Some v \<and>
        v \<in> snd ` set args) \<longrightarrow> ws' \<noteq> []) \<and>
     (reqs \<noteq> [] \<longrightarrow> ws' \<noteq> [] \<longrightarrow> supplied (fst gs') node)"
proof (induction reqs arbitrary: ws gs)
  case (Cons r reqs)
  from Cons.prems(1) obtain gs1 R w v gs2 where
    r: "rec r gs = Inr gs1" and R: "tgt_of (fst gs1) r = Some R" and v: "getInstrumentee R = Inr v"
    and u: "ws_update node (setBoundWitnesses (call_witnesses args v w ws)) gs1 = Inr gs2"
    and rest: "foldE (\<lambda>requirement (witnesses, gs).
        bindE (rec requirement gs) (\<lambda>gs1.
        bindE (ws_target gs1 requirement) (\<lambda>R.
        bindE (getSingleBoundWitness R) (\<lambda>witness.
        bindE (getInstrumentee R) (\<lambda>v.
        let witnesses' = call_witnesses args v witness witnesses in
        bindE (ws_update node (setBoundWitnesses witnesses') gs1) (\<lambda>gs2.
        Inr (witnesses', gs2))))))) reqs (call_witnesses args v w ws, gs2) = Inr (ws', gs')"
    by (auto simp: bindE_eq_Inr Let_def ws_target_def node_target_eq_Inr)
  let ?ws = "call_witnesses args v w ws"
  note g1 = rec_suppliesD [OF rec c Cons.prems(2) r]
  note g2 = ws_update_grow [OF g1(1) T0 setBoundWitnesses_form u]
  note IH = Cons.IH [OF rest g2(1)]
  have hit: "?ws \<noteq> []" if "tgt_of g0 r = Some R0" "instrumentee R0 = Some x" "x \<in> snd ` set args" for R0 x
  proof -
    from grow_tgt(2) [OF g1(1) R] that(1) have "instrumentee R = instrumentee R0" by auto
    with that(2) v have "v = x" by (auto simp: getInstrumentee_def res_simps split: option.splits)
    with that(3) show ?thesis using call_witnesses_hit by blast
  qed
  have sup: "supplied (fst gs') node" if "ws' \<noteq> []"
  proof (cases "reqs = []")
    case True
    with rest have "ws' = ?ws" "gs' = gs2" by simp_all
    with that g2(3) show ?thesis using supplied_set(1) by blast
  next
    case False
    with IH that show ?thesis by blast
  qed
  have ne: "ws' \<noteq> []" if "x \<in> set (r # reqs)" "tgt_of g0 x = Some Q" "instrumentee Q = Some y"
    "y \<in> snd ` set args" for x Q y
  proof (cases "x = r")
    case True
    then show ?thesis using hit [of Q y] that IH by simp
  next
    case False
    then show ?thesis using that IH by auto
  qed
  have "ws \<noteq> [] \<longrightarrow> ws' \<noteq> []" using IH call_witnesses_nonempty [of ws args v w] by blast
  then show ?case using IH ne sup by blast
qed simp

lemma cw_call_supplies:
  assumes rec: "rec_supplies rec" and c: "creatable (fst gs)"
    and T: "tgt_of (fst gs) node = Some T" "boundWitnesses T = []" "isCallInvariantIT T"
    and reqs: "req_of (fst gs) node = reqs" "reqs \<noteq> []"
    and r: "cw_call rec node (requiredArgs T) reqs gs = Inr gs'"
  shows "grow (fst gs) (fst gs') \<and> supplied (fst gs') node"
proof -
  from r obtain ws' where loop: "foldE (\<lambda>requirement (witnesses, gs).
        bindE (rec requirement gs) (\<lambda>gs1.
        bindE (ws_target gs1 requirement) (\<lambda>R.
        bindE (getSingleBoundWitness R) (\<lambda>witness.
        bindE (getInstrumentee R) (\<lambda>v.
        let witnesses' = call_witnesses (requiredArgs T) v witness witnesses in
        bindE (ws_update node (setBoundWitnesses witnesses') gs1) (\<lambda>gs2.
        Inr (witnesses', gs2))))))) reqs ([], gs) = Inr (ws', gs')"
    by (auto simp: cw_call_def bindE_eq_Inr)
  from cw_call_loop [OF rec c T(1,2) loop grow_refl] c T(1,3) reqs
  show ?thesis unfolding creatable_def by blast
qed

lemma single_witness_nonempty: "single_witness m T ws = Inr ws' \<Longrightarrow> ws \<noteq> [] \<Longrightarrow> ws' \<noteq> []"
proof (cases "instrumentee T")
  case (Some v)
  assume r: "single_witness m T ws = Inr ws'" "ws \<noteq> []"
  then have "isValid T" by (auto simp: single_witness_def hasInstrumentee_def res_simps)
  then have eq: "hasInstrumentee T = Inr True" "getInstrumentee T = Inr v"
    using Some by (simp_all add: hasInstrumentee_def getInstrumentee_def)
  show "ws' \<noteq> []"
  proof (cases "get_inst m v")
    case None
    then show ?thesis using r eq by (simp add: single_witness_def)
  next
    case (Some i)
    then show ?thesis using r eq
      by (cases i) (auto simp: single_witness_def assertE_def split: if_splits)
  qed
qed (auto simp: single_witness_def hasInstrumentee_def res_simps)

lemma clone_witnesses_nonempty:
  assumes "clone_witnesses im loc ws s = Inr (ws', s')" and "ws \<noteq> []"
  shows "ws' \<noteq> []"
proof -
  let ?f = "\<lambda>(i, w) (ws, s).
        case w of
          None \<Rightarrow> Inl NullPointer
        | Some w \<Rightarrow> bindE (im_getRelocatedClone im w loc s) (\<lambda>(w', s').
            Inr (omap_set i (Some w') ws, s'))"
  have *: "fst r' \<noteq> []" if "foldE ?f xs r = Inr r'" "xs \<noteq> [] \<or> fst r \<noteq> []" for xs r r'
    using that
  proof (induction xs arbitrary: r)
    case (Cons x xs)
    from Cons.prems(1) obtain r1 where 1: "?f x r = Inr r1" "foldE ?f xs r1 = Inr r'"
      by (auto simp: bindE_eq_Inr)
    from 1(1) have "fst r1 \<noteq> []" by (auto simp: bindE_eq_Inr split: prod.splits option.splits)
    with Cons.IH [OF 1(2)] show ?case by simp
  qed simp
  show ?thesis using * [of ws "([], s)" "(ws', s')"] assms by (simp add: clone_witnesses_def)
qed

lemma supplied_bw: "supplied g n \<Longrightarrow> tgt_of g n = Some R \<Longrightarrow> isWitnessSupplyIT R \<Longrightarrow> boundWitnesses R \<noteq> []"
  by (auto simp: supplied_def supply_needs)

lemma getBoundWitnesses_eq: "getBoundWitnesses R = Inr ws \<Longrightarrow> ws = boundWitnesses R"
  by (auto simp: getBoundWitnesses_def res_simps)

lemma creatable_req:
  "creatable g0 \<Longrightarrow> grow g0 g \<Longrightarrow> r \<in> set (req_of g0 n) \<Longrightarrow> tgt_of g r = Some R \<Longrightarrow> isWitnessSupplyIT R"
  using grow_creatable [of g0 g] grow_req [of g0 g n] unfolding creatable_def by metis

lemma cw_single_supplies:
  assumes rec: "rec_supplies rec" and c: "creatable (fst gs)"
    and T: "tgt_of (fst gs) node = Some T" "boundWitnesses T = []"
    and req: "q \<in> set (req_of (fst gs) node)"
    and r: "cw_single noShare im m rec node q gs = Inr gs'"
  shows "grow (fst gs) (fst gs') \<and> supplied (fst gs') node"
proof -
  from r obtain gs1 R ws T1 witnesses where
    1: "rec q gs = Inr gs1" and R: "tgt_of (fst gs1) q = Some R" "getBoundWitnesses R = Inr ws"
    and w: "single_witness m T1 ws = Inr witnesses"
    and upd: "(if noShare then
       bindE (getLocation T1) (\<lambda>loc.
       bindE (clone_witnesses im loc witnesses (snd gs1)) (\<lambda>(newWitnesses, s).
       ws_update node (setBoundWitnesses newWitnesses) (fst gs1, s)))
     else ws_update node (setBoundWitnesses witnesses) gs1) = Inr gs'"
    by (simp add: cw_single_def ws_target_def bindE_eq_Inr [of "rec q gs"] bindE_eq_Inr [of "node_target _ _"]
        bindE_eq_Inr [of "getBoundWitnesses _"] bindE_eq_Inr [of "single_witness _ _ _"] node_target_eq_Inr
        del: split_paired_Ex)
      blast
  note g1 = rec_suppliesD [OF rec c grow_refl 1]
  have "ws \<noteq> []"
    using supplied_bw [OF g1(3) R(1) creatable_req [OF c g1(1) req R(1)]] getBoundWitnesses_eq [OF R(2)] by simp
  with w have ne: "witnesses \<noteq> []" by (rule single_witness_nonempty)
  obtain ws' s where u: "ws' \<noteq> []" "ws_update node (setBoundWitnesses ws') (fst gs1, s) = Inr gs'"
  proof (cases noShare)
    case True
    with upd obtain loc ws' s where cl: "clone_witnesses im loc witnesses (snd gs1) = Inr (ws', s)"
      and u: "ws_update node (setBoundWitnesses ws') (fst gs1, s) = Inr gs'"
      by (auto simp: bindE_eq_Inr)
    show ?thesis by (rule that [OF clone_witnesses_nonempty [OF cl ne] u])
  next
    case False
    with upd have "ws_update node (setBoundWitnesses witnesses) (fst gs1, snd gs1) = Inr gs'" by simp
    with ne show ?thesis using that by blast
  qed
  have "grow (fst gs) (fst (fst gs1, s))" using g1(1) by simp
  note g2 = ws_update_grow [OF this T setBoundWitnesses_form u(2)]
  from g2(1,3) u(1) supplied_set(1) show ?thesis by blast
qed

lemma cw_insertvalue_supplies:
  assumes rec: "rec_supplies rec" and c: "creatable (fst gs)"
    and T: "tgt_of (fst gs) node = Some T" "boundWitnesses T = []"
    and r: "cw_insertvalue rec node valOp indices reqs gs = Inr gs'"
  shows "grow (fst gs) (fst gs') \<and> supplied (fst gs') node"
proof -
  from r obtain gs1 ws where 1: "foldE rec reqs gs = Inr gs1"
    and u: "ws_update node (setBoundWitnesses ws) gs1 = Inr gs'" "ws \<noteq> []"
    unfolding cw_insertvalue_def by (fastforce simp: bindE_eq_Inr Let_def)
  have "grow (fst gs) (fst gs1)" using rec_supplies_list [OF rec c grow_refl 1] by blast
  note g2 = ws_update_grow [OF this T setBoundWitnesses_form u(1)]
  from g2(1,3) u(2) supplied_set(1) show ?thesis by blast
qed

text \<open>A loop that stores a witness in every iteration.\<close>

lemma store_loop:
  assumes T: "tgt_of g0 node = Some T" "boundWitnesses T = []"
    and body: "\<And>x gs gs'. f x gs = Inr gs' \<Longrightarrow>
      \<exists>w i s. ws_update node (setBoundWitness w i) (fst gs, s) = Inr gs'"
  shows "grow g0 (fst gs) \<Longrightarrow> foldE f xs gs = Inr gs' \<Longrightarrow>
    grow g0 (fst gs') \<and> (xs \<noteq> [] \<or> supplied (fst gs) node \<longrightarrow> supplied (fst gs') node)"
proof (induction xs arbitrary: gs)
  case (Cons x xs)
  from Cons.prems(2) obtain gs1 where 1: "f x gs = Inr gs1" "foldE f xs gs1 = Inr gs'"
    by (auto simp: bindE_eq_Inr)
  from body [OF 1(1)] obtain w i s where u: "ws_update node (setBoundWitness w i) (fst gs, s) = Inr gs1"
    by blast
  have "grow g0 (fst (fst gs, s))" using Cons.prems(1) by simp
  note g2 = ws_update_grow [OF this T setBoundWitness_form u]
  from g2(3) supplied_set(2) have "supplied (fst gs1) node" by blast
  with Cons.IH [OF g2(1) 1(2)] show ?case by blast
qed simp

lemma cw_select_supplies:
  assumes rec: "rec_supplies rec" and c: "creatable (fst gs)"
    and T: "tgt_of (fst gs) node = Some T" "boundWitnesses T = []"
    and reqs: "req_of (fst gs) node = reqs"
    and r: "cw_select im rec node sel reqs gs = Inr gs'"
  shows "grow (fst gs) (fst gs') \<and> supplied (fst gs') node"
proof -
  let ?f = "\<lambda>t2 (k, wt1) gs.
        bindE (getBoundWitness t2 k) (\<lambda>wt2.
        bindE (im_getWitnessSelect im sel wt1 wt2 (snd gs)) (\<lambda>(w, s).
        ws_update node (setBoundWitness (Some w) k) (fst gs, s)))"
  from r obtain gs1 t1 t2 ws1 where len: "length reqs = 2" and 1: "foldE rec reqs gs = Inr gs1"
    and t1: "tgt_of (fst gs1) (reqs ! 0) = Some t1" and ws1: "getBoundWitnesses t1 = Inr ws1"
    and loop: "foldE (?f t2) ws1 gs1 = Inr gs'"
    by (auto simp: cw_select_def bindE_eq_Inr ws_target_def node_target_eq_Inr assertE_eq_Inr)
  have g1: "grow (fst gs) (fst gs1)" "supplied (fst gs1) (reqs ! 0)"
    using rec_supplies_list [OF rec c grow_refl 1] len by simp_all
  have "reqs ! 0 \<in> set (req_of (fst gs) node)" using reqs len by simp
  from supplied_bw [OF g1(2) t1 creatable_req [OF c g1(1) this t1]]
  have "ws1 \<noteq> []" using getBoundWitnesses_eq [OF ws1] by simp
  moreover have "\<exists>w i s. ws_update node (setBoundWitness w i) (fst gs, s) = Inr gs'"
    if "?f t2 x gs = Inr gs'" for x gs gs'
    using that by (cases x) (auto simp: bindE_eq_Inr)
  ultimately show ?thesis using store_loop [OF T _ g1(1) loop] by blast
qed

lemma foldE_fst:
  assumes "\<And>x gs gs'. f x gs = Inr gs' \<Longrightarrow> fst gs' = fst gs"
  shows "foldE f xs gs = Inr gs' \<Longrightarrow> fst gs' = fst gs"
proof (induction xs arbitrary: gs)
  case (Cons x xs)
  from Cons.prems obtain gs1 where 1: "f x gs = Inr gs1" "foldE f xs gs1 = Inr gs'"
    by (auto simp: bindE_eq_Inr simp del: split_paired_Ex)
  then show ?case using Cons.IH [OF 1(2)] assms [OF 1(1)] by simp
qed simp

text \<open>Filling the operands of the witness phis.\<close>

definition phi_operand ::
  "'s mechanism \<Rightarrow> (nid \<Rightarrow> 's wstate \<Rightarrow> 's wstate res) \<Rightarrow> nid \<Rightarrow> nid \<times> bbid \<Rightarrow> 's wstate \<Rightarrow>
     's wstate res" where
  "phi_operand im rec node = (\<lambda>(reqNode, bb) gs.
        bindE (rec reqNode gs) (\<lambda>gs2.
        bindE (ws_target gs2 reqNode) (\<lambda>R.
        bindE (getBoundWitnesses R) (\<lambda>ws.
        foldE (\<lambda>(k, w) gs.
          bindE (ws_target gs node) (\<lambda>T.
          bindE (getBoundWitness T k) (\<lambda>phiWitness.
          bindE (im_addIncomingWitnessToPhi im phiWitness w bb (snd gs)) (\<lambda>s.
          Inr (fst gs, s))))) ws gs2))))"

lemma phi_operand_grow:
  assumes "rec_supplies rec" and "creatable g0" and "grow g0 (fst gs)"
    and r: "phi_operand im rec node x gs = Inr gs'"
  shows "grow g0 (fst gs')" and "grow (fst gs) (fst gs')"
proof -
  obtain q bb where x: "x = (q, bb)" by (cases x)
  from r obtain gs2 ws where 2: "rec q gs = Inr gs2" and
    inner: "foldE (\<lambda>(k, w) gs.
          bindE (ws_target gs node) (\<lambda>T.
          bindE (getBoundWitness T k) (\<lambda>phiWitness.
          bindE (im_addIncomingWitnessToPhi im phiWitness w bb (snd gs)) (\<lambda>s.
          Inr (fst gs, s))))) ws gs2 = Inr gs'"
    by (auto simp: x phi_operand_def bindE_eq_Inr simp del: split_paired_Ex)
  have "fst gs' = fst gs2"
    by (rule foldE_fst [OF _ inner]) (auto simp: bindE_eq_Inr)
  with rec_suppliesD [OF assms(1-3) 2] show "grow g0 (fst gs')" "grow (fst gs) (fst gs')" by simp_all
qed

lemma phi_operands_grow:
  assumes "rec_supplies rec" and "creatable g0"
  shows "grow g0 (fst gs) \<Longrightarrow> foldE (phi_operand im rec node) xs gs = Inr gs' \<Longrightarrow>
    grow g0 (fst gs') \<and> grow (fst gs) (fst gs')"
proof (induction xs arbitrary: gs)
  case (Cons x xs)
  from Cons.prems(2) obtain gs1 where 1: "phi_operand im rec node x gs = Inr gs1"
    "foldE (phi_operand im rec node) xs gs1 = Inr gs'"
    by (auto simp: bindE_eq_Inr simp del: split_paired_Ex)
  note g1 = phi_operand_grow [OF assms Cons.prems(1) 1(1)]
  from Cons.IH [OF g1(1) 1(2)] grow_trans [OF g1(2)] show ?case by blast
qed simp

lemma cw_phi_supplies:
  assumes rec: "rec_supplies rec" and c: "creatable (fst gs)"
    and T: "tgt_of (fst gs) node = Some T" "boundWitnesses T = []"
    and r: "cw_phi im m rec node phi incoming reqs gs = Inr gs'"
  shows "grow (fst gs) (fst gs') \<and> supplied (fst gs') node"
proof -
  let ?f = "\<lambda>index gs. bindE (im_getWitnessPhi im phi (snd gs)) (\<lambda>(w, s).
        ws_update node (setBoundWitness (Some w) index) (fst gs, s))"
  have "cw_phi im m rec node phi incoming reqs gs =
    bindE (assertE (length reqs = length incoming)
       ''Node->getRequiredNodes().size() == Phi->getNumIncomingValues()'') (\<lambda>_.
    bindE (if is_aggregate_ty (val_type m phi) then computePointerIndices m (v_type (vals m phi))
            else Inr [0]) (\<lambda>indices.
    bindE (foldE ?f indices gs)
      (foldE (phi_operand im rec node) (zip reqs (map snd incoming)))))"
    by (simp add: cw_phi_def phi_operand_def)
  with r obtain indices gs1 where
    idx: "(if is_aggregate_ty (val_type m phi) then computePointerIndices m (v_type (vals m phi))
       else Inr [0]) = Inr indices"
    and 1: "foldE ?f indices gs = Inr gs1"
    and 2: "foldE (phi_operand im rec node) (zip reqs (map snd incoming)) gs1 = Inr gs'"
    by (auto simp only: bindE_eq_Inr)
  have "indices \<noteq> []" using idx computePointerIndices_nonempty by (auto split: if_splits)
  moreover have body: "\<exists>w i s. ws_update node (setBoundWitness w i) (fst gs, s) = Inr gs'"
    if "?f x gs = Inr gs'" for x gs gs'
    using that by (auto simp: bindE_eq_Inr)
  have g1: "grow (fst gs) (fst gs1)" "indices \<noteq> [] \<longrightarrow> supplied (fst gs1) node"
    using store_loop [where f = ?f, OF T _ grow_refl 1] body by blast+
  note g2 = phi_operands_grow [OF rec c g1(1) 2]
  from g2 g1(2) calculation grow_supplied show ?thesis by blast
qed

lemma cw_many_supplies:
  assumes rec: "rec_supplies rec" and c: "creatable (fst gs)"
    and T: "tgt_of (fst gs) node = Some T" "boundWitnesses T = []"
    and reqs: "req_of (fst gs) node = reqs"
    and r: "cw_many im m rec node T reqs gs = Inr gs'"
  shows "grow (fst gs) (fst gs') \<and> supplied (fst gs') node"
proof -
  from r obtain v i where
    i: "(case i of
           InsertValue _ valOp indices \<Rightarrow> cw_insertvalue rec node valOp indices reqs gs
         | PHI incoming \<Rightarrow> cw_phi im m rec node v incoming reqs gs
         | Select _ _ _ \<Rightarrow> cw_select im rec node v reqs gs
         | _ \<Rightarrow> Inl (UnreachableReached ''Invalid Node'')) = Inr gs'"
    unfolding cw_many_def by (cases "get_inst m (the (instrumentee T))")
      (auto simp: bindE_eq_Inr split: option.splits)
  show ?thesis
  proof (cases i)
    case (InsertValue a x idx)
    then show ?thesis using i cw_insertvalue_supplies [OF rec c T] by simp
  next
    case (PHI incoming)
    then show ?thesis using i cw_phi_supplies [OF rec c T] by simp
  next
    case (Select a x y)
    then show ?thesis using i cw_select_supplies [OF rec c T reqs] by simp
  qed (use i in simp_all)
qed

context witness_provider
begin

lemma cw_insert_supplies:
  assumes T: "tgt_of (fst gs) node = Some T" "boundWitnesses T = []" "isValid T"
    and r: "cw_insert im node gs = Inr gs'"
  shows "grow (fst gs) (fst gs') \<and> supplied (fst gs') node"
proof -
  from T(1) have "ws_target gs node = Inr T" by (simp add: ws_target_def node_target_eq_Inr)
  with r obtain T' s where ins: "im_insertWitnesses im T (snd gs) = Inr (T', s)"
    and u: "ws_update node (\<lambda>_. T') (fst gs, s) = Inr gs'"
    by (auto simp: cw_insert_def bindE_eq_Inr)
  have law: "boundWitnesses T' \<noteq> []" "T' = T\<lparr>boundWitnesses := boundWitnesses T'\<rparr>"
    using insertWitnesses_stores [OF T(3,2) ins] by blast+
  from u T(1) obtain nd where nd: "nodes (fst gs) node = Some nd" "targets (fst gs) (Target nd) = Some T"
    and gs': "gs' = (set_target (Target nd) T' (fst gs), s)"
    by (auto simp: ws_update_def bindE_eq_Inr deref_eq_Inr tgt_of_def)
  have "grow (fst gs) (set_target (Target nd) (T\<lparr>boundWitnesses := boundWitnesses T'\<rparr>) (fst gs))"
    by (rule grow_set [OF grow_refl nd(2)]) (use law in simp)
  with law(2) gs' have "grow (fst gs) (fst gs')" by simp
  moreover have "tgt_of (fst gs') node = Some T'"
    using nd by (simp add: gs' tgt_of_def set_target_def)
  ultimately show ?thesis using law(1) by (simp add: supplied_def)
qed

lemma body_supplies:
  assumes rec: "rec_supplies rec"
  shows "rec_supplies (createWitness_body noShare im m rec)"
  unfolding rec_supplies_def
proof (intro allI impI)
  fix n gs gs' assume c: "creatable (fst gs)" and r: "createWitness_body noShare im m rec n gs = Inr gs'"
  from r obtain nd T where nd: "nodes (fst gs) n = Some nd" and T: "tgt_of (fst gs) n = Some T"
    and valid: "isValid T"
    by (auto simp: createWitness_body_def bindE_eq_Inr ws_target_def node_target_eq_Inr deref_eq_Inr
        hasBoundWitnesses_def assertE_eq_Inr)
  have body: "createWitness_body noShare im m rec n gs =
    (if boundWitnesses T \<noteq> [] then Inr gs
     else if needsNoBoundWitnesses T then Inr gs
     else case requirements nd of
       [] \<Rightarrow> cw_insert im n gs
     | reqs \<Rightarrow>
         if isCallInvariantIT T then cw_call rec n (requiredArgs T) reqs gs
         else if length reqs = 1 then cw_single noShare im m rec n (reqs ! 0) gs
         else cw_many im m rec n T reqs gs)"
  proof -
    have "ws_target gs n = Inr T" using T by (simp add: ws_target_def node_target_eq_Inr)
    then show ?thesis
      using nd valid by (simp add: createWitness_body_def hasBoundWitnesses_def)
  qed
  have req: "req_of (fst gs) n = requirements nd" using nd by (simp add: req_of_def)
  show "grow (fst gs) (fst gs') \<and> supplied (fst gs') n"
  proof (cases "boundWitnesses T \<noteq> [] \<or> needsNoBoundWitnesses T")
    case True
    then have "Inr gs = (Inr gs' :: 's wstate res)" using r True by (cases "boundWitnesses T = []") (simp_all add: body)
    then have "gs' = gs" by simp
    then show ?thesis using True T by (auto simp: supplied_def)
  next
    case False
    then have bw: "boundWitnesses T = []" by simp
    show ?thesis
    proof (cases "requirements nd")
      case Nil
      then show ?thesis using cw_insert_supplies [OF T bw valid] r body False by simp
    next
      case (Cons q qs)
      have q: "q \<in> set (req_of (fst gs) n)" using req Cons by simp
      show ?thesis
        using cw_call_supplies [OF rec c T bw _ req] cw_single_supplies [OF rec c T bw q]
          cw_many_supplies [OF rec c T bw req] r body False Cons by (auto split: if_splits)
    qed
  qed
qed

lemma createWitness_supplies: "rec_supplies (createWitness fuel noShare im m)"
proof (induction fuel)
  case (Suc f)
  then have "rec_supplies (createWitness_body noShare im m (createWitness f noShare im m))"
    by (rule body_supplies)
  then show ?case by (simp add: rec_supplies_def)
qed (simp add: rec_supplies_def)

lemma createWitnesses_supplies:
  assumes "creatable (fst gs)" and "createWitnesses fuel noShare im m gs = Inr gs'"
  shows "grow (fst gs) (fst gs') \<and> (\<forall>n \<in> set (ExternalNodes (fst gs)). supplied (fst gs') n)"
proof -
  from assms(2) have "foldE (createWitness fuel noShare im m) (ExternalNodes (fst gs)) gs = Inr gs'"
    by (auto simp: createWitnesses_def bindE_eq_Inr)
  from rec_supplies_list [OF createWitness_supplies assms(1) grow_refl this] show ?thesis by blast
qed

end

end
