(* ===== verification/WitnessTermination.thy ===== *)
theory WitnessTermination
  imports CreateWitness
begin

text \<open>
  \<open>createWitness\<close> terminates when every cycle of requirements goes through a phi: the phi stores
  its witnesses before it asks for those of its operands. The measure counts the phis without
  witnesses first and a rank of the nodes second.
\<close>

section \<open>The measure\<close>

definition phi_case :: "ir \<Rightarrow> wgraph \<Rightarrow> nid \<Rightarrow> bool" where
  "phi_case m g n \<longleftrightarrow>
     (case tgt_of g n of
        None \<Rightarrow> False
      | Some T \<Rightarrow> \<not> isCallInvariantIT T \<and> length (req_of g n) \<ge> 2 \<and>
          (case instrumentee T of None \<Rightarrow> False | Some v \<Rightarrow> is_phi m v))"

definition unwitnessed :: "wgraph \<Rightarrow> nid \<Rightarrow> bool" where
  "unwitnessed g n \<longleftrightarrow> (case tgt_of g n of None \<Rightarrow> False | Some T \<Rightarrow> boundWitnesses T = [])"

definition open_phis :: "ir \<Rightarrow> wgraph \<Rightarrow> nid set" where
  "open_phis m g = {n \<in> dom (nodes g). phi_case m g n \<and> unwitnessed g n}"

definition ranked :: "ir \<Rightarrow> (nid \<Rightarrow> nat) \<Rightarrow> nat \<Rightarrow> wgraph \<Rightarrow> bool" where
  "ranked m r R g \<longleftrightarrow>
     finite (dom (nodes g)) \<and>
     (\<forall>n \<in> dom (nodes g). r n \<le> R \<and> set (req_of g n) \<subseteq> dom (nodes g) \<and>
        (\<not> phi_case m g n \<longrightarrow> (\<forall>k \<in> set (req_of g n). r k < r n)))"

definition witness_measure :: "ir \<Rightarrow> (nid \<Rightarrow> nat) \<Rightarrow> nat \<Rightarrow> wgraph \<Rightarrow> nid \<Rightarrow> nat" where
  "witness_measure m r R g n = card (open_phis m g) * Suc R + r n"

lemma grow_phi_case: "grow g g' \<Longrightarrow> phi_case m g' n = phi_case m g n"
proof (cases "tgt_of g n")
  case None
  assume g: "grow g g'"
  then have "tgt_of g' n = None"
    using grow_tgt(2) [OF g, of n] None by (cases "tgt_of g' n") fastforce+
  with None show ?thesis by (simp add: phi_case_def)
next
  case (Some T)
  assume g: "grow g g'"
  from grow_tgt(1) [OF g Some] obtain ws where "tgt_of g' n = Some (T\<lparr>boundWitnesses := ws\<rparr>)" by blast
  then show ?thesis by (simp add: phi_case_def Some grow_req [OF g] isCallInvariantIT_def)
qed

lemma grow_unwitnessed: "grow g g' \<Longrightarrow> unwitnessed g' n \<Longrightarrow> unwitnessed g n"
  using grow_tgt(2) [of g g' n] by (fastforce simp: unwitnessed_def split: option.splits)

lemma grow_open_phis: "grow g g' \<Longrightarrow> open_phis m g' \<subseteq> open_phis m g"
  using grow_phi_case grow_unwitnessed by (auto simp: open_phis_def grow_nodes)

lemma ranked_grow: "grow g g' \<Longrightarrow> ranked m r R g \<Longrightarrow> ranked m r R g'"
  by (simp add: ranked_def grow_nodes grow_req grow_phi_case)

lemma open_phis_finite: "ranked m r R g \<Longrightarrow> finite (open_phis m g)"
  by (auto simp: ranked_def open_phis_def)

lemma grow_card:
  "grow g g' \<Longrightarrow> ranked m r R g \<Longrightarrow> card (open_phis m g') \<le> card (open_phis m g)"
  by (intro card_mono open_phis_finite grow_open_phis)

lemma measure_step:
  assumes "grow g g'" and "ranked m r R g" and "r k < r n"
  shows "witness_measure m r R g' k < witness_measure m r R g n"
proof -
  have "card (open_phis m g') * Suc R \<le> card (open_phis m g) * Suc R"
    by (intro mult_le_mono1 grow_card [OF assms(1,2)])
  with assms(3) show ?thesis unfolding witness_measure_def by linarith
qed

text \<open>Storing the witness of an open phi pays for visiting any node.\<close>

lemma measure_phi:
  assumes g: "grow g g'" and r: "ranked m r R g" and n: "n \<in> open_phis m g" "\<not> unwitnessed g' n"
    and k: "k \<in> dom (nodes g)"
  shows "witness_measure m r R g' k < witness_measure m r R g n"
proof -
  have "open_phis m g' \<subset> open_phis m g" using grow_open_phis [OF g] n by (auto simp: open_phis_def)
  then have "card (open_phis m g') < card (open_phis m g)"
    by (rule psubset_card_mono [OF open_phis_finite [OF r]])
  then have "Suc (card (open_phis m g')) * Suc R \<le> card (open_phis m g) * Suc R"
    by (intro mult_le_mono1) simp
  moreover have "r k \<le> R" using r k by (simp add: ranked_def)
  ultimately show ?thesis by (simp add: witness_measure_def)
qed

section \<open>No case runs out of fuel\<close>

text \<open>The mechanisms are loops over finite lists: none of their operations uses fuel.\<close>

locale total_provider = witness_provider +
  assumes insert_total: "im_insertWitnesses im T s \<noteq> Inl OutOfFuel"
    and clone_total: "im_getRelocatedClone im w0 l s \<noteq> Inl OutOfFuel"
    and phi_total: "im_getWitnessPhi im p s \<noteq> Inl OutOfFuel"
    and incoming_total: "im_addIncomingWitnessToPhi im pw w b s \<noteq> Inl OutOfFuel"
    and select_total: "im_getWitnessSelect im p pw w s \<noteq> Inl OutOfFuel"

definition rec_returns ::
  "ir \<Rightarrow> (nid \<Rightarrow> nat) \<Rightarrow> nat \<Rightarrow> nat \<Rightarrow> (nid \<Rightarrow> 's wstate \<Rightarrow> 's wstate res) \<Rightarrow> bool" where
  "rec_returns m r R N rec \<longleftrightarrow>
     (\<forall>n gs. creatable (fst gs) \<longrightarrow> ranked m r R (fst gs) \<longrightarrow> n \<in> dom (nodes (fst gs)) \<longrightarrow>
        witness_measure m r R (fst gs) n < N \<longrightarrow> rec n gs \<noteq> Inl OutOfFuel)"

lemma bindE_fuel:
  "m \<noteq> Inl OutOfFuel \<Longrightarrow> (\<And>x. m = Inr x \<Longrightarrow> f x \<noteq> Inl OutOfFuel) \<Longrightarrow> bindE m f \<noteq> Inl OutOfFuel"
  by (cases m) auto

lemma basic_fuel [simp]:
  "ws_target gs n \<noteq> Inl OutOfFuel" "ws_update n f gs \<noteq> Inl OutOfFuel"
  "deref h p \<noteq> Inl OutOfFuel" "assertE b msg \<noteq> Inl OutOfFuel"
  "getSingleBoundWitness T \<noteq> Inl OutOfFuel" "getInstrumentee T \<noteq> Inl OutOfFuel"
  "getBoundWitness T i \<noteq> Inl OutOfFuel" "getBoundWitnesses T \<noteq> Inl OutOfFuel"
  "hasInstrumentee T \<noteq> Inl OutOfFuel" "getLocation T \<noteq> Inl OutOfFuel"
  "hasBoundWitnesses T \<noteq> Inl OutOfFuel"
  by (auto simp: ws_target_def ws_update_def node_target_def deref_def assertE_def it_acc_defs omap_at_def
      bindE_def split: option.splits sum.splits if_splits)

lemma single_witness_fuel [simp]: "single_witness m T ws \<noteq> Inl OutOfFuel"
  by (auto simp: single_witness_def bindE_eq_Inl split: if_splits option.splits instr.splits)

lemma computePointerIndices_fuel [simp]: "computePointerIndices m ty \<noteq> Inl OutOfFuel"
  by (auto simp: computePointerIndices_def bindE_eq_Inl split: type_desc.splits if_splits)

lemma foldE_fuel:
  assumes "I s" and "\<And>x t. x \<in> set xs \<Longrightarrow> I t \<Longrightarrow> f x t \<noteq> Inl OutOfFuel"
    and "\<And>x t t'. x \<in> set xs \<Longrightarrow> I t \<Longrightarrow> f x t = Inr t' \<Longrightarrow> I t'"
  shows "foldE f xs s \<noteq> Inl OutOfFuel"
  using foldE_error [of f xs s OutOfFuel I] assms by blast

text \<open>The state of a case: the graph has grown from \<open>g0\<close>.\<close>

lemma rec_fuel:
  assumes "rec_returns m r R N rec" and "creatable g0" and "ranked m r R g0" and "grow g0 (fst gs)"
    and "k \<in> dom (nodes (fst gs))" and "witness_measure m r R (fst gs) k < N"
  shows "rec k gs \<noteq> Inl OutOfFuel"
  by (rule assms(1) [unfolded rec_returns_def, rule_format,
        OF grow_creatable [OF assms(4,2)] ranked_grow [OF assms(4,3)] assms(5,6)])

lemma rec_list_fuel:
  fixes gs :: "'s wstate"
  assumes sup: "rec_supplies rec" and ret: "rec_returns m r R N rec" and c: "creatable g0"
    and rk: "ranked m r R g0" and g: "grow g0 (fst gs)"
    and small: "\<And>k g. k \<in> set ks \<Longrightarrow> grow g0 g \<Longrightarrow> k \<in> dom (nodes g) \<and> witness_measure m r R g k < N"
  shows "foldE rec ks gs \<noteq> Inl OutOfFuel"
proof (rule foldE_fuel [where I = "\<lambda>gs. grow g0 (fst gs)"])
  show "grow g0 (fst gs)" by (rule g)
  fix k and t :: "'s wstate" assume k: "k \<in> set ks" "grow g0 (fst t)"
  show "rec k t \<noteq> Inl OutOfFuel"
    using small [OF k] by (intro rec_fuel [OF ret c rk k(2)]) simp_all
  show "grow g0 (fst t')" if "rec k t = Inr t'" for t'
    by (rule rec_suppliesD(1) [OF sup c k(2) that])
qed

text \<open>The nodes a case visits.\<close>

definition small_reqs :: "ir \<Rightarrow> (nid \<Rightarrow> nat) \<Rightarrow> nat \<Rightarrow> nat \<Rightarrow> wgraph \<Rightarrow> nid list \<Rightarrow> bool" where
  "small_reqs m r R N g0 ks \<longleftrightarrow>
     (\<forall>k g. k \<in> set ks \<longrightarrow> grow g0 g \<longrightarrow> k \<in> dom (nodes g) \<and> witness_measure m r R g k < N)"

lemma cw_call_fuel:
  fixes gs :: "'s wstate"
  assumes sup: "rec_supplies rec" and ret: "rec_returns m r R N rec" and c: "creatable (fst gs)"
    and rk: "ranked m r R (fst gs)" and small: "small_reqs m r R N (fst gs) reqs"
    and T: "tgt_of (fst gs) node = Some T" "boundWitnesses T = []"
  shows "cw_call rec node args reqs gs \<noteq> Inl OutOfFuel"
  unfolding cw_call_def
proof (rule bindE_fuel)
  let ?f = "\<lambda>requirement (witnesses, gs).
        bindE (rec requirement gs) (\<lambda>gs1.
        bindE (ws_target gs1 requirement) (\<lambda>R.
        bindE (getSingleBoundWitness R) (\<lambda>witness.
        bindE (getInstrumentee R) (\<lambda>v.
        let witnesses' = call_witnesses args v witness witnesses in
        bindE (ws_update node (setBoundWitnesses witnesses') gs1) (\<lambda>gs2.
        Inr (witnesses', gs2))))))"
  show "foldE ?f reqs ([], gs) \<noteq> Inl OutOfFuel"
  proof (rule foldE_fuel [where I = "\<lambda>(ws, s). grow (fst gs) (fst s)"])
    fix q and t :: "witness_map \<times> 's wstate" assume q: "q \<in> set reqs" and t: "case t of (ws, s) \<Rightarrow> grow (fst gs) (fst s)"
    obtain ws s where ts: "t = (ws, s)" by (cases t)
    then have gs: "grow (fst gs) (fst s)" using t by simp
    have "rec q s \<noteq> Inl OutOfFuel"
      using small q gs unfolding small_reqs_def by (intro rec_fuel [OF ret c rk gs]) blast+
    then show "?f q t \<noteq> Inl OutOfFuel"
      by (auto simp: ts bindE_eq_Inl Let_def)
    fix t' assume "?f q t = Inr t'"
    then obtain s1 ws' s2 where s1: "rec q s = Inr s1"
      and u: "ws_update node (setBoundWitnesses ws') s1 = Inr s2" and t': "t' = (ws', s2)"
      by (auto simp: ts bindE_eq_Inr Let_def simp del: split_paired_Ex)
    have "grow (fst gs) (fst s1)" by (rule rec_suppliesD(1) [OF sup c gs s1])
    from ws_update_grow(1) [OF this T setBoundWitnesses_form u]
    show "case t' of (ws, s) \<Rightarrow> grow (fst gs) (fst s)" by (simp add: t')
  qed simp
qed auto

lemma clone_witnesses_fuel:
  assumes "\<And>w l s. im_getRelocatedClone im w l s \<noteq> Inl OutOfFuel"
  shows "clone_witnesses im loc ws s \<noteq> Inl OutOfFuel"
  unfolding clone_witnesses_def
  by (rule foldE_fuel [where I = "\<lambda>_. True"])
    (auto simp: bindE_eq_Inl assms split: option.splits)

lemma cw_single_fuel:
  assumes ret: "rec_returns m r R N rec" and c: "creatable (fst gs)"
    and rk: "ranked m r R (fst gs)" and small: "small_reqs m r R N (fst gs) [q]"
    and clone: "\<And>w l s. im_getRelocatedClone im w l s \<noteq> Inl OutOfFuel"
  shows "cw_single noShare im ir rec node q gs \<noteq> Inl OutOfFuel"
proof -
  have "rec q gs \<noteq> Inl OutOfFuel"
    using small unfolding small_reqs_def by (intro rec_fuel [OF ret c rk grow_refl]) auto
  then show ?thesis
    by (auto simp: cw_single_def bindE_eq_Inl clone_witnesses_fuel [OF clone])
qed

lemma cw_insertvalue_fuel:
  assumes "foldE rec reqs gs \<noteq> Inl OutOfFuel"
  shows "cw_insertvalue rec node valOp indices reqs gs \<noteq> Inl OutOfFuel"
  using assms by (auto simp: cw_insertvalue_def bindE_eq_Inl Let_def)

lemma cw_select_fuel:
  assumes "foldE rec reqs gs \<noteq> Inl OutOfFuel"
    and "\<And>p pw w s. im_getWitnessSelect im p pw w s \<noteq> Inl OutOfFuel"
  shows "cw_select im rec node sel reqs gs \<noteq> Inl OutOfFuel"
proof -
  have "foldE (\<lambda>(k, wt1) gs.
        bindE (getBoundWitness t2 k) (\<lambda>wt2.
        bindE (im_getWitnessSelect im sel wt1 wt2 (snd gs)) (\<lambda>(w, s).
        ws_update node (setBoundWitness (Some w) k) (fst gs, s)))) ws gs1 \<noteq> Inl OutOfFuel" for t2 ws gs1
    by (rule foldE_fuel [where I = "\<lambda>_. True"]) (auto simp: bindE_eq_Inl assms(2))
  with assms(1) show ?thesis by (auto simp: cw_select_def bindE_eq_Inl)
qed

lemma phi_operand_fuel:
  assumes "rec q gs \<noteq> Inl OutOfFuel"
    and "\<And>pw w b s. im_addIncomingWitnessToPhi im pw w b s \<noteq> Inl OutOfFuel"
  shows "phi_operand im rec node (q, bb) gs \<noteq> Inl OutOfFuel"
proof -
  have "foldE (\<lambda>(k, w) gs.
          bindE (ws_target gs node) (\<lambda>T.
          bindE (getBoundWitness T k) (\<lambda>phiWitness.
          bindE (im_addIncomingWitnessToPhi im phiWitness w bb (snd gs)) (\<lambda>s.
          Inr (fst gs, s))))) ws gs2 \<noteq> Inl OutOfFuel" for ws gs2
    by (rule foldE_fuel [where I = "\<lambda>_. True"]) (auto simp: bindE_eq_Inl assms(2))
  with assms(1) show ?thesis by (auto simp: phi_operand_def bindE_eq_Inl)
qed

lemma cw_phi_fuel:
  fixes gs :: "'s wstate"
  assumes sup: "rec_supplies rec" and ret: "rec_returns m r R N rec" and c: "creatable (fst gs)"
    and rk: "ranked m r R (fst gs)"
    and T: "tgt_of (fst gs) node = Some T" "boundWitnesses T = []"
    and small: "\<And>k g. k \<in> set reqs \<Longrightarrow> grow (fst gs) g \<Longrightarrow> supplied g node \<Longrightarrow>
      k \<in> dom (nodes g) \<and> witness_measure m r R g k < N"
    and total: "\<And>p s. im_getWitnessPhi im p s \<noteq> Inl OutOfFuel"
      "\<And>pw w b s. im_addIncomingWitnessToPhi im pw w b s \<noteq> Inl OutOfFuel"
  shows "cw_phi im m rec node phi incoming reqs gs \<noteq> Inl OutOfFuel"
proof -
  let ?f = "\<lambda>index gs. bindE (im_getWitnessPhi im phi (snd gs)) (\<lambda>(w, s).
        ws_update node (setBoundWitness (Some w) index) (fst gs, s))"
  have body: "\<exists>w i s. ws_update node (setBoundWitness w i) (fst gs, s) = Inr gs'"
    if "?f x gs = Inr gs'" for x and gs gs' :: "'s wstate"
    using that by (auto simp: bindE_eq_Inr)
  have store: "foldE ?f indices gs \<noteq> Inl OutOfFuel" for indices and gs :: "'s wstate"
    by (rule foldE_fuel [where I = "\<lambda>_. True"]) (auto simp: bindE_eq_Inl total(1))
  have operands: "foldE (phi_operand im rec node) (zip reqs bbs) gs1 \<noteq> Inl OutOfFuel"
    if g1: "grow (fst gs) (fst gs1)" "supplied (fst gs1) node" for gs1 bbs
  proof (rule foldE_fuel [where I = "\<lambda>t. grow (fst gs) (fst t) \<and> supplied (fst t) node"])
    show "grow (fst gs) (fst gs1) \<and> supplied (fst gs1) node" using g1 by simp
    fix x and t :: "'s wstate" assume x: "x \<in> set (zip reqs bbs)"
      and t: "grow (fst gs) (fst t) \<and> supplied (fst t) node"
    obtain q bb where xe: "x = (q, bb)" by (cases x)
    then have q: "q \<in> set reqs" using x set_zip_leftD by metis
    have "rec q t \<noteq> Inl OutOfFuel"
      using small [OF q] t by (intro rec_fuel [OF ret c rk]) simp_all
    then show "phi_operand im rec node x t \<noteq> Inl OutOfFuel"
      unfolding xe by (rule phi_operand_fuel [OF _ total(2)])
    fix t' assume "phi_operand im rec node x t = Inr t'"
    from phi_operand_grow [OF sup c conjunct1 [OF t] this] grow_supplied t
    show "grow (fst gs) (fst t') \<and> supplied (fst t') node" by blast
  qed
  have eq: "cw_phi im m rec node phi incoming reqs gs =
    bindE (assertE (length reqs = length incoming)
       ''Node->getRequiredNodes().size() == Phi->getNumIncomingValues()'') (\<lambda>_.
    bindE (if is_aggregate_ty (val_type m phi) then computePointerIndices m (v_type (vals m phi))
            else Inr [0]) (\<lambda>indices.
    bindE (foldE ?f indices gs)
      (foldE (phi_operand im rec node) (zip reqs (map snd incoming)))))"
    by (simp add: cw_phi_def phi_operand_def)
  show ?thesis
    unfolding eq
  proof (intro bindE_fuel)
    fix u idx gs1 assume idx: "(if is_aggregate_ty (val_type m phi)
        then computePointerIndices m (v_type (vals m phi)) else Inr [0]) = Inr idx"
      and 1: "foldE ?f idx gs = Inr gs1"
    have "idx \<noteq> []" using idx computePointerIndices_nonempty by (auto split: if_splits)
    with store_loop [where f = ?f, OF T _ grow_refl 1] body
    have "grow (fst gs) (fst gs1)" "supplied (fst gs1) node" by blast+
    then show "foldE (phi_operand im rec node) (zip reqs (map snd incoming)) gs1 \<noteq> Inl OutOfFuel"
      by (rule operands)
  qed (use store in auto)
qed

context total_provider
begin

lemma body_returns:
  fixes rec :: "nid \<Rightarrow> 'a wstate \<Rightarrow> 'a wstate res"
  assumes sup: "rec_supplies rec" and ret: "rec_returns m r R N rec"
  shows "rec_returns m r R (Suc N) (createWitness_body noShare im m rec)"
  unfolding rec_returns_def
proof (intro allI impI)
  fix n and gs :: "'a wstate"
  assume c: "creatable (fst gs)" and rk: "ranked m r R (fst gs)" and n: "n \<in> dom (nodes (fst gs))"
    and N: "witness_measure m r R (fst gs) n < Suc N"
  obtain nd where nd: "nodes (fst gs) n = Some nd" using n by blast
  let ?reqs = "requirements nd"
  have req: "req_of (fst gs) n = ?reqs" using nd by (simp add: req_of_def)
  have live: "k \<in> dom (nodes g)" if "k \<in> set ?reqs" "grow (fst gs) g" for k g
  proof -
    have "set (req_of (fst gs) n) \<subseteq> dom (nodes (fst gs))" using rk n by (simp add: ranked_def)
    then show ?thesis using that req grow_nodes [OF that(2)] by auto
  qed
  have small: "small_reqs m r R N (fst gs) ?reqs" if "\<not> phi_case m (fst gs) n"
    unfolding small_reqs_def
  proof (intro allI impI conjI)
    fix k g assume k: "k \<in> set ?reqs" "grow (fst gs) g"
    show "k \<in> dom (nodes g)" by (rule live [OF k])
    have "r k < r n" using rk n that k(1) req by (simp add: ranked_def)
    from measure_step [OF k(2) rk this] N show "witness_measure m r R g k < N" by simp
  qed
  show "createWitness_body noShare im m rec n gs \<noteq> Inl OutOfFuel"
  proof (cases "ws_target gs n")
    case (Inl e)
    then show ?thesis using nd by (auto simp: createWitness_body_def bindE_eq_Inl)
  next
    case (Inr T)
    then have T: "tgt_of (fst gs) n = Some T" by (simp add: ws_target_def node_target_eq_Inr)
    let ?case = "case ?reqs of
       [] \<Rightarrow> cw_insert im n gs
     | reqs \<Rightarrow>
         if isCallInvariantIT T then cw_call rec n (requiredArgs T) reqs gs
         else if length reqs = 1 then cw_single noShare im m rec n (reqs ! 0) gs
         else cw_many im m rec n T reqs gs"
    have "?case \<noteq> Inl OutOfFuel" if bw: "boundWitnesses T = []"
    proof (cases "?reqs")
      case Nil
      then show ?thesis by (auto simp: cw_insert_def bindE_eq_Inl insert_total)
    next
      case (Cons q qs)
      have call: "cw_call rec n (requiredArgs T) ?reqs gs \<noteq> Inl OutOfFuel" if "isCallInvariantIT T"
        using that by (intro cw_call_fuel [OF sup ret c rk small T bw]) (simp add: phi_case_def T)
      have single: "cw_single noShare im m rec n q gs \<noteq> Inl OutOfFuel" if "length ?reqs = 1"
        using that small Cons
        by (intro cw_single_fuel [OF ret c rk _ clone_total]) (simp add: phi_case_def T req)
      have list: "foldE rec ?reqs gs \<noteq> Inl OutOfFuel" if "\<not> phi_case m (fst gs) n"
        using small [OF that] by (intro rec_list_fuel [OF sup ret c rk grow_refl]) (auto simp: small_reqs_def)
      have many: "cw_many im m rec n T ?reqs gs \<noteq> Inl OutOfFuel"
        if "\<not> isCallInvariantIT T" "length ?reqs \<noteq> 1"
        unfolding cw_many_def
      proof (intro bindE_fuel)
        fix h u v assume v: "getInstrumentee T = Inr v"
        then have ins: "instrumentee T = Some v"
          by (auto simp: getInstrumentee_def bindE_eq_Inr split: option.splits)
        have two: "2 \<le> length ?reqs" using that(2) Cons by (cases qs) auto
        have phi: "phi_case m (fst gs) n = is_phi m v"
          using T that(1) two ins by (simp add: phi_case_def req)
        have phiN: "k \<in> dom (nodes g) \<and> witness_measure m r R g k < N"
          if p: "is_phi m v" and k: "k \<in> set ?reqs" "grow (fst gs) g" "supplied g n" for k g
        proof
          show "k \<in> dom (nodes g)" by (rule live [OF k(1,2)])
          obtain T' where T': "tgt_of g n = Some T'" "isCallInvariantIT T' = isCallInvariantIT T"
            using grow_tgt(1) [OF k(2) T] by (auto simp: isCallInvariantIT_def)
          then have "\<not> unwitnessed g n"
            using k(3) \<open>\<not> isCallInvariantIT T\<close>
            by (auto simp: supplied_def unwitnessed_def needsNoBoundWitnesses_def)
          moreover have "n \<in> open_phis m (fst gs)"
            using n phi p T bw by (simp add: open_phis_def unwitnessed_def)
          ultimately have "witness_measure m r R g k < witness_measure m r R (fst gs) n"
            using live [OF k(1) grow_refl] by (intro measure_phi [OF k(2) rk]) auto
          with N show "witness_measure m r R g k < N" by simp
        qed
        have cphi: "cw_phi im m rec n v inc ?reqs gs \<noteq> Inl OutOfFuel"
          if "get_inst m v = Some (PHI inc)" for inc
          by (rule cw_phi_fuel [OF sup ret c rk T bw _ phi_total incoming_total], rule phiN)
            (use that in auto)
        show "(case get_inst m v of
             None \<Rightarrow> Inl (AssertionFailed ''Instrumentee'')
           | Some i \<Rightarrow>
              (case i of
                 InsertValue _ valOp indices \<Rightarrow> cw_insertvalue rec n valOp indices ?reqs gs
               | PHI incoming \<Rightarrow> cw_phi im m rec n v incoming ?reqs gs
               | Select _ _ _ \<Rightarrow> cw_select im rec n v ?reqs gs
               | _ \<Rightarrow> Inl (UnreachableReached ''Invalid Node''))) \<noteq> Inl OutOfFuel"
          using cphi cw_insertvalue_fuel [where gs = gs and reqs = ?reqs and rec = rec]
            cw_select_fuel [where gs = gs and reqs = ?reqs and rec = rec, OF _ select_total] list phi
          by (auto split: option.splits instr.splits)
      qed auto
      show ?thesis using call single many Cons by auto
    qed
    moreover have "boundWitnesses T = []" if "hasBoundWitnesses T = Inr False"
      using that by (simp add: hasBoundWitnesses_def bindE_eq_Inr)
    ultimately show ?thesis using nd Inr by (auto simp: createWitness_body_def bindE_eq_Inl)
  qed
qed

lemma createWitness_returns: "rec_returns m r R fuel (createWitness fuel noShare im m)"
proof (induction fuel)
  case (Suc f)
  from body_returns [OF createWitness_supplies Suc] show ?case
    by (simp add: rec_returns_def)
qed (simp add: rec_returns_def)

lemma createWitnesses_returns:
  assumes "creatable (fst gs)" and "ranked m r R (fst gs)"
    and "set (ExternalNodes (fst gs)) \<subseteq> dom (nodes (fst gs))"
    and "card (dom (nodes (fst gs))) * Suc R + R < fuel"
  shows "createWitnesses fuel noShare im m gs \<noteq> Inl OutOfFuel"
  unfolding createWitnesses_def
proof (intro bindE_fuel)
  have bound: "k \<in> dom (nodes g) \<and> witness_measure m r R g k < fuel"
    if "k \<in> set (ExternalNodes (fst gs))" "grow (fst gs) g" for k g
  proof
    show k: "k \<in> dom (nodes g)" using that assms(3) by (auto simp: grow_nodes)
    have rk: "ranked m r R g" by (rule ranked_grow [OF that(2) assms(2)])
    have "card (open_phis m g) \<le> card (dom (nodes g))"
      using rk by (intro card_mono) (auto simp: ranked_def open_phis_def)
    then have "card (open_phis m g) * Suc R \<le> card (dom (nodes (fst gs))) * Suc R"
      by (intro mult_le_mono1) (simp add: grow_nodes [OF that(2)])
    moreover have "r k \<le> R" using rk k by (simp add: ranked_def)
    ultimately show "witness_measure m r R g k < fuel"
      using assms(4) unfolding witness_measure_def by linarith
  qed
  show "foldE (createWitness fuel noShare im m) (ExternalNodes (fst gs)) gs \<noteq> Inl OutOfFuel"
    by (rule rec_list_fuel [OF createWitness_supplies createWitness_returns assms(1,2) grow_refl bound])
qed simp

end

end
