(* ===== verification/Splay.thy ===== *)
theory Splay
  imports Builder WitnessTermination
begin

text \<open>
  \<open>lib/instrumentation_mechanisms/SplayMechanism.cpp\<close>: the mechanism that keeps bounds in a
  splay tree at run time. A witness is a pointer value and the place it is valid from; explicit
  bounds are calls that look them up. The state holds the module, the witness objects and the
  table of bounds that are materialized already. Statistics counters are left out.
\<close>

section \<open>Witnesses\<close>

record splay_witness =
  WitnessValue :: vid
  UpperBound :: "vid option"
  LowerBound :: "vid option"
  Location :: vid

record splay_state =
  sp_mod :: ir
  sp_verbose :: bool
  sp_witnesses :: "wid \<rightharpoonup> splay_witness"
  sp_next_wid :: wid
  MaterializedBounds :: "vid \<times> vid \<times> nat \<rightharpoonup> vid option \<times> vid option"
  sp_check_idx :: nat
  sp_failFunction :: callee
  GlobalAllocFunction :: callee
  AllocFunction :: callee
  CheckInboundsFunction :: callee
  CheckDereferenceFunction :: callee
  GetUpperBoundFunction :: callee
  GetLowerBoundFunction :: callee
  ExtCheckCounterFunction :: callee

definition WitnessType :: "ir \<Rightarrow> tyid" where "WitnessType m = ctx_ty m ''i8*''"
definition PtrArgType :: "ir \<Rightarrow> tyid" where "PtrArgType m = ctx_ty m ''i8*''"
definition SizeType :: "ir \<Rightarrow> tyid" where "SizeType m = ctx_ty m ''i64''"

definition new_witness :: "vid \<Rightarrow> vid \<Rightarrow> splay_state \<Rightarrow> wid \<times> splay_state" where
  "new_witness v loc s =
     (sp_next_wid s,
      s\<lparr>sp_witnesses := (sp_witnesses s)(sp_next_wid s \<mapsto>
           \<lparr>WitnessValue = v, UpperBound = None, LowerBound = None, Location = loc\<rparr>),
        sp_next_wid := Suc (sp_next_wid s)\<rparr>)"

text \<open>\<open>cast<SplayWitness>(w.get())\<close>, which asserts that the pointer is not null.\<close>

definition cast_witness :: "witness_ptr \<Rightarrow> splay_state \<Rightarrow> (wid \<times> splay_witness) res" where
  "cast_witness w s =
     (case w of
        None \<Rightarrow> Inl (AssertionFailed ''cast<SplayWitness>'')
      | Some i \<Rightarrow> bindE (deref (sp_witnesses s) i) (\<lambda>W. Inr (i, W)))"

fun skip_phis :: "ir \<Rightarrow> vid list \<Rightarrow> vid res" where
  "skip_phis m [] = Inl NullPointer"
| "skip_phis m (v # vs) = (if is_phi m v then skip_phis m vs else Inr v)"

definition getInsertionLocation :: "ir \<Rightarrow> splay_witness \<Rightarrow> vid res" where
  "getInsertionLocation m W =
     skip_phis m (dropWhile (\<lambda>v. v \<noteq> Location W) (bb_insts m (inst_bb m (Location W))))"

definition hasBoundsMaterialized :: "splay_witness \<Rightarrow> bool" where
  "hasBoundsMaterialized W = (UpperBound W \<noteq> None \<and> LowerBound W \<noteq> None)"

section \<open>Inserting witnesses\<close>

definition agg_elem_ty :: "ir \<Rightarrow> tyid \<Rightarrow> nat \<Rightarrow> tyid" where
  "agg_elem_ty m ty i =
     (case types m ty of
        StructTy _ ts \<Rightarrow> if i < length ts then ts ! i else ty
      | ArrayTy el _ \<Rightarrow> el
      | _ \<Rightarrow> ty)"

definition lift_mod :: "(ir \<Rightarrow> ('a \<times> ir) res) \<Rightarrow> splay_state \<Rightarrow> ('a \<times> splay_state) res" where
  "lift_mod f s = bindE (f (sp_mod s)) (\<lambda>(x, m). Inr (x, s\<lparr>sp_mod := m\<rparr>))"

definition splay_witness_for ::
  "vid \<Rightarrow> nat \<Rightarrow> itarget \<times> splay_state \<Rightarrow> (itarget \<times> splay_state) res" where
  "splay_witness_for v index Ts =
     (case Ts of (T, s) \<Rightarrow>
     bindE (getLocation T) (\<lambda>loc.
     bindE (lift_mod (insertCast (WitnessType (sp_mod s)) v (Before loc) ''_witness'') s)
       (\<lambda>(castVal, s1).
     let (w, s2) = new_witness castVal loc s1 in Inr (setBoundWitness (Some w) index T, s2))))"

definition splay_extract ::
  "vid \<Rightarrow> nat \<Rightarrow> itarget \<times> splay_state \<Rightarrow> (itarget \<times> splay_state) res" where
  "splay_extract v index Ts =
     (case Ts of (T, s) \<Rightarrow>
     bindE (getLocation T) (\<lambda>loc.
     let m = sp_mod s;
         (ptr, m1) = emit_op (Before loc) ''extractvalue'' [v] (ExtractValue v [index])
                       (agg_elem_ty m (v_type (vals m v)) index) [] m
     in bindE (lift_mod (insertCastNoSuffix (WitnessType m) ptr (Before loc)) (s\<lparr>sp_mod := m1\<rparr>))
          (\<lambda>(castVal, s1).
        let (w, s2) = new_witness castVal loc s1 in Inr (setBoundWitness (Some w) index T, s2))))"

definition splay_insertWitnesses ::
  "itarget \<Rightarrow> splay_state \<Rightarrow> (itarget \<times> splay_state) res" where
  "splay_insertWitnesses T s =
     bindE (hasInstrumentee T) (\<lambda>h.
     bindE (assertE h ''Target.hasInstrumentee()'') (\<lambda>_.
     bindE (getInstrumentee T) (\<lambda>v.
     let m = sp_mod s in
     bindE (assertE (case get_inst m v of Some (ExtractValue _ _) \<Rightarrow> False | _ \<Rightarrow> True)
              ''!isa<ExtractValueInst>(instrumentee)'') (\<lambda>_.
     if \<not> is_aggregate_ty (val_type m v) then
       bindE (getLocation T) (\<lambda>loc.
       bindE (lift_mod (insertCast (WitnessType m) v (Before loc) ''_witness'') s) (\<lambda>(castVal, s1).
       let (w, s2) = new_witness castVal loc s1
       in bindE (setSingleBoundWitness (Some w) T) (\<lambda>T'. Inr (T', s2))))
     else if get_call m v \<noteq> None \<or> is_landing_pad m v then
       bindE (computePointerIndices m (v_type (vals m v))) (\<lambda>indices.
       foldE (splay_extract v) indices (T, s))
     else
       bindE (assertE (get_const m v \<noteq> None) ''isa<Constant>(instrumentee)'') (\<lambda>_.
       bindE (getAggregatePointerIndicesAndValues m v) (\<lambda>indexToPtr.
       foldE (\<lambda>(i, p). splay_witness_for p i) indexToPtr (T, s)))))))"

definition splay_getRelocatedClone ::
  "wid \<Rightarrow> vid \<Rightarrow> splay_state \<Rightarrow> (wid \<times> splay_state) res" where
  "splay_getRelocatedClone w loc s =
     bindE (deref (sp_witnesses s) w) (\<lambda>W. Inr (new_witness (WitnessValue W) loc s))"

section \<open>Checks\<close>

definition check_name :: "vid \<Rightarrow> splay_state \<Rightarrow> string" where
  "check_name loc s =
     print_value (sp_mod s) loc @ ''('' @
     (case debug_loc (sp_mod s) loc of
        Some (line, file) \<Rightarrow> file @ '': '' @ to_string line
      | None \<Rightarrow> ''unknown location'') @
     '', idx:'' @ to_string (sp_check_idx s) @ '')''"

text \<open>The argument with the message, in verbose mode.\<close>

definition check_name_arg :: "vid \<Rightarrow> splay_state \<Rightarrow> (vid list \<times> splay_state) res" where
  "check_name_arg loc s =
     (if \<not> sp_verbose s then Inr ([], s)
      else
        bindE (lift_mod (insertStringLiteral (check_name loc s)) s) (\<lambda>(str, s1).
        bindE (lift_mod (insertCastNoSuffix (PtrArgType (sp_mod s1)) str (Before loc))
                 (s1\<lparr>sp_check_idx := Suc (sp_check_idx s1)\<rparr>)) (\<lambda>(nameVal, s2).
        Inr ([nameVal], s2))))"

definition access_size :: "ir \<Rightarrow> itarget \<Rightarrow> vid option" where
  "access_size m T =
     (if isVarSizeCheckIT T then Some (accessSizeVal T)
      else if isConstSizeCheckIT T then Some (const_int m (SizeType m) (accessSize T))
      else if isCallCheckIT T then Some (const_int m (SizeType m) 1)
      else None)"

definition splay_check_call ::
  "itarget \<Rightarrow> vid \<Rightarrow> splay_witness \<Rightarrow> vid \<Rightarrow> vid list \<Rightarrow> splay_state \<Rightarrow> splay_state res" where
  "splay_check_call T loc W castVal nameArg s2 =
     (if isCheck T then
       (case access_size (sp_mod s2) T of
          None \<Rightarrow> Inl (AssertionFailed ''Size'')
        | Some sz \<Rightarrow>
            bindE (lift_mod (insertCallNoName (Before loc) (CheckDereferenceFunction s2)
                     ([WitnessValue W, castVal, sz] @ nameArg)) s2) (\<lambda>(_, s3). Inr s3))
     else
       bindE (lift_mod (insertCallNoName (Before loc) (CheckInboundsFunction s2)
                ([WitnessValue W, castVal] @ nameArg)) s2) (\<lambda>(_, s3). Inr s3))"

definition splay_insertCheck :: "itarget \<Rightarrow> splay_state \<Rightarrow> splay_state res" where
  "splay_insertCheck T s =
     bindE (assertE (isValid T) ''Target.isValid()'') (\<lambda>_.
     bindE (assertE (isCheck T \<or> isInvariant T) ''Target.isCheck() || Target.isInvariant()'') (\<lambda>_.
     bindE (getLocation T) (\<lambda>loc.
     bindE (getSingleBoundWitness T) (\<lambda>w.
     bindE (cast_witness w s) (\<lambda>(_, W).
     bindE (getInstrumentee T) (\<lambda>v.
     bindE (lift_mod (insertCastNoSuffix (PtrArgType (sp_mod s)) v (Before loc)) s) (\<lambda>(castVal, s1).
     bindE (check_name_arg loc s1) (\<lambda>(nameArg, s2).
     splay_check_call T loc W castVal nameArg s2))))))))"

section \<open>Explicit bounds\<close>

definition set_witness :: "wid \<Rightarrow> splay_witness \<Rightarrow> splay_state \<Rightarrow> splay_state" where
  "set_witness w W s = s\<lparr>sp_witnesses := (sp_witnesses s)(w \<mapsto> W)\<rparr>"

definition lookup_bound ::
  "bool \<Rightarrow> callee \<Rightarrow> vid \<Rightarrow> vid \<Rightarrow> string \<Rightarrow> vid option \<Rightarrow> splay_state \<Rightarrow>
     (vid option \<times> splay_state) res" where
  "lookup_bound wanted fn loc v name old s =
     (if wanted then bindE (lift_mod (insertCall (Before loc) fn [v] name) s) (\<lambda>(c, s1). Inr (Some c, s1))
      else Inr (old, s))"

definition splay_materialize_one ::
  "itarget \<Rightarrow> nat \<times> witness_ptr \<Rightarrow> splay_state \<Rightarrow> splay_state res" where
  "splay_materialize_one T kv s =
     bindE (cast_witness (snd kv) s) (\<lambda>(w, W).
     if hasBoundsMaterialized W then Inr s
     else
       bindE (getLocation T) (\<lambda>loc.
       bindE (getInstrumentee T) (\<lambda>v.
       case MaterializedBounds s (loc, v, fst kv) of
         Some (lower, upper) \<Rightarrow> Inr (set_witness w (W\<lparr>LowerBound := lower, UpperBound := upper\<rparr>) s)
       | None \<Rightarrow>
           bindE (getInsertionLocation (sp_mod s) W) (\<lambda>ip.
           bindE (hasUpperBoundFlag T) (\<lambda>ub.
           bindE (lookup_bound ub (GetUpperBoundFunction s) ip (WitnessValue W) ''upper_bound''
                    (UpperBound W) s) (\<lambda>(u, s1).
           bindE (hasLowerBoundFlag T) (\<lambda>lb.
           bindE (lookup_bound lb (GetLowerBoundFunction s) ip (WitnessValue W) ''lower_bound''
                    (LowerBound W) s1) (\<lambda>(l, s2).
           let s3 = set_witness w (W\<lparr>UpperBound := u, LowerBound := l\<rparr>) s2
           in Inr (s3\<lparr>MaterializedBounds := (MaterializedBounds s3)((loc, v, fst kv) \<mapsto> (l, u))\<rparr>)))))))))"

definition splay_materializeBounds :: "itarget \<Rightarrow> splay_state \<Rightarrow> splay_state res" where
  "splay_materializeBounds T s =
     bindE (assertE (isValid T) ''Target.isValid()'') (\<lambda>_.
     bindE (requiresExplicitBounds T) (\<lambda>r.
     bindE (assertE r ''Target.requiresExplicitBounds()'') (\<lambda>_.
     bindE (getBoundWitnesses T) (\<lambda>witnesses.
     foldE (splay_materialize_one T) witnesses s))))"

section \<open>Phis and selects\<close>

definition splay_getWitnessPhi :: "vid \<Rightarrow> splay_state \<Rightarrow> (wid \<times> splay_state) res" where
  "splay_getWitnessPhi phi s =
     (let (newPhi, m) = emit (Before phi) (PHI []) (WitnessType (sp_mod s)) [] (sp_mod s)
      in Inr (new_witness newPhi phi (s\<lparr>sp_mod := m\<rparr>)))"

definition splay_addIncomingWitnessToPhi ::
  "witness_ptr \<Rightarrow> witness_ptr \<Rightarrow> bbid \<Rightarrow> splay_state \<Rightarrow> splay_state res" where
  "splay_addIncomingWitnessToPhi phi incoming bb s =
     bindE (cast_witness phi s) (\<lambda>(_, P).
     let m = sp_mod s; v = WitnessValue P in
     case get_inst m v of
       Some (PHI ops) \<Rightarrow>
         bindE (cast_witness incoming s) (\<lambda>(_, I).
         Inr (s\<lparr>sp_mod := m\<lparr>vals := (vals m)(v := (vals m v)\<lparr>v_kind := Inst (PHI (ops @ [(WitnessValue I, bb)]))\<rparr>)\<rparr>\<rparr>))
     | _ \<Rightarrow> Inl (AssertionFailed ''cast<PHINode>''))"

definition splay_getWitnessSelect ::
  "vid \<Rightarrow> witness_ptr \<Rightarrow> witness_ptr \<Rightarrow> splay_state \<Rightarrow> (wid \<times> splay_state) res" where
  "splay_getWitnessSelect sel trueW falseW s =
     bindE (cast_witness trueW s) (\<lambda>(_, A).
     bindE (cast_witness falseW s) (\<lambda>(_, B).
     case get_inst (sp_mod s) sel of
       Some (Select c _ _) \<Rightarrow>
         (let (newSel, m) = emit_op (Before sel) ''select'' [c, WitnessValue A, WitnessValue B]
                              (Select c (WitnessValue A) (WitnessValue B)) (WitnessType (sp_mod s)) []
                              (sp_mod s)
          in Inr (new_witness newSel sel (s\<lparr>sp_mod := m\<rparr>)))
     | _ \<Rightarrow> Inl (AssertionFailed ''SelectInst'')))"

definition splay_mechanism :: "splay_state mechanism" where
  "splay_mechanism =
     \<lparr>im_name = ''Splay'', im_invariantsAreChecks = True,
      im_insertWitnesses = splay_insertWitnesses,
      im_getRelocatedClone = splay_getRelocatedClone,
      im_getWitnessPhi = splay_getWitnessPhi,
      im_addIncomingWitnessToPhi = splay_addIncomingWitnessToPhi,
      im_getWitnessSelect = splay_getWitnessSelect,
      im_materializeBounds = splay_materializeBounds,
      im_insertCheck = splay_insertCheck\<rparr>"

section \<open>The contract\<close>

lemma omap_one [simp]: "omap_ok (omap_set k v [])"
  by (simp add: omap_ok_def)

definition stores_in :: "itarget \<Rightarrow> itarget \<Rightarrow> bool" where
  "stores_in T T' \<longleftrightarrow> omap_ok (boundWitnesses T') \<and> T' = T\<lparr>boundWitnesses := boundWitnesses T'\<rparr>"

lemma stores_in_set:
  "stores_in T T' \<Longrightarrow> stores_in T (setBoundWitness w i T')"
proof -
  assume s: "stores_in T T'"
  let ?x = "omap_set i w (boundWitnesses T')"
  have "T' = T\<lparr>boundWitnesses := boundWitnesses T'\<rparr>" using s by (simp add: stores_in_def)
  from arg_cong [OF this, of "boundWitnesses_update (\<lambda>_. ?x)"]
  have "T'\<lparr>boundWitnesses := ?x\<rparr> = T\<lparr>boundWitnesses := ?x\<rparr>" by simp
  with s show ?thesis by (simp add: stores_in_def setBoundWitness_def omap_ok_set)
qed

lemma stores_loop:
  assumes body: "\<And>x T s T' s'. f x (T, s) = Inr (T', s') \<Longrightarrow> \<exists>w i. T' = setBoundWitness w i T"
  shows "foldE f xs (T, s) = Inr (T', s') \<Longrightarrow> stores_in T0 T \<Longrightarrow>
    stores_in T0 T' \<and> (xs \<noteq> [] \<or> boundWitnesses T \<noteq> [] \<longrightarrow> boundWitnesses T' \<noteq> [])"
proof (induction xs arbitrary: T s)
  case (Cons x xs)
  from Cons.prems(1) obtain T1 s1 where 1: "f x (T, s) = Inr (T1, s1)" "foldE f xs (T1, s1) = Inr (T', s')"
    by (auto simp: bindE_eq_Inr)
  from body [OF 1(1)] obtain w i where T1: "T1 = setBoundWitness w i T" by blast
  then have "stores_in T0 T1" using stores_in_set Cons.prems(2) by blast
  moreover have "boundWitnesses T1 \<noteq> []" by (simp add: T1 setBoundWitness_def)
  ultimately show ?case using Cons.IH [OF 1(2)] by blast
qed simp

lemma splay_extract_sets:
  "splay_extract v i (T, s) = Inr (T', s') \<Longrightarrow> \<exists>w i. T' = setBoundWitness w i T"
  by (auto simp: splay_extract_def bindE_eq_Inr Let_def case_prod_unfold)

lemma splay_witness_for_sets:
  "splay_witness_for v i (T, s) = Inr (T', s') \<Longrightarrow> \<exists>w i. T' = setBoundWitness w i T"
  by (auto simp: splay_witness_for_def bindE_eq_Inr Let_def case_prod_unfold)

lemma splay_insertWitnesses_stores:
  assumes "isValid T" and bw: "boundWitnesses T = []" and r: "splay_insertWitnesses T s = Inr (T', s')"
  shows "boundWitnesses T' \<noteq> [] \<and> stores_in T T'"
proof -
  have T: "stores_in T T" using bw by (simp add: stores_in_def)
  from r obtain v where v: "getInstrumentee T = Inr v"
    by (auto simp: splay_insertWitnesses_def bindE_eq_Inr)
  let ?m = "sp_mod s"
  consider (one) w where "T' = setBoundWitness (Some w) 0 T"
    | (agg) indices where "computePointerIndices ?m (v_type (vals ?m v)) = Inr indices"
        "foldE (splay_extract v) indices (T, s) = Inr (T', s')"
    | (con) ip where "getAggregatePointerIndicesAndValues ?m v = Inr ip"
        "foldE (\<lambda>(i, p). splay_witness_for p i) ip (T, s) = Inr (T', s')"
    using r v
    by (auto simp: splay_insertWitnesses_def bindE_eq_Inr Let_def setSingleBoundWitness_def
        setBoundWitness_def case_prod_unfold split: if_splits)
  then show ?thesis
  proof cases
    case one
    then show ?thesis using stores_in_set [OF T] by (simp add: setBoundWitness_def)
  next
    case agg
    have "stores_in T T' \<and> (indices \<noteq> [] \<or> boundWitnesses T \<noteq> [] \<longrightarrow> boundWitnesses T' \<noteq> [])"
      by (rule stores_loop [OF _ agg(2) T]) (rule splay_extract_sets)
    then show ?thesis using computePointerIndices_nonempty [OF agg(1)] by blast
  next
    case con
    have "stores_in T T' \<and> (ip \<noteq> [] \<or> boundWitnesses T \<noteq> [] \<longrightarrow> boundWitnesses T' \<noteq> [])"
      by (rule stores_loop [OF _ con(2) T]) (auto intro: splay_witness_for_sets split: prod.splits)
    then show ?thesis using getAggregatePointerIndicesAndValues_ok(1) [OF con(1)] by blast
  qed
qed

lemma lift_mod_fuel: "f (sp_mod s) \<noteq> Inl OutOfFuel \<Longrightarrow> lift_mod f s \<noteq> Inl OutOfFuel"
  by (auto simp: lift_mod_def bindE_eq_Inl)

lemma builder_fuel [simp]:
  "setNoInstrument v m \<noteq> Inl OutOfFuel" "insertCast ty v p sfx m \<noteq> Inl OutOfFuel"
  "insertCastNoSuffix ty v p m \<noteq> Inl OutOfFuel" "insertCall p fn args name m \<noteq> Inl OutOfFuel"
  "insertStringLiteral str m \<noteq> Inl OutOfFuel"
  by (auto simp: setNoInstrument_def addMIMetadata_def insertCast_def insertCastNoSuffix_def insertCall_def
      insertStringLiteral_def Let_def bindE_eq_Inl case_prod_unfold split: if_splits)

lemma getAggregate_fuel: "getAggregatePointerIndicesAndValues m c \<noteq> Inl OutOfFuel"
proof -
  have "foldE (\<lambda>i r. if i < length es then Inr (omap_set i (es ! i) r) else Inl NullPointer) xs r
      \<noteq> Inl OutOfFuel" for es :: "vid list" and xs r
    by (rule foldE_fuel [where I = "\<lambda>_. True"]) auto
  then show ?thesis
    by (auto simp: getAggregatePointerIndicesAndValues_def bindE_eq_Inl
        split: option.splits ir_constant.splits)
qed

lemma splay_insert_fuel: "splay_insertWitnesses T s \<noteq> Inl OutOfFuel"
proof -
  have 1: "foldE (splay_extract v) xs Ts \<noteq> Inl OutOfFuel" for v xs Ts
    by (rule foldE_fuel [where I = "\<lambda>_. True"])
      (auto simp: splay_extract_def bindE_eq_Inl Let_def lift_mod_fuel case_prod_unfold)
  have 2: "foldE (\<lambda>q. splay_witness_for (snd q) (fst q)) xs Ts \<noteq> Inl OutOfFuel" for xs Ts
    by (rule foldE_fuel [where I = "\<lambda>_. True"])
      (auto simp: splay_witness_for_def bindE_eq_Inl Let_def lift_mod_fuel case_prod_unfold)
  show ?thesis
    by (auto simp: splay_insertWitnesses_def bindE_eq_Inl Let_def lift_mod_fuel 1 2 getAggregate_fuel
        setSingleBoundWitness_def case_prod_unfold split: if_splits)
qed

lemma cast_witness_fuel [simp]: "cast_witness w s \<noteq> Inl OutOfFuel"
  by (auto simp: cast_witness_def bindE_eq_Inl split: option.splits)

interpretation splay: total_provider splay_mechanism
proof
  fix T :: itarget and s T' s'
  assume "isValid T" "boundWitnesses T = []" "im_insertWitnesses splay_mechanism T s = Inr (T', s')"
  then have "splay_insertWitnesses T s = Inr (T', s')" by (simp add: splay_mechanism_def)
  from splay_insertWitnesses_stores [OF \<open>isValid T\<close> \<open>boundWitnesses T = []\<close> this]
  show "boundWitnesses T' \<noteq> [] \<and> omap_ok (boundWitnesses T') \<and> T' = T\<lparr>boundWitnesses := boundWitnesses T'\<rparr>"
    by (auto simp: stores_in_def)
next
  show "im_insertWitnesses splay_mechanism T s \<noteq> Inl OutOfFuel" for T s
    by (simp add: splay_mechanism_def splay_insert_fuel)
  show "im_getRelocatedClone splay_mechanism w l s \<noteq> Inl OutOfFuel" for w l s
    by (auto simp: splay_mechanism_def splay_getRelocatedClone_def bindE_eq_Inl)
  show "im_getWitnessPhi splay_mechanism p s \<noteq> Inl OutOfFuel" for p s
    by (auto simp: splay_mechanism_def splay_getWitnessPhi_def Let_def case_prod_unfold)
  show "im_addIncomingWitnessToPhi splay_mechanism pw w b s \<noteq> Inl OutOfFuel" for pw w b s
    by (auto simp: splay_mechanism_def splay_addIncomingWitnessToPhi_def bindE_eq_Inl Let_def
        split: option.splits instr.splits)
  show "im_getWitnessSelect splay_mechanism p pw w s \<noteq> Inl OutOfFuel" for p pw w s
    by (auto simp: splay_mechanism_def splay_getWitnessSelect_def bindE_eq_Inl Let_def case_prod_unfold
        split: option.splits instr.splits)
qed

end
