(* ===== verification/SplaySetup.thy ===== *)
theory SplaySetup
  imports Splay
begin

text \<open>
  \<open>SplayMechanism::initialize\<close>: the declarations of the run-time functions, the constructor that
  registers globals and functions, and the registration of allocas; then what the operations of
  the mechanism do to the module. The loops over globals, functions and instructions insert only
  values that the same loops skip, so they run over the lists as they are at the start.
\<close>

section \<open>Declarations\<close>

definition splay_decl ::
  "string \<Rightarrow> string \<Rightarrow> (callee \<Rightarrow> splay_state \<Rightarrow> splay_state) \<Rightarrow> splay_state \<Rightarrow> splay_state res" where
  "splay_decl name ret store s =
     bindE (lift_mod (insertFunDecl name ret) s) (\<lambda>(f, s1). Inr (store f s1))"

definition splay_insertFunctionDeclarations :: "splay_state \<Rightarrow> splay_state res" where
  "splay_insertFunctionDeclarations s =
     (let v = sp_verbose s in
      bindE (lift_mod insertCommonFunctionDeclarations s) (\<lambda>(fs, s0).
      let s = s0\<lparr>sp_failFunction := hd fs\<rparr> in
      bindE (splay_decl (if v then ''__splay_check_inbounds_named'' else ''__splay_check_inbounds'') ''void''
               (\<lambda>f. CheckInboundsFunction_update (\<lambda>_. f)) s) (\<lambda>s.
      bindE (splay_decl (if v then ''__splay_check_dereference_named'' else ''__splay_check_dereference'') ''void''
               (\<lambda>f. CheckDereferenceFunction_update (\<lambda>_. f)) s) (\<lambda>s.
      bindE (splay_decl (if v then ''__splay_alloc_or_merge_with_msg'' else ''__splay_alloc_or_merge'') ''void''
               (\<lambda>f. GlobalAllocFunction_update (\<lambda>_. f)) s) (\<lambda>s.
      bindE (splay_decl (if v then ''__splay_alloc_or_replace_with_msg'' else ''__splay_alloc_or_replace'') ''void''
               (\<lambda>f. AllocFunction_update (\<lambda>_. f)) s) (\<lambda>s.
      bindE (splay_decl ''__splay_get_lower_as_ptr'' ''i8*''
               (\<lambda>f. GetLowerBoundFunction_update (\<lambda>_. f)) s) (\<lambda>s.
      bindE (splay_decl ''__splay_get_upper_as_ptr'' ''i8*''
               (\<lambda>f. GetUpperBoundFunction_update (\<lambda>_. f)) s) (\<lambda>s.
      splay_decl ''__splay_inc_external_counter'' ''void''
               (\<lambda>f. ExtCheckCounterFunction_update (\<lambda>_. f)) s))))))))"

section \<open>Registration\<close>

text \<open>The call that registers a pointer, with a message in verbose mode.\<close>

definition splay_register ::
  "ipoint \<Rightarrow> callee \<Rightarrow> vid \<Rightarrow> vid \<Rightarrow> string \<Rightarrow> splay_state \<Rightarrow> splay_state res" where
  "splay_register p fn ptr sz msg s =
     (if sp_verbose s then
        bindE (lift_mod (insertStringLiteral msg) s) (\<lambda>(arr, s1).
        bindE (lift_mod (insertCastNoSuffix (PtrArgType (sp_mod s1)) arr p) s1) (\<lambda>(str, s2).
        bindE (lift_mod (insertCallNoName p fn [ptr, sz, str]) s2) (\<lambda>(_, s3). Inr s3)))
      else bindE (lift_mod (insertCallNoName p fn [ptr, sz]) s) (\<lambda>(_, s1). Inr s1))"

definition starts_llvm :: "string \<Rightarrow> bool" where
  "starts_llvm name = prefix ''llvm.'' name"

definition splay_register_global :: "bbid \<Rightarrow> vid \<Rightarrow> splay_state \<Rightarrow> splay_state res" where
  "splay_register_global bb gv s =
     (let m = sp_mod s in
      if hasNoInstrument m gv \<or> starts_llvm (v_name (vals m gv)) then Inr s
      else
        bindE (lift_mod (insertCastNoSuffix (PtrArgType m) gv (AtEnd bb)) s) (\<lambda>(ptr, s1).
        case val_type m gv of
          PointerTy pointee \<Rightarrow>
            if \<not> type_sized m pointee then Inr s1
            else splay_register (AtEnd bb) (GlobalAllocFunction s1) ptr
                   (const_int m (SizeType m) (type_alloc_size m pointee)) (print_value m gv) s1
        | _ \<Rightarrow> Inl (AssertionFailed ''cast<PointerType>'')))"

definition splay_register_function :: "bbid \<Rightarrow> vid \<Rightarrow> splay_state \<Rightarrow> splay_state res" where
  "splay_register_function bb f s =
     (let m = sp_mod s in
      if hasNoInstrument m f \<or> starts_llvm (v_name (vals m f)) then Inr s
      else
        bindE (lift_mod (insertCastNoSuffix (PtrArgType m) f (AtEnd bb)) s) (\<lambda>(ptr, s1).
        splay_register (AtEnd bb) (GlobalAllocFunction s1) ptr (const_int m (SizeType m) 1)
          (''Function '' @ v_name (vals m f)) s1))"

definition splay_setupGlobals :: "splay_state \<Rightarrow> splay_state res" where
  "splay_setupGlobals s =
     bindE (lift_mod (registerCtors [''__splay_globals_setup'']) s) (\<lambda>(funs, s1).
     let (bb, m) = new_block (funs ! 0) (sp_mod s1);
         s2 = s1\<lparr>sp_mod := m\<rparr>
     in bindE (foldE (splay_register_global bb) (mod_globals m) s2) (\<lambda>s3.
        bindE (foldE (splay_register_function bb) (mod_functions m) s3) (\<lambda>s4.
        let (_, m') = emit (AtEnd bb) (Ret None) (ctx_ty m ''void'') [] (sp_mod s4)
        in Inr (s4\<lparr>sp_mod := m'\<rparr>))))"

definition is_one :: "ir \<Rightarrow> vid \<Rightarrow> bool" where
  "is_one m v = (v = const_int m (v_type (vals m v)) 1)"

definition splay_instrumentAlloca :: "vid \<Rightarrow> tyid \<Rightarrow> vid \<Rightarrow> splay_state \<Rightarrow> splay_state res" where
  "splay_instrumentAlloca ai ty arraySize s =
     (let m = sp_mod s in
      if hasNoInstrument m ai \<or> hasVarArgHandling m ai then Inr s
      else
        bindE (get_next_node m ai) (\<lambda>nextNode.
        let p = Before nextNode in
        bindE (lift_mod (insertCastNoSuffix (PtrArgType m) ai p) s) (\<lambda>(ptr, s1).
        let sz = const_int m (SizeType m) (type_alloc_size m ty);
            (sz', m2) = (if is_one m arraySize then (sz, sp_mod s1)
                         else emit_op p ''mul'' [arraySize, sz] (OtherInst ''mul'' [arraySize, sz]) (SizeType m) [] (sp_mod s1))
        in splay_register p (AllocFunction s1) ptr sz' (print_value m ai) (s1\<lparr>sp_mod := m2\<rparr>))))"

definition splay_init_inst :: "vid \<Rightarrow> splay_state \<Rightarrow> splay_state res" where
  "splay_init_inst i s =
     bindE (case get_inst (sp_mod s) i of
              Some (Alloca ty arraySize) \<Rightarrow> splay_instrumentAlloca i ty arraySize s
            | _ \<Rightarrow> Inr s) (\<lambda>s1.
     if isLifeTimeIntrinsic (sp_mod s1) i then
       Inl (ReportedError ''Found a call to a lifetime intrinsic, but splay does not support them.'')
     else Inr s1)"

definition splay_initialize :: "splay_state \<Rightarrow> splay_state res" where
  "splay_initialize s =
     bindE (splay_insertFunctionDeclarations s) (\<lambda>s1.
     bindE (splay_setupGlobals s1) (\<lambda>s2.
     foldE (\<lambda>f s.
        if is_declaration (sp_mod s) f \<or> hasNoInstrument (sp_mod s) f then Inr s
        else foldE splay_init_inst (fun_insts (sp_mod s) f) s)
       (mod_functions (sp_mod s2)) s2))"

section \<open>The mechanism only adds code\<close>

definition sp_adds :: "splay_state \<Rightarrow> splay_state \<Rightarrow> bool" where
  "sp_adds s s' \<longleftrightarrow> only_adds (sp_mod s) (sp_mod s')"

lemma sp_adds_refl [simp]: "sp_adds s s"
  by (simp add: sp_adds_def)

lemma sp_adds_trans: "sp_adds s t \<Longrightarrow> sp_adds t u \<Longrightarrow> sp_adds s u"
  unfolding sp_adds_def by (rule only_adds_trans)

lemma lift_mod_adds:
  assumes "lift_mod f s = Inr (x, s')" and "\<And>m x m'. f m = Inr (x, m') \<Longrightarrow> only_adds m m'"
  shows "sp_adds s s'"
  using assms by (fastforce simp: lift_mod_def bindE_eq_Inr sp_adds_def)

lemma sp_cast_adds: "lift_mod (insertCast ty v p sfx) s = Inr (x, s') \<Longrightarrow> sp_adds s s'"
  by (erule lift_mod_adds) (rule only_adds_insertCast)

lemma sp_cast2_adds: "lift_mod (insertCastNoSuffix ty v p) s = Inr (x, s') \<Longrightarrow> sp_adds s s'"
  by (erule lift_mod_adds) (simp add: insertCastNoSuffix_def only_adds_insertCast)

lemma sp_call_adds: "lift_mod (insertCall p fn args nm) s = Inr (x, s') \<Longrightarrow> sp_adds s s'"
  by (erule lift_mod_adds) (rule only_adds_insertCall)

lemma sp_string_adds: "lift_mod (insertStringLiteral str) s = Inr (x, s') \<Longrightarrow> sp_adds s s'"
  by (erule lift_mod_adds) (rule only_adds_string)

lemma new_witness_adds [simp]: "sp_adds s (snd (new_witness v loc t)) = sp_adds s t"
  by (simp add: sp_adds_def new_witness_def)

lemma sp_adds_frame:
  "sp_adds s (t\<lparr>sp_check_idx := i\<rparr>) = sp_adds s t" "sp_adds (t\<lparr>sp_check_idx := i\<rparr>) s = sp_adds t s"
  "sp_adds s (set_witness w W t) = sp_adds s t" "sp_adds s (t\<lparr>MaterializedBounds := b\<rparr>) = sp_adds s t"
  by (simp_all add: sp_adds_def set_witness_def)

lemma splay_extract_adds: "splay_extract v i (T, s) = Inr (T', s') \<Longrightarrow> sp_adds s s'"
proof -
  assume r: "splay_extract v i (T, s) = Inr (T', s')"
  let ?m = "sp_mod s"
  obtain loc where loc: "getLocation T = Inr loc" using r by (auto simp: splay_extract_def bindE_eq_Inr)
  obtain ptr m1 where e: "emit_op (Before loc) ''extractvalue'' [v] (ExtractValue v [i])
      (agg_elem_ty ?m (v_type (vals ?m v)) i) [] ?m = (ptr, m1)"
    by (metis surj_pair)
  obtain c s1 where c: "lift_mod (insertCastNoSuffix (WitnessType ?m) ptr (Before loc)) (s\<lparr>sp_mod := m1\<rparr>) = Inr (c, s1)"
    and s': "s' = snd (new_witness c loc s1)"
    using r by (auto simp: splay_extract_def loc e bindE_eq_Inr Let_def case_prod_unfold)
  have "sp_adds s (s\<lparr>sp_mod := m1\<rparr>)" using only_adds_emit_op [OF e] by (simp add: sp_adds_def)
  from sp_adds_trans [OF this sp_cast2_adds [OF c]] show ?thesis by (simp add: s')
qed

lemma splay_witness_for_adds: "splay_witness_for v i (T, s) = Inr (T', s') \<Longrightarrow> sp_adds s s'"
  by (auto simp: splay_witness_for_def bindE_eq_Inr Let_def case_prod_unfold dest: sp_cast_adds)

lemma splay_insertWitnesses_adds:
  assumes r: "splay_insertWitnesses T s = Inr (T', s')"
  shows "sp_adds s s'"
proof -
  from r obtain v where v: "getInstrumentee T = Inr v"
    by (auto simp: splay_insertWitnesses_def bindE_eq_Inr)
  let ?m = "sp_mod s" and ?R = "\<lambda>Ts Ts'. sp_adds (snd Ts) (snd Ts')"
  consider (one) loc c s1 where "lift_mod (insertCast (WitnessType ?m) v (Before loc) ''_witness'') s = Inr (c, s1)"
      "s' = snd (new_witness c loc s1)"
    | (agg) indices where "foldE (splay_extract v) indices (T, s) = Inr (T', s')"
    | (con) ip where "foldE (\<lambda>(i, p). splay_witness_for p i) ip (T, s) = Inr (T', s')"
    using r v
    by (auto simp: splay_insertWitnesses_def bindE_eq_Inr Let_def case_prod_unfold split: if_splits)
  then show ?thesis
  proof cases
    case one
    then show ?thesis using sp_cast_adds by simp
  next
    case agg
    have "?R (T, s) (T', s')"
      by (rule foldE_rel [where R = ?R, OF agg]) (auto intro: sp_adds_trans splay_extract_adds)
    then show ?thesis by simp
  next
    case con
    have "?R (T, s) (T', s')"
      by (rule foldE_rel [where R = ?R, OF con])
        (auto intro: sp_adds_trans splay_witness_for_adds split: prod.splits)
    then show ?thesis by simp
  qed
qed

lemma check_name_arg_adds: "check_name_arg loc s = Inr (a, s') \<Longrightarrow> sp_adds s s'"
  by (auto simp: check_name_arg_def bindE_eq_Inr sp_adds_frame
      dest!: sp_string_adds sp_cast2_adds intro: sp_adds_trans split: if_splits)

lemma lookup_bound_adds: "lookup_bound b fn loc v nm old s = Inr (r, s') \<Longrightarrow> sp_adds s s'"
  by (auto simp: lookup_bound_def bindE_eq_Inr dest: sp_call_adds split: if_splits)

lemma splay_materialize_one_adds: "splay_materialize_one T kv s = Inr s' \<Longrightarrow> sp_adds s s'"
  by (fastforce simp: splay_materialize_one_def bindE_eq_Inr Let_def sp_adds_frame
      dest!: lookup_bound_adds intro: sp_adds_trans split: if_splits option.splits)

lemma splay_materializeBounds_adds: "splay_materializeBounds T s = Inr s' \<Longrightarrow> sp_adds s s'"
  by (auto simp: splay_materializeBounds_def bindE_eq_Inr intro: sp_adds_trans splay_materialize_one_adds
      elim!: foldE_rel [where R = sp_adds])

lemma splay_insertCheck_steps:
  assumes "splay_insertCheck T s = Inr s'"
  obtains loc i W v castVal nameArg s1 s2 c fn args where
    "isValid T" and "loc = location T" and "getSingleBoundWitness T = Inr (Some i)"
    and "sp_witnesses s i = Some W" and "instrumentee T = Some v"
    and "lift_mod (insertCastNoSuffix (PtrArgType (sp_mod s)) v (Before loc)) s = Inr (castVal, s1)"
    and "check_name_arg loc s1 = Inr (nameArg, s2)"
    and "lift_mod (insertCallNoName (Before loc) fn args) s2 = Inr (c, s')"
    and "if isCheck T
         then fn = CheckDereferenceFunction s2 \<and>
           (\<exists>sz. access_size (sp_mod s2) T = Some sz \<and> args = [WitnessValue W, castVal, sz] @ nameArg)
         else isInvariant T \<and> fn = CheckInboundsFunction s2 \<and> args = [WitnessValue W, castVal] @ nameArg"
proof -
  from assms obtain w i W v castVal s1 nameArg s2 where
    1: "isValid T" "isCheck T \<or> isInvariant T" "getSingleBoundWitness T = Inr w" "cast_witness w s = Inr (i, W)"
      "getInstrumentee T = Inr v"
      "lift_mod (insertCastNoSuffix (PtrArgType (sp_mod s)) v (Before (location T))) s = Inr (castVal, s1)"
      "check_name_arg (location T) s1 = Inr (nameArg, s2)"
    and 2: "splay_check_call T (location T) W castVal nameArg s2 = Inr s'"
    by (auto simp: splay_insertCheck_def bindE_eq_Inr assertE_eq_Inr getLocation_def)
  have w: "w = Some i" "sp_witnesses s i = Some W"
    using 1(4) by (auto simp: cast_witness_def bindE_eq_Inr deref_eq_Inr split: option.splits)
  have v: "instrumentee T = Some v"
    using 1(5) by (auto simp: getInstrumentee_def bindE_eq_Inr split: option.splits)
  show thesis
  proof (cases "isCheck T")
    case True
    with 2 obtain sz c where "access_size (sp_mod s2) T = Some sz"
      "lift_mod (insertCallNoName (Before (location T)) (CheckDereferenceFunction s2)
         ([WitnessValue W, castVal, sz] @ nameArg)) s2 = Inr (c, s')"
      by (auto simp: splay_check_call_def bindE_eq_Inr split: option.splits)
    then show ?thesis using True 1 w v by (intro that) auto
  next
    case False
    with 2 obtain c where "lift_mod (insertCallNoName (Before (location T)) (CheckInboundsFunction s2)
         ([WitnessValue W, castVal] @ nameArg)) s2 = Inr (c, s')"
      by (auto simp: splay_check_call_def bindE_eq_Inr)
    then show ?thesis using False 1 w v by (intro that) auto
  qed
qed


section \<open>Explicit bounds\<close>

definition bounded :: "splay_state \<Rightarrow> witness_ptr \<Rightarrow> bool" where
  "bounded s w \<longleftrightarrow>
     (case w of None \<Rightarrow> False
      | Some i \<Rightarrow> (case sp_witnesses s i of None \<Rightarrow> False | Some W \<Rightarrow> hasBoundsMaterialized W))"

definition cache_full :: "splay_state \<Rightarrow> bool" where
  "cache_full s \<longleftrightarrow> (\<forall>k l u. MaterializedBounds s k = Some (l, u) \<longrightarrow> l \<noteq> None \<and> u \<noteq> None)"

lemma lookup_bound_fields:
  assumes "lookup_bound True fn ip v nm old s = Inr (r, s')"
  shows "r \<noteq> None" and "sp_witnesses s' = sp_witnesses s" and "MaterializedBounds s' = MaterializedBounds s"
  using assms by (auto simp: lookup_bound_def lift_mod_def bindE_eq_Inr)

lemma materialize_one_complete:
  assumes T: "isValid T" "checkUpperBoundFlag T" "checkLowerBoundFlag T" and c: "cache_full s"
    and r: "splay_materialize_one T kv s = Inr s'"
  shows "cache_full s'" and "bounded s' (snd kv)" and "\<And>w. bounded s w \<Longrightarrow> bounded s' w"
proof -
  from r obtain i W where w: "snd kv = Some i" "sp_witnesses s i = Some W"
    by (auto simp: splay_materialize_one_def bindE_eq_Inr cast_witness_def deref_eq_Inr split: option.splits)
  then have cw: "cast_witness (snd kv) s = Inr (i, W)" by (simp add: cast_witness_def deref_Some)
  have *: "cache_full s' \<and> bounded s' (snd kv) \<and> (\<forall>w. bounded s w \<longrightarrow> bounded s' w)"
  proof (cases "hasBoundsMaterialized W")
    case True
    then have "s' = s" using r cw by (simp add: splay_materialize_one_def)
    then show ?thesis using True w c by (simp add: bounded_def)
  next
    case False
    obtain v where v: "getInstrumentee T = Inr v"
      using r cw False T by (auto simp: splay_materialize_one_def bindE_eq_Inr)
    let ?k = "(location T, v, fst kv)"
    show ?thesis
    proof (cases "MaterializedBounds s ?k")
      case (Some lu)
      obtain l u where lu: "lu = (l, u)" by (cases lu)
      then have "l \<noteq> None" "u \<noteq> None" using c Some by (auto simp: cache_full_def)
      moreover have "s' = set_witness i (W\<lparr>LowerBound := l, UpperBound := u\<rparr>) s"
        using r cw False v Some lu T(1) by (simp add: splay_materialize_one_def getLocation_def)
      ultimately show ?thesis
        using w c by (auto simp: bounded_def set_witness_def hasBoundsMaterialized_def cache_full_def
            split: option.splits)
    next
      case None
      obtain ip u s1 l s2 where st:
        "lookup_bound True (GetUpperBoundFunction s) ip (WitnessValue W) ''upper_bound'' (UpperBound W) s = Inr (u, s1)"
        "lookup_bound True (GetLowerBoundFunction s) ip (WitnessValue W) ''lower_bound'' (LowerBound W) s1 = Inr (l, s2)"
        "s' = (set_witness i (W\<lparr>UpperBound := u, LowerBound := l\<rparr>) s2)
           \<lparr>MaterializedBounds := (MaterializedBounds (set_witness i (W\<lparr>UpperBound := u, LowerBound := l\<rparr>) s2))
             (?k \<mapsto> (l, u))\<rparr>"
        using r cw False v None T
        by (auto simp: splay_materialize_one_def getLocation_def hasUpperBoundFlag_def hasLowerBoundFlag_def
            bindE_eq_Inr Let_def)
      note f1 = lookup_bound_fields [OF st(1)] and f2 = lookup_bound_fields [OF st(2)]
      show ?thesis
        using st(3) f1 f2 w c
        by (auto simp: bounded_def set_witness_def hasBoundsMaterialized_def cache_full_def split: option.splits)
    qed
  qed
  then show "cache_full s'" "bounded s' (snd kv)" "\<And>w. bounded s w \<Longrightarrow> bounded s' w" by blast+
qed

lemma materialize_loop:
  assumes T: "isValid T" "checkUpperBoundFlag T" "checkLowerBoundFlag T"
  shows "cache_full s \<Longrightarrow> foldE (splay_materialize_one T) ws s = Inr s' \<Longrightarrow>
    cache_full s' \<and> (\<forall>kv \<in> set ws. bounded s' (snd kv)) \<and> (\<forall>w. bounded s w \<longrightarrow> bounded s' w)"
proof (induction ws arbitrary: s)
  case (Cons kv ws)
  from Cons.prems(2) obtain s1 where 1: "splay_materialize_one T kv s = Inr s1"
    "foldE (splay_materialize_one T) ws s1 = Inr s'" by (auto simp: bindE_eq_Inr)
  note one = materialize_one_complete [OF T Cons.prems(1) 1(1)]
  from Cons.IH [OF one(1) 1(2)] one(2,3) show ?case by auto
qed simp

lemma materialize_done:
  "\<forall>kv \<in> set ws. bounded s (snd kv) \<Longrightarrow> foldE (splay_materialize_one T) ws s = Inr s"
proof (induction ws)
  case (Cons kv ws)
  then have "splay_materialize_one T kv s = Inr s"
    by (auto simp: bounded_def splay_materialize_one_def cast_witness_def deref_def split: option.splits)
  with Cons show ?case by simp
qed simp


section \<open>Witness creation with the splay mechanism\<close>



section \<open>Concrete runs\<close>

definition demo_splay :: splay_state where
  "demo_splay =
     \<lparr>sp_mod = demo, sp_verbose = False,
      sp_witnesses = [0 \<mapsto> \<lparr>WitnessValue = 2, UpperBound = None, LowerBound = None, Location = 3\<rparr>],
      sp_next_wid = 1, MaterializedBounds = Map.empty, sp_check_idx = 0, sp_failFunction = (89, 0),
      GlobalAllocFunction = (90, 0), AllocFunction = (91, 0), CheckInboundsFunction = (92, 0),
      CheckDereferenceFunction = (93, 0), GetUpperBoundFunction = (94, 4), GetLowerBoundFunction = (95, 4),
      ExtCheckCounterFunction = (96, 0)\<rparr>"

definition demo_checked :: itarget where
  "demo_checked = demo_target\<lparr>boundWitnesses := [(0, Some 0)]\<rparr>"

definition demo_explicit :: itarget where
  "demo_explicit = demo_bounds\<lparr>boundWitnesses := [(0, Some 0)]\<rparr>"

lemma demo_splay_runs:
  "\<not> isl (splay_insertCheck demo_checked demo_splay)"
  "\<not> isl (splay_materializeBounds demo_explicit demo_splay)"
  by code_simp+



lemma demo_creatable: "creatable (demo_graph demo_target)"
proof -
  have "\<not> isCallInvariantIT demo_target" "\<not> isCallInvariantIT demo_source"
    by (simp_all add: demo_target_def demo_source_def it_ctor_defs isCallInvariantIT_def)
  then show ?thesis
    by (auto simp: creatable_def demo_graph_tgt demo_source_valid split: if_splits)
qed

lemma demo_creates: "\<not> isl (createWitnesses 10 False splay_mechanism demo (demo_graph demo_target, demo_splay))"
  by code_simp



end
