(* ===== verification/Interface.thy ===== *)
theory Interface
  imports SplitBlock SplaySetup
begin

text \<open>
  The rest of the interface \<open>InstrumentationMechanism\<close> that the pass driver and the example pass use:
  the module a mechanism works on, the bounds its witnesses hold, its fail function, its set-up and
  what it does to a module that is skipped. The splay mechanism is the instance given here.
\<close>

record 's mechanism_object =
  mo_interface :: "'s mechanism"
  mo_module :: "'s \<Rightarrow> ir"
  mo_set_module :: "ir \<Rightarrow> 's \<Rightarrow> 's"
  mo_getLowerBound :: "wid \<Rightarrow> 's \<Rightarrow> vid option res"
  mo_getUpperBound :: "wid \<Rightarrow> 's \<Rightarrow> vid option res"
  mo_getFailFunction :: "'s \<Rightarrow> callee res"
  mo_initialize :: "'s \<Rightarrow> 's res"
  mo_skipInstrumentation :: "'s \<Rightarrow> bool \<times> 's"

text \<open>The default of \<open>skipInstrumentation\<close> changes nothing.\<close>

definition skipInstrumentation :: "'s \<Rightarrow> bool \<times> 's" where
  "skipInstrumentation s = (False, s)"

definition splay_getLowerBound :: "wid \<Rightarrow> splay_state \<Rightarrow> vid option res" where
  "splay_getLowerBound w s = bindE (deref (sp_witnesses s) w) (\<lambda>W. Inr (LowerBound W))"

definition splay_getUpperBound :: "wid \<Rightarrow> splay_state \<Rightarrow> vid option res" where
  "splay_getUpperBound w s = bindE (deref (sp_witnesses s) w) (\<lambda>W. Inr (UpperBound W))"

definition splay_getFailFunction :: "splay_state \<Rightarrow> callee res" where
  "splay_getFailFunction s = Inr (sp_failFunction s)"

definition splay_object :: "splay_state mechanism_object" where
  "splay_object =
     \<lparr>mo_interface = splay_mechanism, mo_module = sp_mod, mo_set_module = (\<lambda>m s. s\<lparr>sp_mod := m\<rparr>),
      mo_getLowerBound = splay_getLowerBound, mo_getUpperBound = splay_getUpperBound,
      mo_getFailFunction = splay_getFailFunction, mo_initialize = splay_initialize,
      mo_skipInstrumentation = skipInstrumentation\<rparr>"

text \<open>What the example pass relies on: the module a mechanism is given is the one it works on.\<close>

locale module_owner =
  fixes IM :: "'s mechanism_object"
  assumes module_set [simp]: "mo_module IM (mo_set_module IM m s) = m"

interpretation splay_owner: module_owner splay_object
  by unfold_locales (simp add: splay_object_def)

end
