(* ===== verification/TargetHeap.thy ===== *)
theory TargetHeap
  imports Demo
begin

text \<open>
  The heap of targets between the phases of the pass. An \<open>ITargetVector\<close> is a list of identifiers
  into the heap, because the optimizations compare and share the pointers. What an optimization
  may do to a target that exists is to invalidate it (\<open>only_invalidates\<close>).
\<close>

type_synonym theap = "tid \<rightharpoonup> itarget"

definition only_invalidates :: "theap \<Rightarrow> theap \<Rightarrow> bool" where
  "only_invalidates h h' \<longleftrightarrow> (\<forall>t. h' t = h t \<or> (\<exists>T. h t = Some T \<and> h' t = Some (invalidate T)))"

lemma invalidate_idem [simp]: "invalidate (invalidate T) = invalidate T"
  by (simp add: invalidate_def)

lemma only_invalidates_at:
  "only_invalidates h h' \<Longrightarrow> h' t = h t \<or> (\<exists>T. h t = Some T \<and> h' t = Some (invalidate T))"
  unfolding only_invalidates_def by blast

lemma only_invalidates_refl [simp]: "only_invalidates h h"
  by (simp add: only_invalidates_def)

lemma only_invalidates_trans:
  assumes "only_invalidates h1 h2" and "only_invalidates h2 h3"
  shows "only_invalidates h1 h3"
  unfolding only_invalidates_def
proof
  fix t
  from assms(1) have "h2 t = h1 t \<or> (\<exists>T. h1 t = Some T \<and> h2 t = Some (invalidate T))"
    by (simp add: only_invalidates_def)
  moreover from assms(2) have "h3 t = h2 t \<or> (\<exists>T. h2 t = Some T \<and> h3 t = Some (invalidate T))"
    by (simp add: only_invalidates_def)
  ultimately show "h3 t = h1 t \<or> (\<exists>T. h1 t = Some T \<and> h3 t = Some (invalidate T))"
    by (elim disjE exE conjE) (auto intro: exI [of _ "the (h1 t)"])
qed

lemma only_invalidates_upd: "h t = Some T \<Longrightarrow> only_invalidates h (h(t \<mapsto> invalidate T))"
  by (simp add: only_invalidates_def)

lemma only_invalidates_dom: "only_invalidates h h' \<Longrightarrow> dom h' = dom h"
  using only_invalidates_at [of h h'] by (intro set_eqI) (metis domIff option.distinct(1))

text \<open>A target that is valid afterwards is untouched.\<close>

lemma only_invalidates_valid:
  assumes "only_invalidates h h'" and "h' t = Some T" and "isValid T"
  shows "h t = Some T"
  using only_invalidates_at [OF assms(1), of t] assms(2,3) by auto

lemma only_invalidates_obtain:
  assumes "only_invalidates h h'" and "h t = Some T"
  obtains "h' t = Some T" | "h' t = Some (invalidate T)"
  using only_invalidates_at [OF assms(1), of t] assms(2) by auto

definition valid_in :: "theap \<Rightarrow> tid \<Rightarrow> bool" where
  "valid_in h t \<longleftrightarrow> (\<exists>T. h t = Some T \<and> isValid T)"

lemma valid_in_mono: "only_invalidates h h' \<Longrightarrow> valid_in h' t \<Longrightarrow> valid_in h t \<and> h' t = h t"
  unfolding valid_in_def by (metis only_invalidates_valid)

end
