(* ===== verification/Dominance.thy ===== *)
theory Dominance
  imports TargetHeap Mechanism
begin

text \<open>
  \<open>lib/optimizations/DominanceBasedCheckRemovalPass.cpp\<close>: a check is dropped when another one of
  the same pointer that covers its access dominates it. The option
  \<open>mi-opt-dominance-optimize-invariants\<close> is the argument \<open>OptimizeInvariants\<close>; the counter of
  subsumed targets is left out.
\<close>

section \<open>Code\<close>

definition subsumes :: "bool \<Rightarrow> itarget \<Rightarrow> itarget \<Rightarrow> bool res" where
  "subsumes OptimizeInvariants one other =
     bindE (assertE (isValid one) ''one.isValid()'') (\<lambda>_.
     bindE (assertE (isValid other) ''other.isValid()'') (\<lambda>_.
     bindE (hasInstrumentee one) (\<lambda>h1.
     if \<not> h1 then Inr False
     else bindE (hasInstrumentee other) (\<lambda>h2.
     if \<not> h2 then Inr False
     else bindE (getInstrumentee one) (\<lambda>i1.
     bindE (getInstrumentee other) (\<lambda>i2.
     if i1 \<noteq> i2 then Inr False
     else if isConstSizeCheckIT one \<and> isConstSizeCheckIT other then
       Inr (accessSize one \<ge> accessSize other)
     else if isVarSizeCheckIT one \<and> isVarSizeCheckIT other then
       Inr (accessSizeVal one = accessSizeVal other)
     else if OptimizeInvariants \<and> isInvariant other then
       Inr (isInvariant one \<or> isConstSizeCheckIT one \<or> isVarSizeCheckIT one)
     else Inr False))))))"

definition dom_pair :: "bool \<Rightarrow> ir \<Rightarrow> tid \<Rightarrow> tid \<Rightarrow> theap \<Rightarrow> theap res" where
  "dom_pair OptimizeInvariants m target otherTarget h =
     (if target = otherTarget then Inr h
      else
        bindE (deref h target) (\<lambda>T.
        bindE (deref h otherTarget) (\<lambda>Other.
        if \<not> isValid T \<or> \<not> isValid Other then Inr h
        else
          bindE (subsumes OptimizeInvariants T Other) (\<lambda>s.
          if \<not> s then Inr h
          else
            bindE (getLocation T) (\<lambda>l1.
            bindE (getLocation Other) (\<lambda>l2.
            Inr (if dominates m l1 l2 then h(otherTarget \<mapsto> invalidate Other) else h)))))))"

definition dominance_updateITargetsForFunction ::
  "bool \<Rightarrow> 's mechanism \<Rightarrow> ir \<Rightarrow> tid list \<Rightarrow> theap \<Rightarrow> theap res" where
  "dominance_updateITargetsForFunction OptimizeInvariants IM m Vec h =
     bindE (if OptimizeInvariants \<and> \<not> im_invariantsAreChecks IM then
              Inl (ReportedError (''The instrumentation mechanism `'' @ im_name IM @
                ''` does not support optimizing invariants the same way as checks. '' @
                ''Don't use -mi-opt-dominance-optimize-invariants.''))
            else Inr ()) (\<lambda>_.
     foldE (\<lambda>target. foldE (dom_pair OptimizeInvariants m target) Vec) Vec h)"

section \<open>What subsumption means\<close>

definition covers :: "bool \<Rightarrow> itarget \<Rightarrow> itarget \<Rightarrow> bool" where
  "covers opt T S \<longleftrightarrow>
     instrumentee T \<noteq> None \<and> instrumentee T = instrumentee S \<and>
     (isConstSizeCheckIT T \<and> isConstSizeCheckIT S \<and> accessSize S \<le> accessSize T \<or>
      isVarSizeCheckIT T \<and> isVarSizeCheckIT S \<and> accessSizeVal T = accessSizeVal S \<or>
      opt \<and> isInvariant S \<and> (isInvariant T \<or> isConstSizeCheckIT T \<or> isVarSizeCheckIT T))"

lemma subsumes_covers:
  assumes "isValid T" and "isValid S"
  shows "subsumes opt T S = Inr (covers opt T S)"
  using assms
  by (cases "kind T"; cases "kind S"; cases "instrumentee T"; cases "instrumentee S")
    (simp_all add: subsumes_def covers_def it_acc_defs it_class_defs isInvariant_iff)

lemma covers_trans: "covers opt T S \<Longrightarrow> covers opt S R \<Longrightarrow> covers opt T R"
  by (auto simp: covers_def it_class_defs isInvariant_iff)

lemma covers_invalidate [simp]:
  "covers opt (invalidate T) S = covers opt T S" "covers opt T (invalidate S) = covers opt T S"
  by (simp_all add: covers_def it_class_defs isInvariant_iff)

text \<open>
  The same, as ranges of addresses: \<open>val\<close> gives the run-time value of each pointer and size.
\<close>

definition checked_range :: "(vid \<Rightarrow> nat) \<Rightarrow> itarget \<Rightarrow> nat set" where
  "checked_range val T =
     (case instrumentee T of
        None \<Rightarrow> {}
      | Some p \<Rightarrow>
          if isConstSizeCheckIT T then {val p ..< val p + accessSize T}
          else if isVarSizeCheckIT T then {val p ..< val p + val (accessSizeVal T)}
          else {})"

lemma covers_range: "covers False T S \<Longrightarrow> checked_range val S \<subseteq> checked_range val T"
  by (auto simp: covers_def checked_range_def it_class_defs split: option.splits)

section \<open>One pair\<close>

definition dominates_or_at :: "ir \<Rightarrow> vid \<Rightarrow> vid \<Rightarrow> bool" where
  "dominates_or_at m a b \<longleftrightarrow> a = b \<or> dominates m a b"

text \<open>Documented behaviour of the dominator tree of LLVM.\<close>

definition dominance_ok :: "ir \<Rightarrow> bool" where
  "dominance_ok m \<longleftrightarrow> (\<forall>a b c. dominates m a b \<longrightarrow> dominates m b c \<longrightarrow> a \<noteq> c \<longrightarrow> dominates m a c)"

lemma dominates_or_at_trans:
  "dominance_ok m \<Longrightarrow> dominates_or_at m a b \<Longrightarrow> dominates_or_at m b c \<Longrightarrow> dominates_or_at m a c"
  unfolding dominance_ok_def dominates_or_at_def by metis

definition redundant :: "bool \<Rightarrow> ir \<Rightarrow> itarget \<Rightarrow> itarget \<Rightarrow> bool" where
  "redundant opt m T S \<longleftrightarrow> covers opt T S \<and> dominates m (location T) (location S)"

lemma dom_pair_eq:
  assumes "h t = Some T" and "h u = Some S"
  shows "dom_pair opt m t u h =
    Inr (if t \<noteq> u \<and> isValid T \<and> isValid S \<and> redundant opt m T S then h(u \<mapsto> invalidate S) else h)"
  using assms
  by (auto simp: dom_pair_def subsumes_covers redundant_def getLocation_def)

section \<open>The loop over all pairs\<close>

text \<open>
  The state of the loop relative to the targets at its start: what was invalidated is covered by a
  valid target of the vector at a location that dominates it.
\<close>

definition dom_inv :: "bool \<Rightarrow> ir \<Rightarrow> tid list \<Rightarrow> theap \<Rightarrow> theap \<Rightarrow> bool" where
  "dom_inv opt m ts h0 h \<longleftrightarrow> only_invalidates h0 h \<and>
     (\<forall>s S. h0 s = Some S \<longrightarrow> isValid S \<longrightarrow> \<not> valid_in h s \<longrightarrow>
        (\<exists>t \<in> set ts. \<exists>T. h t = Some T \<and> isValid T \<and> covers opt T S \<and>
           dominates_or_at m (location T) (location S)))"

lemma dom_inv_start: "dom_inv opt m ts h h"
  by (simp add: dom_inv_def valid_in_def)

lemma dom_inv_step:
  assumes inv: "dom_inv opt m ts h0 h" and ok: "dominance_ok m" and t: "t \<in> set ts"
    and T: "h t = Some T" "isValid T" and U: "h u = Some S" "isValid S" "t \<noteq> u"
    and red: "redundant opt m T S"
  shows "dom_inv opt m ts h0 (h(u \<mapsto> invalidate S))"
proof -
  let ?h = "h(u \<mapsto> invalidate S)"
  have only: "only_invalidates h0 ?h"
    using inv only_invalidates_trans only_invalidates_upd [of h u S] U(1) by (auto simp: dom_inv_def)
  moreover have "\<exists>t \<in> set ts. \<exists>T. ?h t = Some T \<and> isValid T \<and> covers opt T R \<and>
      dominates_or_at m (location T) (location R)"
    if R: "h0 s = Some R" "isValid R" "\<not> valid_in ?h s" for s R
  proof (cases "s = u")
    case True
    with inv U R have "R = S"
      by (metis dom_inv_def only_invalidates_valid option.inject)
    with red T U(3) t show ?thesis
      by (intro bexI [of _ t]) (auto simp: redundant_def dominates_or_at_def)
  next
    case False
    with R(3) have "\<not> valid_in h s" by (simp add: valid_in_def)
    with inv R(1,2) obtain a A where a: "a \<in> set ts" "h a = Some A" "isValid A" "covers opt A R"
      "dominates_or_at m (location A) (location R)"
      unfolding dom_inv_def by blast
    show ?thesis
    proof (cases "a = u")
      case True
      with a U(1) have "A = S" by simp
      with red a have "covers opt T R" "dominates_or_at m (location T) (location R)"
        using covers_trans dominates_or_at_trans [OF ok, of "location T" "location S"]
        by (auto simp: redundant_def dominates_or_at_def)
      with T U(3) t show ?thesis by (intro bexI [of _ t]) auto
    next
      case False
      with a show ?thesis by (intro bexI [of _ a]) auto
    qed
  qed
  ultimately show ?thesis unfolding dom_inv_def by blast
qed

text \<open>One pass of the inner loop; \<open>dom\<close> keeps every identifier of the vector in the heap.\<close>

lemma dom_inner:
  assumes "dom_inv opt m ts h0 h" and "dominance_ok m" and "t \<in> set ts"
    and "set us \<subseteq> set ts" and "set ts \<subseteq> dom h0"
  shows "\<exists>h'. foldE (dom_pair opt m t) us h = Inr h' \<and> dom_inv opt m ts h0 h' \<and> only_invalidates h h' \<and>
    (\<forall>u \<in> set us. \<forall>T S. h' t = Some T \<longrightarrow> h' u = Some S \<longrightarrow> isValid T \<longrightarrow> isValid S \<longrightarrow> t \<noteq> u \<longrightarrow>
       \<not> redundant opt m T S)"
  using assms(1,4)
proof (induction us arbitrary: h)
  case (Cons u us)
  have dom: "dom h = dom h0"
    using Cons.prems(1) only_invalidates_dom by (auto simp: dom_inv_def)
  obtain T S where TS: "h t = Some T" "h u = Some S"
    using dom assms(3,5) Cons.prems(2) by (metis domD list.set_intros(1) subsetD)
  define g where "g = (if t \<noteq> u \<and> isValid T \<and> isValid S \<and> redundant opt m T S
    then h(u \<mapsto> invalidate S) else h)"
  have step: "dom_pair opt m t u h = Inr g" unfolding g_def by (rule dom_pair_eq [OF TS])
  have inv: "dom_inv opt m ts h0 g"
    using dom_inv_step [OF Cons.prems(1) assms(2,3) TS(1) _ TS(2)] Cons.prems(1) by (auto simp: g_def)
  have hg: "only_invalidates h g" using only_invalidates_upd [of h u S, OF TS(2)] by (simp add: g_def)
  from Cons.IH [OF inv] Cons.prems(2) obtain h' where h': "foldE (dom_pair opt m t) us g = Inr h'"
    "dom_inv opt m ts h0 h'" "only_invalidates g h'"
    "\<forall>u \<in> set us. \<forall>T S. h' t = Some T \<longrightarrow> h' u = Some S \<longrightarrow> isValid T \<longrightarrow> isValid S \<longrightarrow> t \<noteq> u \<longrightarrow>
       \<not> redundant opt m T S"
    by auto
  have "\<not> redundant opt m T' S'" if v: "h' t = Some T'" "h' u = Some S'" "isValid T'" "isValid S'" "t \<noteq> u" for T' S'
  proof
    assume red: "redundant opt m T' S'"
    have gt: "g t = Some T'" "g u = Some S'"
      using only_invalidates_valid [OF h'(3)] v by blast+
    then have "h t = Some T'" "h u = Some S'" using only_invalidates_valid [OF hg] v by blast+
    with TS have "T' = T" "S' = S" by simp_all
    with red v have "g u = Some (invalidate S)" by (simp add: g_def)
    with gt(2) v(4) show False by auto
  qed
  with h' step only_invalidates_trans [OF hg h'(3)] show ?case by simp
qed simp

definition irredundant :: "bool \<Rightarrow> ir \<Rightarrow> tid set \<Rightarrow> tid set \<Rightarrow> theap \<Rightarrow> bool" where
  "irredundant opt m A B h \<longleftrightarrow> (\<forall>t \<in> A. \<forall>u \<in> B. \<forall>T S.
     h t = Some T \<longrightarrow> h u = Some S \<longrightarrow> isValid T \<longrightarrow> isValid S \<longrightarrow> t \<noteq> u \<longrightarrow> \<not> redundant opt m T S)"

lemma irredundant_mono:
  assumes "irredundant opt m A B h" and "only_invalidates h h'"
  shows "irredundant opt m A B h'"
  unfolding irredundant_def
proof (intro ballI allI impI)
  fix t u T S
  assume "t \<in> A" "u \<in> B" and v: "h' t = Some T" "h' u = Some S" "isValid T" "isValid S" "t \<noteq> u"
  moreover have "h t = Some T" "h u = Some S" using only_invalidates_valid [OF assms(2)] v by blast+
  ultimately show "\<not> redundant opt m T S" using assms(1) unfolding irredundant_def by blast
qed

lemma dom_outer:
  assumes "dom_inv opt m ts h0 h" and "dominance_ok m" and "set vs \<subseteq> set ts" and "set ts \<subseteq> dom h0"
  shows "\<exists>h'. foldE (\<lambda>t. foldE (dom_pair opt m t) ts) vs h = Inr h' \<and> dom_inv opt m ts h0 h' \<and>
    only_invalidates h h' \<and> irredundant opt m (set vs) (set ts) h'"
  using assms(1,3)
proof (induction vs arbitrary: h)
  case Nil
  then show ?case by (simp add: irredundant_def)
next
  case (Cons t vs)
  then have t: "t \<in> set ts" and vs: "set vs \<subseteq> set ts" by auto
  from dom_inner [OF Cons.prems(1) assms(2) t subset_refl assms(4)] obtain g where
    g: "foldE (dom_pair opt m t) ts h = Inr g" "dom_inv opt m ts h0 g" "only_invalidates h g"
      "irredundant opt m {t} (set ts) g"
    unfolding irredundant_def by blast
  from Cons.IH [OF g(2) vs] obtain h' where
    h': "foldE (\<lambda>t. foldE (dom_pair opt m t) ts) vs g = Inr h'" "dom_inv opt m ts h0 h'"
      "only_invalidates g h'" "irredundant opt m (set vs) (set ts) h'"
    by blast
  have "irredundant opt m (set (t # vs)) (set ts) h'"
    using h'(4) irredundant_mono [OF g(4) h'(3)] by (simp add: irredundant_def)
  with h' g only_invalidates_trans [OF g(3) h'(3)] show ?case by auto
qed


text \<open>
  C14: After the dominance based removal no valid target of the function makes another one
  redundant, with and without the optimization of invariants: the removal is complete in one run.
\<close>

theorem dominance_removal_complete:
  assumes "dominance_ok m" and "set ts \<subseteq> dom h" and "opt \<longrightarrow> im_invariantsAreChecks im"
  shows "\<exists>h'. dominance_updateITargetsForFunction opt im m ts h = Inr h' \<and>
    (\<forall>t \<in> set ts. \<forall>u \<in> set ts. \<forall>T S. h' t = Some T \<longrightarrow> h' u = Some S \<longrightarrow> isValid T \<longrightarrow> isValid S \<longrightarrow>
       t \<noteq> u \<longrightarrow> \<not> (subsumes opt T S = Inr True \<and> dominates m (location T) (location S)))"
proof -
  obtain h' where h': "dominance_updateITargetsForFunction opt im m ts h = Inr h'"
    "irredundant opt m (set ts) (set ts) h'"
    using dom_outer [OF dom_inv_start assms(1) subset_refl assms(2)] assms(3)
    by (fastforce simp: dominance_updateITargetsForFunction_def)
  moreover have "\<not> (subsumes opt T S = Inr True \<and> dominates m (location T) (location S))"
    if "t \<in> set ts" "u \<in> set ts" "h' t = Some T" "h' u = Some S" "isValid T" "isValid S" "t \<noteq> u" for t u T S
  proof -
    from h'(2) that have "\<not> redundant opt m T S" unfolding irredundant_def by blast
    with that show ?thesis by (simp add: redundant_def subsumes_covers)
  qed
  ultimately show ?thesis by blast
qed

lemma dominance_updateITargetsForFunction_only_invalidates:
  assumes "dominance_updateITargetsForFunction opt im m ts h = Inr h'"
  shows "only_invalidates h h'"
proof -
  have pair: "only_invalidates h g'" if "dom_pair opt m t u g = Inr g'" "only_invalidates h g" for t u g g'
    using that by (auto simp: dom_pair_def res_simps split: if_splits
        intro: only_invalidates_trans only_invalidates_upd)
  have inner: "only_invalidates h g'" if "foldE (dom_pair opt m t) us g = Inr g'" "only_invalidates h g" for t us g g'
    by (rule foldE_invariant [OF that(1), where I = "only_invalidates h"]) (use that(2) pair in blast)+
  from assms have "foldE (\<lambda>t. foldE (dom_pair opt m t) ts) ts h = Inr h'"
    by (auto simp: dominance_updateITargetsForFunction_def res_simps)
  then show ?thesis
    by (rule foldE_invariant [where I = "only_invalidates h"]) (use inner in \<open>blast intro: only_invalidates_refl\<close>)+
qed

section \<open>Witnesses\<close>

text \<open>Three checks of the pointer 3: a small one at 5, a large one at 6, an equal one at 7.\<close>

definition demo_checks :: theap where
  "demo_checks =
     [0 \<mapsto> (mkITarget ITK_ConstSizeCheck (Some 3) 5 True True False)\<lparr>accessSize := 4\<rparr>,
      1 \<mapsto> (mkITarget ITK_ConstSizeCheck (Some 3) 6 True True False)\<lparr>accessSize := 8\<rparr>,
      2 \<mapsto> (mkITarget ITK_ConstSizeCheck (Some 3) 7 True True False)\<lparr>accessSize := 8\<rparr>]"

definition none_mechanism :: "unit mechanism" where
  "none_mechanism =
     \<lparr>im_name = ''none'', im_invariantsAreChecks = True, im_insertWitnesses = (\<lambda>T s. Inl NullPointer),
      im_getRelocatedClone = (\<lambda>w v s. Inl NullPointer), im_getWitnessPhi = (\<lambda>v s. Inl NullPointer),
      im_addIncomingWitnessToPhi = (\<lambda>a b c s. Inl NullPointer),
      im_getWitnessSelect = (\<lambda>v a b s. Inl NullPointer), im_materializeBounds = (\<lambda>T s. Inr s),
      im_insertCheck = (\<lambda>T s. Inr s)\<rparr>"

lemma demo_dominance_ok: "dominance_ok demo"
  by (simp add: dominance_ok_def demo_def)

lemma demo_checks_dom: "set [0, 1, 2] \<subseteq> dom demo_checks"
  by (simp add: demo_checks_def)


lemma dominance_removal_complete_witness:
  "\<exists>h'. dominance_updateITargetsForFunction True none_mechanism demo [0, 1, 2] demo_checks = Inr h' \<and>
    (\<forall>t \<in> set [0, 1, 2]. \<forall>u \<in> set [0, 1, 2]. \<forall>T S.
       h' t = Some T \<longrightarrow> h' u = Some S \<longrightarrow> isValid T \<longrightarrow> isValid S \<longrightarrow> t \<noteq> u \<longrightarrow>
       \<not> (subsumes True T S = Inr True \<and> dominates demo (location T) (location S)))"
  by (rule dominance_removal_complete [OF demo_dominance_ok demo_checks_dom]) (simp add: none_mechanism_def)

lemma demo_checks_run:
  "case dominance_updateITargetsForFunction False none_mechanism demo [0, 1, 2] demo_checks of
     Inl e \<Rightarrow> False
   | Inr h \<Rightarrow> map (\<lambda>t. map_option isValid (h t)) [0, 1, 2] = [Some True, Some True, Some False]"
  by code_simp

end
