(* ===== verification/Removal.thy ===== *)
theory Removal
  imports Complex_Main "HOL-Library.Multiset" TargetHeap
begin

text \<open>
  The two removal passes that consult data outside of the targets:
  \<open>lib/optimizations/AnnotationBasedRemovalPass.cpp\<close> (metadata at the location) and
  \<open>lib/optimizations/HotnessBasedCheckRemovalPass.cpp\<close> with \<open>lib/optimizations/PerfData.cpp\<close> (execution
  counts from a database). The database engine is the record \<open>sqlite\<close>, the permutation
  \<open>std::random_shuffle\<close> applies is a field of the options; counters and printing are left out,
  except for the counter of failing lookups.
\<close>

section \<open>AnnotationBasedRemovalPass\<close>

definition annotation_target :: "string \<Rightarrow> ir \<Rightarrow> tid \<Rightarrow> theap \<Rightarrow> theap res" where
  "annotation_target RemovalAnnotationString m target h =
     bindE (deref h target) (\<lambda>T.
     if \<not> isValid T then Inr h
     else bindE (getLocation T) (\<lambda>loc.
       if get_metadata m loc RemovalAnnotationString \<noteq> None \<and> isCheck T
       then Inr (h(target \<mapsto> invalidate T)) else Inr h))"

definition annotation_updateITargetsForFunction :: "string \<Rightarrow> ir \<Rightarrow> tid list \<Rightarrow> theap \<Rightarrow> theap res" where
  "annotation_updateITargetsForFunction RemovalAnnotationString m =
     foldE (annotation_target RemovalAnnotationString m)"

section \<open>PerfData\<close>

record sqlite =
  sq_open :: "string \<Rightarrow> bool"
  sq_exec :: "string \<Rightarrow> string option list list"
  sq_integer :: "string \<Rightarrow> nat option"

text \<open>
  The static variables of \<open>getHotnessIndex\<close>. The engine answers a query with rows of fields (null
  or text); a query it rejects has no rows. \<open>sq_integer\<close> is \<open>StringRef::getAsInteger(10, _)\<close>, which
  leaves its result untouched when the text is no number.
\<close>

record perf_state =
  perf_db :: bool
  perf_failed :: bool
  perf_found_mid :: bool
  perf_mid :: nat
  FailingHotnessLookUps :: nat

definition perf_start :: perf_state where
  "perf_start = \<lparr>perf_db = False, perf_failed = False, perf_found_mid = False, perf_mid = 0,
     FailingHotnessLookUps = 0\<rparr>"

type_synonym query_result = "nat \<times> bool"

definition query_callback :: "sqlite \<Rightarrow> string option list \<Rightarrow> query_result \<Rightarrow> query_result res" where
  "query_callback db row qr =
     bindE (assertE (length row = 1) ''numCols == 1'') (\<lambda>_.
     let num = (case hd row of None \<Rightarrow> [] | Some s \<Rightarrow> s)
     in Inr (case sq_integer db num of None \<Rightarrow> fst qr | Some n \<Rightarrow> n, True))"

definition queryValue :: "sqlite \<Rightarrow> string \<Rightarrow> query_result res" where
  "queryValue db query = foldE (query_callback db) (sq_exec db query) (0, False)"

definition module_query :: "string \<Rightarrow> string" where
  "module_query ModuleName =
     ''SELECT mid FROM modulenames'' @ ''WHERE mname==\"'' @ ModuleName @ ''\" '' @ ''LIMIT 1''"

definition value_query :: "nat \<Rightarrow> string \<Rightarrow> nat \<Rightarrow> string" where
  "value_query mid FunctionName AccessId =
     ''SELECT value FROM data '' @ ''WHERE mid==\"'' @ to_string mid @ ''\" '' @
     ''AND fname==\"'' @ FunctionName @ ''\" '' @ ''AND aid=='' @ to_string AccessId @ '' '' @ ''LIMIT 1''"

definition perf_fail :: "perf_state \<Rightarrow> perf_state" where
  "perf_fail s = s\<lparr>perf_failed := True, FailingHotnessLookUps := Suc (FailingHotnessLookUps s)\<rparr>"

definition lookup_value ::
  "sqlite \<Rightarrow> string \<Rightarrow> nat \<Rightarrow> perf_state \<Rightarrow> (nat \<times> perf_state) res" where
  "lookup_value db FunctionName AccessId s =
     bindE (queryValue db (value_query (perf_mid s) FunctionName AccessId)) (\<lambda>(v, did).
     Inr (v, if did then s else s\<lparr>FailingHotnessLookUps := Suc (FailingHotnessLookUps s)\<rparr>))"

definition getHotnessIndex ::
  "string \<Rightarrow> sqlite \<Rightarrow> string \<Rightarrow> string \<Rightarrow> nat \<Rightarrow> perf_state \<Rightarrow> (nat \<times> perf_state) res" where
  "getHotnessIndex DBPath db ModuleName FunctionName AccessId s =
     (if perf_failed s then Inr (0, s)
      else if \<not> perf_db s \<and> \<not> sq_open db DBPath then Inr (0, perf_fail s)
      else
        let s1 = s\<lparr>perf_db := True\<rparr> in
        if perf_found_mid s1 then lookup_value db FunctionName AccessId s1
        else
          bindE (queryValue db (module_query ModuleName)) (\<lambda>(v, did).
          if \<not> did then Inr (0, perf_fail s1)
          else lookup_value db FunctionName AccessId (s1\<lparr>perf_mid := v, perf_found_mid := True\<rparr>)))"

text \<open>The variant of a build without the database library.\<close>

definition getHotnessIndex_nodb :: "string \<Rightarrow> string \<Rightarrow> nat \<Rightarrow> perf_state \<Rightarrow> (nat \<times> perf_state) res" where
  "getHotnessIndex_nodb ModuleName FunctionName AccessId s =
     Inr (0, s\<lparr>FailingHotnessLookUps := Suc (FailingHotnessLookUps s)\<rparr>)"

section \<open>HotnessBasedCheckRemovalPass\<close>

datatype filter_ordering = FO_random | FO_hottest | FO_coolest

record hot_opts =
  FilterOrderingOpt :: filter_ordering
  RandomFilteringRatioOpt :: rat
  RandomFilteringSeedOpt :: int
  random_perm :: "int \<Rightarrow> nat \<Rightarrow> nat list"

type_synonym hotness = "vid \<rightharpoonup> nat"

definition hot_inst ::
  "(string \<Rightarrow> string \<Rightarrow> nat \<Rightarrow> perf_state \<Rightarrow> (nat \<times> perf_state) res) \<Rightarrow> string \<Rightarrow> ir \<Rightarrow> vid \<Rightarrow> vid \<Rightarrow>
   hotness \<times> perf_state \<Rightarrow> (hotness \<times> perf_state) res" where
  "hot_inst hotnessIndex mname m fun inst hs =
     (case get_inst m inst of
        Some i \<Rightarrow>
          if (case i of Load _ \<Rightarrow> True | Store _ _ \<Rightarrow> True | _ \<Rightarrow> False) \<and> hasAccessID m inst then
            bindE (getAccessID m inst) (\<lambda>aid.
            bindE (hotnessIndex mname (v_name (vals m fun)) aid (snd hs)) (\<lambda>(v, s).
            Inr ((fst hs)(inst \<mapsto> v), s)))
          else Inr hs
      | None \<Rightarrow> Inr hs)"

definition hotness_runOnModule ::
  "hot_opts \<Rightarrow> (string \<Rightarrow> string \<Rightarrow> nat \<Rightarrow> perf_state \<Rightarrow> (nat \<times> perf_state) res) \<Rightarrow> string \<Rightarrow> ir \<Rightarrow>
   hotness \<times> perf_state \<Rightarrow> (hotness \<times> perf_state) res" where
  "hotness_runOnModule opts hotnessIndex mname m hs =
     (if FilterOrderingOpt opts = FO_random then Inr hs
      else foldE (\<lambda>fun. foldE (hot_inst hotnessIndex mname m fun) (fun_insts m fun)) (mod_functions m) hs)"

subsection \<open>The bound\<close>

text \<open>
  \<open>(size_t)(((double)cpy.size()) * RandomFilteringRatioOpt)\<close>: the ratio is a double (a rational),
  the product is rounded to the nearest multiple of the spacing of the doubles at its magnitude,
  ties to even, and truncated. Below 1 the spacing is taken as the one of [1/2, 1), which
  truncation cannot tell from the finer ones.
\<close>

fun floor_log2 :: "nat \<Rightarrow> nat" where
  "floor_log2 n = (if n < 2 then 0 else Suc (floor_log2 (n div 2)))"

declare floor_log2.simps [simp del]

definition round_half_even :: "rat \<Rightarrow> int" where
  "round_half_even y =
     (let f = \<lfloor>y\<rfloor>; d = y - of_int f
      in if d < 1 / 2 then f else if d > 1 / 2 then f + 1 else if even f then f else f + 1)"

definition double_spacing :: "rat \<Rightarrow> rat" where
  "double_spacing x = (if x < 1 then 1 / 2 ^ 53 else 2 ^ floor_log2 (nat \<lfloor>x\<rfloor>) / 2 ^ 52)"

definition filter_bound :: "nat \<Rightarrow> rat \<Rightarrow> nat" where
  "filter_bound n ratio =
     (let x = of_nat n * ratio; s = double_spacing x
      in nat \<lfloor>of_int (round_half_even (x / s)) * s\<rfloor>)"

subsection \<open>updateITargetsForModule\<close>

definition hot_candidate :: "ir \<Rightarrow> itarget \<Rightarrow> bool res" where
  "hot_candidate m T =
     (if \<not> isValid T then Inr False
      else bindE (getLocation T) (\<lambda>loc.
        Inr ((case get_inst m loc of Some (Load _) \<Rightarrow> True | Some (Store _ _) \<Rightarrow> True | _ \<Rightarrow> False) \<and> isCheck T)))"

definition hot_collect :: "ir \<Rightarrow> theap \<Rightarrow> (vid \<times> tid list) list \<Rightarrow> tid list res" where
  "hot_collect m h targetMap =
     foldE (\<lambda>t cpy. bindE (deref h t) (\<lambda>T. bindE (hot_candidate m T) (\<lambda>c.
       Inr (if c then cpy @ [t] else cpy)))) (concat (map snd targetMap)) []"

definition heat :: "hotness \<Rightarrow> theap \<Rightarrow> tid \<Rightarrow> nat" where
  "heat hot h t =
     (case h t of None \<Rightarrow> 0
      | Some T \<Rightarrow> (case hot (location T) of None \<Rightarrow> 0 | Some v \<Rightarrow> v))"

definition hot_order :: "hot_opts \<Rightarrow> hotness \<Rightarrow> theap \<Rightarrow> tid list \<Rightarrow> tid list" where
  "hot_order opts hot h cpy =
     (case FilterOrderingOpt opts of
        FO_random \<Rightarrow> map (\<lambda>i. cpy ! i) (random_perm opts (RandomFilteringSeedOpt opts) (length cpy))
      | FO_hottest \<Rightarrow> sort_key (\<lambda>t. - int (heat hot h t)) cpy
      | FO_coolest \<Rightarrow> sort_key (\<lambda>t. int (heat hot h t)) cpy)"

definition invalidate_at :: "tid list \<Rightarrow> nat \<Rightarrow> theap \<Rightarrow> theap res" where
  "invalidate_at cpy i h =
     (if i < length cpy then
        bindE (deref h (cpy ! i)) (\<lambda>T. Inr (h(cpy ! i \<mapsto> invalidate T)))
      else Inl NullPointer)"

definition hotness_updateITargetsForModule ::
  "hot_opts \<Rightarrow> hotness \<Rightarrow> ir \<Rightarrow> (vid \<times> tid list) list \<Rightarrow> theap \<Rightarrow> theap res" where
  "hotness_updateITargetsForModule opts hot m targetMap h =
     bindE (assertE (0 \<le> RandomFilteringRatioOpt opts \<and> RandomFilteringRatioOpt opts \<le> 1)
       ''RandomFilteringRatioOpt >= 0 && RandomFilteringRatioOpt <= 1'') (\<lambda>_.
     bindE (hot_collect m h targetMap) (\<lambda>cpy.
     foldE (invalidate_at (hot_order opts hot h cpy))
       [0 ..< filter_bound (length cpy) (RandomFilteringRatioOpt opts)] h))"

section \<open>The annotation filter\<close>

definition annotated_check :: "string \<Rightarrow> ir \<Rightarrow> itarget \<Rightarrow> bool" where
  "annotated_check s m T \<longleftrightarrow>
     isValid T \<and> isCheck T \<and> get_metadata m (location T) s \<noteq> None"

lemma annotation_run:
  assumes "set ts \<subseteq> dom h"
  shows "annotation_updateITargetsForFunction s m ts h =
    Inr (\<lambda>t. if t \<in> set ts then map_option (\<lambda>T. if annotated_check s m T then invalidate T else T) (h t)
             else h t)"
  using assms
proof (induction ts arbitrary: h)
  case Nil
  then show ?case by (simp add: annotation_updateITargetsForFunction_def)
next
  case (Cons t ts)
  then obtain T where T: "h t = Some T" by auto
  define T' where "T' = (if annotated_check s m T then invalidate T else T)"
  have twice: "\<not> annotated_check s m T'" if "annotated_check s m T" for T
    by (simp add: T'_def annotated_check_def)
  have step: "annotation_target s m t h = Inr (h(t \<mapsto> T'))"
    using T by (auto simp: annotation_target_def getLocation_def annotated_check_def T'_def fun_upd_idem)
  have "annotation_updateITargetsForFunction s m (t # ts) h =
      annotation_updateITargetsForFunction s m ts (h(t \<mapsto> T'))"
    by (simp add: annotation_updateITargetsForFunction_def step)
  also have "\<dots> = Inr (\<lambda>u. if u \<in> set ts then map_option (\<lambda>T. if annotated_check s m T then invalidate T else T)
      ((h(t \<mapsto> T')) u) else (h(t \<mapsto> T')) u)"
    using Cons.prems by (intro Cons.IH) auto
  also have "(\<lambda>u. if u \<in> set ts then map_option (\<lambda>T. if annotated_check s m T then invalidate T else T)
      ((h(t \<mapsto> T')) u) else (h(t \<mapsto> T')) u) =
      (\<lambda>u. if u \<in> set (t # ts) then map_option (\<lambda>T. if annotated_check s m T then invalidate T else T) (h u)
           else h u)"
    using T by (auto simp: fun_eq_iff T'_def annotated_check_def)
  finally show ?case .
qed

text \<open>
  The annotation based removal invalidates exactly the valid checks of the function whose
  location carries the annotation.
\<close>

theorem annotation_removal_exact:
  assumes "set ts \<subseteq> dom h"
  shows "annotation_updateITargetsForFunction s m ts h =
    Inr (\<lambda>t. if t \<in> set ts then map_option (\<lambda>T. if annotated_check s m T then invalidate T else T) (h t)
             else h t)"
  by (rule annotation_run [OF assms])

section \<open>The bound stays inside the vector\<close>

lemma floor_log2_le: "n \<noteq> 0 \<Longrightarrow> 2 ^ floor_log2 n \<le> n"
proof (induction n rule: floor_log2.induct)
  case (1 n)
  show ?case
  proof (cases "n < 2")
    case True
    with 1 show ?thesis by (simp add: floor_log2.simps [of n])
  next
    case False
    with 1 have "2 ^ floor_log2 (n div 2) \<le> n div 2" by simp
    then have "2 * 2 ^ floor_log2 (n div 2) \<le> n" by linarith
    with False show ?thesis by (simp add: floor_log2.simps [of n])
  qed
qed

lemma round_half_even_le:
  assumes "y \<le> of_int z"
  shows "round_half_even y \<le> z"
proof -
  have f: "\<lfloor>y\<rfloor> \<le> z" using assms floor_le_iff by (metis floor_mono floor_of_int)
  show ?thesis
  proof (cases "\<lfloor>y\<rfloor> = z")
    case True
    then have "y = of_int z" using assms of_int_floor_le [of y] by (simp add: order_antisym)
    then show ?thesis by (simp add: round_half_even_def Let_def)
  next
    case False
    with f show ?thesis by (auto simp: round_half_even_def Let_def)
  qed
qed

lemma double_spacing_divides:
  assumes "n < 2 ^ 53" and "x \<le> of_nat n"
  shows "\<exists>N::int. of_nat n / double_spacing x = of_int N"
proof (cases "x < 1")
  case True
  have "of_nat n / double_spacing x = of_int (int n * 2 ^ 53)"
    using True by (simp add: double_spacing_def)
  then show ?thesis ..
next
  case False
  let ?e = "floor_log2 (nat \<lfloor>x\<rfloor>)"
  have "nat \<lfloor>x\<rfloor> \<noteq> 0" using False by (simp add: not_less)
  then have "2 ^ ?e \<le> nat \<lfloor>x\<rfloor>" by (rule floor_log2_le)
  also have "\<dots> \<le> n" using assms(2) by (simp add: floor_le_iff nat_le_iff)
  also have "\<dots> < 2 ^ 53" by (rule assms(1))
  finally have "(2::nat) ^ ?e < 2 ^ 53" .
  then have "?e < 53" by (rule power_less_imp_less_exp [rotated]) simp
  then have "?e \<le> 52" by simp
  then have eq: "(2::rat) ^ 52 = 2 ^ ?e * 2 ^ (52 - ?e)" by (simp flip: power_add)
  have "of_nat n / double_spacing x = of_nat n / (2 ^ ?e / 2 ^ 52)"
    using False by (simp only: double_spacing_def if_False)
  also have "\<dots> = of_nat n * 2 ^ (52 - ?e)"
    by (subst eq) (simp add: field_simps)
  finally have "of_nat n / double_spacing x = of_int (int n * 2 ^ (52 - ?e))" by simp
  then show ?thesis ..
qed

lemma filter_bound_le_size:
  assumes "n < 2 ^ 53" and "0 \<le> ratio" and "ratio \<le> 1"
  shows "filter_bound n ratio \<le> n"
proof -
  let ?x = "of_nat n * ratio :: rat" and ?s = "double_spacing (of_nat n * ratio)"
  have s: "0 < ?s" by (simp add: double_spacing_def)
  have x: "?x \<le> of_nat n" using assms(2,3) by (simp add: mult_left_le)
  obtain N :: int where N: "of_nat n / ?s = of_int N"
    using double_spacing_divides [OF assms(1) x] by blast
  have "?x / ?s \<le> of_nat n / ?s" using x s by (simp add: divide_right_mono)
  then have "?x / ?s \<le> of_int N" using N by simp
  then have "round_half_even (?x / ?s) \<le> N" by (rule round_half_even_le)
  then have "of_int (round_half_even (?x / ?s)) * ?s \<le> of_int N * ?s"
    using s by (simp add: mult_right_mono)
  also have "\<dots> = of_nat n" using N s by (simp add: field_simps)
  finally have "\<lfloor>of_int (round_half_even (?x / ?s)) * ?s\<rfloor> \<le> int n" by (simp add: floor_le_iff)
  then show ?thesis by (simp add: filter_bound_def Let_def)
qed

text \<open>
  The number of checks the hotness filter removes is at most the number of candidates, so the
  loop over the copied vector stays inside it, although the bound is computed in doubles.
\<close>

theorem filter_bound_le:
  assumes "n < 2 ^ 53" and "0 \<le> ratio" and "ratio \<le> 1"
  shows "filter_bound n ratio \<le> n"
  by (rule filter_bound_le_size [OF assms])

lemma filter_bound_le_witness:
  "filter_bound 10 (1 / 2) = 5 \<and> filter_bound 10 (1 / 2) \<le> 10"
proof
  show "filter_bound 10 (1 / 2) = 5" by code_simp
  show "filter_bound 10 (1 / 2) \<le> 10" by (rule filter_bound_le) simp_all
qed

section \<open>What the hotness filter removes\<close>

definition candidates :: "ir \<Rightarrow> theap \<Rightarrow> (vid \<times> tid list) list \<Rightarrow> tid list" where
  "candidates m h targetMap = filter (\<lambda>t. case h t of None \<Rightarrow> False
     | Some T \<Rightarrow> isValid T \<and> isCheck T \<and>
         (case get_inst m (location T) of Some (Load _) \<Rightarrow> True | Some (Store _ _) \<Rightarrow> True | _ \<Rightarrow> False))
     (concat (map snd targetMap))"

definition invalidate_all :: "tid set \<Rightarrow> theap \<Rightarrow> theap" where
  "invalidate_all A h = (\<lambda>t. if t \<in> A then map_option invalidate (h t) else h t)"

lemma only_invalidates_all: "only_invalidates h (invalidate_all A h)"
proof -
  have "invalidate_all A h t = h t \<or> (\<exists>T. h t = Some T \<and> invalidate_all A h t = Some (invalidate T))" for t
    by (cases "h t") (auto simp: invalidate_all_def)
  then show ?thesis by (simp add: only_invalidates_def)
qed

lemma hot_collect_candidates:
  assumes "set (concat (map snd targetMap)) \<subseteq> dom h"
  shows "hot_collect m h targetMap = Inr (candidates m h targetMap)"
proof -
  have "foldE (\<lambda>t cpy. bindE (deref h t) (\<lambda>T. bindE (hot_candidate m T) (\<lambda>c.
       Inr (if c then cpy @ [t] else cpy)))) ts acc =
     Inr (acc @ filter (\<lambda>t. case h t of None \<Rightarrow> False
     | Some T \<Rightarrow> isValid T \<and> isCheck T \<and>
         (case get_inst m (location T) of Some (Load _) \<Rightarrow> True | Some (Store _ _) \<Rightarrow> True | _ \<Rightarrow> False)) ts)"
    if "set ts \<subseteq> dom h" for ts acc
    using that
  proof (induction ts arbitrary: acc)
    case (Cons t ts)
    then obtain T where T: "h t = Some T" by auto
    have "hot_candidate m T = Inr (isValid T \<and> isCheck T \<and>
        (case get_inst m (location T) of Some (Load _) \<Rightarrow> True | Some (Store _ _) \<Rightarrow> True | _ \<Rightarrow> False))"
      by (auto simp: hot_candidate_def getLocation_def)
    with T Cons show ?case by simp
  qed simp
  from this [OF assms] show ?thesis by (simp add: hot_collect_def candidates_def)
qed

lemma invalidate_prefix:
  assumes "set xs \<subseteq> dom h" and "b \<le> length xs"
  shows "foldE (invalidate_at xs) [0 ..< b] h = Inr (invalidate_all (set (take b xs)) h)"
  using assms(2)
proof (induction b)
  case 0
  show ?case by (simp add: invalidate_all_def)
next
  case (Suc b)
  then have IH: "foldE (invalidate_at xs) [0 ..< b] h = Inr (invalidate_all (set (take b xs)) h)" by simp
  have "xs ! b \<in> set xs" using Suc.prems by simp
  then have "xs ! b \<in> dom h" using assms(1) by blast
  then obtain T where T: "h (xs ! b) = Some T" by auto
  have "invalidate_at xs b (invalidate_all A h) = Inr (invalidate_all (insert (xs ! b) A) h)" for A
    using T Suc.prems by (auto simp: invalidate_at_def invalidate_all_def deref_def fun_eq_iff)
  moreover have "set (take (Suc b) xs) = insert (xs ! b) (set (take b xs))"
    using Suc.prems by (simp add: take_Suc_conv_app_nth)
  ultimately show ?case using IH by (simp add: foldE_append)
qed

lemma sorted_take_drop:
  assumes "sorted (map f xs)" and "a \<in> set (take b xs)" and "c \<in> set (drop b xs)"
  shows "f a \<le> f c"
proof -
  have "sorted (map f (take b xs @ drop b xs))" using assms(1) by simp
  then show ?thesis using assms(2,3) unfolding map_append sorted_append by auto
qed

definition perm_ok :: "hot_opts \<Rightarrow> bool" where
  "perm_ok opts \<longleftrightarrow> (\<forall>seed n. mset (random_perm opts seed n) = mset [0 ..< n])"

lemma hot_order_mset:
  assumes "perm_ok opts"
  shows "mset (hot_order opts hot h cpy) = mset cpy"
proof (cases "FilterOrderingOpt opts")
  case FO_random
  have "mset (map ((!) cpy) (random_perm opts (RandomFilteringSeedOpt opts) (length cpy))) =
      image_mset ((!) cpy) (mset [0 ..< length cpy])"
    using assms by (simp add: perm_ok_def)
  also have "\<dots> = mset (map ((!) cpy) [0 ..< length cpy])" by simp
  also have "map ((!) cpy) [0 ..< length cpy] = cpy" by (rule map_nth)
  finally show ?thesis using FO_random by (simp add: hot_order_def)
qed (simp_all add: hot_order_def)

lemma hotness_run:
  assumes dom: "set (concat (map snd targetMap)) \<subseteq> dom h" and "perm_ok opts"
    and "0 \<le> RandomFilteringRatioOpt opts" and "RandomFilteringRatioOpt opts \<le> 1"
    and "length (candidates m h targetMap) < 2 ^ 53"
  shows "hotness_updateITargetsForModule opts hot m targetMap h =
    Inr (invalidate_all (set (take (filter_bound (length (candidates m h targetMap)) (RandomFilteringRatioOpt opts))
      (hot_order opts hot h (candidates m h targetMap)))) h)"
proof -
  let ?cpy = "candidates m h targetMap"
  let ?xs = "hot_order opts hot h ?cpy"
  let ?b = "filter_bound (length ?cpy) (RandomFilteringRatioOpt opts)"
  have ms: "mset ?xs = mset ?cpy" by (rule hot_order_mset [OF assms(2)])
  then have set: "set ?xs = set ?cpy" and len: "length ?xs = length ?cpy"
    by (metis set_mset_mset, metis size_mset)
  have b: "?b \<le> length ?xs" using filter_bound_le_size assms(3-5) len by simp
  have "set ?xs \<subseteq> dom h" using dom unfolding set by (auto simp: candidates_def)
  from invalidate_prefix [OF this b] hot_collect_candidates [OF dom] assms(3,4)
  show ?thesis by (simp add: hotness_updateITargetsForModule_def)
qed

text \<open>
  C20: The hotness filter invalidates, of the candidates (valid checks of loads and stores), as
  many as its bound says and nothing else; it never reads outside of the vector. With the ordering
  \<open>hottest\<close> no candidate that remains is hotter than one that was removed, with \<open>coolest\<close> none is
  cooler.
\<close>

theorem hotness_removal:
  assumes dom: "set (concat (map snd targetMap)) \<subseteq> dom h" and "perm_ok opts"
    and "0 \<le> RandomFilteringRatioOpt opts" and "RandomFilteringRatioOpt opts \<le> 1"
    and cpy: "cpy = candidates m h targetMap" and "distinct cpy" and "length cpy < 2 ^ 53"
  shows "\<exists>R. hotness_updateITargetsForModule opts hot m targetMap h = Inr (invalidate_all R h) \<and>
    R \<subseteq> set cpy \<and> card R = filter_bound (length cpy) (RandomFilteringRatioOpt opts) \<and>
    (\<forall>a \<in> R. \<forall>b \<in> set cpy - R.
       (FilterOrderingOpt opts = FO_hottest \<longrightarrow> heat hot h b \<le> heat hot h a) \<and>
       (FilterOrderingOpt opts = FO_coolest \<longrightarrow> heat hot h a \<le> heat hot h b))"
proof -
  let ?xs = "hot_order opts hot h cpy"
  let ?b = "filter_bound (length cpy) (RandomFilteringRatioOpt opts)"
  have ms: "mset ?xs = mset cpy" by (rule hot_order_mset [OF assms(2)])
  then have set: "set ?xs = set cpy" and len: "length ?xs = length cpy"
    by (metis set_mset_mset, metis size_mset)
  have dist: "distinct ?xs" using ms assms(6) by (metis mset_eq_imp_distinct_iff)
  have b: "?b \<le> length ?xs" using filter_bound_le_size assms(3,4,7) len by simp
  have run: "hotness_updateITargetsForModule opts hot m targetMap h =
      Inr (invalidate_all (set (take ?b ?xs)) h)"
    using hotness_run [OF dom assms(2-4)] assms(7) by (simp add: cpy)
  have card: "card (set (take ?b ?xs)) = ?b"
    using dist b by (simp add: distinct_card)
  have sub: "set (take ?b ?xs) \<subseteq> set cpy" using set set_take_subset by fastforce
  have rest: "c \<in> set (drop ?b ?xs)" if "c \<in> set cpy - set (take ?b ?xs)" for c
    using that set by (metis DiffE Un_iff append_take_drop_id set_append)
  have hot: "heat hot h c \<le> heat hot h a"
    if "a \<in> set (take ?b ?xs)" "c \<in> set (drop ?b ?xs)" "FilterOrderingOpt opts = FO_hottest" for a c
  proof -
    have "sorted (map (\<lambda>t. - int (heat hot h t)) ?xs)" using that(3) by (simp add: hot_order_def)
    from sorted_take_drop [OF this that(1,2)] show ?thesis by simp
  qed
  have cool: "heat hot h a \<le> heat hot h c"
    if "a \<in> set (take ?b ?xs)" "c \<in> set (drop ?b ?xs)" "FilterOrderingOpt opts = FO_coolest" for a c
  proof -
    have "sorted (map (\<lambda>t. int (heat hot h t)) ?xs)" using that(3) by (simp add: hot_order_def)
    from sorted_take_drop [OF this that(1,2)] show ?thesis by simp
  qed
  show ?thesis
    by (rule exI [of _ "set (take ?b ?xs)"]) (use run card sub hot cool rest in blast)
qed

section \<open>The query for the module\<close>

lemma module_query_text:
  "module_query mname = ''SELECT mid FROM modulenamesWHERE mname==\"'' @ mname @ ''\" LIMIT 1''"
  by (simp add: module_query_def)

text \<open>
  An engine that rejects the text above (there is no blank between the table and \<open>WHERE\<close>)
  returns no row.
\<close>

definition no_heat :: "hotness \<times> perf_state \<Rightarrow> bool" where
  "no_heat hs \<longleftrightarrow> (\<forall>v \<in> ran (fst hs). v = 0) \<and> \<not> perf_found_mid (snd hs)"

lemma getHotnessIndex_rejected:
  assumes "sq_exec db (module_query mname) = []" and "\<not> perf_found_mid s"
  shows "\<exists>s'. getHotnessIndex path db mname f a s = Inr (0, s') \<and> \<not> perf_found_mid s' \<and> perf_failed s'"
  using assms
  by (cases "perf_failed s") (auto simp: getHotnessIndex_def queryValue_def perf_fail_def Let_def)

lemma hot_inst_no_heat:
  assumes rej: "sq_exec db (module_query mname) = []" and hs: "no_heat hs"
    and run: "hot_inst (getHotnessIndex path db) mname m f i hs = Inr hs'"
  shows "no_heat hs'"
proof (cases "hs' = hs")
  case True
  with hs show ?thesis by simp
next
  case False
  with run obtain a v s where
    "getHotnessIndex path db mname (v_name (vals m f)) a (snd hs) = Inr (v, s)"
    "hs' = ((fst hs)(i \<mapsto> v), s)"
    by (auto simp: hot_inst_def res_simps split: option.splits if_splits)
  with getHotnessIndex_rejected [OF rej, of "snd hs" path "v_name (vals m f)" a] hs
  show ?thesis by (auto simp: no_heat_def ran_def split: if_splits)
qed

text \<open>
  With a database engine that rejects the module query as it is written, the hotness filter
  knows no hotness: whether it is asked for the hottest or the coolest checks, it takes the
  candidates in the order in which they were gathered.
\<close>

theorem hotness_without_module:
  assumes "sq_exec db (module_query mname) = []" and "FilterOrderingOpt opts \<noteq> FO_random"
    and "hotness_runOnModule opts (getHotnessIndex path db) mname m (Map.empty, perf_start) = Inr (hot, s)"
  shows "hot_order opts hot h cpy = cpy"
proof -
  have start: "no_heat (Map.empty, perf_start)" by (simp add: no_heat_def perf_start_def)
  have inner: "no_heat hs'" if "foldE (hot_inst (getHotnessIndex path db) mname m f) is hs = Inr hs'" "no_heat hs"
    for f "is" hs hs'
    by (rule foldE_invariant [OF that(1), where I = no_heat]) (use that(2) hot_inst_no_heat [OF assms(1)] in blast)+
  have "foldE (\<lambda>f. foldE (hot_inst (getHotnessIndex path db) mname m f) (fun_insts m f)) (mod_functions m)
      (Map.empty, perf_start) = Inr (hot, s)"
    using assms(2,3) by (simp add: hotness_runOnModule_def)
  then have "no_heat (hot, s)"
    by (rule foldE_invariant [where I = no_heat]) (use start inner in blast)+
  then have "heat hot h t = 0" for t
    by (auto simp: heat_def no_heat_def ran_def split: option.splits)
  then show ?thesis
    using assms(2) by (cases "FilterOrderingOpt opts") (simp_all add: hot_order_def sort_key_const)
qed

section \<open>Witnesses\<close>

definition demo_hot_opts :: "filter_ordering \<Rightarrow> hot_opts" where
  "demo_hot_opts f = \<lparr>FilterOrderingOpt = f, RandomFilteringRatioOpt = 1 / 2, RandomFilteringSeedOpt = 424242,
     random_perm = (\<lambda>_ n. rev [0 ..< n])\<rparr>"

definition demo_hotness :: hotness where
  "demo_hotness = [5 \<mapsto> 10, 6 \<mapsto> 20]"

definition demo_hot_heap :: theap where
  "demo_hot_heap = [0 \<mapsto> demo_target, 1 \<mapsto> demo_target\<lparr>instrumentee := Some 4, location := 6\<rparr>]"

lemma demo_candidates: "candidates demo demo_hot_heap [(1, [0, 1])] = [0, 1]"
  by code_simp

lemma demo_filter_bound: "filter_bound (length [0, 1 :: tid]) (RandomFilteringRatioOpt (demo_hot_opts f)) = 1"
  by (simp add: demo_hot_opts_def) code_simp

lemma hotness_removal_witness:
  "\<exists>R. hotness_updateITargetsForModule (demo_hot_opts FO_hottest) demo_hotness demo [(1, [0, 1])] demo_hot_heap =
      Inr (invalidate_all R demo_hot_heap) \<and>
    R \<subseteq> set [0, 1] \<and> card R = filter_bound (length [0, 1 :: tid]) (RandomFilteringRatioOpt (demo_hot_opts FO_hottest)) \<and>
    (\<forall>a \<in> R. \<forall>b \<in> set [0, 1] - R.
       (FilterOrderingOpt (demo_hot_opts FO_hottest) = FO_hottest \<longrightarrow>
          heat demo_hotness demo_hot_heap b \<le> heat demo_hotness demo_hot_heap a) \<and>
       (FilterOrderingOpt (demo_hot_opts FO_hottest) = FO_coolest \<longrightarrow>
          heat demo_hotness demo_hot_heap a \<le> heat demo_hotness demo_hot_heap b))"
proof (rule hotness_removal)
  show "[0, 1] = candidates demo demo_hot_heap [(1, [0, 1])]" by (rule demo_candidates [symmetric])
  show "perm_ok (demo_hot_opts FO_hottest)" by (simp add: perm_ok_def demo_hot_opts_def)
qed (simp_all add: demo_hot_heap_def demo_hot_opts_def)

definition demo_sqlite :: sqlite where
  "demo_sqlite = \<lparr>sq_open = (\<lambda>_. True), sq_exec = (\<lambda>_. []), sq_integer = (\<lambda>_. None)\<rparr>"

lemma hotness_without_module_witness:
  "hot_order (demo_hot_opts FO_hottest) Map.empty demo_hot_heap [1, 0] = [1, 0]"
proof (rule hotness_without_module)
  show "sq_exec demo_sqlite (module_query ''m'') = []" by (simp add: demo_sqlite_def)
  show "FilterOrderingOpt (demo_hot_opts FO_hottest) \<noteq> FO_random" by (simp add: demo_hot_opts_def)
  show "hotness_runOnModule (demo_hot_opts FO_hottest) (getHotnessIndex [] demo_sqlite) ''m'' demo
      (Map.empty, perf_start) = Inr (Map.empty, perf_start)"
    by (simp add: hotness_runOnModule_def demo_hot_opts_def fun_insts_def demo_def hot_inst_def get_inst_def
        demo_value_def hasAccessID_def get_metadata_def)
qed

lemma annotation_removal_witness:
  "annotation_updateITargetsForFunction ''nosanitize'' demo [0, 1] demo_hot_heap =
    Inr (\<lambda>t. if t \<in> set [0, 1]
      then map_option (\<lambda>T. if annotated_check ''nosanitize'' demo T then invalidate T else T) (demo_hot_heap t)
      else demo_hot_heap t)"
  by (rule annotation_removal_exact) (simp add: demo_hot_heap_def)

end
