(* ===== verification/Optimizations.thy ===== *)
theory Optimizations
  imports Dominance Removal
begin

text \<open>
  \<open>lib/optimizations\<close>: the interface of the optimizations (\<open>OptimizationInterface.cpp\<close>), the part of
  the example pass that changes targets (\<open>ExampleExternalChecksPass.cpp\<close>) and the runner
  (\<open>OptimizationRunner.cpp\<close>). The state holds the heap of targets, the map from functions to their
  vectors (a \<open>std::map\<close>, visited in order), and what the passes remember. PICO is a submodule that is
  not part of the sources: its update is the field \<open>pico_update\<close> of the options.
\<close>

section \<open>State\<close>

record opt_state =
  o_heap :: theap
  o_next :: tid
  o_map :: "(vid \<times> tid list) list"
  WorkList :: "vid \<Rightarrow> tid list"
  hotnessForAccesses :: hotness

datatype optimization =
  annotation_checkrem | dominance_checkrem | hotness_checkrem | example_checkopt | pico_checkopt

record opt_config =
  OptimizeInvariants :: bool
  RemovalAnnotationString :: string
  hotness_opts :: hot_opts
  PICO_AVAILABLE :: bool
  pico_update :: "opt_state \<Rightarrow> opt_state res"

definition vec_of :: "opt_state \<Rightarrow> vid \<Rightarrow> tid list" where
  "vec_of st F = (case map_of (o_map st) F of None \<Rightarrow> [] | Some v \<Rightarrow> v)"

definition set_vec :: "vid \<Rightarrow> tid list \<Rightarrow> opt_state \<Rightarrow> opt_state" where
  "set_vec F v st = st\<lparr>o_map := map (\<lambda>(f, w). if f = F then (f, v) else (f, w)) (o_map st)\<rparr>"

section \<open>The example pass\<close>

definition example_target :: "ir \<Rightarrow> vid \<Rightarrow> vid \<Rightarrow> tid \<Rightarrow> opt_state \<Rightarrow> opt_state res" where
  "example_target m F EntryLoc t st =
     bindE (deref (o_heap st) t) (\<lambda>T.
     if \<not> isValid T \<or> \<not> isConstSizeCheckIT T then Inr st
     else bindE (getLocation T) (\<lambda>L.
       if get_metadata m L ''checkearly'' = None then Inr st
       else bindE (getInstrumentee T) (\<lambda>A.
         if val_kind m A = Argument then
           Inr (st\<lparr>o_heap := (o_heap st)(o_next st \<mapsto> createBoundsTarget A EntryLoc True True, t \<mapsto> invalidate T),
                   o_next := Suc (o_next st),
                   WorkList := (WorkList st)(F := WorkList st F @ [o_next st])\<rparr>)
         else Inr st)))"

definition example_updateITargetsForFunction :: "ir \<Rightarrow> vid \<Rightarrow> opt_state \<Rightarrow> opt_state res" where
  "example_updateITargetsForFunction m F st =
     bindE (entry_loc m F) (\<lambda>EntryLoc.
     bindE (foldE (example_target m F EntryLoc) (vec_of st F) st) (\<lambda>st1.
     Inr (set_vec F (vec_of st1 F @ WorkList st1 F) st1)))"

section \<open>The interface\<close>

definition updateITargetsForFunction ::
  "opt_config \<Rightarrow> 's mechanism \<Rightarrow> ir \<Rightarrow> optimization \<Rightarrow> vid \<Rightarrow> opt_state \<Rightarrow> opt_state res" where
  "updateITargetsForFunction cfg IM m opt F st =
     (case opt of
        annotation_checkrem \<Rightarrow>
          bindE (annotation_updateITargetsForFunction (RemovalAnnotationString cfg) m (vec_of st F) (o_heap st))
            (\<lambda>h. Inr (st\<lparr>o_heap := h\<rparr>))
      | dominance_checkrem \<Rightarrow>
          bindE (dominance_updateITargetsForFunction (OptimizeInvariants cfg) IM m (vec_of st F) (o_heap st))
            (\<lambda>h. Inr (st\<lparr>o_heap := h\<rparr>))
      | example_checkopt \<Rightarrow> example_updateITargetsForFunction m F st
      | _ \<Rightarrow> Inr st)"

definition updateITargetsForModule ::
  "opt_config \<Rightarrow> 's mechanism \<Rightarrow> ir \<Rightarrow> optimization \<Rightarrow> opt_state \<Rightarrow> opt_state res" where
  "updateITargetsForModule cfg IM m opt st =
     (case opt of
        hotness_checkrem \<Rightarrow>
          bindE (hotness_updateITargetsForModule (hotness_opts cfg) (hotnessForAccesses st) m (o_map st) (o_heap st))
            (\<lambda>h. Inr (st\<lparr>o_heap := h\<rparr>))
      | pico_checkopt \<Rightarrow> pico_update cfg st
      | _ \<Rightarrow> foldE (updateITargetsForFunction cfg IM m opt) (map fst (o_map st)) st)"

section \<open>The runner\<close>

definition computeSelectedOpts :: "opt_config \<Rightarrow> optimization list \<Rightarrow> optimization list res" where
  "computeSelectedOpts cfg OptimizationList =
     foldE (\<lambda>opt opts.
       if opt = pico_checkopt \<and> \<not> PICO_AVAILABLE cfg then
         Inl (ReportedError ''PICO selected but not available.'')
       else Inr (opts @ [opt])) OptimizationList []"

definition validate_entry :: "ir \<Rightarrow> theap \<Rightarrow> vid \<times> tid list \<Rightarrow> unit \<Rightarrow> unit res" where
  "validate_entry m h entry _ =
     bindE (foldE (\<lambda>t Ts. bindE (deref h t) (\<lambda>T. Inr (Ts @ [T]))) (snd entry) []) (\<lambda>Ts.
     assertE (validateITargets m Ts) ''ITargetBuilder::validateITargets'')"

definition opt_validate :: "ir \<Rightarrow> opt_state \<Rightarrow> unit res" where
  "opt_validate m st = foldE (validate_entry m (o_heap st)) (o_map st) ()"

definition updateITargets ::
  "opt_config \<Rightarrow> 's mechanism \<Rightarrow> ir \<Rightarrow> optimization list \<Rightarrow> opt_state \<Rightarrow> opt_state res" where
  "updateITargets cfg IM m =
     foldE (\<lambda>opt st. bindE (updateITargetsForModule cfg IM m opt st) (\<lambda>st1.
       bindE (opt_validate m st1) (\<lambda>_. Inr st1)))"

section \<open>The contract of an update\<close>

definition bounds_in :: "ir \<Rightarrow> theap \<Rightarrow> tid \<Rightarrow> bool" where
  "bounds_in m h t \<longleftrightarrow> (\<exists>T. h t = Some T \<and> isBoundsIT T \<and>
     (\<exists>A. instrumentee T = Some A \<and> val_kind m A = Argument))"

definition opt_wf :: "ir \<Rightarrow> opt_state \<Rightarrow> bool" where
  "opt_wf m st \<longleftrightarrow>
     set (concat (map snd (o_map st))) \<subseteq> dom (o_heap st) \<and> distinct (map fst (o_map st)) \<and>
     (\<forall>t \<in> dom (o_heap st). t < o_next st) \<and> (\<forall>F. list_all (bounds_in m (o_heap st)) (WorkList st F))"

definition heap_le :: "theap \<Rightarrow> theap \<Rightarrow> bool" where
  "heap_le h h' \<longleftrightarrow> (\<forall>t T. h t = Some T \<longrightarrow> h' t = Some T \<or> h' t = Some (invalidate T))"

text \<open>
  What an update of the targets may do: existing targets stay or are invalidated, the functions
  stay, and what is appended to a vector are bounds targets.
\<close>

definition opt_le :: "ir \<Rightarrow> opt_state \<Rightarrow> opt_state \<Rightarrow> bool" where
  "opt_le m st st' \<longleftrightarrow> heap_le (o_heap st) (o_heap st') \<and>
     list_all2 (\<lambda>e e'. fst e' = fst e \<and> (\<exists>new. snd e' = snd e @ new \<and> list_all (bounds_in m (o_heap st')) new))
       (o_map st) (o_map st')"

lemma heap_le_refl [simp]: "heap_le h h"
  by (simp add: heap_le_def)

lemma heap_le_trans: "heap_le a b \<Longrightarrow> heap_le b c \<Longrightarrow> heap_le a c"
  unfolding heap_le_def by (metis invalidate_idem)

lemma only_invalidates_heap_le: "only_invalidates h h' \<Longrightarrow> heap_le h h'"
  by (metis heap_le_def only_invalidates_obtain)

lemma isBoundsIT_invalidate [simp]: "isBoundsIT (invalidate T) = isBoundsIT T"
  by (simp add: isBoundsIT_def)

lemma bounds_in_mono: "heap_le h h' \<Longrightarrow> bounds_in m h t \<Longrightarrow> bounds_in m h' t"
  unfolding heap_le_def bounds_in_def by (metis isBoundsIT_invalidate invalidate_simps(2))

lemma bounds_list_mono: "heap_le h h' \<Longrightarrow> list_all (bounds_in m h) ts \<Longrightarrow> list_all (bounds_in m h') ts"
  by (auto simp: list_all_iff intro: bounds_in_mono)

lemma opt_le_refl [simp]: "opt_le m st st"
  by (simp add: opt_le_def list_all2_refl)

lemma opt_le_trans:
  assumes "opt_le m a b" and "opt_le m b c"
  shows "opt_le m a c"
proof -
  have le: "heap_le (o_heap b) (o_heap c)" using assms(2) by (simp add: opt_le_def)
  have "list_all2 (\<lambda>e e'. fst e' = fst e \<and> (\<exists>new. snd e' = snd e @ new \<and> list_all (bounds_in m (o_heap c)) new))
      (o_map a) (o_map c)"
  proof (rule list_all2_trans [where as = "o_map a" and bs = "o_map b" and cs = "o_map c"])
    show "list_all2 (\<lambda>e e'. fst e' = fst e \<and> (\<exists>new. snd e' = snd e @ new \<and> list_all (bounds_in m (o_heap b)) new))
        (o_map a) (o_map b)"
      "list_all2 (\<lambda>e e'. fst e' = fst e \<and> (\<exists>new. snd e' = snd e @ new \<and> list_all (bounds_in m (o_heap c)) new))
        (o_map b) (o_map c)"
      using assms by (simp_all add: opt_le_def)
  next
    fix x y z :: "vid \<times> tid list"
    assume "fst y = fst x \<and> (\<exists>new. snd y = snd x @ new \<and> list_all (bounds_in m (o_heap b)) new)"
      and "fst z = fst y \<and> (\<exists>new. snd z = snd y @ new \<and> list_all (bounds_in m (o_heap c)) new)"
    then obtain n1 n2 where "fst z = fst x" "snd z = snd x @ n1 @ n2"
      "list_all (bounds_in m (o_heap b)) n1" "list_all (bounds_in m (o_heap c)) n2"
      by auto
    then show "fst z = fst x \<and> (\<exists>new. snd z = snd x @ new \<and> list_all (bounds_in m (o_heap c)) new)"
      using bounds_list_mono [OF le] by auto
  qed
  then show ?thesis using assms heap_le_trans by (auto simp: opt_le_def)
qed

locale target_optimization =
  fixes m :: ir and update :: "opt_state \<Rightarrow> opt_state res"
  assumes update_wf: "opt_wf m st \<Longrightarrow> update st = Inr st' \<Longrightarrow> opt_wf m st'"
    and update_le: "opt_wf m st \<Longrightarrow> update st = Inr st' \<Longrightarrow> opt_le m st st'"

section \<open>The passes keep the contract\<close>

lemma heap_update_ok:
  assumes "opt_wf m st" and "only_invalidates (o_heap st) h"
  shows "opt_wf m (st\<lparr>o_heap := h\<rparr>)" and "opt_le m st (st\<lparr>o_heap := h\<rparr>)"
proof -
  have dom: "dom h = dom (o_heap st)" by (rule only_invalidates_dom [OF assms(2)])
  have le: "heap_le (o_heap st) h" by (rule only_invalidates_heap_le [OF assms(2)])
  show "opt_wf m (st\<lparr>o_heap := h\<rparr>)"
    using assms(1) bounds_list_mono [OF le] by (simp add: opt_wf_def dom)
  show "opt_le m st (st\<lparr>o_heap := h\<rparr>)"
    using le by (auto simp: opt_le_def intro: list_all2_refl)
qed

lemma annotation_only_invalidates:
  assumes "annotation_updateITargetsForFunction s m ts h = Inr h'"
  shows "only_invalidates h h'"
proof -
  have "foldE (annotation_target s m) ts h = Inr h'"
    using assms by (simp add: annotation_updateITargetsForFunction_def)
  then show ?thesis
    by (rule foldE_invariant [where I = "only_invalidates h"])
      (auto simp: annotation_target_def res_simps split: if_splits
        intro: only_invalidates_trans only_invalidates_upd)
qed

lemma hotness_only_invalidates:
  assumes "hotness_updateITargetsForModule opts hot m mp h = Inr h'"
  shows "only_invalidates h h'"
proof -
  from assms obtain xs b where "foldE (invalidate_at xs) [0 ..< b] h = Inr h'"
    by (auto simp: hotness_updateITargetsForModule_def res_simps)
  then show ?thesis
    by (rule foldE_invariant [where I = "only_invalidates h"])
      (auto simp: invalidate_at_def res_simps split: if_splits
        intro: only_invalidates_trans only_invalidates_upd)
qed

text \<open>The state while the example pass visits a function.\<close>

definition ex_inv :: "ir \<Rightarrow> opt_state \<Rightarrow> opt_state \<Rightarrow> bool" where
  "ex_inv m st st' \<longleftrightarrow> opt_wf m st' \<and> opt_le m st st' \<and> o_map st' = o_map st"

lemma example_target_inv:
  assumes inv: "ex_inv m st st1" and step: "example_target m F loc t st1 = Inr st2"
  shows "ex_inv m st st2"
proof (cases "st2 = st1")
  case True
  with inv show ?thesis by simp
next
  case False
  from step obtain T where T: "o_heap st1 t = Some T"
    by (auto simp: example_target_def res_simps)
  with step False obtain A where arg: "val_kind m A = Argument" and
    st2: "st2 = st1\<lparr>o_heap := (o_heap st1)(o_next st1 \<mapsto> createBoundsTarget A loc True True, t \<mapsto> invalidate T),
             o_next := Suc (o_next st1), WorkList := (WorkList st1)(F := WorkList st1 F @ [o_next st1])\<rparr>"
    by (auto simp: example_target_def res_simps split: if_splits)
  let ?h = "(o_heap st1)(o_next st1 \<mapsto> createBoundsTarget A loc True True, t \<mapsto> invalidate T)"
  have wf: "opt_wf m st1" using inv by (simp add: ex_inv_def)
  have bound: "u < o_next st1" if "o_heap st1 u = Some U" for u U
    using wf that by (auto simp: opt_wf_def)
  have le: "heap_le (o_heap st1) ?h"
    using bound T by (fastforce simp: heap_le_def)
  have new: "bounds_in m ?h (o_next st1)"
    using bound [OF T] arg by (simp add: bounds_in_def create_defs it_ctor_defs isBoundsIT_def)
  have "opt_wf m st2"
    unfolding opt_wf_def
  proof (intro conjI)
    show "set (concat (map snd (o_map st2))) \<subseteq> dom (o_heap st2)"
      using wf by (auto simp: opt_wf_def st2)
    show "distinct (map fst (o_map st2))" using wf by (simp add: opt_wf_def st2)
    show "\<forall>u \<in> dom (o_heap st2). u < o_next st2"
      using bound T by (auto simp: st2 less_Suc_eq)
    show "\<forall>G. list_all (bounds_in m (o_heap st2)) (WorkList st2 G)"
      using wf bounds_list_mono [OF le] new by (simp add: opt_wf_def st2)
  qed
  moreover have "opt_le m st1 st2" using le by (auto simp: opt_le_def st2 intro: list_all2_refl)
  ultimately show ?thesis
    using inv opt_le_trans by (auto simp: ex_inv_def st2)
qed

lemma in_vectors: "(f, w) \<in> set M \<Longrightarrow> u \<in> set w \<Longrightarrow> u \<in> set (concat (map snd M))"
  by force

lemma set_vec_ok:
  assumes "opt_wf m st" and "list_all (bounds_in m (o_heap st)) new"
  shows "opt_wf m (set_vec F (vec_of st F @ new) st)" and "opt_le m st (set_vec F (vec_of st F @ new) st)"
proof -
  let ?f = "\<lambda>(f, w). if f = F then (f, vec_of st F @ new) else (f, w)"
  have dist: "distinct (map fst (o_map st))" using assms(1) by (simp add: opt_wf_def)
  have vec: "w = vec_of st F" if "(F, w) \<in> set (o_map st)" for w
    using that dist by (simp add: vec_of_def)
  have fst: "map fst (map ?f (o_map st)) = map fst (o_map st)" by auto
  have newdom: "set new \<subseteq> dom (o_heap st)"
    using assms(2) by (auto simp: list_all_iff bounds_in_def)
  have sub: "set (concat (map snd (map ?f (o_map st)))) \<subseteq> set (concat (map snd (o_map st))) \<union> set new"
  proof
    fix u assume "u \<in> set (concat (map snd (map ?f (o_map st))))"
    then obtain f w where fw: "(f, w) \<in> set (o_map st)" "u \<in> set (snd (?f (f, w)))" by auto
    show "u \<in> set (concat (map snd (o_map st))) \<union> set new"
    proof (cases "f = F")
      case True
      with fw vec [of w] have "u \<in> set w \<union> set new" by auto
      with in_vectors [OF fw(1)] show ?thesis by blast
    next
      case False
      with fw(2) have "u \<in> set w" by simp
      with in_vectors [OF fw(1)] show ?thesis by blast
    qed
  qed
  show "opt_wf m (set_vec F (vec_of st F @ new) st)"
    unfolding opt_wf_def
  proof (intro conjI)
    show "set (concat (map snd (o_map (set_vec F (vec_of st F @ new) st))))
        \<subseteq> dom (o_heap (set_vec F (vec_of st F @ new) st))"
    proof -
      have "set (concat (map snd (o_map st))) \<subseteq> dom (o_heap st)"
        using assms(1) by (simp only: opt_wf_def)
      with sub newdom have "set (concat (map snd (map ?f (o_map st)))) \<subseteq> dom (o_heap st)" by blast
      then show ?thesis by (simp add: set_vec_def)
    qed
    show "distinct (map fst (o_map (set_vec F (vec_of st F @ new) st)))"
    proof -
      have "o_map (set_vec F (vec_of st F @ new) st) = map ?f (o_map st)" by (simp add: set_vec_def)
      then show ?thesis using dist fst by metis
    qed
  qed (use assms(1) in \<open>simp_all add: set_vec_def opt_wf_def\<close>)
  have "list_all2 (\<lambda>e e'. fst e' = fst e \<and> (\<exists>n. snd e' = snd e @ n \<and> list_all (bounds_in m (o_heap st)) n))
      (o_map st) (map ?f (o_map st))"
    unfolding list_all2_map2
  proof (rule list.rel_refl_strong)
    fix e assume e: "e \<in> set (o_map st)"
    obtain f w where "e = (f, w)" by (cases e)
    with e vec [of w] assms(2) show "fst (?f e) = fst e \<and>
        (\<exists>n. snd (?f e) = snd e @ n \<and> list_all (bounds_in m (o_heap st)) n)"
      by (cases "f = F") auto
  qed
  then show "opt_le m st (set_vec F (vec_of st F @ new) st)"
    by (simp add: opt_le_def set_vec_def)
qed

lemma example_update_ok:
  assumes "opt_wf m st" and "example_updateITargetsForFunction m F st = Inr st'"
  shows "opt_wf m st'" and "opt_le m st st'"
proof -
  from assms(2) obtain loc st1 where
    run: "foldE (example_target m F loc) (vec_of st F) st = Inr st1" and
    st': "st' = set_vec F (vec_of st1 F @ WorkList st1 F) st1"
    by (auto simp: example_updateITargetsForFunction_def res_simps)
  have "ex_inv m st st1"
  proof (rule foldE_invariant [OF run, where I = "ex_inv m st"])
    show "ex_inv m st st" using assms(1) by (simp add: ex_inv_def)
  qed (use example_target_inv in blast)
  then have st1: "opt_wf m st1" "opt_le m st st1" by (simp_all add: ex_inv_def)
  then have wl: "list_all (bounds_in m (o_heap st1)) (WorkList st1 F)" by (simp add: opt_wf_def)
  show "opt_wf m st'" unfolding st' by (rule set_vec_ok(1) [OF st1(1) wl])
  show "opt_le m st st'" unfolding st' by (rule opt_le_trans [OF st1(2) set_vec_ok(2) [OF st1(1) wl]])
qed

lemma function_update_ok:
  assumes "opt_wf m st" and "updateITargetsForFunction cfg IM m opt F st = Inr st'"
  shows "opt_wf m st' \<and> opt_le m st st'"
proof (cases opt)
  case annotation_checkrem
  with assms(2) obtain h where
    "annotation_updateITargetsForFunction (RemovalAnnotationString cfg) m (vec_of st F) (o_heap st) = Inr h"
    "st' = st\<lparr>o_heap := h\<rparr>"
    by (auto simp: updateITargetsForFunction_def res_simps)
  with heap_update_ok [OF assms(1) annotation_only_invalidates] show ?thesis by blast
next
  case dominance_checkrem
  with assms(2) obtain h where
    "dominance_updateITargetsForFunction (OptimizeInvariants cfg) IM m (vec_of st F) (o_heap st) = Inr h"
    "st' = st\<lparr>o_heap := h\<rparr>"
    by (auto simp: updateITargetsForFunction_def res_simps)
  with heap_update_ok [OF assms(1) dominance_updateITargetsForFunction_only_invalidates] show ?thesis by blast
next
  case example_checkopt
  with assms example_update_ok show ?thesis by (simp add: updateITargetsForFunction_def)
qed (use assms in \<open>simp_all add: updateITargetsForFunction_def\<close>)

lemma module_update_ok:
  assumes "opt \<noteq> pico_checkopt"
  shows "target_optimization m (updateITargetsForModule cfg IM m opt)"
proof -
  have "opt_wf m st' \<and> opt_le m st st'"
    if wf: "opt_wf m st" and run: "updateITargetsForModule cfg IM m opt st = Inr st'" for st st'
  proof (cases "opt = hotness_checkrem")
    case True
    with run obtain h where
      "hotness_updateITargetsForModule (hotness_opts cfg) (hotnessForAccesses st) m (o_map st) (o_heap st) = Inr h"
      "st' = st\<lparr>o_heap := h\<rparr>"
      by (auto simp: updateITargetsForModule_def res_simps)
    with heap_update_ok [OF wf hotness_only_invalidates] show ?thesis by blast
  next
    case False
    with run assms have "foldE (updateITargetsForFunction cfg IM m opt) (map fst (o_map st)) st = Inr st'"
      by (cases opt) (simp_all add: updateITargetsForModule_def)
    then show ?thesis
      by (rule foldE_invariant [where I = "\<lambda>t. opt_wf m t \<and> opt_le m st t"])
        (use wf function_update_ok opt_le_trans opt_le_refl in blast)+
  qed
  then show ?thesis by unfold_locales blast+
qed

interpretation annotation_opt: target_optimization m "updateITargetsForModule cfg IM m annotation_checkrem" for m cfg IM
  by (rule module_update_ok) simp

interpretation dominance_opt: target_optimization m "updateITargetsForModule cfg IM m dominance_checkrem" for m cfg IM
  by (rule module_update_ok) simp

interpretation hotness_opt: target_optimization m "updateITargetsForModule cfg IM m hotness_checkrem" for m cfg IM
  by (rule module_update_ok) simp

interpretation example_opt: target_optimization m "updateITargetsForModule cfg IM m example_checkopt" for m cfg IM
  by (rule module_update_ok) simp

section \<open>The assertion of the runner\<close>

definition entry_valid :: "ir \<Rightarrow> theap \<Rightarrow> vid \<times> tid list \<Rightarrow> bool" where
  "entry_valid m h e \<longleftrightarrow> (\<forall>t \<in> set (snd e). \<forall>T v. h t = Some T \<longrightarrow> isValid T \<longrightarrow>
     instrumentee T = Some v \<longrightarrow> is_instruction m v \<longrightarrow> v \<noteq> location T \<and> dominates m v (location T))"

definition validated :: "ir \<Rightarrow> opt_state \<Rightarrow> bool" where
  "validated m st \<longleftrightarrow> (\<forall>e \<in> set (o_map st). entry_valid m (o_heap st) e)"

lemma read_targets:
  assumes "set ts \<subseteq> dom h"
  shows "foldE (\<lambda>t Ts. bindE (deref h t) (\<lambda>T. Inr (Ts @ [T]))) ts acc = Inr (acc @ map (\<lambda>t. the (h t)) ts)"
  using assms by (induction ts arbitrary: acc) auto

lemma validate_entry_iff:
  assumes "set (snd e) \<subseteq> dom h"
  shows "validate_entry m h e u = (if entry_valid m h e then Inr () else
    Inl (AssertionFailed ''ITargetBuilder::validateITargets''))"
proof -
  have "validateITargets m (map (\<lambda>t. the (h t)) (snd e)) \<longleftrightarrow> entry_valid m h e"
    using assms by (fastforce simp: validateITargets_iff entry_valid_def)
  then show ?thesis using assms by (simp add: validate_entry_def read_targets assertE_def)
qed

lemma opt_validate_iff:
  assumes "opt_wf m st"
  shows "opt_validate m st = (if validated m st then Inr () else
    Inl (AssertionFailed ''ITargetBuilder::validateITargets''))"
proof -
  have "foldE (validate_entry m (o_heap st)) es () = (if \<forall>e \<in> set es. entry_valid m (o_heap st) e then Inr () else
    Inl (AssertionFailed ''ITargetBuilder::validateITargets''))"
    if "\<forall>e \<in> set es. set (snd e) \<subseteq> dom (o_heap st)" for es
    using that by (induction es) (simp_all add: validate_entry_iff)
  moreover have "\<forall>e \<in> set (o_map st). set (snd e) \<subseteq> dom (o_heap st)"
    using assms by (auto simp: opt_wf_def)
  ultimately show ?thesis unfolding opt_validate_def validated_def by blast
qed

lemma validated_mono:
  assumes wf: "opt_wf m st" and le: "opt_le m st st'" and val: "validated m st"
  shows "validated m st'"
  unfolding validated_def entry_valid_def
proof (intro ballI allI impI)
  fix e' t T v
  assume e': "e' \<in> set (o_map st')" and t: "t \<in> set (snd e')" and T: "o_heap st' t = Some T" "isValid T"
    and v: "instrumentee T = Some v" "is_instruction m v"
  from le e' obtain e new where e: "e \<in> set (o_map st)" "snd e' = snd e @ new"
    "list_all (bounds_in m (o_heap st')) new"
    unfolding opt_le_def list_all2_conv_all_nth in_set_conv_nth by (metis nth_mem)
  have "t \<notin> set new"
    using e(3) T(1) v by (auto simp: list_all_iff bounds_in_def is_instruction_def get_inst_def)
  with e t have "t \<in> set (snd e)" by simp
  with wf e(1) obtain T0 where T0: "o_heap st t = Some T0" by (fastforce simp: opt_wf_def)
  from le have "heap_le (o_heap st) (o_heap st')" by (simp add: opt_le_def)
  with T0 T(1) have "T = T0 \<or> T = invalidate T0" unfolding heap_le_def by fastforce
  with T(2) have "T0 = T" by auto
  with val e(1) \<open>t \<in> set (snd e)\<close> T0 T(2) v
  show "v \<noteq> location T \<and> dominates m v (location T)"
    unfolding validated_def entry_valid_def by blast
qed

context target_optimization
begin

lemma update_validates:
  assumes "opt_wf m st" and "validated m st" and "update st = Inr st'"
  shows "bindE (update st) (\<lambda>st1. bindE (opt_validate m st1) (\<lambda>_. Inr st1)) = Inr st'"
  using assms validated_mono [OF assms(1) update_le [OF assms(1,3)] assms(2)]
  by (simp add: opt_validate_iff [OF update_wf [OF assms(1,3)]])

end

section \<open>The runner\<close>

definition vectors_good :: "opt_state \<Rightarrow> bool" where
  "vectors_good st \<longleftrightarrow> (\<forall>e \<in> set (o_map st). \<forall>t \<in> set (snd e). \<forall>T.
     o_heap st t = Some T \<longrightarrow> isConstSizeCheckIT T \<longrightarrow> instrumentee T \<noteq> None)"

definition candidate_in :: "ir \<Rightarrow> theap \<Rightarrow> tid \<Rightarrow> bool" where
  "candidate_in m h t \<longleftrightarrow> (case h t of None \<Rightarrow> False
     | Some T \<Rightarrow> isValid T \<and> isCheck T \<and>
         (case get_inst m (location T) of Some (Load _) \<Rightarrow> True | Some (Store _ _) \<Rightarrow> True | _ \<Rightarrow> False))"

text \<open>What the passes need to know about the targets and the functions.\<close>

definition opt_ready :: "ir \<Rightarrow> opt_state \<Rightarrow> bool" where
  "opt_ready m st \<longleftrightarrow> validated m st \<and> vectors_good st \<and>
     length (filter (candidate_in m (o_heap st)) (concat (map snd (o_map st)))) < 2 ^ 53 \<and>
     (\<forall>F \<in> set (map fst (o_map st)). \<exists>loc. entry_loc m F = Inr loc)"

definition config_ok :: "opt_config \<Rightarrow> 's mechanism \<Rightarrow> ir \<Rightarrow> bool" where
  "config_ok cfg IM m \<longleftrightarrow> dominance_ok m \<and> perm_ok (hotness_opts cfg) \<and>
     0 \<le> RandomFilteringRatioOpt (hotness_opts cfg) \<and> RandomFilteringRatioOpt (hotness_opts cfg) \<le> 1 \<and>
     (OptimizeInvariants cfg \<longrightarrow> im_invariantsAreChecks IM)"

lemma candidate_in_mono:
  assumes "heap_le h h'" and "t \<in> dom h" and "candidate_in m h' t"
  shows "candidate_in m h t"
proof -
  from assms(2) obtain T where T: "h t = Some T" by auto
  with assms(1) have "h' t = Some T \<or> h' t = Some (invalidate T)" by (simp add: heap_le_def)
  with assms(3) T show ?thesis by (auto simp: candidate_in_def)
qed

lemma bounds_no_candidate: "bounds_in m h t \<Longrightarrow> \<not> candidate_in m h t"
  using it_class_disjoint(3) by (auto simp: bounds_in_def candidate_in_def)

lemma filter_length_mono:
  assumes "\<And>t. t \<in> set ts \<Longrightarrow> P t \<Longrightarrow> Q t"
  shows "length (filter P ts) \<le> length (filter Q ts)"
  using assms by (induction ts) (auto intro: le_SucI)

lemma candidates_fewer:
  assumes "list_all2 (\<lambda>e e'. fst e' = fst e \<and> (\<exists>new. snd e' = snd e @ new \<and> list_all (bounds_in m h') new)) es es'"
    and "set (concat (map snd es)) \<subseteq> dom h" and "heap_le h h'"
  shows "length (filter (candidate_in m h') (concat (map snd es'))) \<le>
    length (filter (candidate_in m h) (concat (map snd es)))"
  using assms(1,2)
proof (induction rule: list_all2_induct)
  case (Cons e es e' es')
  then obtain new where new: "snd e' = snd e @ new" "list_all (bounds_in m h') new" by auto
  have "filter (candidate_in m h') new = []"
    using new(2) bounds_no_candidate by (auto simp: list_all_iff filter_empty_conv)
  moreover have "length (filter (candidate_in m h') (snd e)) \<le> length (filter (candidate_in m h) (snd e))"
  proof (rule filter_length_mono)
    fix t assume "t \<in> set (snd e)" "candidate_in m h' t"
    moreover have "set (snd e) \<subseteq> dom h" using Cons.prems by simp
    ultimately show "candidate_in m h t" using candidate_in_mono [OF assms(3)] by blast
  qed
  moreover have "length (filter (candidate_in m h') (concat (map snd es'))) \<le>
      length (filter (candidate_in m h) (concat (map snd es)))"
    using Cons by simp
  ultimately show ?case using new(1) by simp
qed simp

lemma opt_ready_mono:
  assumes wf: "opt_wf m st" and le: "opt_le m st st'" and ready: "opt_ready m st"
  shows "opt_ready m st'"
proof -
  have keys: "map fst (o_map st') = map fst (o_map st)"
    using le unfolding opt_le_def list_all2_conv_all_nth by (auto intro: nth_equalityI)
  have hl: "heap_le (o_heap st) (o_heap st')" using le by (simp add: opt_le_def)
  have "vectors_good st'"
    unfolding vectors_good_def
  proof (intro ballI allI impI)
    fix e' t T assume e': "e' \<in> set (o_map st')" "t \<in> set (snd e')" and T: "o_heap st' t = Some T" "isConstSizeCheckIT T"
    from le e'(1) obtain e new where e: "e \<in> set (o_map st)" "snd e' = snd e @ new"
      "list_all (bounds_in m (o_heap st')) new"
      unfolding opt_le_def list_all2_conv_all_nth in_set_conv_nth by (metis nth_mem)
    have "t \<notin> set new"
      using e(3) T by (auto simp: list_all_iff bounds_in_def it_class_defs)
    with e e' have t: "t \<in> set (snd e)" by simp
    with wf e(1) obtain T0 where T0: "o_heap st t = Some T0" by (fastforce simp: opt_wf_def)
    with hl T(1) have "T = T0 \<or> T = invalidate T0" unfolding heap_le_def by fastforce
    with T(2) have "instrumentee T = instrumentee T0" "isConstSizeCheckIT T0"
      by (auto simp: it_class_defs)
    with ready e(1) t T0 show "instrumentee T \<noteq> None"
      unfolding opt_ready_def vectors_good_def by metis
  qed
  moreover have "validated m st'"
    using validated_mono [OF wf le] ready by (simp add: opt_ready_def)
  moreover have "length (filter (candidate_in m (o_heap st')) (concat (map snd (o_map st')))) < 2 ^ 53"
  proof (rule le_less_trans [OF candidates_fewer])
    show "list_all2 (\<lambda>e e'. fst e' = fst e \<and> (\<exists>new. snd e' = snd e @ new \<and> list_all (bounds_in m (o_heap st')) new))
        (o_map st) (o_map st')"
      using le by (simp add: opt_le_def)
    show "set (concat (map snd (o_map st))) \<subseteq> dom (o_heap st)" using wf by (simp only: opt_wf_def)
    show "heap_le (o_heap st) (o_heap st')" by (rule hl)
    show "length (filter (candidate_in m (o_heap st)) (concat (map snd (o_map st)))) < 2 ^ 53"
      using ready by (simp only: opt_ready_def)
  qed
  ultimately show ?thesis using ready unfolding opt_ready_def keys by blast
qed

text \<open>With the options in order, every update returns.\<close>

lemma vec_of_in:
  assumes "t \<in> set (vec_of st F)"
  shows "\<exists>e \<in> set (o_map st). t \<in> set (snd e)"
proof (cases "map_of (o_map st) F")
  case None
  with assms show ?thesis by (simp add: vec_of_def)
next
  case (Some a)
  then have "(F, a) \<in> set (o_map st)" by (rule map_of_SomeD)
  then show ?thesis using Some assms by (intro bexI [of _ "(F, a)"]) (simp_all add: vec_of_def)
qed

lemma vec_of_dom: "opt_wf m st \<Longrightarrow> set (vec_of st F) \<subseteq> dom (o_heap st)"
proof
  fix t assume wf: "opt_wf m st" and "t \<in> set (vec_of st F)"
  then obtain e where "e \<in> set (o_map st)" "t \<in> set (snd e)" using vec_of_in by blast
  then have "t \<in> set (concat (map snd (o_map st)))" by auto
  with wf show "t \<in> dom (o_heap st)" by (simp only: opt_wf_def) blast
qed

lemma example_loop_returns:
  assumes "ex_inv m st st1" and "opt_ready m st" and "set ts \<subseteq> set (vec_of st F)" and wf0: "opt_wf m st"
  shows "\<exists>st2. foldE (example_target m F loc) ts st1 = Inr st2"
proof -
  have "\<exists>st2. foldE (example_target m F loc) ts st1 = Inr st2 \<and> ex_inv m st st2"
  proof (rule foldE_total)
    show "ex_inv m st st1" by (rule assms(1))
    fix t u assume t: "t \<in> set ts" and inv: "ex_inv m st u"
    have wf: "opt_wf m u" and map: "o_map u = o_map st" using inv by (simp_all add: ex_inv_def)
    from t assms(3) have tv: "t \<in> set (vec_of u F)" using map by (auto simp: vec_of_def)
    with vec_of_dom [OF wf] obtain T where T: "o_heap u t = Some T" by blast
    have good: "vectors_good u"
      using opt_ready_mono [OF wf0 _ assms(2)] inv by (simp add: ex_inv_def opt_ready_def)
    from vec_of_in [OF tv] good T have "isConstSizeCheckIT T \<Longrightarrow> instrumentee T \<noteq> None"
      unfolding vectors_good_def by blast
    with T have "\<exists>u'. example_target m F loc t u = Inr u'"
      by (auto simp: example_target_def getLocation_def it_acc_defs)
    then show "\<exists>u'. example_target m F loc t u = Inr u' \<and> ex_inv m st u'"
      using example_target_inv [OF inv] by blast
  qed
  then show ?thesis by blast
qed

lemma function_update_returns:
  assumes wf: "opt_wf m st" and ready: "opt_ready m st" and cfg: "config_ok cfg IM m"
    and F: "F \<in> set (map fst (o_map st))"
  shows "\<exists>st'. updateITargetsForFunction cfg IM m opt F st = Inr st'"
proof (cases opt)
  case annotation_checkrem
  with annotation_run [OF vec_of_dom [OF wf]] show ?thesis by (simp add: updateITargetsForFunction_def)
next
  case dominance_checkrem
  have "dominance_ok m" using cfg by (simp add: config_ok_def)
  with dom_outer [OF dom_inv_start _ subset_refl vec_of_dom [OF wf], of m "OptimizeInvariants cfg" F]
  obtain h where "foldE (\<lambda>t. foldE (dom_pair (OptimizeInvariants cfg) m t) (vec_of st F)) (vec_of st F) (o_heap st) = Inr h"
    by blast
  with cfg have "dominance_updateITargetsForFunction (OptimizeInvariants cfg) IM m (vec_of st F) (o_heap st) = Inr h"
    by (auto simp: dominance_updateITargetsForFunction_def config_ok_def)
  with dominance_checkrem show ?thesis by (simp add: updateITargetsForFunction_def)
next
  case example_checkopt
  from ready F obtain loc where loc: "entry_loc m F = Inr loc" unfolding opt_ready_def by blast
  have "ex_inv m st st" using wf by (simp add: ex_inv_def)
  then obtain st1 where "foldE (example_target m F loc) (vec_of st F) st = Inr st1"
    using example_loop_returns [OF _ ready subset_refl wf] by blast
  with loc example_checkopt show ?thesis
    by (simp add: updateITargetsForFunction_def example_updateITargetsForFunction_def)
qed (simp_all add: updateITargetsForFunction_def)

lemma module_update_returns:
  assumes wf: "opt_wf m st" and ready: "opt_ready m st" and cfg: "config_ok cfg IM m"
    and opt: "opt \<noteq> pico_checkopt"
  shows "\<exists>st'. updateITargetsForModule cfg IM m opt st = Inr st'"
proof (cases "opt = hotness_checkrem")
  case True
  have "candidates m (o_heap st) (o_map st) = filter (candidate_in m (o_heap st)) (concat (map snd (o_map st)))"
    unfolding candidates_def candidate_in_def ..
  with ready have len: "length (candidates m (o_heap st) (o_map st)) < 2 ^ 53" by (simp only: opt_ready_def)
  have dom: "set (concat (map snd (o_map st))) \<subseteq> dom (o_heap st)" using wf by (simp only: opt_wf_def)
  from hotness_run [OF dom _ _ _ len] cfg True show ?thesis
    by (simp add: updateITargetsForModule_def config_ok_def)
next
  case False
  have keys: "map fst (o_map t) = map fst (o_map st)" if "opt_le m st t" for t
    using that unfolding opt_le_def list_all2_conv_all_nth by (auto intro: nth_equalityI)
  have "\<exists>st'. foldE (updateITargetsForFunction cfg IM m opt) (map fst (o_map st)) st = Inr st' \<and>
      (opt_wf m st' \<and> opt_le m st st')"
  proof (rule foldE_total)
    show "opt_wf m st \<and> opt_le m st st" using wf by simp
    fix F t assume F: "F \<in> set (map fst (o_map st))" and t: "opt_wf m t \<and> opt_le m st t"
    then have "opt_ready m t" using opt_ready_mono [OF wf _ ready] by blast
    with function_update_returns [of m t cfg IM F opt] t F cfg keys obtain t' where
      "updateITargetsForFunction cfg IM m opt F t = Inr t'"
      by metis
    with function_update_ok t opt_le_trans
    show "\<exists>t'. updateITargetsForFunction cfg IM m opt F t = Inr t' \<and> (opt_wf m t' \<and> opt_le m st t')"
      by blast
  qed
  then obtain st' where "foldE (updateITargetsForFunction cfg IM m opt) (map fst (o_map st)) st = Inr st'"
    by blast
  with False opt show ?thesis by (cases opt) (simp_all add: updateITargetsForModule_def)
qed


lemma computeSelectedOpts_iff:
  "computeSelectedOpts cfg opts =
     (if pico_checkopt \<in> set opts \<and> \<not> PICO_AVAILABLE cfg
      then Inl (ReportedError ''PICO selected but not available.'') else Inr opts)"
proof -
  have "foldE (\<lambda>opt opts. if opt = pico_checkopt \<and> \<not> PICO_AVAILABLE cfg
        then Inl (ReportedError ''PICO selected but not available.'') else Inr (opts @ [opt])) os acc =
     (if pico_checkopt \<in> set os \<and> \<not> PICO_AVAILABLE cfg
      then Inl (ReportedError ''PICO selected but not available.'') else Inr (acc @ os))" for os acc
    by (induction os arbitrary: acc) auto
  then show ?thesis by (simp add: computeSelectedOpts_def)
qed

section \<open>Witness\<close>

definition demo_opt_state :: opt_state where
  "demo_opt_state = \<lparr>o_heap = demo_checks, o_next = 3, o_map = [(1, [0, 1, 2])], WorkList = (\<lambda>_. []),
     hotnessForAccesses = demo_hotness\<rparr>"

definition demo_opt_config :: opt_config where
  "demo_opt_config = \<lparr>OptimizeInvariants = False, RemovalAnnotationString = ''nosanitize'',
     hotness_opts = demo_hot_opts FO_coolest, PICO_AVAILABLE = False, pico_update = Inr\<rparr>"

lemma demo_opt_wf: "opt_wf demo demo_opt_state"
  by (simp add: opt_wf_def demo_opt_state_def demo_checks_def)

lemma demo_opt_ready: "opt_ready demo demo_opt_state"
proof -
  have "validated demo demo_opt_state"
    by (auto simp: validated_def entry_valid_def demo_opt_state_def demo_checks_def mkITarget_def demo_def)
  moreover have "vectors_good demo_opt_state"
    by (auto simp: vectors_good_def demo_opt_state_def demo_checks_def mkITarget_def)
  moreover have "length (filter (candidate_in demo (o_heap demo_opt_state)) (concat (map snd (o_map demo_opt_state)))) \<le> 3"
    by (rule order_trans [OF length_filter_le]) (simp add: demo_opt_state_def)
  moreover have "entry_loc demo 1 = Inr 3" by code_simp
  ultimately show ?thesis by (auto simp: opt_ready_def) (auto simp: demo_opt_state_def)
qed

lemma demo_config_ok: "config_ok demo_opt_config none_mechanism demo"
  using demo_dominance_ok by (simp add: config_ok_def demo_opt_config_def demo_hot_opts_def perm_ok_def)


end
