(* ===== verification/ExamplePass.thy ===== *)
theory ExamplePass
  imports Interface Optimizations
begin

text \<open>
  The part of \<open>ExampleExternalChecksPass.cpp\<close> that places code: a check of the bounds of a pointer
  at the entry of the function, built from the explicit bounds of its witness. The update of the
  targets is in \<open>Optimizations\<close>.
\<close>

section \<open>Code\<close>

text \<open>A bound that is used as an operand must exist.\<close>

definition bound_value :: "(wid \<Rightarrow> 's \<Rightarrow> vid option res) \<Rightarrow> witness_ptr \<Rightarrow> 's \<Rightarrow> vid res" where
  "bound_value get w s =
     (case w of
        None \<Rightarrow> Inl NullPointer
      | Some i \<Rightarrow> bindE (get i s) (\<lambda>b. case b of None \<Rightarrow> Inl NullPointer | Some v \<Rightarrow> Inr v))"

definition binop :: "ipoint \<Rightarrow> string \<Rightarrow> vid \<Rightarrow> vid \<Rightarrow> tyid \<Rightarrow> ir \<Rightarrow> vid \<times> ir" where
  "binop p oper a b ty = emit_op p oper [a, b] (OtherInst oper [a, b]) ty []"

definition ptr_to_int :: "ipoint \<Rightarrow> vid \<Rightarrow> ir \<Rightarrow> vid \<times> ir" where
  "ptr_to_int p v m = emit_op p ''ptrtoint'' [v] (PtrToInt v) (ctx_ty m ''i64'') [] m"

text \<open>\<open>IRBuilder::CreateCall\<close>, without a mark.\<close>

definition create_call :: "ipoint \<Rightarrow> callee \<Rightarrow> vid list \<Rightarrow> ir \<Rightarrow> vid \<times> ir" where
  "create_call p fn args =
     emit p (Call \<lparr>called_operand = fst fn, called_function = Some (fst fn), call_args = args\<rparr> None) (snd fn) []"

definition example_check :: "vid \<Rightarrow> vid \<Rightarrow> vid \<Rightarrow> vid \<Rightarrow> nat \<Rightarrow> callee \<Rightarrow> ir \<Rightarrow> ir" where
  "example_check loc v LowerPtr UpperPtr acc_size failFunction m =
     (let p = Before loc; I64Ty = ctx_ty m ''i64''; I1Ty = ctx_ty m ''i1'';
          (Ptr2Int, m) = ptr_to_int p v m;
          (Lower, m) = ptr_to_int p LowerPtr m;
          (CmpLower, m) = binop p ''icmp ult'' Ptr2Int Lower I1Ty m;
          (Sum, m) = binop p ''add'' Ptr2Int (const_int m I64Ty acc_size) I64Ty m;
          (Upper, m) = ptr_to_int p UpperPtr m;
          (CmpUpper, m) = binop p ''icmp ugt'' Sum Upper I1Ty m;
          (Or, m) = binop p ''or'' CmpLower CmpUpper I1Ty m;
          (Unreach, m) = SplitBlockAndInsertIfThen Or loc m;
          (_, m) = create_call (Before Unreach) failFunction [] m
      in m)"

definition example_place :: "'s mechanism_object \<Rightarrow> tid \<Rightarrow> theap \<times> 's \<Rightarrow> (theap \<times> 's) res" where
  "example_place IM t hs =
     bindE (deref (fst hs) t) (\<lambda>T.
     bindE (getLocation T) (\<lambda>loc.
     bindE (getInstrumentee T) (\<lambda>v.
     bindE (getSingleBoundWitness T) (\<lambda>w.
     bindE (bound_value (mo_getLowerBound IM) w (snd hs)) (\<lambda>LowerPtr.
     bindE (getPointerAccessSize (mo_module IM (snd hs)) v) (\<lambda>acc_size.
     bindE (bound_value (mo_getUpperBound IM) w (snd hs)) (\<lambda>UpperPtr.
     bindE (mo_getFailFunction IM (snd hs)) (\<lambda>failFunction.
     Inr ((fst hs)(t \<mapsto> invalidate T),
          mo_set_module IM (example_check loc v LowerPtr UpperPtr acc_size failFunction (mo_module IM (snd hs)))
            (snd hs))))))))))"

definition example_materializeExternalChecks ::
  "'s mechanism_object \<Rightarrow> tid list \<Rightarrow> theap \<times> 's \<Rightarrow> (theap \<times> 's) res" where
  "example_materializeExternalChecks IM CurrentWL = foldE (example_place IM) CurrentWL"

section \<open>The code of the program stays\<close>

text \<open>
  What is inserted at an instruction of a well-formed module extends the code; a failed insertion
  point is not an issue then.
\<close>

definition extends_at :: "vid \<Rightarrow> ir \<Rightarrow> ir \<Rightarrow> bool" where
  "extends_at loc m m' \<longleftrightarrow> (code_ok m \<and> in_code m loc \<longrightarrow> extends_code m m')"

lemma extends_at_trans [trans]: "extends_at loc m m1 \<Longrightarrow> extends_at loc m1 m2 \<Longrightarrow> extends_at loc m m2"
  unfolding extends_at_def using extends_code_trans by (meson extends_code_def)

lemma extends_at_ops:
  "emit_op (Before loc) oper args i ty nm m = (n, m') \<Longrightarrow> extends_at loc m m'"
  "ptr_to_int (Before loc) v m = (n, m') \<Longrightarrow> extends_at loc m m'"
  "binop (Before loc) oper a b ty m = (n, m') \<Longrightarrow> extends_at loc m m'"
  by (auto simp: extends_at_def ptr_to_int_def binop_def ip_ok_def intro: extends_code_emit_op)

lemma extends_at_check:
  assumes "SplitBlockAndInsertIfThen c loc m = (u, m1)" and "create_call (Before u) fn args m1 = (r, m2)"
  shows "extends_at loc m m2"
  unfolding extends_at_def
proof
  assume m: "code_ok m \<and> in_code m loc"
  from m extends_code_split_if [OF assms(1)] have 1: "extends_code m m1" "in_code m1 u" by blast+
  from assms(2) 1(2) have "extends_code m1 m2"
    by (auto simp: create_call_def ip_ok_def intro: extends_code_emit)
  with 1(1) show "extends_code m m2" by (rule extends_code_trans)
qed

lemma example_check_extends: "extends_at loc m (example_check loc v LowerPtr UpperPtr acc f m)"
proof -
  let ?p = "Before loc" and ?I1 = "ctx_ty m ''i1''" and ?I64 = "ctx_ty m ''i64''"
  obtain p1 m1 where 1: "ptr_to_int ?p v m = (p1, m1)" by (metis surj_pair)
  obtain p2 m2 where 2: "ptr_to_int ?p LowerPtr m1 = (p2, m2)" by (metis surj_pair)
  obtain p3 m3 where 3: "binop ?p ''icmp ult'' p1 p2 ?I1 m2 = (p3, m3)" by (metis surj_pair)
  obtain p4 m4 where 4: "binop ?p ''add'' p1 (const_int m3 ?I64 acc) ?I64 m3 = (p4, m4)" by (metis surj_pair)
  obtain p5 m5 where 5: "ptr_to_int ?p UpperPtr m4 = (p5, m5)" by (metis surj_pair)
  obtain p6 m6 where 6: "binop ?p ''icmp ugt'' p4 p5 ?I1 m5 = (p6, m6)" by (metis surj_pair)
  obtain p7 m7 where 7: "binop ?p ''or'' p3 p6 ?I1 m6 = (p7, m7)" by (metis surj_pair)
  obtain p8 m8 where 8: "SplitBlockAndInsertIfThen p7 loc m7 = (p8, m8)" by (metis surj_pair)
  obtain p9 m9 where 9: "create_call (Before p8) f [] m8 = (p9, m9)" by (metis surj_pair)
  note extends_at_ops(2) [OF 1] also note extends_at_ops(2) [OF 2] also note extends_at_ops(3) [OF 3]
  also note extends_at_ops(3) [OF 4] also note extends_at_ops(2) [OF 5] also note extends_at_ops(3) [OF 6]
  also note extends_at_ops(3) [OF 7] also note extends_at_check [OF 8 9]
  finally show ?thesis by (simp add: example_check_def Let_def 1 2 3 4 5 6 7 8 9)
qed

context module_owner
begin

lemma example_place_extends:
  assumes "example_place IM t (h, s) = Inr (h', s')" and "\<And>T. h t = Some T \<Longrightarrow> in_code (mo_module IM s) (location T)"
  shows "only_invalidates h h'" and "code_ok (mo_module IM s) \<Longrightarrow> extends_code (mo_module IM s) (mo_module IM s')"
    and "\<not> valid_in h' t"
proof -
  from assms(1) obtain T v l u acc f where T: "h t = Some T" and h': "h' = h(t \<mapsto> invalidate T)"
    and s': "s' = mo_set_module IM (example_check (location T) v l u acc f (mo_module IM s)) s"
    by (auto simp: example_place_def bindE_eq_Inr deref_eq_Inr getLocation_def)
  show "only_invalidates h h'" using T by (simp add: h' only_invalidates_upd)
  show "\<not> valid_in h' t" by (simp add: h' valid_in_def)
  show "extends_code (mo_module IM s) (mo_module IM s')" if "code_ok (mo_module IM s)"
    using example_check_extends [of "location T" "mo_module IM s" v l u acc f] that assms(2) [OF T]
    by (simp add: s' extends_at_def)
qed

text \<open>The targets of the work list are invalidated one by one; the code only grows.\<close>

lemma example_materialize_extends:
  assumes "example_materializeExternalChecks IM WL (h, s) = Inr (h', s')"
    and "\<And>t T. t \<in> set WL \<Longrightarrow> h t = Some T \<Longrightarrow> in_code (mo_module IM s) (location T)"
    and "code_ok (mo_module IM s)"
  shows "only_invalidates h h' \<and> extends_code (mo_module IM s) (mo_module IM s') \<and> (\<forall>t \<in> set WL. \<not> valid_in h' t)"
  using assms
proof (induction WL arbitrary: h s)
  case Nil
  then show ?case by (simp add: example_materializeExternalChecks_def)
next
  case (Cons t WL)
  from Cons.prems(1) obtain h1 s1 where 1: "example_place IM t (h, s) = Inr (h1, s1)"
    and 2: "example_materializeExternalChecks IM WL (h1, s1) = Inr (h', s')"
    by (auto simp: example_materializeExternalChecks_def bindE_eq_Inr)
  have here: "in_code (mo_module IM s) (location T)" if "h t = Some T" for T
    using that Cons.prems(2) [of t T] by simp
  note step = example_place_extends [OF 1 here]
  have ext: "extends_code (mo_module IM s) (mo_module IM s1)" by (rule step(2)) (use Cons.prems(3) in auto)
  have inv: "only_invalidates h h1" and gone: "\<not> valid_in h1 t" by (rule step; assumption)+
  have loc: "in_code (mo_module IM s1) (location T)" if th: "t' \<in> set WL" "h1 t' = Some T" for t' T
  proof -
    obtain T0 where "h t' = Some T0" "location T = location T0"
    proof -
      assume found: "\<And>T0. h t' = Some T0 \<Longrightarrow> location T = location T0 \<Longrightarrow> thesis"
      consider "h1 t' = h t'" | T0 where "h t' = Some T0" "h1 t' = Some (invalidate T0)"
        using only_invalidates_at [OF inv, of t'] by blast
      then show thesis
      proof cases
        case 1
        with th(2) show thesis by (intro found [of T]) simp_all
      next
        case 2
        with th(2) have "location T = location T0" by auto
        with 2(1) show thesis by (rule found)
      qed
    qed
    with Cons.prems(2) [of t' T0] th(1) ext Cons.prems(3) show ?thesis by (simp add: extends_code_def)
  qed
  have ok: "code_ok (mo_module IM s1)" using ext Cons.prems(3) by (simp add: extends_code_def)
  have "only_invalidates h1 h' \<and> extends_code (mo_module IM s1) (mo_module IM s') \<and> (\<forall>t \<in> set WL. \<not> valid_in h' t)"
    by (rule Cons.IH [OF 2 _ ok]) (rule loc)
  then have rest: "only_invalidates h1 h'" "extends_code (mo_module IM s1) (mo_module IM s')"
    "\<forall>t \<in> set WL. \<not> valid_in h' t"
    by blast+
  have "\<not> valid_in h' t" using valid_in_mono [OF rest(1)] gone by blast
  with rest inv ext show ?case by (auto intro: only_invalidates_trans extends_code_trans)
qed

text \<open>A target that is in the work list twice stops the pass.\<close>

lemma example_place_again:
  assumes "example_materializeExternalChecks IM WL (h, s) = Inr (h', s')"
  shows "distinct WL"
  using assms
proof (induction WL arbitrary: h s)
  case (Cons t WL)
  from Cons.prems obtain h1 s1 where 1: "example_place IM t (h, s) = Inr (h1, s1)"
    and 2: "example_materializeExternalChecks IM WL (h1, s1) = Inr (h', s')"
    by (auto simp: example_materializeExternalChecks_def bindE_eq_Inr)
  have "t \<notin> set ts \<and> only_invalidates a b" if "example_materializeExternalChecks IM ts (a, u) = Inr (b, u')" "\<not> valid_in a t" for ts a u b u'
    using that
  proof (induction ts arbitrary: a u)
    case (Cons x ts)
    then obtain a1 u1 where a: "example_place IM x (a, u) = Inr (a1, u1)"
      "example_materializeExternalChecks IM ts (a1, u1) = Inr (b, u')"
      by (auto simp: example_materializeExternalChecks_def bindE_eq_Inr)
    from a(1) have x: "valid_in a x" "only_invalidates a a1"
      by (auto simp: example_place_def bindE_eq_Inr deref_eq_Inr getLocation_def assertE_eq_Inr valid_in_def
          intro: only_invalidates_upd)
    with Cons.prems(2) have "x \<noteq> t" "\<not> valid_in a1 t" using valid_in_mono by blast+
    with Cons.IH [OF a(2)] x(2) show ?case by (auto intro: only_invalidates_trans)
  qed (simp add: example_materializeExternalChecks_def)
  moreover have "\<not> valid_in h1 t"
    using 1 by (auto simp: example_place_def bindE_eq_Inr valid_in_def)
  ultimately show ?case using Cons.IH [OF 2] 2 by auto
qed simp

end

end
