(* ===== verification/Attributes.thy ===== *)
theory Attributes
  imports TargetHeap
begin

text \<open>
  \<open>dropInvalidatedFunctionAttributes\<close> of \<open>lib/pass/MemInstrumentPass.cpp\<close> with its helpers: attributes
  that promise a function to return or not to touch memory are dropped where checks may be placed.
  Attribute lists belong to functions and calls and are kept in a map from values.
\<close>

section \<open>Attribute lists\<close>

datatype attr =
    WillReturn
  | ReadNone | ReadOnly | WriteOnly | ArgMemOnly | InaccessibleMemOnly | InaccessibleMemOrArgMemOnly
  | OtherAttr string

record attr_list =
  fn_attrs :: "attr set"
  ret_attrs :: "attr set"
  param_attrs :: "attr set list"

type_synonym attr_map = "vid \<Rightarrow> attr_list"

definition attrs_empty :: "attr_list \<Rightarrow> bool" where
  "attrs_empty a = (fn_attrs a = {} \<and> ret_attrs a = {} \<and> list_all (\<lambda>p. p = {}) (param_attrs a))"

definition param_attr :: "attr_list \<Rightarrow> nat \<Rightarrow> attr set" where
  "param_attr a i = (if i < length (param_attrs a) then param_attrs a ! i else {})"

definition dropAttributes :: "attr list \<Rightarrow> nat \<Rightarrow> attr_list \<Rightarrow> attr_list" where
  "dropAttributes attrsToDrop numArgs attrs =
     (if attrs_empty attrs then attrs
      else \<lparr>fn_attrs = fn_attrs attrs - set attrsToDrop, ret_attrs = ret_attrs attrs,
            param_attrs = map (\<lambda>i. param_attr attrs i - set attrsToDrop) [0 ..< numArgs]\<rparr>)"

section \<open>Dropping in a module\<close>

definition is_intrinsic_fun :: "ir \<Rightarrow> vid \<Rightarrow> bool" where
  "is_intrinsic_fun m f = prefix ''llvm.'' (v_name (vals m f))"

definition call_num_params :: "ir \<Rightarrow> call_info \<Rightarrow> nat" where
  "call_num_params m c =
     (case val_type m (called_operand c) of
        PointerTy t \<Rightarrow> (case types m t of FunctionTy _ ps _ \<Rightarrow> length ps | _ \<Rightarrow> 0)
      | FunctionTy _ ps _ \<Rightarrow> length ps
      | _ \<Rightarrow> 0)"

definition drop_call :: "attr list \<Rightarrow> ir \<Rightarrow> vid set \<Rightarrow> vid \<Rightarrow> vid \<Rightarrow> attr_map \<Rightarrow> attr_map" where
  "drop_call attrsToDrop m skipFunctions fun inst attrs =
     (case get_inst m inst of
        Some (Call c _) \<Rightarrow>
          if called_function c = None \<or> fun \<notin> skipFunctions
          then attrs(inst := dropAttributes attrsToDrop (call_num_params m c) (attrs inst))
          else attrs
      | _ \<Rightarrow> attrs)"

definition drop_function :: "attr list \<Rightarrow> ir \<Rightarrow> vid set \<Rightarrow> vid \<Rightarrow> attr_map \<Rightarrow> attr_map" where
  "drop_function attrsToDrop m skipFunctions fun attrs =
     (if is_intrinsic_fun m fun then attrs
      else
        let attrs1 = (if fun \<notin> skipFunctions
                      then attrs(fun := dropAttributes attrsToDrop (length (fun_args m fun)) (attrs fun))
                      else attrs)
        in if is_declaration m fun then attrs1
           else fold (drop_call attrsToDrop m skipFunctions fun) (fun_insts m fun) attrs1)"

definition dropFunctionAttributes :: "attr list \<Rightarrow> ir \<Rightarrow> vid set \<Rightarrow> attr_map \<Rightarrow> attr_map" where
  "dropFunctionAttributes attrsToDrop m skipFunctions =
     fold (drop_function attrsToDrop m skipFunctions) (mod_functions m)"

text \<open>
  A function is clean when it is defined, no valid target of it satisfies \<open>P\<close>, and it contains no call.
\<close>

definition has_call :: "ir \<Rightarrow> vid \<Rightarrow> bool" where
  "has_call m f = list_ex (\<lambda>i. get_call m i \<noteq> None) (fun_insts m f)"

definition clean_function :: "(itarget \<Rightarrow> bool) \<Rightarrow> ir \<Rightarrow> (vid \<Rightarrow> itarget list) \<Rightarrow> vid \<Rightarrow> bool" where
  "clean_function P m TargetMap f =
     (\<not> is_declaration m f \<and> \<not> list_ex (\<lambda>T. isValid T \<and> P T) (TargetMap f) \<and> \<not> has_call m f)"

definition memory_attrs :: "attr list" where
  "memory_attrs =
     [ReadNone, ReadOnly, WriteOnly, ArgMemOnly, InaccessibleMemOnly, InaccessibleMemOrArgMemOnly]"

definition dropInvalidatedFunctionAttributes ::
  "bool \<Rightarrow> ir \<Rightarrow> (vid \<Rightarrow> itarget list) \<Rightarrow> attr_map \<Rightarrow> attr_map" where
  "dropInvalidatedFunctionAttributes invariantsAreChecks m TargetMap attrs =
     (let noDropWillReturn = set (filter
            (clean_function (\<lambda>T. isCheck T \<or> (isInvariant T \<and> invariantsAreChecks)) m TargetMap) (mod_functions m));
          attrs1 = dropFunctionAttributes [WillReturn] m noDropWillReturn attrs;
          noDropNoMem = set (filter
            (clean_function (\<lambda>T. isCheck T \<or> isInvariant T) m TargetMap) (mod_functions m))
      in dropFunctionAttributes memory_attrs m noDropNoMem attrs1)"

section \<open>Attributes are only removed\<close>

definition attrs_le :: "attr_list \<Rightarrow> attr_list \<Rightarrow> bool" where
  "attrs_le a b \<longleftrightarrow> fn_attrs a \<subseteq> fn_attrs b \<and> (\<forall>i. param_attr a i \<subseteq> param_attr b i)"

text \<open>None of the attributes \<open>D\<close> is left at the function or its parameters.\<close>

definition free_of :: "attr set \<Rightarrow> attr_list \<Rightarrow> bool" where
  "free_of D a \<longleftrightarrow> fn_attrs a \<inter> D = {} \<and> (\<forall>i. param_attr a i \<inter> D = {})"

lemma attrs_le_refl [simp]: "attrs_le a a"
  by (simp add: attrs_le_def)

lemma attrs_le_trans: "attrs_le a b \<Longrightarrow> attrs_le b c \<Longrightarrow> attrs_le a c"
  unfolding attrs_le_def by blast

lemma free_of_mono: "attrs_le a b \<Longrightarrow> free_of D b \<Longrightarrow> free_of D a"
  unfolding attrs_le_def free_of_def by blast

lemma param_attr_empty: "attrs_empty a \<Longrightarrow> param_attr a i = {}"
  by (auto simp: attrs_empty_def param_attr_def list_all_length)

lemma dropAttributes_le: "attrs_le (dropAttributes D n a) a"
  by (auto simp: dropAttributes_def attrs_le_def param_attr_def)

lemma dropAttributes_free: "free_of (set D) (dropAttributes D n a)"
  using param_attr_empty [of a]
  by (auto simp: dropAttributes_def free_of_def param_attr_def attrs_empty_def)

definition map_le_attrs :: "attr_map \<Rightarrow> attr_map \<Rightarrow> bool" where
  "map_le_attrs A B \<longleftrightarrow> (\<forall>v. attrs_le (A v) (B v))"

lemma map_le_attrs_refl [simp]: "map_le_attrs A A"
  by (simp add: map_le_attrs_def)

lemma map_le_attrs_trans: "map_le_attrs A B \<Longrightarrow> map_le_attrs B C \<Longrightarrow> map_le_attrs A C"
  unfolding map_le_attrs_def using attrs_le_trans by blast

lemma drop_call_le: "map_le_attrs (drop_call D m S f i A) A"
  by (auto simp: drop_call_def map_le_attrs_def dropAttributes_le split: option.splits instr.splits)

lemma fold_le:
  assumes "\<And>x A. map_le_attrs (g x A) A"
  shows "map_le_attrs (fold g xs A) A"
proof (induction xs arbitrary: A)
  case (Cons x xs)
  from map_le_attrs_trans [OF Cons.IH assms] show ?case by simp
qed simp

lemma drop_function_le: "map_le_attrs (drop_function D m S f A) A"
proof -
  let ?A = "if f \<notin> S then A(f := dropAttributes D (length (fun_args m f)) (A f)) else A"
  have 1: "map_le_attrs ?A A" by (auto simp: map_le_attrs_def dropAttributes_le)
  have 2: "map_le_attrs (fold (drop_call D m S f) (fun_insts m f) ?A) ?A"
    by (rule fold_le) (rule drop_call_le)
  from map_le_attrs_trans [OF 2 1] 1 show ?thesis by (simp add: drop_function_def Let_def)
qed

lemma dropFunctionAttributes_le: "map_le_attrs (dropFunctionAttributes D m S A) A"
  unfolding dropFunctionAttributes_def by (rule fold_le) (rule drop_function_le)

text \<open>A key that one step of a loop frees stays free.\<close>

lemma fold_frees:
  assumes "\<And>x A. map_le_attrs (g x A) A" and "x \<in> set xs" and "\<And>A. free_of D (g x A v)"
  shows "free_of D (fold g xs A v)"
  using assms(2)
proof (induction xs arbitrary: A)
  case (Cons y ys)
  show ?case
  proof (cases "x = y")
    case True
    have "map_le_attrs (fold g ys (g y A)) (g y A)" by (rule fold_le) (rule assms(1))
    with assms(3) [of A] True show ?thesis
      using free_of_mono by (simp add: map_le_attrs_def) blast
  next
    case False
    with Cons show ?thesis by simp
  qed
qed simp

lemma drop_function_frees:
  assumes "\<not> is_intrinsic_fun m f" and "f \<notin> S"
  shows "free_of (set D) (drop_function D m S f A f)"
proof -
  let ?A = "A(f := dropAttributes D (length (fun_args m f)) (A f))"
  have free: "free_of (set D) (?A f)" by (simp add: dropAttributes_free)
  have "map_le_attrs (fold (drop_call D m S f) (fun_insts m f) ?A) ?A"
    by (rule fold_le) (rule drop_call_le)
  then have "free_of (set D) (fold (drop_call D m S f) (fun_insts m f) ?A f)"
    using free free_of_mono unfolding map_le_attrs_def by blast
  with free assms show ?thesis by (simp add: drop_function_def Let_def)
qed

lemma dropFunctionAttributes_frees:
  assumes "f \<in> set (mod_functions m)" and "\<not> is_intrinsic_fun m f" and "f \<notin> S"
  shows "free_of (set D) (dropFunctionAttributes D m S A f)"
  unfolding dropFunctionAttributes_def
  by (rule fold_frees [where g = "drop_function D m S" and x = f])
    (simp_all add: drop_function_le assms drop_function_frees)

text \<open>A direct call in a function that is not skipped.\<close>

lemma drop_function_frees_call:
  assumes "\<not> is_intrinsic_fun m f" and "f \<notin> S" and "i \<in> set (fun_insts m f)"
    and "get_inst m i = Some (Call c k)"
  shows "free_of (set D) (drop_function D m S f A i)"
proof -
  have "\<not> is_declaration m f" using assms(3) by (auto simp: is_declaration_def fun_insts_def)
  moreover have "free_of (set D) (fold (drop_call D m S f) (fun_insts m f) B i)" for B
    by (rule fold_frees [where g = "drop_call D m S f" and x = i])
      (simp_all add: drop_call_le assms, simp add: drop_call_def assms dropAttributes_free)
  ultimately show ?thesis using assms(1) by (simp add: drop_function_def Let_def)
qed

lemma dropFunctionAttributes_frees_call:
  assumes "f \<in> set (mod_functions m)" and "\<not> is_intrinsic_fun m f" and "f \<notin> S"
    and "i \<in> set (fun_insts m f)" and "get_inst m i = Some (Call c k)"
  shows "free_of (set D) (dropFunctionAttributes D m S A i)"
  unfolding dropFunctionAttributes_def
  by (rule fold_frees [where g = "drop_function D m S" and x = f])
    (simp_all add: drop_function_le assms drop_function_frees_call [OF assms(2-)])

lemma fold_keeps_attrs:
  assumes "\<And>x A. x \<in> set xs \<Longrightarrow> g x A v = A v"
  shows "fold g xs A v = A v"
  using assms by (induction xs arbitrary: A) auto

lemma dropFunctionAttributes_keeps:
  assumes "v \<notin> set (mod_functions m)" and "\<And>c k. get_inst m v \<noteq> Some (Call c k)"
  shows "dropFunctionAttributes D m S A v = A v"
proof -
  have call: "drop_call D m S f i B v = B v" for f i B
    using assms(2) [of] by (auto simp: drop_call_def split: option.splits instr.splits)
  have "drop_function D m S f B v = B v" if "f \<in> set (mod_functions m)" for f B
    using that assms(1) fold_keeps_attrs [where g = "drop_call D m S f" and v = v, OF call]
    by (auto simp: drop_function_def Let_def)
  then show ?thesis unfolding dropFunctionAttributes_def by (rule fold_keeps_attrs)
qed

section \<open>Correctness\<close>


text \<open>
  A direct call in a defined function of the module keeps none of these attributes, but the
  attributes of an invoke are never dropped, although it may call the same function.
\<close>

theorem call_sites_dropped_invokes_kept:
  assumes "f \<in> set (mod_functions m)" and "\<not> is_intrinsic_fun m f" and "i \<in> set (fun_insts m f)"
    and "A = dropInvalidatedFunctionAttributes ic m TargetMap attrs"
  shows "(\<forall>c k. get_inst m i = Some (Call c k) \<longrightarrow> free_of (set (WillReturn # memory_attrs)) (A i)) \<and>
    (\<forall>c b. get_inst m i = Some (Invoke c b) \<longrightarrow> i \<notin> set (mod_functions m) \<longrightarrow> A i = attrs i)"
proof -
  let ?S1 = "set (filter (clean_function (\<lambda>T. isCheck T \<or> (isInvariant T \<and> ic)) m TargetMap) (mod_functions m))"
    and ?S2 = "set (filter (clean_function (\<lambda>T. isCheck T \<or> isInvariant T) m TargetMap) (mod_functions m))"
  let ?A1 = "dropFunctionAttributes [WillReturn] m ?S1 attrs"
  have A: "A = dropFunctionAttributes memory_attrs m ?S2 ?A1"
    by (simp add: assms(4) dropInvalidatedFunctionAttributes_def Let_def)
  have le: "attrs_le (A i) (?A1 i)"
    using dropFunctionAttributes_le unfolding A map_le_attrs_def by blast
  have "free_of (set (WillReturn # memory_attrs)) (A i)" if c: "get_inst m i = Some (Call c k)" for c k
  proof -
    have "get_call m i \<noteq> None" using c by (simp add: get_call_def)
    with assms(3) have "has_call m f" unfolding has_call_def list_ex_iff by blast
    then have nc: "\<not> clean_function P m TargetMap f" for P by (simp add: clean_function_def)
    have "free_of (set [WillReturn]) (A i)"
      by (rule free_of_mono [OF le dropFunctionAttributes_frees_call [OF assms(1,2) _ assms(3) c]]) (simp add: nc)
    moreover have "free_of (set memory_attrs) (A i)"
      unfolding A by (rule dropFunctionAttributes_frees_call [OF assms(1,2) _ assms(3) c]) (simp add: nc)
    ultimately show ?thesis unfolding free_of_def by auto
  qed
  moreover have "A i = attrs i" if "get_inst m i = Some (Invoke c b)" "i \<notin> set (mod_functions m)" for c b
    unfolding A using that by (simp add: dropFunctionAttributes_keeps)
  ultimately show ?thesis by blast
qed

section \<open>Witnesses\<close>

definition demo_attrs :: attr_map where
  "demo_attrs = (\<lambda>_. \<lparr>fn_attrs = {WillReturn, ReadNone, OtherAttr ''nounwind''}, ret_attrs = {}, param_attrs = [{ReadOnly}]\<rparr>)"

definition demo_attr_targets :: "vid \<Rightarrow> itarget list" where
  "demo_attr_targets f = (if f = 1 then [demo_target] else [])"


text \<open>The demo module with a call and an invoke.\<close>

definition demo_calls :: ir where
  "demo_calls = demo
     \<lparr>vals := (\<lambda>v. if v = 8 then \<lparr>v_kind = Inst (Call \<lparr>called_operand = 1, called_function = Some 1, call_args = [3]\<rparr> None),
                             v_type = 0, v_name = [], v_md = Map.empty\<rparr>
                 else if v = 9 then \<lparr>v_kind = Inst (Invoke \<lparr>called_operand = 1, called_function = Some 1, call_args = [3]\<rparr> 0),
                             v_type = 0, v_name = [], v_md = Map.empty\<rparr>
                 else vals demo v),
      bb_insts := (\<lambda>b. if b = 0 then [3, 4, 5, 6, 8, 9] else [])\<rparr>"

lemma call_sites_dropped_invokes_kept_witness:
  "free_of (set (WillReturn # memory_attrs)) (dropInvalidatedFunctionAttributes True demo_calls (\<lambda>_. []) demo_attrs 8) \<and>
   dropInvalidatedFunctionAttributes True demo_calls (\<lambda>_. []) demo_attrs 9 = demo_attrs 9 \<and>
   WillReturn \<in> fn_attrs (demo_attrs 9)"
proof -
  have f: "1 \<in> set (mod_functions demo_calls)" "\<not> is_intrinsic_fun demo_calls 1" "9 \<notin> set (mod_functions demo_calls)"
    by (simp_all add: demo_calls_def demo_def is_intrinsic_fun_def)
  have i: "8 \<in> set (fun_insts demo_calls 1)" "9 \<in> set (fun_insts demo_calls 1)"
    by (simp_all add: demo_calls_def demo_def fun_insts_def)
  have g: "get_inst demo_calls 8 = Some (Call \<lparr>called_operand = 1, called_function = Some 1, call_args = [3]\<rparr> None)"
    "get_inst demo_calls 9 = Some (Invoke \<lparr>called_operand = 1, called_function = Some 1, call_args = [3]\<rparr> 0)"
    by (simp_all add: demo_calls_def get_inst_def)
  from call_sites_dropped_invokes_kept [OF f(1,2) i(1) refl, of True "\<lambda>_. []" demo_attrs] g(1)
    call_sites_dropped_invokes_kept [OF f(1,2) i(2) refl, of True "\<lambda>_. []" demo_attrs] g(2) f(3)
  show ?thesis by (simp add: demo_attrs_def)
qed

end
