(* ===== verification/Config.thy ===== *)
theory Config
  imports Prelude
begin

text \<open>
  \<open>lib/Config.cpp\<close> and \<open>include/meminstrument/Config.h\<close>: the command line options, the base
  configurations they choose from, and the configuration object the pass reads. The scoped
  enumerations get a prefix each. Option values are parsed by the command line library from the
  tables below (\<open>cl::values\<close>); the objects the constructor creates are represented by their kind, and
  a null pointer is \<open>None\<close>.
\<close>

section \<open>Enumerations and their option values\<close>

datatype config_kind =
  CK_splay | CK_sleep | CK_rt_stat | CK_optimization_checks_only | CK_example | CK_lowfat | CK_softbound
  | CK_default_val

datatype im_kind =
  IM_splay | IM_sleep | IM_example | IM_rt_stat | IM_lowfat | IM_softbound | IM_default_val

datatype ip_kind = IP_beforeOutflow | IP_accessOnly | IP_none | IP_pointerBounds | IP_default_val

datatype ws_kind = WS_after_inflow | WS_none | WS_default_val

datatype mi_mode =
  MI_NOTHING | MI_SETUP | MI_GATHER_ITARGETS | MI_FILTER_ITARGETS | MI_GENERATE_WITNESSES
  | MI_GENERATE_INVARIANTS | MI_GENERATE_OPTIMIZATION_CHECKS | MI_GENERATE_CHECKS | MI_DEFAULT

datatype bool_or_default = BOU_UNSET | BOU_TRUE | BOU_FALSE

definition config_values :: "(string \<times> config_kind) list" where
  "config_values =
     [(''splay'', CK_splay), (''sleep'', CK_sleep),
      (''optimization-checks-only'', CK_optimization_checks_only), (''rt-stat'', CK_rt_stat),
      (''example'', CK_example), (''lowfat'', CK_lowfat), (''softbound'', CK_softbound)]"

definition im_values :: "(string \<times> im_kind) list" where
  "im_values =
     [(''splay'', IM_splay), (''sleep'', IM_sleep), (''example'', IM_example), (''rt_stat'', IM_rt_stat),
      (''lowfat'', IM_lowfat), (''softbound'', IM_softbound)]"

definition ip_values :: "(string \<times> ip_kind) list" where
  "ip_values =
     [(''before-outflow'', IP_beforeOutflow), (''access-only'', IP_accessOnly), (''none'', IP_none),
      (''pointer-bounds'', IP_pointerBounds)]"

definition ws_values :: "(string \<times> ws_kind) list" where
  "ws_values = [(''after-inflow'', WS_after_inflow), (''none'', WS_none)]"

definition mode_values :: "(string \<times> mi_mode) list" where
  "mode_values =
     [(''nothing'', MI_NOTHING), (''setup'', MI_SETUP), (''gatheritargets'', MI_GATHER_ITARGETS),
      (''filteritargets'', MI_FILTER_ITARGETS), (''genwitnesses'', MI_GENERATE_WITNESSES),
      (''geninvariants'', MI_GENERATE_INVARIANTS), (''genextchecks'', MI_GENERATE_OPTIMIZATION_CHECKS),
      (''genchecks'', MI_GENERATE_CHECKS)]"

record cl_options =
  ConfigKindOpt :: config_kind
  IMOpt :: im_kind
  IPOpt :: ip_kind
  WSOpt :: ws_kind
  MIModeOpt :: mi_mode
  PrintWitnessGraphOpt :: bool_or_default
  InstrumentVerboseOpt :: bool_or_default

definition default_options :: cl_options where
  "default_options =
     \<lparr>ConfigKindOpt = CK_default_val, IMOpt = IM_default_val, IPOpt = IP_default_val, WSOpt = WS_default_val,
      MIModeOpt = MI_DEFAULT, PrintWitnessGraphOpt = BOU_UNSET, InstrumentVerboseOpt = BOU_UNSET\<rparr>"

section \<open>Creating the parts\<close>

definition createInstrumentationMechanism :: "im_kind \<Rightarrow> im_kind option" where
  "createInstrumentationMechanism k =
     (case k of
        IM_splay \<Rightarrow> Some IM_splay
      | IM_sleep \<Rightarrow> Some IM_sleep
      | IM_rt_stat \<Rightarrow> Some IM_rt_stat
      | IM_example \<Rightarrow> Some IM_example
      | IM_lowfat \<Rightarrow> Some IM_lowfat
      | IM_softbound \<Rightarrow> Some IM_softbound
      | IM_default_val \<Rightarrow> None)"

definition createInstrumentationPolicy :: "ip_kind \<Rightarrow> ip_kind option" where
  "createInstrumentationPolicy k =
     (case k of
        IP_beforeOutflow \<Rightarrow> Some IP_beforeOutflow
      | IP_accessOnly \<Rightarrow> Some IP_accessOnly
      | IP_none \<Rightarrow> Some IP_none
      | IP_pointerBounds \<Rightarrow> Some IP_pointerBounds
      | IP_default_val \<Rightarrow> None)"

definition createWitnessStrategy :: "ws_kind \<Rightarrow> ws_kind option" where
  "createWitnessStrategy k =
     (case k of
        WS_after_inflow \<Rightarrow> Some WS_after_inflow
      | WS_none \<Rightarrow> Some WS_none
      | WS_default_val \<Rightarrow> None)"

fun getModeName :: "mi_mode \<Rightarrow> string" where
  "getModeName MI_NOTHING = ''Nothing''"
| "getModeName MI_SETUP = ''Setup''"
| "getModeName MI_GATHER_ITARGETS = ''GatherITargets''"
| "getModeName MI_FILTER_ITARGETS = ''FilterITargets''"
| "getModeName MI_GENERATE_WITNESSES = ''GenerateWitnesses''"
| "getModeName MI_GENERATE_INVARIANTS = ''GenerateInvariants''"
| "getModeName MI_GENERATE_OPTIMIZATION_CHECKS = ''GenerateExternalChecks''"
| "getModeName MI_GENERATE_CHECKS = ''GenerateChecks''"
| "getModeName _ = ''[Unexpected Mode]''"

fun getValOrDefault :: "bool_or_default \<Rightarrow> bool \<Rightarrow> bool" where
  "getValOrDefault BOU_UNSET defaultVal = defaultVal"
| "getValOrDefault BOU_TRUE defaultVal = True"
| "getValOrDefault BOU_FALSE defaultVal = False"

section \<open>Base configurations\<close>

record base_config =
  bc_policy :: ip_kind
  bc_mechanism :: im_kind
  bc_strategy :: ws_kind
  bc_mode :: mi_mode
  bc_printWitnessGraph :: bool
  bc_verbose :: bool
  bc_name :: string

definition SplayConfig :: base_config where
  "SplayConfig = \<lparr>bc_policy = IP_beforeOutflow, bc_mechanism = IM_splay, bc_strategy = WS_after_inflow,
     bc_mode = MI_GENERATE_CHECKS, bc_printWitnessGraph = False, bc_verbose = False, bc_name = ''Splay''\<rparr>"

definition SleepConfig :: base_config where
  "SleepConfig = SplayConfig\<lparr>bc_mechanism := IM_sleep, bc_name := ''Sleep''\<rparr>"

definition OptimizationChecksOnlyConfig :: base_config where
  "OptimizationChecksOnlyConfig =
     SplayConfig\<lparr>bc_mode := MI_GENERATE_OPTIMIZATION_CHECKS, bc_name := ''OptimizationChecksOnly''\<rparr>"

definition RTStatConfig :: base_config where
  "RTStatConfig = \<lparr>bc_policy = IP_accessOnly, bc_mechanism = IM_rt_stat, bc_strategy = WS_none,
     bc_mode = MI_GENERATE_CHECKS, bc_printWitnessGraph = False, bc_verbose = True, bc_name = ''RTStat''\<rparr>"

definition ExampleConfig :: base_config where
  "ExampleConfig = \<lparr>bc_policy = IP_accessOnly, bc_mechanism = IM_example, bc_strategy = WS_none,
     bc_mode = MI_GENERATE_CHECKS, bc_printWitnessGraph = False, bc_verbose = False, bc_name = ''Example''\<rparr>"

definition LowfatConfig :: base_config where
  "LowfatConfig = \<lparr>bc_policy = IP_beforeOutflow, bc_mechanism = IM_lowfat, bc_strategy = WS_after_inflow,
     bc_mode = MI_GENERATE_CHECKS, bc_printWitnessGraph = False, bc_verbose = False, bc_name = ''Lowfat''\<rparr>"

definition SoftBoundConfig :: base_config where
  "SoftBoundConfig = \<lparr>bc_policy = IP_pointerBounds, bc_mechanism = IM_softbound, bc_strategy = WS_after_inflow,
     bc_mode = MI_GENERATE_CHECKS, bc_printWitnessGraph = False, bc_verbose = False, bc_name = ''SoftBound''\<rparr>"

fun Config_create :: "config_kind \<Rightarrow> base_config" where
  "Config_create CK_splay = SplayConfig"
| "Config_create CK_sleep = SleepConfig"
| "Config_create CK_rt_stat = RTStatConfig"
| "Config_create CK_example = ExampleConfig"
| "Config_create CK_optimization_checks_only = OptimizationChecksOnlyConfig"
| "Config_create CK_lowfat = LowfatConfig"
| "Config_create CK_softbound = SoftBoundConfig"
| "Config_create CK_default_val = SplayConfig"

section \<open>The configuration of a run\<close>

record global_config =
  gc_mechanism :: "im_kind option"
  gc_policy :: "ip_kind option"
  gc_strategy :: "ws_kind option"
  gc_mode :: mi_mode
  gc_printWitnessGraph :: bool
  gc_verbose :: bool
  gc_name :: string

definition GlobalConfig :: "base_config \<Rightarrow> cl_options \<Rightarrow> global_config" where
  "GlobalConfig Cfg opts =
     (let imk = (if IMOpt opts \<noteq> IM_default_val then IMOpt opts else bc_mechanism Cfg);
          ipk = (if IPOpt opts \<noteq> IP_default_val then IPOpt opts else bc_policy Cfg);
          wsk = (if WSOpt opts \<noteq> WS_default_val then WSOpt opts else bc_strategy Cfg)
      in \<lparr>gc_mechanism = createInstrumentationMechanism imk,
          gc_policy = createInstrumentationPolicy ipk,
          gc_strategy = createWitnessStrategy wsk,
          gc_mode = (if MIModeOpt opts \<noteq> MI_DEFAULT then MIModeOpt opts else bc_mode Cfg),
          gc_printWitnessGraph = getValOrDefault (PrintWitnessGraphOpt opts) (bc_printWitnessGraph Cfg),
          gc_verbose = getValOrDefault (InstrumentVerboseOpt opts) (bc_verbose Cfg),
          gc_name = bc_name Cfg\<rparr>)"

definition GlobalConfig_create :: "cl_options \<Rightarrow> global_config" where
  "GlobalConfig_create opts = GlobalConfig (Config_create (ConfigKindOpt opts)) opts"

definition getInstrumentationPolicy :: "global_config \<Rightarrow> ip_kind res" where
  "getInstrumentationPolicy c =
     (case gc_policy c of None \<Rightarrow> Inl (AssertionFailed ''InstrumentationPolicy not set!'') | Some k \<Rightarrow> Inr k)"

definition getInstrumentationMechanism :: "global_config \<Rightarrow> im_kind res" where
  "getInstrumentationMechanism c =
     (case gc_mechanism c of None \<Rightarrow> Inl (AssertionFailed ''InstrumentationMechanism not set!'') | Some k \<Rightarrow> Inr k)"

definition getWitnessStrategy :: "global_config \<Rightarrow> ws_kind res" where
  "getWitnessStrategy c =
     (case gc_strategy c of None \<Rightarrow> Inl (AssertionFailed ''WitnessStrategy not set!'') | Some k \<Rightarrow> Inr k)"

section \<open>Names and the dump\<close>

fun mechanism_name :: "im_kind \<Rightarrow> string" where
  "mechanism_name IM_splay = ''Splay''"
| "mechanism_name IM_sleep = ''Sleep''"
| "mechanism_name IM_example = ''Example''"
| "mechanism_name IM_rt_stat = ''RuntimeStat''"
| "mechanism_name IM_lowfat = ''Lowfat''"
| "mechanism_name IM_softbound = ''SoftBound''"
| "mechanism_name IM_default_val = []"

fun policy_name :: "ip_kind \<Rightarrow> string" where
  "policy_name IP_beforeOutflow = ''BeforeOutflow''"
| "policy_name IP_accessOnly = ''AccessOnly''"
| "policy_name IP_none = ''None''"
| "policy_name IP_pointerBounds = ''PointerBoundsPolicy''"
| "policy_name IP_default_val = []"

fun strategy_name :: "ws_kind \<Rightarrow> string" where
  "strategy_name WS_after_inflow = ''AfterInflow''"
| "strategy_name WS_none = ''None''"
| "strategy_name WS_default_val = []"

definition print_bool :: "bool \<Rightarrow> string" where
  "print_bool b = (if b then ''1'' else ''0'')"

definition newline :: string where
  "newline = [char_of (10 :: nat)]"

text \<open>\<open>GlobalConfig::dump\<close>, as the text it writes; a null part is dereferenced.\<close>

definition GlobalConfig_dump :: "global_config \<Rightarrow> string res" where
  "GlobalConfig_dump c =
     (case (gc_policy c, gc_strategy c, gc_mechanism c) of
        (Some p, Some s, Some i) \<Rightarrow>
          Inr (''{{{ Config: '' @ gc_name c @ newline @
               ''     InstrumentationPolicy: '' @ policy_name p @ newline @
               ''           WitnessStrategy: '' @ strategy_name s @ newline @
               ''  InstrumentationMechanism: '' @ mechanism_name i @ newline @
               ''                      Mode: '' @ getModeName (gc_mode c) @ newline @
               ''         PrintWitnessGraph: '' @ print_bool (gc_printWitnessGraph c) @ newline @
               ''         InstrumentVerbose: '' @ print_bool (gc_verbose c) @ newline @
               ''}}}'' @ newline @ newline)
      | _ \<Rightarrow> Inl NullPointer)"

section \<open>Correctness\<close>

lemma Config_create_chosen:
  "bc_mechanism (Config_create k) \<noteq> IM_default_val" "bc_policy (Config_create k) \<noteq> IP_default_val"
  "bc_strategy (Config_create k) \<noteq> WS_default_val" "bc_mode (Config_create k) \<noteq> MI_DEFAULT"
  by (cases k; simp add: SplayConfig_def SleepConfig_def RTStatConfig_def ExampleConfig_def
      OptimizationChecksOnlyConfig_def LowfatConfig_def SoftBoundConfig_def)+

lemma create_kinds:
  "k \<noteq> IM_default_val \<Longrightarrow> createInstrumentationMechanism k = Some k"
  "p \<noteq> IP_default_val \<Longrightarrow> createInstrumentationPolicy p = Some p"
  "s \<noteq> WS_default_val \<Longrightarrow> createWitnessStrategy s = Some s"
  unfolding createInstrumentationMechanism_def createInstrumentationPolicy_def createWitnessStrategy_def
    apply (cases k; simp)
   apply (cases p; simp)
  apply (cases s; simp)
  done

text \<open>
  C22: Whatever options are given, the configuration of a run is complete: the getters of the policy,
  the mechanism and the strategy do not fail, each part is the one of the option when it is set and
  the one of the base configuration otherwise, and the mode is never the placeholder \<open>DEFAULT\<close>.
\<close>

theorem GlobalConfig_complete:
  "getInstrumentationMechanism (GlobalConfig_create opts) =
     Inr (if IMOpt opts \<noteq> IM_default_val then IMOpt opts else bc_mechanism (Config_create (ConfigKindOpt opts))) \<and>
   getInstrumentationPolicy (GlobalConfig_create opts) =
     Inr (if IPOpt opts \<noteq> IP_default_val then IPOpt opts else bc_policy (Config_create (ConfigKindOpt opts))) \<and>
   getWitnessStrategy (GlobalConfig_create opts) =
     Inr (if WSOpt opts \<noteq> WS_default_val then WSOpt opts else bc_strategy (Config_create (ConfigKindOpt opts))) \<and>
   gc_mode (GlobalConfig_create opts) =
     (if MIModeOpt opts \<noteq> MI_DEFAULT then MIModeOpt opts else bc_mode (Config_create (ConfigKindOpt opts))) \<and>
   gc_mode (GlobalConfig_create opts) \<noteq> MI_DEFAULT"
  using Config_create_chosen [of "ConfigKindOpt opts"]
  by (simp add: GlobalConfig_create_def GlobalConfig_def Let_def getInstrumentationMechanism_def
      getInstrumentationPolicy_def getWitnessStrategy_def create_kinds)

lemma map_of_unique_name:
  assumes "distinct (map fst t)" and "distinct (map snd t)" and "k \<in> set (map snd t)"
  shows "\<exists>!n. map_of t n = Some k"
proof -
  from assms(3) obtain n where n: "(n, k) \<in> set t" by auto
  with assms(1) have "map_of t n = Some k" by simp
  moreover have "n' = n" if "map_of t n' = Some k" for n'
  proof -
    have "inj_on snd (set t)" using assms(2) by (simp add: distinct_map)
    from inj_onD [OF this, of "(n', k)" "(n, k)"] n map_of_SomeD [OF that] show ?thesis by simp
  qed
  ultimately show ?thesis by blast
qed

text \<open>
  Every configuration, mechanism, policy, strategy and mode can be asked for on the command
  line by exactly one name, and the placeholders by none.
\<close>

theorem option_values_complete:
  "(\<exists>!n. map_of config_values n = Some c) = (c \<noteq> CK_default_val) \<and>
   (\<exists>!n. map_of im_values n = Some i) = (i \<noteq> IM_default_val) \<and>
   (\<exists>!n. map_of ip_values n = Some p) = (p \<noteq> IP_default_val) \<and>
   (\<exists>!n. map_of ws_values n = Some w) = (w \<noteq> WS_default_val) \<and>
   (\<exists>!n. map_of mode_values n = Some d) = (d \<noteq> MI_DEFAULT)"
proof -
  have all: "(\<exists>!n. map_of t n = Some k) = (k \<in> set (map snd t))"
    if "distinct (map fst t)" "distinct (map snd t)" for t :: "(string \<times> 'k) list" and k
    using map_of_unique_name [OF that, of k] by (force dest: map_of_SomeD)
  have "distinct (map fst config_values)" "distinct (map snd config_values)"
    "distinct (map fst im_values)" "distinct (map snd im_values)"
    "distinct (map fst ip_values)" "distinct (map snd ip_values)"
    "distinct (map fst ws_values)" "distinct (map snd ws_values)"
    "distinct (map fst mode_values)" "distinct (map snd mode_values)"
    by code_simp+
  moreover have "(c \<in> set (map snd config_values)) = (c \<noteq> CK_default_val)"
    by (cases c) (simp_all add: config_values_def)
  moreover have "(i \<in> set (map snd im_values)) = (i \<noteq> IM_default_val)"
    by (cases i) (simp_all add: im_values_def)
  moreover have "(p \<in> set (map snd ip_values)) = (p \<noteq> IP_default_val)"
    by (cases p) (simp_all add: ip_values_def)
  moreover have "(w \<in> set (map snd ws_values)) = (w \<noteq> WS_default_val)"
    by (cases w) (simp_all add: ws_values_def)
  moreover have "(d \<in> set (map snd mode_values)) = (d \<noteq> MI_DEFAULT)"
    by (cases d) (simp_all add: mode_values_def)
  ultimately show ?thesis by (simp only: all)
qed

end
