(* ===== verification/NodeLifetime.thy ===== *)
theory NodeLifetime
  imports Demo
begin

text \<open>
  The lifetime of nodes: what the destructors of nodes and graphs touch, which nodes
  \<open>markAsReachable\<close> finds and which \<open>removeDeadNodes\<close> keeps.
\<close>

section \<open>Deleting nodes\<close>

text \<open>
  The order of deletion matters: the destructor of a node writes to the nodes it requires, so it
  must not run after one of them is gone.
\<close>

fun safe_order :: "(nid \<Rightarrow> nid list) \<Rightarrow> nid set \<Rightarrow> nid list \<Rightarrow> bool" where
  "safe_order rq dead [] = True"
| "safe_order rq dead (n # ns) = (set (rq n) \<inter> dead = {} \<and> safe_order rq (insert n dead) ns)"

definition same_shape :: "wgraph \<Rightarrow> wgraph \<Rightarrow> bool" where
  "same_shape g g' \<longleftrightarrow>
     targets g' = targets g \<and> InternalNodes g' = InternalNodes g \<and>
     ExternalNodes g' = ExternalNodes g \<and>
     (\<forall>n nd'. nodes g' n = Some nd' \<longrightarrow>
        (\<exists>nd. nodes g n = Some nd \<and> Target nd' = Target nd \<and> requirements nd' = requirements nd))"

lemma same_shape_refl [simp]: "same_shape g g"
  by (simp add: same_shape_def)

lemma same_shape_trans: "same_shape g h \<Longrightarrow> same_shape h k \<Longrightarrow> same_shape g k"
  unfolding same_shape_def by metis

lemma same_shape_of:
  assumes "same_shape g g'" and "n \<in> dom (nodes g')"
  shows "req_of g' n = req_of g n" and "tgt_of g' n = tgt_of g n"
  using assms by (force simp: same_shape_def req_of_def tgt_of_def)+

lemma drop_requiredBy:
  assumes "set rs \<subseteq> dom (nodes g)"
  shows "\<exists>g'. foldE (\<lambda>r. upd_node r (\<lambda>nd. nd\<lparr>requiredBy := f r nd\<rparr>)) rs g = Inr g' \<and>
    dom (nodes g') = dom (nodes g) \<and> same_shape g g'"
  using assms
proof (induction rs arbitrary: g)
  case (Cons r rs)
  then obtain nd where nd: "nodes g r = Some nd" by auto
  let ?g = "g\<lparr>nodes := (nodes g)(r \<mapsto> nd\<lparr>requiredBy := f r nd\<rparr>)\<rparr>"
  have step: "upd_node r (\<lambda>nd. nd\<lparr>requiredBy := f r nd\<rparr>) g = Inr ?g"
    using nd by (simp add: upd_node_def)
  have "set rs \<subseteq> dom (nodes ?g)" using Cons.prems by auto
  from Cons.IH [OF this] obtain g' where
    g': "foldE (\<lambda>r. upd_node r (\<lambda>nd. nd\<lparr>requiredBy := f r nd\<rparr>)) rs ?g = Inr g'"
      "dom (nodes g') = dom (nodes ?g)" "same_shape ?g g'" by blast
  have "same_shape g ?g" using nd by (auto simp: same_shape_def)
  with g'(3) have "same_shape g g'" by (blast intro: same_shape_trans)
  moreover have "dom (nodes g') = dom (nodes g)" using g'(2) nd by auto
  ultimately show ?case using step g'(1) by simp
qed simp

lemma drop_requiredBy_dead:
  assumes "\<not> set rs \<subseteq> dom (nodes g)"
  shows "foldE (\<lambda>r. upd_node r (\<lambda>nd. nd\<lparr>requiredBy := f r nd\<rparr>)) rs g = Inl UseAfterFree"
  using assms
proof (induction rs arbitrary: g)
  case (Cons r rs)
  show ?case
  proof (cases "nodes g r")
    case None
    then show ?thesis by (simp add: upd_node_def deref_def)
  next
    case (Some nd)
    let ?g = "g\<lparr>nodes := (nodes g)(r \<mapsto> nd\<lparr>requiredBy := f r nd\<rparr>)\<rparr>"
    have "\<not> set rs \<subseteq> dom (nodes ?g)" using Cons.prems Some by auto
    from Cons.IH [OF this] Some show ?thesis by (simp add: upd_node_def)
  qed
qed simp

lemma delete_node_ok:
  assumes "n \<in> dom (nodes g)" and "set (req_of g n) \<subseteq> dom (nodes g)"
  shows "\<exists>g'. delete_node n g = Inr g' \<and> dom (nodes g') = dom (nodes g) - {n} \<and> same_shape g g'"
proof -
  obtain nd where nd: "nodes g n = Some nd" using assms(1) by auto
  have "set (requirements nd) \<subseteq> dom (nodes g)" using assms(2) nd by (simp add: req_of_def)
  from drop_requiredBy [OF this, of "\<lambda>r nd. filter (\<lambda>N. N \<noteq> r) (requiredBy nd)"]
  obtain g1 where g1: "foldE (\<lambda>r. upd_node r
        (\<lambda>nd. nd\<lparr>requiredBy := filter (\<lambda>N. N \<noteq> r) (requiredBy nd)\<rparr>)) (requirements nd) g = Inr g1"
      "dom (nodes g1) = dom (nodes g)" "same_shape g g1" by blast
  obtain nd1 where nd1: "nodes g1 n = Some nd1" using g1(2) nd by blast
  let ?g = "g1\<lparr>nodes := (nodes g1)(n := None)\<rparr>"
  have "delete_node n g = Inr ?g"
    using nd nd1 g1(1) by (simp add: delete_node_def clearRequirements_def upd_node_def)
  moreover have "same_shape g1 ?g" by (auto simp: same_shape_def)
  ultimately show ?thesis using g1(2,3) same_shape_trans by (intro exI [of _ ?g]) auto
qed

lemma delete_node_dead:
  assumes "n \<in> dom (nodes g)" and "\<not> set (req_of g n) \<subseteq> dom (nodes g)"
  shows "delete_node n g = Inl UseAfterFree"
proof -
  obtain nd where nd: "nodes g n = Some nd" using assms(1) by auto
  have "\<not> set (requirements nd) \<subseteq> dom (nodes g)" using assms(2) nd by (simp add: req_of_def)
  from drop_requiredBy_dead [OF this, of "\<lambda>r nd. filter (\<lambda>N. N \<noteq> r) (requiredBy nd)"] nd
  show ?thesis by (simp add: delete_node_def clearRequirements_def)
qed

text \<open>Deleting a list of nodes succeeds exactly when the order is safe.\<close>

lemma delete_nodes:
  assumes "distinct ns" and "set ns \<subseteq> dom (nodes g)" and "dead \<inter> dom (nodes g) = {}"
    and "\<forall>n \<in> set ns. set (req_of g n) \<subseteq> dom (nodes g) \<union> dead"
  shows "if safe_order (req_of g) dead ns
    then \<exists>g'. foldE delete_node ns g = Inr g' \<and> dom (nodes g') = dom (nodes g) - set ns \<and>
           same_shape g g'
    else foldE delete_node ns g = Inl UseAfterFree"
  using assms
proof (induction ns arbitrary: g dead)
  case (Cons n ns)
  have n: "n \<in> dom (nodes g)" using Cons.prems(2) by simp
  show ?case
  proof (cases "set (req_of g n) \<inter> dead = {}")
    case False
    then have "\<not> set (req_of g n) \<subseteq> dom (nodes g)" using Cons.prems(3) by blast
    with False show ?thesis by (simp add: delete_node_dead [OF n])
  next
    case True
    then have "set (req_of g n) \<subseteq> dom (nodes g)" using Cons.prems(4) by auto
    then obtain g1 where g1: "delete_node n g = Inr g1" "dom (nodes g1) = dom (nodes g) - {n}"
        "same_shape g g1"
      using delete_node_ok [OF n] by blast
    have same: "req_of g1 k = req_of g k" if "k \<in> set ns" for k
    proof -
      have "k \<in> dom (nodes g1)" using that Cons.prems(1,2) g1(2) by auto
      then show ?thesis using same_shape_of [OF g1(3)] by blast
    qed
    have cong: "safe_order (req_of g1) d ks = safe_order (req_of g) d ks" if "set ks \<subseteq> set ns" for d ks
      using that by (induction ks arbitrary: d) (auto simp: same)
    have "if safe_order (req_of g1) (insert n dead) ns
      then \<exists>g'. foldE delete_node ns g1 = Inr g' \<and> dom (nodes g') = dom (nodes g1) - set ns \<and>
             same_shape g1 g'
      else foldE delete_node ns g1 = Inl UseAfterFree"
      by (rule Cons.IH) (use Cons.prems same g1(2) in auto)
    then show ?thesis
      using True g1 cong [of ns] by (auto split: if_splits intro: same_shape_trans)
  qed
qed simp

lemma delete_nodes_safe:
  assumes "distinct ns" and "set ns \<subseteq> dom (nodes g)"
    and "\<And>n. n \<in> set ns \<Longrightarrow> set (req_of g n) \<subseteq> dom (nodes g)" and "safe_order (req_of g) {} ns"
  shows "\<exists>g'. foldE delete_node ns g = Inr g' \<and> dom (nodes g') = dom (nodes g) - set ns \<and>
    same_shape g g'"
  using delete_nodes [of ns g "{}"] assms by simp

text \<open>
  C10: the destructor of a graph reads freed memory exactly when some internal node requires an
  internal node that was created before it.
\<close>

theorem destroyGraph_use_after_free:
  assumes "wg_struct g"
  shows "destroyGraph g = Inl UseAfterFree \<longleftrightarrow> \<not> safe_order (req_of g) {} (InternalNodes g)"
proof -
  note s = wg_structD [OF assms]
  have ext_ok: "safe_order (req_of g) d (ExternalNodes g)" if "d \<inter> set (InternalNodes g) = {}" for d
  proof -
    have "safe_order (req_of g) d ns" if "set ns \<inter> set (InternalNodes g) = {}"
      "d \<inter> set (InternalNodes g) = {}" for ns d
      using that
    proof (induction ns arbitrary: d)
      case (Cons n ns)
      then have "set (req_of g n) \<inter> d = {}" using s(3) [of n] by auto
      with Cons show ?case by auto
    qed simp
    with that s(1) show ?thesis by (auto simp: all_nodes_def)
  qed
  obtain g1 where g1: "foldE delete_node (ExternalNodes g) g = Inr g1"
    "dom (nodes g1) = dom (nodes g) - set (ExternalNodes g)" "same_shape g g1"
    using delete_nodes [of "ExternalNodes g" g "{}"] ext_ok [of "{}"] s
    by (auto simp: all_nodes_def split: if_splits)
  have dom1: "dom (nodes g1) = set (InternalNodes g)"
    using g1(2) s(1,2) by (auto simp: all_nodes_def)
  have same: "req_of g1 n = req_of g n" if "n \<in> set (InternalNodes g)" for n
    using same_shape_of [OF g1(3)] that dom1 by blast
  have cong: "safe_order (req_of g1) d ks = safe_order (req_of g) d ks"
    if "set ks \<subseteq> set (InternalNodes g)" for d ks
    using that by (induction ks arbitrary: d) (auto simp: same)
  have "if safe_order (req_of g) {} (InternalNodes g)
    then \<exists>g'. foldE delete_node (InternalNodes g) g1 = Inr g' \<and>
           dom (nodes g') = dom (nodes g1) - set (InternalNodes g) \<and> same_shape g1 g'
    else foldE delete_node (InternalNodes g) g1 = Inl UseAfterFree"
    using delete_nodes [of "InternalNodes g" g1 "{}"] s same dom1 cong [of "InternalNodes g" "{}"]
    by (auto simp: all_nodes_def)
  then show ?thesis
    using g1(1,3) by (auto simp: destroyGraph_def same_shape_def split: if_splits)
qed

section \<open>Removing dead nodes\<close>

lemma markAsReachable_total:
  assumes "finite (dom (nodes g))" and "\<And>n. set (req_of g n) \<subseteq> dom (nodes g)"
    and "N \<in> dom (nodes g)" and "card (dom (nodes g) - R) < fuel"
  shows "\<exists>R'. markAsReachable fuel g N R = Inr R' \<and> R \<subseteq> R'"
  using assms(3,4)
proof (induction fuel arbitrary: N R)
  case (Suc fuel)
  show ?case
  proof (cases "N \<in> R")
    case False
    obtain nd where nd: "nodes g N = Some nd" using Suc.prems(1) by auto
    have rq: "set (requirements nd) \<subseteq> dom (nodes g)"
      using assms(2) [of N] nd by (simp add: req_of_def)
    have less: "card (dom (nodes g) - insert N R) < fuel"
    proof -
      have "dom (nodes g) - insert N R \<subset> dom (nodes g) - R" using False Suc.prems(1) by blast
      then have "card (dom (nodes g) - insert N R) < card (dom (nodes g) - R)"
        using assms(1) by (simp add: psubset_card_mono)
      with Suc.prems(2) show ?thesis by linarith
    qed
    have "\<exists>R'. foldE (markAsReachable fuel g) (requirements nd) (insert N R) = Inr R' \<and>
        insert N R \<subseteq> R'"
    proof (rule foldE_total)
      fix x S assume "x \<in> set (requirements nd)" and S: "insert N R \<subseteq> S"
      then have x: "x \<in> dom (nodes g)" using rq by blast
      have "card (dom (nodes g) - S) \<le> card (dom (nodes g) - insert N R)"
        using assms(1) S by (intro card_mono) auto
      with less have "card (dom (nodes g) - S) < fuel" by linarith
      from Suc.IH [OF x this] S
      show "\<exists>t'. markAsReachable fuel g x S = Inr t' \<and> insert N R \<subseteq> t'" by blast
    qed simp
    then show ?thesis using nd False by auto
  qed auto
qed simp

text \<open>What one call and one loop over requirements add: reachable nodes, closed under edges.\<close>

definition adds_reachable :: "wgraph \<Rightarrow> nid set \<Rightarrow> nid set \<Rightarrow> nid set \<Rightarrow> bool" where
  "adds_reachable g Ns R R' \<longleftrightarrow>
     R \<subseteq> R' \<and> Ns \<subseteq> R' \<and>
     (\<forall>x \<in> R' - R. (\<exists>n \<in> Ns. (edge g)\<^sup>*\<^sup>* n x) \<and> set (req_of g x) \<subseteq> R')"

lemma adds_reachable_loop:
  assumes "foldE f ns R = Inr R'"
    and "\<And>n S S'. n \<in> set ns \<Longrightarrow> f n S = Inr S' \<Longrightarrow> adds_reachable g {n} S S'"
  shows "adds_reachable g (set ns) R R'"
  using assms
proof (induction ns arbitrary: R)
  case Nil
  then show ?case by (simp add: adds_reachable_def)
next
  case (Cons n ns)
  obtain S where S: "f n R = Inr S" "foldE f ns S = Inr R'"
    using Cons.prems(1) by (auto simp: res_simps)
  have 1: "adds_reachable g {n} R S" using Cons.prems(2) S(1) by simp
  have 2: "adds_reachable g (set ns) S R'" using Cons S(2) by auto
  show ?case
    unfolding adds_reachable_def
  proof (intro conjI ballI)
    show "R \<subseteq> R'" "set (n # ns) \<subseteq> R'" using 1 2 by (auto simp: adds_reachable_def)
    fix x assume x: "x \<in> R' - R"
    show "\<exists>n \<in> set (n # ns). (edge g)\<^sup>*\<^sup>* n x" using 1 2 x by (auto simp: adds_reachable_def)
    show "set (req_of g x) \<subseteq> R'"
    proof (cases "x \<in> S")
      case True
      then show ?thesis using 1 2 x by (auto simp: adds_reachable_def)
    next
      case False
      then show ?thesis using 2 x by (auto simp: adds_reachable_def)
    qed
  qed
qed

lemma markAsReachable_adds:
  "markAsReachable fuel g N R = Inr R' \<Longrightarrow> adds_reachable g {N} R R'"
proof (induction fuel arbitrary: N R R')
  case (Suc fuel)
  show ?case
  proof (cases "N \<in> R")
    case True
    with Suc.prems show ?thesis by (auto simp: adds_reachable_def)
  next
    case False
    then obtain nd where nd: "nodes g N = Some nd"
      and loop: "foldE (markAsReachable fuel g) (requirements nd) (insert N R) = Inr R'"
      using Suc.prems by (auto simp: res_simps)
    have rq: "req_of g N = requirements nd" using nd by (simp add: req_of_def)
    have "adds_reachable g (set (requirements nd)) (insert N R) R'"
      by (rule adds_reachable_loop [OF loop]) (rule Suc.IH)
    then have a: "insert N R \<subseteq> R'" "set (req_of g N) \<subseteq> R'"
      "\<And>x. x \<in> R' - insert N R \<Longrightarrow> (\<exists>n \<in> set (req_of g N). (edge g)\<^sup>*\<^sup>* n x) \<and> set (req_of g x) \<subseteq> R'"
      by (auto simp: adds_reachable_def rq)
    show ?thesis
      unfolding adds_reachable_def
    proof (intro conjI ballI)
      show "R \<subseteq> R'" "{N} \<subseteq> R'" using a(1) by auto
      fix x assume x: "x \<in> R' - R"
      show "\<exists>n \<in> {N}. (edge g)\<^sup>*\<^sup>* n x"
      proof (cases "x = N")
        case False
        with a(3) [of x] x obtain s where "s \<in> set (req_of g N)" "(edge g)\<^sup>*\<^sup>* s x" by blast
        then show ?thesis by (auto simp: edge_def intro: converse_rtranclp_into_rtranclp)
      qed simp
      show "set (req_of g x) \<subseteq> R'" using a x by (cases "x = N") auto
    qed
  qed
qed simp

lemma mark_from_roots:
  assumes "foldE (markAsReachable fuel g) es {} = Inr live"
  shows "live = {n. \<exists>e \<in> set es. (edge g)\<^sup>*\<^sup>* e n}"
proof -
  have adds: "adds_reachable g (set es) {} live"
    by (rule adds_reachable_loop [OF assms]) (rule markAsReachable_adds)
  have "n \<in> live" if "(edge g)\<^sup>*\<^sup>* e n" "e \<in> set es" for e n
    using that
  proof (induction rule: rtranclp_induct)
    case base
    then show ?case using adds by (auto simp: adds_reachable_def)
  next
    case (step a b)
    then show ?case using adds by (auto simp: adds_reachable_def edge_def)
  qed
  with adds show ?thesis by (auto simp: adds_reachable_def)
qed

lemma split_invalid_eq:
  assumes "\<And>n. n \<in> set ns \<Longrightarrow> tgt_of g n \<noteq> None"
  shows "split_invalid g ns =
    Inr (filter (\<lambda>n. isValid (the (tgt_of g n))) ns, filter (\<lambda>n. \<not> isValid (the (tgt_of g n))) ns)"
  using assms
proof (induction ns)
  case (Cons n ns)
  then obtain T where "tgt_of g n = Some T" by fastforce
  then have "node_target g n = Inr T" by (simp add: node_target_eq_Inr)
  then have "node_invalid g n = Inr (\<not> isValid T)" by (simp add: node_invalid_def)
  with Cons \<open>tgt_of g n = Some T\<close> show ?case by auto
qed simp

lemma sweep_internal_eq:
  "sweep_internal live ns g =
     bindE (foldE delete_node (filter (\<lambda>n. n \<notin> live) ns) g)
       (\<lambda>g'. Inr (filter (\<lambda>n. n \<in> live) ns, g'))"
proof (induction ns arbitrary: g)
  case (Cons n ns)
  show ?case
  proof (cases "n \<in> live")
    case True
    with Cons show ?thesis
      by (cases "foldE delete_node (filter (\<lambda>n. n \<notin> live) ns) g") auto
  next
    case False
    with Cons show ?thesis by (cases "delete_node n g") auto
  qed
qed simp

lemma edge_to_internal: "wg_struct g \<Longrightarrow> edge g a b \<Longrightarrow> b \<in> set (InternalNodes g)"
  using wg_struct_req unfolding edge_def by blast

text \<open>
  Deleting the external nodes with invalid targets cannot fail, as nothing requires them, and
  keeps the edges from the others.
\<close>

lemma delete_invalid_externals:
  assumes "wg_struct g" and "set dels \<subseteq> set (ExternalNodes g)" and "distinct dels"
    and "keep = filter (\<lambda>n. n \<notin> set dels) (ExternalNodes g)"
  shows "\<exists>g1. foldE delete_node dels (g\<lparr>ExternalNodes := keep\<rparr>) = Inr g1 \<and>
    dom (nodes g1) = set keep \<union> set (InternalNodes g) \<and> ExternalNodes g1 = keep \<and>
    InternalNodes g1 = InternalNodes g \<and> targets g1 = targets g \<and>
    (\<forall>n \<in> dom (nodes g1). req_of g1 n = req_of g n \<and> tgt_of g1 n = tgt_of g n)"
proof -
  let ?g = "g\<lparr>ExternalNodes := keep\<rparr>"
  note s = wg_structD [OF assms(1)]
  have rq: "req_of ?g = req_of g" "tgt_of ?g = tgt_of g"
    by (simp_all add: fun_eq_iff)
  have safe: "safe_order (req_of g) d ns"
    if "d \<subseteq> set (ExternalNodes g)" "set ns \<subseteq> set (ExternalNodes g)" for d ns
    using that
  proof (induction ns arbitrary: d)
    case (Cons n ns)
    have "set (ExternalNodes g) \<inter> set (InternalNodes g) = {}" using s(1) by (simp add: all_nodes_def)
    with Cons.prems(1) s(3) [of n] have "set (req_of g n) \<inter> d = {}" by blast
    with Cons show ?case by auto
  qed simp
  have "\<exists>g1. foldE delete_node dels ?g = Inr g1 \<and> dom (nodes g1) = dom (nodes ?g) - set dels \<and>
      same_shape ?g g1"
  proof (rule delete_nodes_safe [OF assms(3)])
    show "set dels \<subseteq> dom (nodes ?g)" using assms(2) s(2) by (auto simp: all_nodes_def)
    show "set (req_of ?g n) \<subseteq> dom (nodes ?g)" for n
      using s(2) s(3) [of n] by (auto simp: all_nodes_def rq)
    show "safe_order (req_of ?g) {} dels" using safe assms(2) by (simp add: rq)
  qed
  then obtain g1 where g1: "foldE delete_node dels ?g = Inr g1"
    "dom (nodes g1) = dom (nodes ?g) - set dels" "same_shape ?g g1" by blast
  have "dom (nodes g1) = set keep \<union> set (InternalNodes g)"
    using g1(2) assms(2,4) s(1,2) by (auto simp: all_nodes_def)
  then show ?thesis
    using g1 same_shape_of [OF g1(3)] rq by (auto simp: same_shape_def)
qed

text \<open>
  C9: \<open>removeDeadNodes\<close> keeps exactly the external nodes with valid targets and the internal
  nodes reachable from them, in their order, unless a dead internal node requires a dead internal
  node that comes before it: then a freed node is written to.
\<close>

theorem removeDeadNodes_correct:
  assumes "wg_struct g" and "length (all_nodes g) < fuel"
    and "keep = filter (\<lambda>n. isValid (the (tgt_of g n))) (ExternalNodes g)"
    and "live = {n. \<exists>e \<in> set keep. (edge g)\<^sup>*\<^sup>* e n}"
  shows "if safe_order (req_of g) {} (filter (\<lambda>n. n \<notin> live) (InternalNodes g))
    then \<exists>g'. removeDeadNodes fuel g = Inr g' \<and> ExternalNodes g' = keep \<and>
           InternalNodes g' = filter (\<lambda>n. n \<in> live) (InternalNodes g) \<and>
           dom (nodes g') = set (all_nodes g') \<and>
           (\<forall>n \<in> set (all_nodes g'). req_of g' n = req_of g n \<and> tgt_of g' n = tgt_of g n)
    else removeDeadNodes fuel g = Inl UseAfterFree"
proof -
  note s = wg_structD [OF assms(1)]
  let ?dels = "filter (\<lambda>n. \<not> isValid (the (tgt_of g n))) (ExternalNodes g)"
  have some: "tgt_of g n \<noteq> None" if "n \<in> set (ExternalNodes g)" for n
  proof -
    have "n \<in> dom (nodes g)" using that s(2) by (simp add: all_nodes_def)
    then obtain nd where nd: "nodes g n = Some nd" by blast
    with wg_struct_target [OF assms(1)] have "targets g (Target nd) \<noteq> None" by blast
    with nd show ?thesis by (simp add: tgt_of_def)
  qed
  have keep: "keep = filter (\<lambda>n. n \<notin> set ?dels) (ExternalNodes g)"
    unfolding assms(3) by (rule filter_cong) auto
  obtain g1 where g1: "foldE delete_node ?dels (g\<lparr>ExternalNodes := keep\<rparr>) = Inr g1"
    "dom (nodes g1) = set keep \<union> set (InternalNodes g)" "ExternalNodes g1 = keep"
    "InternalNodes g1 = InternalNodes g" "targets g1 = targets g"
    "\<And>n. n \<in> dom (nodes g1) \<Longrightarrow> req_of g1 n = req_of g n \<and> tgt_of g1 n = tgt_of g n"
  proof -
    have "set ?dels \<subseteq> set (ExternalNodes g)" "distinct ?dels"
      using s(1) by (auto simp: all_nodes_def)
    from delete_invalid_externals [OF assms(1) this keep] that show ?thesis by blast
  qed
  have req1: "set (req_of g1 n) \<subseteq> set (InternalNodes g)" for n
  proof (cases "n \<in> dom (nodes g1)")
    case True
    then show ?thesis using g1(6) s(3) by metis
  next
    case False
    then show ?thesis by (auto simp: req_of_def)
  qed
  have card: "card (dom (nodes g1) - {}) < fuel"
  proof -
    have "card (dom (nodes g1)) \<le> card (set (all_nodes g))"
      by (rule card_mono) (use g1(2) assms(3) in \<open>auto simp: all_nodes_def\<close>)
    with card_length [of "all_nodes g"] assms(2) show ?thesis by simp
  qed
  have "\<exists>R'. foldE (markAsReachable fuel g1) keep {} = Inr R' \<and> {} \<subseteq> R'"
  proof (rule foldE_total)
    fix x S assume "x \<in> set keep"
    then have x: "x \<in> dom (nodes g1)" using g1(2) by simp
    have fin: "finite (dom (nodes g1))" using g1(2) by simp
    have "card (dom (nodes g1) - S) \<le> card (dom (nodes g1) - {})"
      using fin by (intro card_mono) auto
    with card have c: "card (dom (nodes g1) - S) < fuel" by linarith
    have "\<And>n. set (req_of g1 n) \<subseteq> dom (nodes g1)" using req1 g1(2) by blast
    from markAsReachable_total [OF fin this x c]
    show "\<exists>t'. markAsReachable fuel g1 x S = Inr t' \<and> {} \<subseteq> t'" by auto
  qed simp
  then obtain live1 where mark: "foldE (markAsReachable fuel g1) keep {} = Inr live1" by blast
  have reach: "(edge g1)\<^sup>*\<^sup>* e n \<longleftrightarrow> (edge g)\<^sup>*\<^sup>* e n" if "e \<in> set keep" for e n
  proof
    assume "(edge g1)\<^sup>*\<^sup>* e n"
    then show "(edge g)\<^sup>*\<^sup>* e n"
    proof (induction rule: rtranclp_induct)
      case (step a b)
      then have "a \<in> dom (nodes g1)" by (cases "nodes g1 a") (auto simp: edge_def req_of_def)
      with g1(6) step.hyps(2) have "edge g a b" by (simp add: edge_def)
      with step.IH show ?case by (rule rtranclp.rtrancl_into_rtrancl)
    qed simp
  next
    assume "(edge g)\<^sup>*\<^sup>* e n"
    then have "(edge g1)\<^sup>*\<^sup>* e n \<and> n \<in> dom (nodes g1)"
    proof (induction rule: rtranclp_induct)
      case (step a b)
      then have "edge g1 a b" using g1(6) by (auto simp: edge_def)
      moreover have "b \<in> dom (nodes g1)"
        using edge_to_internal [OF assms(1) step.hyps(2)] g1(2) by simp
      ultimately show ?case using step by (auto intro: rtranclp.rtrancl_into_rtrancl)
    qed (use that g1(2) in simp)
    then show "(edge g1)\<^sup>*\<^sup>* e n" ..
  qed
  have live1: "live1 = live" using mark_from_roots [OF mark] reach assms(4) by auto
  let ?dead = "filter (\<lambda>n. n \<notin> live) (InternalNodes g)"
  have cong: "safe_order (req_of g1) d ks = safe_order (req_of g) d ks"
    if "set ks \<subseteq> set (InternalNodes g)" for d ks
    using that by (induction ks arbitrary: d) (auto simp: g1(2,6))
  have sweep: "if safe_order (req_of g) {} ?dead
    then \<exists>g2. foldE delete_node ?dead g1 = Inr g2 \<and> dom (nodes g2) = dom (nodes g1) - set ?dead \<and>
           same_shape g1 g2
    else foldE delete_node ?dead g1 = Inl UseAfterFree"
  proof -
    have "distinct ?dead" using s(1) by (simp add: all_nodes_def)
    moreover have "set ?dead \<subseteq> dom (nodes g1)" using g1(2) by auto
    moreover have "\<forall>n \<in> set ?dead. set (req_of g1 n) \<subseteq> dom (nodes g1) \<union> {}"
      using req1 g1(2) by fastforce
    moreover have "safe_order (req_of g1) {} ?dead = safe_order (req_of g) {} ?dead"
      by (rule cong) auto
    ultimately show ?thesis using delete_nodes [of ?dead g1 "{}"] by simp
  qed
  have run: "removeDeadNodes fuel g =
      bindE (foldE delete_node ?dead g1)
        (\<lambda>g2. Inr (g2\<lparr>InternalNodes := filter (\<lambda>n. n \<in> live) (InternalNodes g)\<rparr>))"
    using split_invalid_eq [of "ExternalNodes g" g] some g1(1,3,4) mark live1 assms(3)
    by (cases "foldE delete_node ?dead g1")
      (auto simp: removeDeadNodes_def sweep_internal_eq)
  show ?thesis
  proof (cases "safe_order (req_of g) {} ?dead")
    case True
    then obtain g2 where g2: "foldE delete_node ?dead g1 = Inr g2"
      "dom (nodes g2) = dom (nodes g1) - set ?dead" "same_shape g1 g2"
      using sweep by auto
    let ?h = "g2\<lparr>InternalNodes := filter (\<lambda>n. n \<in> live) (InternalNodes g)\<rparr>"
    have all: "set (all_nodes ?h) = dom (nodes g2)"
      using g2(2,3) g1(2,3) s(1) assms(3) by (auto simp: all_nodes_def same_shape_def)
    have "req_of ?h n = req_of g n \<and> tgt_of ?h n = tgt_of g n" if "n \<in> dom (nodes g2)" for n
    proof -
      have "n \<in> dom (nodes g1)" using that g2(2) by blast
      then show ?thesis
        using same_shape_of [OF g2(3) that] g1(6) [of n] by simp
    qed
    then have ex: "removeDeadNodes fuel g = Inr ?h \<and> ExternalNodes ?h = keep \<and>
        InternalNodes ?h = filter (\<lambda>n. n \<in> live) (InternalNodes g) \<and>
        dom (nodes ?h) = set (all_nodes ?h) \<and>
        (\<forall>n \<in> set (all_nodes ?h). req_of ?h n = req_of g n \<and> tgt_of ?h n = tgt_of g n)"
      using run g2(1,3) g1(3) all by (simp add: same_shape_def)
    then show ?thesis using True by (simp only: if_True) blast
  next
    case False
    then show ?thesis using sweep run by simp
  qed
qed

theorem destroyGraph_witness: "(destroyGraph (demo_graph demo_target) = Inl UseAfterFree) = False"
  unfolding destroyGraph_use_after_free [OF demo_graph_struct] by (simp add: demo_graph_tgt)

theorem removeDeadNodes_witness:
  "\<exists>g'. removeDeadNodes 5 (demo_graph demo_target) = Inr g' \<and> ExternalNodes g' = [0] \<and>
     InternalNodes g' = [1]"
proof -
  let ?g = "demo_graph demo_target"
  let ?live = "{n. \<exists>e \<in> set [0]. (edge ?g)\<^sup>*\<^sup>* e n}"
  have keep: "[0] = filter (\<lambda>n. isValid (the (tgt_of ?g n))) (ExternalNodes ?g)"
    by (simp add: demo_graph_tgt demo_target_def mkITarget_def isValid_def)
  have "edge ?g 0 1" by (simp add: edge_def demo_graph_tgt)
  then have live: "1 \<in> ?live" by auto
  from removeDeadNodes_correct [of ?g 5 "[0]" ?live, OF demo_graph_struct _ keep refl] live
  show ?thesis by auto
qed

end
