(* ===== verification/GraphConstruction.thy ===== *)
theory GraphConstruction
  imports Strategy FlagPropagation NodeLifetime
begin

text \<open>
  \<open>AfterInflowStrategy::addRequired\<close> terminates and builds well-formed graphs. The recursion is
  bounded by the number of pairs of an instrumentee and a location: each call that goes on marks
  a node for a new pair. \<open>V\<close> is a finite set of values closed under what the strategy looks up.
\<close>

section \<open>The invariant of construction\<close>

definition key_of :: "wgraph \<Rightarrow> nid \<Rightarrow> (itarget_kind \<times> vid option \<times> vid) option" where
  "key_of g n = map_option (\<lambda>T. (kind T, instrumentee T, location T)) (tgt_of g n)"

definition has_all :: "wgraph \<Rightarrow> nid \<Rightarrow> bool" where
  "has_all g n \<longleftrightarrow> (case nodes g n of None \<Rightarrow> False | Some nd \<Rightarrow> HasAllRequirements nd)"

definition ginv :: "vid set \<Rightarrow> wgraph \<Rightarrow> bool" where
  "ginv V g \<longleftrightarrow>
     wg_ok g \<and> flags_fresh g \<and> inj_on (key_of g) (set (InternalNodes g)) \<and>
     (\<forall>n \<in> set (InternalNodes g). \<exists>k v l. key_of g n = Some (k, Some v, l) \<and> v \<in> V \<and> l \<in> V)"

text \<open>
  \<open>ext X g g'\<close>: \<open>g'\<close> is \<open>g\<close> with more internal nodes, more marks and more requirements, where a
  marked node outside \<open>X\<close> gets no further requirements.
\<close>

definition ext :: "nid set \<Rightarrow> wgraph \<Rightarrow> wgraph \<Rightarrow> bool" where
  "ext X g g' \<longleftrightarrow>
     ExternalNodes g' = ExternalNodes g \<and> prefix (InternalNodes g) (InternalNodes g') \<and>
     next_tid g \<le> next_tid g' \<and> targets g \<subseteq>\<^sub>m targets g' \<and>
     (\<forall>n nd'. nodes g' n = Some nd' \<longrightarrow>
        (\<exists>nd. nodes g n = Some nd \<and> Target nd = Target nd') \<or>
        n \<notin> dom (nodes g) \<and> next_tid g \<le> Target nd') \<and>
     (\<forall>n \<in> dom (nodes g). n \<in> dom (nodes g') \<and> tgt_of g' n = tgt_of g n \<and>
        (has_all g n \<longrightarrow> has_all g' n) \<and>
        prefix (req_of g n) (req_of g' n) \<and>
        (has_all g n \<longrightarrow> n \<notin> X \<longrightarrow> req_of g' n = req_of g n))"

definition good :: "vid set \<Rightarrow> bool \<Rightarrow> nid set \<Rightarrow> wgraph \<Rightarrow> wgraph res \<Rightarrow> bool" where
  "good V b X g r \<longleftrightarrow>
     (case r of Inl e \<Rightarrow> e \<noteq> UseAfterFree \<and> (b \<longrightarrow> e \<noteq> OutOfFuel) | Inr g' \<Rightarrow> ginv V g' \<and> ext X g g')"

lemma ext_refl [simp]: "ext X g g"
  by (simp add: ext_def)

lemma ext_trans:
  assumes "ext X g h" and "ext X h k"
  shows "ext X g k"
  unfolding ext_def
proof (intro conjI ballI allI impI)
  note 1 = assms(1) [unfolded ext_def] and 2 = assms(2) [unfolded ext_def]
  show "(\<exists>nd. nodes g n = Some nd \<and> Target nd = Target nd') \<or> n \<notin> dom (nodes g) \<and> next_tid g \<le> Target nd'"
    if k: "nodes k n = Some nd'" for n nd'
  proof -
    consider nd where "nodes h n = Some nd" "Target nd = Target nd'"
      | "n \<notin> dom (nodes h)" "next_tid h \<le> Target nd'"
      using k 2 by blast
    then show ?thesis
    proof cases
      case 1
      with assms(1) show ?thesis unfolding ext_def by metis
    next
      case 2
      have "next_tid g \<le> next_tid h" "n \<notin> dom (nodes g)" using 1 2(1) by blast+
      with 2(2) show ?thesis by simp
    qed
  qed
  show "ExternalNodes k = ExternalNodes g" using 1 2 by simp
  show "prefix (InternalNodes g) (InternalNodes k)" using 1 2 prefix_order.trans by blast
  show "next_tid g \<le> next_tid k" using 1 2 by linarith
  show "targets g \<subseteq>\<^sub>m targets k" using 1 2 map_le_trans by blast
  fix n assume n: "n \<in> dom (nodes g)"
  then have n': "n \<in> dom (nodes h)" using 1 by blast
  show "n \<in> dom (nodes k)" using n' 2 by blast
  show "tgt_of k n = tgt_of g n" using n n' 1 2 by metis
  show "has_all k n" if "has_all g n" using that n n' 1 2 by blast
  show "prefix (req_of g n) (req_of k n)" using n n' 1 2 prefix_order.trans by blast
  show "req_of k n = req_of g n" if "has_all g n" "n \<notin> X" using that n n' 1 2 by metis
qed

lemma ext_live: "ext X g g' \<Longrightarrow> n \<in> dom (nodes g) \<Longrightarrow> n \<in> dom (nodes g')"
  by (simp add: ext_def)

lemma ext_tgt: "ext X g g' \<Longrightarrow> n \<in> dom (nodes g) \<Longrightarrow> tgt_of g' n = tgt_of g n"
  by (simp add: ext_def)

lemma ext_key: "ext X g g' \<Longrightarrow> n \<in> dom (nodes g) \<Longrightarrow> key_of g' n = key_of g n"
  by (simp add: ext_tgt key_of_def)

lemma ext_internal: "ext X g g' \<Longrightarrow> set (InternalNodes g) \<subseteq> set (InternalNodes g')"
  by (auto simp: ext_def prefix_def)

lemma ext_marked: "ext X g g' \<Longrightarrow> has_all g n \<Longrightarrow> has_all g' n"
proof -
  assume e: "ext X g g'" and h: "has_all g n"
  then have "n \<in> dom (nodes g)" by (auto simp: has_all_def split: option.splits)
  with e h show "has_all g' n" unfolding ext_def by blast
qed

lemma ext_mono: "ext X g g' \<Longrightarrow> X \<subseteq> Y \<Longrightarrow> ext Y g g'"
  by (auto simp: ext_def)

lemma ext_drop: "ext (insert n X) g g' \<Longrightarrow> \<not> has_all g n \<Longrightarrow> ext X g g'"
  by (auto simp: ext_def)

lemma ginv_ok: "ginv V g \<Longrightarrow> wg_ok g"
  by (simp add: ginv_def)

lemma ginv_fresh: "ginv V g \<Longrightarrow> flags_fresh g"
  by (simp add: ginv_def)

lemma internal_live: "wg_ok g \<Longrightarrow> n \<in> set (InternalNodes g) \<Longrightarrow> n \<in> dom (nodes g)"
  by (simp add: wg_ok_dom all_nodes_def)

lemma good_Inr: "good V b X g (Inr g') \<longleftrightarrow> ginv V g' \<and> ext X g g'"
  by (simp add: good_def)

lemma good_Inl: "good V b X g (Inl e) \<longleftrightarrow> e \<noteq> UseAfterFree \<and> (b \<longrightarrow> e \<noteq> OutOfFuel)"
  by (simp add: good_def)

lemma good_mono: "good V b X g r \<Longrightarrow> X \<subseteq> Y \<Longrightarrow> good V b Y g r"
  by (auto simp: good_def intro: ext_mono split: sum.splits)

lemma good_drop: "good V b (insert n X) g r \<Longrightarrow> \<not> has_all g n \<Longrightarrow> good V b X g r"
  by (auto simp: good_def intro: ext_drop split: sum.splits)

lemma good_bind:
  assumes "good V b X g r"
    and "\<And>g'. r = Inr g' \<Longrightarrow> ginv V g' \<Longrightarrow> ext X g g' \<Longrightarrow> good V b X g' (f g')"
  shows "good V b X g (bindE r f)"
  using assms
  by (cases r) (auto simp: good_def intro: ext_trans split: sum.splits)

lemma good_bind_value:
  assumes "\<And>e. r = Inl e \<Longrightarrow> e \<noteq> UseAfterFree \<and> (b \<longrightarrow> e \<noteq> OutOfFuel)" and "\<And>x. r = Inr x \<Longrightarrow> good V b X g (f x)"
  shows "good V b X g (bindE r f)"
  using assms by (cases r) (auto simp: good_Inl)

lemma good_after:
  assumes "ginv V g'" and "ext X g g'" and "good V b X g' r"
  shows "good V b X g r"
  using assms by (auto simp: good_def intro: ext_trans split: sum.splits)

lemma good_foldE:
  assumes "ginv V g"
    and "\<And>x g'. x \<in> set xs \<Longrightarrow> ginv V g' \<Longrightarrow> ext X g g' \<Longrightarrow> good V b X g' (f x g')"
  shows "good V b X g (foldE f xs g)"
  using assms
proof (induction xs arbitrary: g)
  case (Cons x xs)
  have "good V b X g (bindE (f x g) (foldE f xs))"
  proof (rule good_bind)
    show "good V b X g (f x g)" using Cons.prems by simp
    fix g' assume "ginv V g'" "ext X g g'"
    then show "good V b X g' (foldE f xs g')"
      using Cons.prems(2) by (intro Cons.IH) (auto intro: ext_trans)
  qed
  then show ?case by simp
qed (simp add: good_Inr)

section \<open>The elementary steps\<close>

lemma upd_node_shape:
  assumes "nodes g n = Some nd" and "Target nd' = Target nd"
    and "g' = g\<lparr>nodes := (nodes g)(n \<mapsto> nd')\<rparr>"
  shows "tgt_of g' = tgt_of g" and "dom (nodes g') = dom (nodes g)"
    and "req_of g' k = (if k = n then requirements nd' else req_of g k)"
    and "has_all g' k = (if k = n then HasAllRequirements nd' else has_all g k)"
    and "key_of g' = key_of g" and "all_nodes g' = all_nodes g"
  using assms
proof -
  have g': "nodes g' = (nodes g)(n \<mapsto> nd')" "targets g' = targets g"
    "InternalNodes g' = InternalNodes g" "ExternalNodes g' = ExternalNodes g"
    using assms(3) by simp_all
  show tgt: "tgt_of g' = tgt_of g"
    using assms(1,2) by (intro ext, unfold tgt_of_def g'(1,2)) auto
  show "dom (nodes g') = dom (nodes g)" using assms(1) g' by auto
  show "req_of g' k = (if k = n then requirements nd' else req_of g k)"
    using g' by (simp add: req_of_def)
  show "has_all g' k = (if k = n then HasAllRequirements nd' else has_all g k)"
    using g' by (simp add: has_all_def)
  show "key_of g' = key_of g" using tgt by (simp add: key_of_def fun_eq_iff)
  show "all_nodes g' = all_nodes g" using g' by (simp add: all_nodes_def)
qed

lemma upd_node_ginv:
  assumes "ginv V g" and "nodes g n = Some nd" and "Target nd' = Target nd"
    and "set (requirements nd') \<subseteq> set (InternalNodes g)"
    and "g' = g\<lparr>nodes := (nodes g)(n \<mapsto> nd')\<rparr>"
  shows "ginv V g'"
proof -
  note sh = upd_node_shape [OF assms(2,3,5)]
  have ok: "wg_ok g" using assms(1) by (rule ginv_ok)
  have fields: "InternalNodes g' = InternalNodes g" "targets g' = targets g"
    "RunningId g' = RunningId g" "next_tid g' = next_tid g"
    by (simp_all add: assms(5))
  have tgt: "\<exists>nd0. nodes g k = Some nd0 \<and> Target nd0 = Target nd2" if "nodes g' k = Some nd2" for k nd2
    using that assms(2,3,5) by (cases "k = n") auto
  have "wg_ok g'"
  proof (rule wg_okI)
    show "distinct (all_nodes g')" using wg_ok_distinct [OF ok] sh(6) by simp
    show "dom (nodes g') = set (all_nodes g')" using wg_ok_dom [OF ok] sh(2,6) by simp
    show "k < RunningId g'" if "k \<in> dom (nodes g')" for k
      using that wg_ok_ids [OF ok] sh(2) fields by simp
    show "t < next_tid g'" if "t \<in> dom (targets g')" for t
      using that wg_ok_tids [OF ok] fields by simp
    show "isValid T" if "tgt_of g' k = Some T" for k T using that wg_ok_valid [OF ok] sh(1) by simp
    show "Target nd2 \<in> dom (targets g')" if "nodes g' k = Some nd2" for k nd2
      using tgt [OF that] wg_ok_target [OF ok] fields by fastforce
    show "k = k'" if "nodes g' k = Some a" "nodes g' k' = Some a'" "Target a = Target a'" for k k' a a'
      using tgt [OF that(1)] tgt [OF that(2)] that(3) wg_ok_inj [OF ok] by metis
    show "isWitnessSupplyIT T" if "k \<in> set (InternalNodes g')" "tgt_of g' k = Some T" for k T
      using that wg_ok_supply [OF ok] sh(1) fields by simp
    show "set (req_of g' k) \<subseteq> set (InternalNodes g')" for k
      using wg_ok_req [OF ok] sh(3) assms(4) fields by simp
  qed
  then show ?thesis
    using assms(1) sh fields by (simp add: ginv_def flags_fresh_def)
qed

lemma upd_node_ext:
  assumes "nodes g n = Some nd" and "Target nd' = Target nd"
    and "HasAllRequirements nd \<longrightarrow> HasAllRequirements nd'"
    and "prefix (requirements nd) (requirements nd')"
    and "requirements nd' = requirements nd \<or> n \<in> X"
    and "g' = g\<lparr>nodes := (nodes g)(n \<mapsto> nd')\<rparr>"
  shows "ext X g g'"
  unfolding ext_def
proof (intro conjI ballI)
  note sh = upd_node_shape [OF assms(1,2,6)]
  show "\<forall>n nd'. nodes g' n = Some nd' \<longrightarrow>
      (\<exists>nd. nodes g n = Some nd \<and> Target nd = Target nd') \<or> n \<notin> dom (nodes g) \<and> next_tid g \<le> Target nd'"
    using assms(1,2,6) by auto
  show "ExternalNodes g' = ExternalNodes g" "prefix (InternalNodes g) (InternalNodes g')"
    "next_tid g \<le> next_tid g'" "targets g \<subseteq>\<^sub>m targets g'"
    by (simp_all add: assms(6))
  fix k assume "k \<in> dom (nodes g)"
  then show "k \<in> dom (nodes g')" "tgt_of g' k = tgt_of g k" by (simp_all add: sh)
  show "has_all g k \<longrightarrow> has_all g' k" using assms(1,3) by (simp add: sh) (simp add: has_all_def)
  show "prefix (req_of g k) (req_of g' k)"
    using assms(1,4) by (simp add: sh) (simp add: req_of_def)
  show "has_all g k \<longrightarrow> k \<notin> X \<longrightarrow> req_of g' k = req_of g k"
    using assms(1,5) by (auto simp: sh) (simp add: req_of_def)
qed

lemma mark_node:
  assumes "ginv V g" and "upd_node n (\<lambda>nd. nd\<lparr>HasAllRequirements := True\<rparr>) g = Inr g'"
  shows "ginv V g'" and "ext X g g'" and "has_all g' n" and "tgt_of g' = tgt_of g"
    and "InternalNodes g' = InternalNodes g" and "n \<in> dom (nodes g)"
proof -
  let ?f = "\<lambda>nd. nd\<lparr>HasAllRequirements := True\<rparr>"
  from assms(2) obtain nd where nd: "nodes g n = Some nd"
    and g': "g' = g\<lparr>nodes := (nodes g)(n \<mapsto> ?f nd)\<rparr>"
    by (auto simp: upd_node_eq_Inr)
  have "set (req_of g n) \<subseteq> set (InternalNodes g)" by (rule wg_ok_req [OF ginv_ok [OF assms(1)]])
  with nd have rq: "set (requirements (?f nd)) \<subseteq> set (InternalNodes g)" by (simp add: req_of_def)
  show "ginv V g'" by (rule upd_node_ginv [OF assms(1) nd _ rq g']) simp
  show "ext X g g'" by (rule upd_node_ext [OF nd _ _ _ _ g']) simp_all
  show "has_all g' n" "InternalNodes g' = InternalNodes g" using g' by (simp_all add: has_all_def)
  show "tgt_of g' = tgt_of g" by (rule upd_node_shape(1) [OF nd _ g']) simp
  show "n \<in> dom (nodes g)" using nd by blast
qed

lemma addRequirement_good:
  assumes "ginv V g" and "n \<in> dom (nodes g)" and "s \<in> set (InternalNodes g)" and "n \<in> X"
  shows "good V b X g (addRequirement n s g)"
proof -
  obtain nd where nd: "nodes g n = Some nd" using assms(2) by blast
  let ?f = "\<lambda>nd. nd\<lparr>requirements := requirements nd @ [s]\<rparr>"
  let ?g1 = "g\<lparr>nodes := (nodes g)(n \<mapsto> ?f nd)\<rparr>"
  have "set (req_of g n) \<subseteq> set (InternalNodes g)" by (rule wg_ok_req [OF ginv_ok [OF assms(1)]])
  with nd assms(3) have rq: "set (requirements (?f nd)) \<subseteq> set (InternalNodes g)"
    by (simp add: req_of_def)
  have 1: "ginv V ?g1" by (rule upd_node_ginv [OF assms(1) nd _ rq refl]) simp
  have 2: "ext X g ?g1" by (rule upd_node_ext [OF nd _ _ _ _ refl]) (simp_all add: assms(4))
  have "s \<in> dom (nodes ?g1)"
    using internal_live [OF ginv_ok [OF assms(1)] assms(3)] by auto
  then obtain sd where sd: "nodes ?g1 s = Some sd" by blast
  let ?h = "\<lambda>nd. nd\<lparr>requiredBy := requiredBy nd @ [n]\<rparr>"
  let ?g2 = "?g1\<lparr>nodes := (nodes ?g1)(s \<mapsto> ?h sd)\<rparr>"
  have "set (req_of ?g1 s) \<subseteq> set (InternalNodes ?g1)" by (rule wg_ok_req [OF ginv_ok [OF 1]])
  with sd have rq2: "set (requirements (?h sd)) \<subseteq> set (InternalNodes ?g1)"
    by (simp only: req_of_def) simp
  have 3: "ginv V ?g2" by (rule upd_node_ginv [OF 1 sd _ rq2 refl]) simp
  have 4: "ext X ?g1 ?g2" by (rule upd_node_ext [OF sd _ _ _ _ refl]) simp_all
  have "addRequirement n s g = Inr ?g2"
    using nd sd by (simp add: addRequirement_def upd_node_def)
  with 3 ext_trans [OF 2 4] show ?thesis by (simp only: good_Inr)
qed

text \<open>Looking up a witness supplier, creating it when there is none.\<close>

lemma find_internal_supply:
  assumes "wg_ok g" and "flags_fresh g" and "k = ITK_Intermediate \<or> k = ITK_Source"
    and "set ns \<subseteq> set (InternalNodes g)"
  shows "\<exists>r. find_internal g (mkWitnessSupplyIT k v l) ns = Inr r \<and>
    (case r of None \<Rightarrow> \<forall>n \<in> set ns. key_of g n \<noteq> Some (k, Some v, l)
     | Some n \<Rightarrow> n \<in> set ns \<and> key_of g n = Some (k, Some v, l))"
  using assms(4)
proof (induction ns)
  case (Cons n ns)
  have n: "n \<in> set (InternalNodes g)" using Cons.prems by simp
  then obtain nd where "nodes g n = Some nd" using internal_live [OF assms(1)] by blast
  then obtain T where T: "tgt_of g n = Some T" "isValid T" using wg_ok_tgt [OF assms(1)] by metis
  have fresh: "\<not> list_ex id (it_flags T)" using assms(2) n T(1) by (auto simp: flags_fresh_def)
  have "isWitnessSupplyIT T" by (rule wg_ok_supply [OF assms(1) n T(1)])
  with fresh have "\<not> checkUpperBoundFlag T" "\<not> checkLowerBoundFlag T" "\<not> checkTemporalFlag T"
    "\<not> explicitBoundsFlag T" by (auto simp: it_flags_def)
  then have eq: "it_eq T (mkWitnessSupplyIT k v l) = Inr (key_of g n = Some (k, Some v, l))"
    using it_eq_fresh_supply [OF assms(3) T(2)] T(1) by (auto simp: key_of_def)
  have "node_target g n = Inr T" using T(1) by (simp add: node_target_eq_Inr)
  with eq have step: "find_internal g (mkWitnessSupplyIT k v l) (n # ns) =
      (if key_of g n = Some (k, Some v, l) then Inr (Some n)
       else find_internal g (mkWitnessSupplyIT k v l) ns)"
    by simp
  obtain r where r: "find_internal g (mkWitnessSupplyIT k v l) ns = Inr r"
    "case r of None \<Rightarrow> \<forall>n \<in> set ns. key_of g n \<noteq> Some (k, Some v, l)
     | Some n \<Rightarrow> n \<in> set ns \<and> key_of g n = Some (k, Some v, l)"
    using Cons by auto
  show ?case
  proof (cases "key_of g n = Some (k, Some v, l)")
    case True
    then show ?thesis using step by (intro exI [of _ "Some n"]) simp
  next
    case False
    then show ?thesis using step r by (intro exI [of _ r]) (auto split: option.splits)
  qed
qed simp

lemma it_flags_supply:
  "k = ITK_Intermediate \<or> k = ITK_Source \<Longrightarrow> \<not> list_ex id (it_flags (mkWitnessSupplyIT k v l))"
  by (auto simp: it_flags_def mkWitnessSupplyIT_def mkITarget_def isBoundsIT_def)

lemma mkWitnessSupplyIT_fields [simp]:
  "kind (mkWitnessSupplyIT k v l) = k" "instrumentee (mkWitnessSupplyIT k v l) = Some v"
  "location (mkWitnessSupplyIT k v l) = l" "isValid (mkWitnessSupplyIT k v l)"
  by (simp_all add: mkWitnessSupplyIT_def mkITarget_def isValid_def)

lemma supply_kinds: "k = ITK_Intermediate \<or> k = ITK_Source \<Longrightarrow> isWitnessSupplyIT (mkWitnessSupplyIT k v l)"
  by (auto simp: isWitnessSupplyIT_def kind_order)

text \<open>The graph after \<open>createNewInternalNode\<close> with a fresh target.\<close>

definition with_supply :: "wgraph \<Rightarrow> itarget_kind \<Rightarrow> vid \<Rightarrow> vid \<Rightarrow> wgraph" where
  "with_supply g k v l =
     g\<lparr>nodes := (nodes g)(RunningId g \<mapsto>
         \<lparr>Target = next_tid g, requirements = [], requiredBy = [], HasAllRequirements = False\<rparr>),
       targets := (targets g)(next_tid g \<mapsto> mkWitnessSupplyIT k v l),
       RunningId := Suc (RunningId g), next_tid := Suc (next_tid g),
       InternalNodes := InternalNodes g @ [RunningId g]\<rparr>"

lemma with_supply_fields:
  "nodes (with_supply g k v l) = (nodes g)(RunningId g \<mapsto>
     \<lparr>Target = next_tid g, requirements = [], requiredBy = [], HasAllRequirements = False\<rparr>)"
  "targets (with_supply g k v l) = (targets g)(next_tid g \<mapsto> mkWitnessSupplyIT k v l)"
  "RunningId (with_supply g k v l) = Suc (RunningId g)"
  "next_tid (with_supply g k v l) = Suc (next_tid g)"
  "InternalNodes (with_supply g k v l) = InternalNodes g @ [RunningId g]"
  "ExternalNodes (with_supply g k v l) = ExternalNodes g"
  by (simp_all add: with_supply_def)

lemma fresh_id: "wg_ok g \<Longrightarrow> RunningId g \<notin> dom (nodes g)"
  using wg_ok_ids by blast

lemma fresh_tid: "wg_ok g \<Longrightarrow> next_tid g \<notin> dom (targets g)"
  using wg_ok_tids by blast

lemma with_supply_old:
  assumes "wg_ok g" and "n \<noteq> RunningId g"
  shows "tgt_of (with_supply g k v l) n = tgt_of g n" and "key_of (with_supply g k v l) n = key_of g n"
    and "has_all (with_supply g k v l) n = has_all g n"
proof -
  show "tgt_of (with_supply g k v l) n = tgt_of g n"
  proof (cases "nodes g n")
    case (Some nd)
    have "Target nd \<noteq> next_tid g"
      using wg_ok_target [OF assms(1) Some] fresh_tid [OF assms(1)] by metis
    then show ?thesis using Some assms(2) by (simp add: tgt_of_def with_supply_fields)
  qed (simp add: tgt_of_def with_supply_fields assms(2))
  then show "key_of (with_supply g k v l) n = key_of g n" by (simp add: key_of_def)
  show "has_all (with_supply g k v l) n = has_all g n"
    using assms(2) by (simp add: has_all_def with_supply_fields)
qed

lemma with_supply_new:
  "tgt_of (with_supply g k v l) (RunningId g) = Some (mkWitnessSupplyIT k v l)"
  "key_of (with_supply g k v l) (RunningId g) = Some (k, Some v, l)"
  "\<not> has_all (with_supply g k v l) (RunningId g)"
  by (simp_all add: tgt_of_def key_of_def has_all_def with_supply_fields)

lemma with_supply_req: "wg_ok g \<Longrightarrow> req_of (with_supply g k v l) n = req_of g n"
  using fresh_id [of g] by (auto simp: req_of_def with_supply_fields split: option.splits)

lemma with_supply_target_cases:
  assumes "wg_ok g" and "nodes (with_supply g k v l) n = Some nd"
  shows "(n = RunningId g \<and> Target nd = next_tid g) \<or>
    (n \<noteq> RunningId g \<and> nodes g n = Some nd \<and> Target nd \<noteq> next_tid g \<and> Target nd \<in> dom (targets g))"
proof (cases "n = RunningId g")
  case True
  then show ?thesis using assms(2) by (simp add: with_supply_fields) auto
next
  case False
  then have n: "nodes g n = Some nd" using assms(2) by (simp add: with_supply_fields)
  have "Target nd \<in> dom (targets g)" by (rule wg_ok_target [OF assms(1) n])
  with n False fresh_tid [OF assms(1)] show ?thesis by metis
qed

lemma with_supply_ok:
  assumes ok: "wg_ok g" and ks: "k = ITK_Intermediate \<or> k = ITK_Source"
  shows "wg_ok (with_supply g k v l)"
proof (rule wg_okI)
  let ?g = "with_supply g k v l"
  have dom: "dom (nodes g) = set (all_nodes g)" by (rule wg_ok_dom [OF ok])
  have notin: "RunningId g \<notin> set (all_nodes g)" using fresh_id [OF ok] dom by simp
  show "distinct (all_nodes ?g)"
    using wg_ok_distinct [OF ok] notin by (simp add: all_nodes_def with_supply_fields)
  show "dom (nodes ?g) = set (all_nodes ?g)"
    using dom by (simp add: all_nodes_def with_supply_fields)
  show "n < RunningId ?g" if "n \<in> dom (nodes ?g)" for n
    using that wg_ok_ids [OF ok, of n] by (fastforce simp: with_supply_fields)
  show "t < next_tid ?g" if "t \<in> dom (targets ?g)" for t
    using that wg_ok_tids [OF ok, of t] by (fastforce simp: with_supply_fields)
  show "isValid T" if "tgt_of ?g n = Some T" for n T
    using that wg_ok_valid [OF ok, of n T] with_supply_old(1) [OF ok, of n] with_supply_new(1)
    by (cases "n = RunningId g") auto
  show "Target nd \<in> dom (targets ?g)" if "nodes ?g n = Some nd" for n nd
    using with_supply_target_cases [OF ok that] by (auto simp: with_supply_fields)
  show "n = n'" if a: "nodes ?g n = Some nd" "nodes ?g n' = Some nd'" "Target nd = Target nd'"
    for n n' nd nd'
    using with_supply_target_cases [OF ok a(1)] with_supply_target_cases [OF ok a(2)] a(3)
      wg_ok_inj [OF ok, of n nd n' nd'] by metis
  show "isWitnessSupplyIT T" if "n \<in> set (InternalNodes ?g)" "tgt_of ?g n = Some T" for n T
  proof (cases "n = RunningId g")
    case True
    then have "T = mkWitnessSupplyIT k v l" using that(2) by (simp add: with_supply_new)
    then show ?thesis using supply_kinds [OF ks] by simp
  next
    case False
    then show ?thesis
      using that wg_ok_supply [OF ok, of n T] with_supply_old(1) [OF ok] by (simp add: with_supply_fields)
  qed
  show "set (req_of ?g n) \<subseteq> set (InternalNodes ?g)" for n
    using wg_ok_req [OF ok, of n] by (auto simp: with_supply_req [OF ok] with_supply_fields)
qed

lemma with_supply_ginv:
  assumes inv: "ginv V g" and ks: "k = ITK_Intermediate \<or> k = ITK_Source"
    and vl: "v \<in> V" "l \<in> V"
    and none: "\<forall>n \<in> set (InternalNodes g). key_of g n \<noteq> Some (k, Some v, l)"
  shows "ginv V (with_supply g k v l)"
  unfolding ginv_def
proof (intro conjI)
  let ?g = "with_supply g k v l"
  have ok: "wg_ok g" using inv by (rule ginv_ok)
  show "wg_ok ?g" by (rule with_supply_ok [OF ok ks])
  have old: "n \<noteq> RunningId g" if "n \<in> set (InternalNodes g)" for n
    using internal_live [OF ok that] fresh_id [OF ok] by blast
  show "flags_fresh ?g"
    unfolding flags_fresh_def
  proof (intro ballI allI impI)
    fix n T assume n: "n \<in> set (InternalNodes ?g)" "tgt_of ?g n = Some T"
    show "\<not> list_ex id (it_flags T)"
    proof (cases "n = RunningId g")
      case True
      then have "T = mkWitnessSupplyIT k v l" using n(2) by (simp add: with_supply_new)
      then show ?thesis using it_flags_supply [OF ks] by simp
    next
      case False
      then show ?thesis
        using n with_supply_old(1) [OF ok] ginv_fresh [OF inv]
        by (auto simp: flags_fresh_def with_supply_fields)
    qed
  qed
  have keys: "\<forall>n \<in> set (InternalNodes g). key_of ?g n = key_of g n"
    using old with_supply_old(2) [OF ok] by blast
  have "inj_on (key_of ?g) (set (InternalNodes g))"
    using inv keys by (simp add: ginv_def cong: inj_on_cong)
  moreover have "key_of ?g (RunningId g) \<notin> key_of ?g ` set (InternalNodes g)"
    using none keys with_supply_new(2) by (metis (no_types, lifting) imageE)
  ultimately show "inj_on (key_of ?g) (set (InternalNodes ?g))"
    by (auto simp: with_supply_fields)
  show "\<forall>n \<in> set (InternalNodes ?g). \<exists>k v l. key_of ?g n = Some (k, Some v, l) \<and> v \<in> V \<and> l \<in> V"
  proof
    fix n assume "n \<in> set (InternalNodes ?g)"
    then consider "n = RunningId g" | "n \<in> set (InternalNodes g)" by (auto simp: with_supply_fields)
    then show "\<exists>k v l. key_of ?g n = Some (k, Some v, l) \<and> v \<in> V \<and> l \<in> V"
    proof cases
      case 1
      then show ?thesis using with_supply_new(2) vl by blast
    next
      case 2
      then show ?thesis using inv keys by (simp add: ginv_def)
    qed
  qed
qed

lemma with_supply_ext:
  assumes ok: "wg_ok g"
  shows "ext X g (with_supply g k v l)"
  unfolding ext_def
proof (intro conjI ballI)
  let ?g = "with_supply g k v l"
  show "targets g \<subseteq>\<^sub>m targets ?g"
    using fresh_tid [OF ok] by (auto simp: map_le_def with_supply_fields)
  show "\<forall>n nd'. nodes ?g n = Some nd' \<longrightarrow>
      (\<exists>nd. nodes g n = Some nd \<and> Target nd = Target nd') \<or> n \<notin> dom (nodes g) \<and> next_tid g \<le> Target nd'"
    using fresh_id [OF ok] by (auto simp: with_supply_fields)
  fix n assume n: "n \<in> dom (nodes g)"
  then have ne: "n \<noteq> RunningId g" using fresh_id [OF ok] by blast
  show "n \<in> dom (nodes ?g)" using n by (simp add: with_supply_fields)
  show "tgt_of ?g n = tgt_of g n" using ok ne by (rule with_supply_old)
  show "has_all g n \<longrightarrow> has_all ?g n" using ok ne by (simp add: with_supply_old)
qed (simp_all add: with_supply_fields with_supply_req [OF ok])

lemma getInternalNodeOf_supply:
  assumes inv: "ginv V g" and ks: "k = ITK_Intermediate \<or> k = ITK_Source"
    and vl: "v \<in> V" "l \<in> V"
  obtains n g' where "getInternalNodeOf (mkWitnessSupplyIT k v l) g = Inr (n, g')"
    and "ginv V g'" and "ext {} g g'" and "n \<in> set (InternalNodes g')"
    and "key_of g' n = Some (k, Some v, l)"
    and "g' = g \<or> g' = with_supply g k v l \<and> n = RunningId g"
proof -
  let ?T = "mkWitnessSupplyIT k v l"
  note ok = ginv_ok [OF inv]
  obtain r where r: "getInternalNodeOrNull ?T g = Inr r"
    "case r of None \<Rightarrow> \<forall>n \<in> set (InternalNodes g). key_of g n \<noteq> Some (k, Some v, l)
     | Some n \<Rightarrow> n \<in> set (InternalNodes g) \<and> key_of g n = Some (k, Some v, l)"
    using find_internal_supply [OF ok ginv_fresh [OF inv] ks subset_refl]
    by (auto simp: getInternalNodeOrNull_def)
  show thesis
  proof (cases r)
    case (Some n)
    then show ?thesis using r inv by (intro that [of n g]) (simp_all add: getInternalNodeOf_def)
  next
    case None
    have "getInternalNodeOf ?T g = Inr (RunningId g, with_supply g k v l)"
      using r(1) None
      by (simp add: getInternalNodeOf_def createNewInternalNode_def new_node_def with_supply_def Let_def)
    moreover have "ginv V (with_supply g k v l)"
      using r(2) None by (intro with_supply_ginv [OF inv ks vl]) simp
    ultimately show ?thesis
      using with_supply_ext [OF ok] by (intro that) (auto simp: with_supply_new with_supply_fields)
  qed
qed

section \<open>The strategy stays in a finite set of values\<close>

text \<open>The operands \<open>addRequired\<close> follows.\<close>

fun flow_operands :: "instr \<Rightarrow> vid list" where
  "flow_operands (Load p) = [p]"
| "flow_operands (PHI incoming) = map fst incoming"
| "flow_operands (Select c t f) = [t, f]"
| "flow_operands (GetElementPtr p idx ib) = [p]"
| "flow_operands (BitCast p) = [p]"
| "flow_operands (ExtractValue a idx) = [a]"
| "flow_operands (InsertValue a i idx) = [a, i]"
| "flow_operands _ = []"

definition const_operands :: "ir_constant \<Rightarrow> vid list" where
  "const_operands c = (case c of ConstantExpr op ops \<Rightarrow> take 1 ops | _ \<Rightarrow> [])"

definition flow_blocks :: "instr \<Rightarrow> bbid list" where
  "flow_blocks i = (case i of PHI incoming \<Rightarrow> map snd incoming | Invoke c b \<Rightarrow> [b] | _ \<Rightarrow> [])"

definition ir_closed :: "ir \<Rightarrow> vid set \<Rightarrow> bool" where
  "ir_closed m V \<longleftrightarrow>
     (\<forall>v \<in> V.
        (\<forall>w. get_next_node m v = Inr w \<longrightarrow> w \<in> V) \<and>
        (\<forall>w. entry_loc m (parent_fun m v) = Inr w \<longrightarrow> w \<in> V) \<and>
        (\<forall>i. get_inst m v = Some i \<longrightarrow> set (flow_operands i) \<subseteq> V \<and>
           (\<forall>b \<in> set (flow_blocks i).
              (\<forall>w. block_back m b = Inr w \<longrightarrow> w \<in> V) \<and>
              (\<forall>w. first_insertion_pt m b = Inr w \<longrightarrow> w \<in> V))) \<and>
        (\<forall>c. get_const m v = Some c \<longrightarrow> set (const_operands c) \<subseteq> V))"

lemma ir_closedD:
  assumes "ir_closed m V" and "v \<in> V"
  shows closed_next: "get_next_node m v = Inr w \<Longrightarrow> w \<in> V"
    and closed_entry: "entry_loc m (parent_fun m v) = Inr w \<Longrightarrow> w \<in> V"
    and closed_operands: "get_inst m v = Some i \<Longrightarrow> set (flow_operands i) \<subseteq> V"
    and closed_back: "get_inst m v = Some i \<Longrightarrow> b \<in> set (flow_blocks i) \<Longrightarrow> block_back m b = Inr w \<Longrightarrow> w \<in> V"
    and closed_first: "get_inst m v = Some i \<Longrightarrow> b \<in> set (flow_blocks i) \<Longrightarrow>
      first_insertion_pt m b = Inr w \<Longrightarrow> w \<in> V"
    and closed_const: "get_const m v = Some c \<Longrightarrow> set (const_operands c) \<subseteq> V"
  using assms unfolding ir_closed_def by metis+

text \<open>Constant expressions are nested at most \<open>K\<close> deep.\<close>

definition const_depth :: "ir \<Rightarrow> vid set \<Rightarrow> nat \<Rightarrow> bool" where
  "const_depth m V K \<longleftrightarrow> (\<forall>v \<in> V. getPointerOperands K m v \<noteq> Inl OutOfFuel)"

definition const_base :: "ir \<Rightarrow> vid \<Rightarrow> vid option" where
  "const_base m v =
     (if is_pointer_ty (val_type m v) then
        (case get_const m v of
           Some (ConstantExpr op (p # _)) \<Rightarrow> if op = CEGetElementPtr \<or> op = CEBitCast then Some p else None
         | _ \<Rightarrow> None)
      else None)"

lemma getPointerOperands_step:
  "const_base m v = Some p \<Longrightarrow>
     getPointerOperands f m v = (case f of 0 \<Rightarrow> Inl OutOfFuel | Suc g \<Rightarrow> getPointerOperands g m p)"
  by (subst getPointerOperands.simps)
    (auto simp: const_base_def split: option.splits ir_constant.splits list.splits if_splits)

lemma getPointerOperands_base:
  assumes "const_base m v = None"
  shows "getPointerOperands f m v = getPointerOperands 0 m v"
    and "getPointerOperands 0 m v = Inl e \<Longrightarrow> e \<noteq> UseAfterFree \<and> e \<noteq> OutOfFuel"
    and "getPointerOperands 0 m v = Inr ps \<Longrightarrow> ps = [v]"
proof -
  show "getPointerOperands f m v = getPointerOperands 0 m v"
    using assms
    by (subst getPointerOperands.simps, subst (2) getPointerOperands.simps)
      (auto simp: const_base_def assertE_def
        split: option.splits ir_constant.splits list.splits if_splits constant_expr_op.splits)
  show "e \<noteq> UseAfterFree \<and> e \<noteq> OutOfFuel" if "getPointerOperands 0 m v = Inl e"
    using that assms
    by (subst (asm) getPointerOperands.simps)
      (auto simp: const_base_def assertE_def
        split: option.splits ir_constant.splits list.splits if_splits constant_expr_op.splits)
  show "ps = [v]" if "getPointerOperands 0 m v = Inr ps"
    using that assms
    by (subst (asm) getPointerOperands.simps)
      (auto simp: const_base_def assertE_def
        split: option.splits ir_constant.splits list.splits if_splits constant_expr_op.splits)
qed

lemma getPointerOperands_errors: "getPointerOperands f m v = Inl e \<Longrightarrow> e \<noteq> UseAfterFree"
proof (induction f arbitrary: v)
  case 0
  then show ?case
    using getPointerOperands_step [of m v _ 0] getPointerOperands_base(2) [of m v e]
    by (cases "const_base m v") auto
next
  case (Suc f)
  show ?case
  proof (cases "const_base m v")
    case None
    then show ?thesis
      using Suc.prems getPointerOperands_base(1) [OF None, of "Suc f"] getPointerOperands_base(2) [OF None]
      by simp
  next
    case (Some p)
    then show ?thesis using Suc getPointerOperands_step [OF Some, of "Suc f"] by simp
  qed
qed

lemma getPointerOperands_mono:
  "getPointerOperands f m v \<noteq> Inl OutOfFuel \<Longrightarrow> f \<le> f' \<Longrightarrow>
     getPointerOperands f' m v = getPointerOperands f m v"
proof (induction f arbitrary: v f')
  case 0
  then show ?case
    using getPointerOperands_step [of m v _ 0] getPointerOperands_base(1) [of m v f']
    by (cases "const_base m v") auto
next
  case (Suc f)
  show ?case
  proof (cases "const_base m v")
    case None
    then show ?thesis
      using getPointerOperands_base(1) [OF None, of "Suc f"] getPointerOperands_base(1) [OF None, of f']
      by simp
  next
    case (Some p)
    obtain g where "f' = Suc g" "f \<le> g" using Suc.prems(2) by (cases f') auto
    then show ?thesis
      using Suc.IH [of p g] Suc.prems(1) getPointerOperands_step [OF Some, of "Suc f"]
        getPointerOperands_step [OF Some, of f']
      by simp
  qed
qed

lemma getPointerOperands_closed:
  assumes "ir_closed m V"
  shows "v \<in> V \<Longrightarrow> getPointerOperands f m v = Inr ps \<Longrightarrow> set ps \<subseteq> V"
proof (induction f arbitrary: v)
  case 0
  then show ?case
    using getPointerOperands_step [of m v _ 0] getPointerOperands_base(3) [of m v ps]
    by (cases "const_base m v") auto
next
  case (Suc f)
  show ?case
  proof (cases "const_base m v")
    case None
    then show ?thesis
      using Suc.prems getPointerOperands_base(1) [OF None, of "Suc f"] getPointerOperands_base(3) [OF None]
      by simp
  next
    case (Some p)
    then obtain op ps where "get_const m v = Some (ConstantExpr op (p # ps))"
      by (auto simp: const_base_def split: option.splits ir_constant.splits list.splits if_splits)
    then have "p \<in> V"
      using closed_const [OF assms Suc.prems(1)] by (fastforce simp: const_operands_def)
    then show ?thesis using Suc getPointerOperands_step [OF Some, of "Suc f"] by simp
  qed
qed

section \<open>The steps of the recursion\<close>

text \<open>
  The pairs of a value and a location without a marked intermediate node. Every call of
  \<open>addRequired\<close> on an intermediate node that goes on removes one.
\<close>

definition open_pairs :: "vid set \<Rightarrow> wgraph \<Rightarrow> (vid \<times> vid) set" where
  "open_pairs V g =
     {(v, l). v \<in> V \<and> l \<in> V \<and>
        (\<forall>n \<in> set (InternalNodes g). key_of g n = Some (ITK_Intermediate, Some v, l) \<longrightarrow>
           \<not> has_all g n)}"

definition mu :: "vid set \<Rightarrow> wgraph \<Rightarrow> nat" where
  "mu V g = card (open_pairs V g)"

definition intermediate_node :: "wgraph \<Rightarrow> nid \<Rightarrow> bool" where
  "intermediate_node g n \<longleftrightarrow>
     n \<in> set (InternalNodes g) \<and> (\<exists>v l. key_of g n = Some (ITK_Intermediate, Some v, l))"

definition rec_good :: "vid set \<Rightarrow> bool \<Rightarrow> nat \<Rightarrow> (nid \<Rightarrow> wgraph \<Rightarrow> wgraph res) \<Rightarrow> bool" where
  "rec_good V b N rec \<longleftrightarrow>
     (\<forall>g n. ginv V g \<longrightarrow> intermediate_node g n \<longrightarrow> mu V g \<le> N \<longrightarrow> good V b {} g (rec n g))"

lemma open_pairs_finite: "finite V \<Longrightarrow> finite (open_pairs V g)"
  by (rule finite_subset [of _ "V \<times> V"]) (auto simp: open_pairs_def)

lemma ext_open_pairs:
  assumes "wg_ok g" and "ext X g g'"
  shows "open_pairs V g' \<subseteq> open_pairs V g"
proof
  fix p assume "p \<in> open_pairs V g'"
  then obtain v l where p: "p = (v, l)" "v \<in> V" "l \<in> V" and
    o: "\<And>n. n \<in> set (InternalNodes g') \<Longrightarrow> key_of g' n = Some (ITK_Intermediate, Some v, l) \<Longrightarrow>
      \<not> has_all g' n"
    by (auto simp: open_pairs_def)
  have "\<not> has_all g n" if "n \<in> set (InternalNodes g)"
    "key_of g n = Some (ITK_Intermediate, Some v, l)" for n
    using o [of n] that ext_internal [OF assms(2)] ext_key [OF assms(2) internal_live [OF assms(1) that(1)]]
      ext_marked [OF assms(2), of n] by auto
  with p show "p \<in> open_pairs V g" by (simp add: open_pairs_def)
qed

lemma ext_mu: "finite V \<Longrightarrow> wg_ok g \<Longrightarrow> ext X g g' \<Longrightarrow> mu V g' \<le> mu V g"
  unfolding mu_def by (intro card_mono open_pairs_finite ext_open_pairs)

lemma mark_mu:
  assumes "finite V" and "ginv V g" and "intermediate_node g n" and "\<not> has_all g n"
    and "upd_node n (\<lambda>nd. nd\<lparr>HasAllRequirements := True\<rparr>) g = Inr g'"
  shows "mu V g' < mu V g"
  unfolding mu_def
proof (rule psubset_card_mono [OF open_pairs_finite [OF assms(1)]])
  note mark = mark_node [OF assms(2,5)]
  note ok = ginv_ok [OF assms(2)]
  obtain v l where key: "key_of g n = Some (ITK_Intermediate, Some v, l)"
    and n: "n \<in> set (InternalNodes g)"
    using assms(3) by (auto simp: intermediate_node_def)
  with assms(2) have vl: "v \<in> V" "l \<in> V" by (fastforce simp: ginv_def)+
  have uniq: "k = n" if "k \<in> set (InternalNodes g)"
    "key_of g k = Some (ITK_Intermediate, Some v, l)" for k
    using assms(2) that n key by (auto simp: ginv_def inj_on_def)
  have "(v, l) \<in> open_pairs V g" using vl uniq assms(4) by (auto simp: open_pairs_def)
  moreover have "(v, l) \<notin> open_pairs V g'"
    using mark(2,3,5) n key ext_key [OF mark(2) internal_live [OF ok n]] by (auto simp: open_pairs_def)
  ultimately show "open_pairs V g' \<subset> open_pairs V g" using ext_open_pairs [OF ok mark(2)] by blast
qed

lemma good_weaken: "good V b' X g r \<Longrightarrow> (b \<Longrightarrow> b') \<Longrightarrow> good V b X g r"
  by (auto simp: good_def split: sum.splits)

lemma good_mono_empty: "good V b {} g r \<Longrightarrow> good V b X g r"
  by (rule good_mono) auto

lemma ws_getInternalNode_good:
  assumes "ginv V g" and "v \<in> V" and "l \<in> V"
    and "\<And>n g'. ginv V g' \<Longrightarrow> ext X g g' \<Longrightarrow> intermediate_node g' n \<Longrightarrow> good V b X g' (f (n, g'))"
  shows "good V b X g (bindE (ws_getInternalNode v l g) f)"
proof -
  obtain n g' where r: "getInternalNodeOf (mkWitnessSupplyIT ITK_Intermediate v l) g = Inr (n, g')"
    "ginv V g'" "ext {} g g'" "n \<in> set (InternalNodes g')" "key_of g' n = Some (ITK_Intermediate, Some v, l)"
    by (rule getInternalNodeOf_supply [OF assms(1) _ assms(2,3), of ITK_Intermediate]) auto
  have "ext X g g'" by (rule ext_mono [OF r(3)]) simp
  moreover have "good V b X g' (f (n, g'))"
    using r(2) calculation r(4,5) by (intro assms(4)) (auto simp: intermediate_node_def)
  ultimately show ?thesis
    using r(1,2) by (simp add: ws_getInternalNode_def createIntermediateTarget_def IntermediateIT_def good_after)
qed

lemma requireRecursively_good:
  assumes "finite V" and "ginv V g" and "node \<in> dom (nodes g)" and "node \<in> X"
    and "v \<in> V" and "l \<in> V" and "rec_good V b N rec" and "mu V g \<le> N"
  shows "good V b X g (requireRecursively rec node v l g)"
  unfolding requireRecursively_def
proof (rule ws_getInternalNode_good [OF assms(2,5,6)])
  fix n g1 assume g1: "ginv V g1" "ext X g g1" "intermediate_node g1 n"
  have "mu V g1 \<le> N" using ext_mu [OF assms(1) ginv_ok [OF assms(2)] g1(2)] assms(8) by simp
  then have rec: "good V b X g1 (rec n g1)"
    using assms(7) g1 good_mono_empty by (simp add: rec_good_def)
  have "good V b X g1 (bindE (rec n g1) (addRequirement node n))"
  proof (rule good_bind [OF rec])
    fix g2 assume g2: "ginv V g2" "ext X g1 g2"
    have "node \<in> dom (nodes g2)"
      by (rule ext_live [OF g2(2) ext_live [OF g1(2) assms(3)]])
    moreover have "n \<in> set (InternalNodes g2)"
      using g1(3) ext_internal [OF g2(2)] by (auto simp: intermediate_node_def)
    ultimately show "good V b X g2 (addRequirement node n g2)"
      using g2(1) assms(4) by (intro addRequirement_good)
  qed
  then show "good V b X g1 (case (n, g1) of (n, g1) \<Rightarrow> bindE (rec n g1) (addRequirement node n))"
    by simp
qed

lemma requireSource_good:
  assumes "ginv V g" and "node \<in> dom (nodes g)" and "node \<in> X" and "v \<in> V" and "l \<in> V"
  shows "good V b X g (requireSource node v l g)"
proof -
  obtain n g1 where r: "getInternalNodeOf (mkWitnessSupplyIT ITK_Source v l) g = Inr (n, g1)"
    "ginv V g1" "ext {} g g1" "n \<in> set (InternalNodes g1)"
    by (rule getInternalNodeOf_supply [OF assms(1) _ assms(4,5), of ITK_Source]) auto
  obtain g2 where g2: "upd_node n (\<lambda>nd. nd\<lparr>HasAllRequirements := True\<rparr>) g1 = Inr g2"
    using internal_live [OF ginv_ok [OF r(2)] r(4)] by (auto simp: upd_node_def)
  note mark = mark_node [OF r(2) g2]
  have "ext {} g g2" using ext_trans [OF r(3)] ext_mono [OF mark(2)] mark(2) by blast
  then have e: "ext X g g2" by (rule ext_mono) simp
  have node: "node \<in> dom (nodes g2)" by (rule ext_live [OF e assms(2)])
  have "n \<in> set (InternalNodes g2)" using r(4) mark(5) by simp
  then have a: "good V b X g2 (addRequirement node n g2)"
    by (rule addRequirement_good [OF mark(1) node _ assms(3)])
  have "good V b X g (addRequirement node n g2)" by (rule good_after [OF mark(1) e a])
  then show ?thesis
    using r(1) g2
    by (cases "n = node")
      (simp_all add: requireSource_def ws_getSourceNode_def createSourceTarget_def SourceIT_def
        assertE_def good_Inl)
qed

lemma has_all_Some: "nodes g n = Some nd \<Longrightarrow> has_all g n = HasAllRequirements nd"
  by (simp add: has_all_def)

lemma block_back_error: "block_back m b = Inl e \<Longrightarrow> e = NullPointer"
  by (auto simp: block_back_def split: list.splits)

lemma get_next_node_error: "get_next_node m b = Inl e \<Longrightarrow> e = NullPointer"
  by (auto simp: get_next_node_def split: option.splits)

lemma first_insertion_pt_error: "first_insertion_pt m b = Inl e \<Longrightarrow> e = NullPointer"
  by (auto simp: first_insertion_pt_def Let_def split: list.splits)

lemma entry_loc_error: "entry_loc m f = Inl e \<Longrightarrow> e = NullPointer"
  by (auto simp: entry_loc_def dest: first_insertion_pt_error split: list.splits)

lemmas lookup_errors = block_back_error get_next_node_error first_insertion_pt_error entry_loc_error

lemma require_phi_good:
  assumes fin: "finite V" and inv: "ginv V g" and node: "node \<in> dom (nodes g)" "node \<in> X"
    and v: "v \<in> V" and closed: "ir_closed m V" and phi: "get_inst m v = Some (PHI incoming)"
    and rec: "rec_good V b N rec" "mu V g \<le> N"
  shows "good V b X g (require_phi rec m node v incoming g)"
  unfolding require_phi_def
proof (rule ws_getInternalNode_good [OF inv v v])
  fix n g1 assume g1: "ginv V g1" "ext X g g1" "intermediate_node g1 n"
  have node1: "node \<in> dom (nodes g1)" by (rule ext_live [OF g1(2) node(1)])
  have n1: "n \<in> set (InternalNodes g1)" using g1(3) by (simp add: intermediate_node_def)
  have mu1: "mu V g1 \<le> N" using ext_mu [OF fin ginv_ok [OF inv] g1(2)] rec(2) by simp
  have "good V b X g1 (bindE (addRequirement node n g1) (\<lambda>g2.
      bindE (deref (nodes g2) n) (\<lambda>pnd.
      if HasAllRequirements pnd then Inr g2
      else bindE (upd_node n (\<lambda>nd. nd\<lparr>HasAllRequirements := True\<rparr>) g2)
       (foldE (\<lambda>(inVal, inBB) g.
          bindE (block_back m inBB) (\<lambda>loc. requireRecursively rec n inVal loc g)) incoming))))"
  proof (rule good_bind [OF addRequirement_good [OF g1(1) node1 n1 node(2)]])
    fix g2 assume g2: "ginv V g2" "ext X g1 g2"
    have n2: "n \<in> dom (nodes g2)"
      by (rule ext_live [OF g2(2) internal_live [OF ginv_ok [OF g1(1)] n1]])
    then obtain pnd where pnd: "nodes g2 n = Some pnd" by blast
    obtain g3 where g3: "upd_node n (\<lambda>nd. nd\<lparr>HasAllRequirements := True\<rparr>) g2 = Inr g3"
      using pnd by (simp add: upd_node_def)
    note mark = mark_node [OF g2(1) g3]
    have mu3: "mu V g3 \<le> N"
      using ext_mu [OF fin ginv_ok [OF g1(1)] g2(2)] ext_mu [OF fin ginv_ok [OF g2(1)] mark(2)] mu1
      by simp
    have n3: "n \<in> dom (nodes g3)" by (rule ext_live [OF mark(2) n2])
    have "good V b (insert n X) g3 (foldE (\<lambda>(inVal, inBB) g.
        bindE (block_back m inBB) (\<lambda>loc. requireRecursively rec n inVal loc g)) incoming g3)"
    proof (rule good_foldE [OF mark(1)])
      fix x g4 assume x: "x \<in> set incoming" and g4: "ginv V g4" "ext (insert n X) g3 g4"
      obtain iv ib where xe: "x = (iv, ib)" by (cases x)
      have iv: "iv \<in> V" using closed_operands [OF closed v phi] x xe by force
      have ib: "ib \<in> set (flow_blocks (PHI incoming))" using x xe by (force simp: flow_blocks_def)
      have n4: "n \<in> dom (nodes g4)" by (rule ext_live [OF g4(2) n3])
      have mu4: "mu V g4 \<le> N" using ext_mu [OF fin ginv_ok [OF mark(1)] g4(2)] mu3 by simp
      have "good V b (insert n X) g4
          (bindE (block_back m ib) (\<lambda>loc. requireRecursively rec n iv loc g4))"
      proof (rule good_bind_value)
        fix loc assume "block_back m ib = Inr loc"
        then have "loc \<in> V" by (rule closed_back [OF closed v phi ib])
        then show "good V b (insert n X) g4 (requireRecursively rec n iv loc g4)"
          by (intro requireRecursively_good [OF fin g4(1) n4 _ iv _ rec(1) mu4]) auto
      qed (auto dest: lookup_errors)
      then show "good V b (insert n X) g4 ((case x of (inVal, inBB) \<Rightarrow> \<lambda>g.
          bindE (block_back m inBB) (\<lambda>loc. requireRecursively rec n inVal loc g)) g4)"
        by (simp add: xe)
    qed
    then have body: "good V b (insert n X) g2 (foldE (\<lambda>(inVal, inBB) g.
        bindE (block_back m inBB) (\<lambda>loc. requireRecursively rec n inVal loc g)) incoming g3)"
      by (rule good_after [OF mark(1,2)])
    show "good V b X g2 (bindE (deref (nodes g2) n) (\<lambda>pnd.
      if HasAllRequirements pnd then Inr g2
      else bindE (upd_node n (\<lambda>nd. nd\<lparr>HasAllRequirements := True\<rparr>) g2)
       (foldE (\<lambda>(inVal, inBB) g.
          bindE (block_back m inBB) (\<lambda>loc. requireRecursively rec n inVal loc g)) incoming)))"
    proof (cases "HasAllRequirements pnd")
      case True
      then show ?thesis using pnd g2 by (simp add: good_Inr)
    next
      case False
      then have "\<not> has_all g2 n" using pnd by (simp add: has_all_Some)
      from good_drop [OF body this] show ?thesis using pnd False g3 by simp
    qed
  qed
  then show "good V b X g1 (case (n, g1) of (phiNode, g1) \<Rightarrow>
      bindE (addRequirement node phiNode g1) (\<lambda>g2.
      bindE (deref (nodes g2) phiNode) (\<lambda>pnd.
      if HasAllRequirements pnd then Inr g2
      else bindE (upd_node phiNode (\<lambda>nd. nd\<lparr>HasAllRequirements := True\<rparr>) g2)
       (foldE (\<lambda>(inVal, inBB) g.
          bindE (block_back m inBB) (\<lambda>loc. requireRecursively rec phiNode inVal loc g)) incoming))))"
    by simp
qed

lemma require_inst_good:
  assumes fin: "finite V" and inv: "ginv V g" and node: "node \<in> dom (nodes g)" "node \<in> X"
    and v: "v \<in> V" and closed: "ir_closed m V" and i: "get_inst m v = Some i"
    and rec: "rec_good V b N rec" "mu V g \<le> N"
  shows "good V b X g (require_inst rec m node v i g)"
proof -
  note ops = closed_operands [OF closed v i]
  have src: "good V b X g (bindE (get_next_node m v) (\<lambda>loc. requireSource node v loc g))"
    by (rule good_bind_value) (auto dest: lookup_errors
      intro!: requireSource_good [OF inv node v] closed_next [OF closed v])
  have inv_src: "good V b X g (bindE (first_insertion_pt m d) (\<lambda>loc. requireSource node v loc g))"
    if "d \<in> set (flow_blocks i)" for d
    by (rule good_bind_value) (auto dest: lookup_errors
      intro!: requireSource_good [OF inv node v] closed_first [OF closed v i that])
  have req: "good V b X g (requireRecursively rec node p v g)" if "p \<in> set (flow_operands i)" for p
    using that ops by (intro requireRecursively_good [OF fin inv node _ v rec]) auto
  have then_req: "good V b X g (bindE (requireRecursively rec node p v g)
      (\<lambda>g1. if c then requireRecursively rec node q v g1 else Inr g1))"
    if "p \<in> set (flow_operands i)" "q \<in> set (flow_operands i)" for p q c
  proof (rule good_bind [OF req [OF that(1)]])
    fix g1 assume g1: "ginv V g1" "ext X g g1"
    have "mu V g1 \<le> N" using ext_mu [OF fin ginv_ok [OF inv] g1(2)] rec(2) by simp
    with g1 that(2) ops show "good V b X g1 (if c then requireRecursively rec node q v g1 else Inr g1)"
      using ext_live [OF g1(2) node(1)]
      by (auto simp: good_Inr intro!: requireRecursively_good [OF fin g1(1) _ node(2) _ v rec(1)])
  qed
  show ?thesis
  proof (cases i)
    case (PHI incoming)
    then show ?thesis
      using require_phi_good [OF fin inv node v closed _ rec] i by (simp add: require_inst_def)
  next
    case (Select c t f)
    then show ?thesis using then_req [of t f True] by (simp add: require_inst_def)
  next
    case (InsertValue a x idx)
    then show ?thesis using then_req [of a x] by (simp add: require_inst_def)
  next
    case (Invoke c d)
    then show ?thesis using inv_src [of d] by (simp add: require_inst_def flow_blocks_def)
  qed (use src req in \<open>simp_all add: require_inst_def good_Inl\<close>)
qed

section \<open>Termination and the invariant\<close>

text \<open>What a target refers to lies in \<open>V\<close>.\<close>

definition target_in :: "vid set \<Rightarrow> itarget \<Rightarrow> bool" where
  "target_in V T \<longleftrightarrow> location T \<in> V \<and> (\<forall>v. instrumentee T = Some v \<longrightarrow> v \<in> V) \<and>
     (isCallInvariantIT T \<longrightarrow> (\<forall>(i, v) \<in> set (requiredArgs T). v \<in> V))"

lemma require_noninst_good:
  assumes inv: "ginv V g" and node: "node \<in> dom (nodes g)" "node \<in> X"
    and v: "v \<in> V" and closed: "ir_closed m V" and T: "target_in V T" "isValid T"
    and fuel: "b \<Longrightarrow> getPointerOperands fuel m v \<noteq> Inl OutOfFuel"
  shows "good V b X g (require_noninst fuel m node T v g)"
proof -
  let ?l = "location T"
  have l: "?l \<in> V" using T(1) by (simp add: target_in_def)
  have "good V b X g (bindE (entry_loc m (parent_fun m ?l)) (\<lambda>entryLoc.
     case val_kind m v of
       Argument \<Rightarrow> requireSource node v entryLoc g
     | Const c \<Rightarrow>
         if is_aggregate_ty (val_type m v) then requireSource node v ?l g
         else if c = UndefValue then requireSource node v ?l g
         else bindE (getPointerOperands fuel m v)
                (\<lambda>pointers. foldE (\<lambda>p. requireSource node p entryLoc) pointers g)
     | _ \<Rightarrow> Inl (UnreachableReached ''Unexpected value operand encountered.'')))"
  proof (rule good_bind_value)
    fix e assume e: "entry_loc m (parent_fun m ?l) = Inr e"
    have eV: "e \<in> V" by (rule closed_entry [OF closed l e])
    have ptrs: "good V b X g (bindE (getPointerOperands fuel m v)
        (\<lambda>pointers. foldE (\<lambda>p. requireSource node p e) pointers g))"
    proof (rule good_bind_value)
      fix ps assume "getPointerOperands fuel m v = Inr ps"
      then have "set ps \<subseteq> V" by (rule getPointerOperands_closed [OF closed v])
      then show "good V b X g (foldE (\<lambda>p. requireSource node p e) ps g)"
        using eV by (intro good_foldE [OF inv] requireSource_good [OF _ ext_live [OF _ node(1)] node(2)])
          auto
    qed (use fuel getPointerOperands_errors in blast)
    show "good V b X g (case val_kind m v of
       Argument \<Rightarrow> requireSource node v e g
     | Const c \<Rightarrow>
         if is_aggregate_ty (val_type m v) then requireSource node v ?l g
         else if c = UndefValue then requireSource node v ?l g
         else bindE (getPointerOperands fuel m v)
                (\<lambda>pointers. foldE (\<lambda>p. requireSource node p e) pointers g)
     | _ \<Rightarrow> Inl (UnreachableReached ''Unexpected value operand encountered.''))"
      using requireSource_good [OF inv node v eV] requireSource_good [OF inv node v l] ptrs
      by (cases "val_kind m v") (simp_all add: good_Inl)
  qed (auto dest: lookup_errors)
  then show ?thesis using T(2) by (simp add: require_noninst_def getLocation_def)
qed

lemma getCall_error: "getCall m T = Inl e \<Longrightarrow> e \<noteq> UseAfterFree \<and> e \<noteq> OutOfFuel"
  by (auto simp: getCall_def res_simps)

lemma getCall_location: "getCall m T = Inr c \<Longrightarrow> c = location T"
  by (auto simp: getCall_def res_simps)

lemma addRequired_body_good:
  assumes fin: "finite V" and inv: "ginv V g" and node: "node \<in> dom (nodes g)"
    and closed: "ir_closed m V" and T: "tgt_of g node = Some T" "target_in V T"
    and depth: "b \<Longrightarrow> const_depth m V fuel"
    and rec: "rec_good V b N rec"
    and N: "\<And>g1. upd_node node (\<lambda>nd. nd\<lparr>HasAllRequirements := True\<rparr>) g = Inr g1 \<Longrightarrow>
      \<not> has_all g node \<Longrightarrow> mu V g1 \<le> N"
  shows "good V b {} g (addRequired_body fuel rec m node g)"
proof -
  obtain nd where nd: "nodes g node = Some nd" using node by blast
  show ?thesis
  proof (cases "HasAllRequirements nd")
    case True
    then show ?thesis using nd inv by (simp add: addRequired_body_def good_Inr)
  next
    case False
    then have un: "\<not> has_all g node" using nd by (simp add: has_all_Some)
    obtain g1 where g1: "upd_node node (\<lambda>nd. nd\<lparr>HasAllRequirements := True\<rparr>) g = Inr g1"
      using nd by (simp add: upd_node_def)
    note mark = mark_node [OF inv g1]
    have mu1: "mu V g1 \<le> N" by (rule N [OF g1 un])
    have T1: "node_target g1 node = Inr T" using T(1) mark(4) by (simp add: node_target_eq_Inr)
    have valid: "isValid T" by (rule wg_ok_valid [OF ginv_ok [OF inv] T(1)])
    have live: "node \<in> dom (nodes g1)" by (rule ext_live [OF mark(2) node])
    have X: "node \<in> {node}" by simp
    let ?args = "foldE (\<lambda>(i, v) g. bindE (getCall m T) (\<lambda>call. requireRecursively rec node v call g))
           (requiredArgs T) g1"
    let ?one = "bindE (hasInstrumentee T) (\<lambda>h.
         bindE (assertE h ''Target->hasInstrumentee()'') (\<lambda>_.
         bindE (getInstrumentee T) (\<lambda>v.
         case get_inst m v of
           Some i \<Rightarrow> require_inst rec m node v i g1
         | None \<Rightarrow> require_noninst fuel m node T v g1)))"
    have args: "good V b {node} g1 ?args" if "isCallInvariantIT T"
    proof (rule good_foldE [OF mark(1)])
      fix x g2 assume x: "x \<in> set (requiredArgs T)" and g2: "ginv V g2" "ext {node} g1 g2"
      obtain i v where xe: "x = (i, v)" by (cases x)
      have v: "v \<in> V" "location T \<in> V" using x xe T(2) that by (auto simp: target_in_def)
      have "good V b {node} g2 (bindE (getCall m T) (\<lambda>call. requireRecursively rec node v call g2))"
        using ext_mu [OF fin ginv_ok [OF mark(1)] g2(2)] mu1 ext_live [OF g2(2) live] v
        by (intro good_bind_value) (auto dest: getCall_error getCall_location
          intro!: requireRecursively_good [OF fin g2(1) _ X v(1) _ rec])
      then show "good V b {node} g2 ((case x of (i, v) \<Rightarrow> \<lambda>g. bindE (getCall m T)
          (\<lambda>call. requireRecursively rec node v call g)) g2)" by (simp add: xe)
    qed
    have one: "good V b {node} g1 ?one"
    proof (cases "instrumentee T")
      case None
      then show ?thesis
        using valid by (simp add: hasInstrumentee_def assertE_def good_Inl)
    next
      case (Some v)
      then have v: "v \<in> V" using T(2) by (simp add: target_in_def)
      have "good V b {node} g1 (case get_inst m v of
           Some i \<Rightarrow> require_inst rec m node v i g1
         | None \<Rightarrow> require_noninst fuel m node T v g1)"
        using require_inst_good [OF fin mark(1) live X v closed _ rec mu1]
          require_noninst_good [OF mark(1) live X v closed T(2) valid] depth v
        by (auto simp: const_depth_def split: option.splits)
      then show ?thesis using Some valid by (simp add: hasInstrumentee_def getInstrumentee_def)
    qed
    have "addRequired_body fuel rec m node g = (if isCallInvariantIT T then ?args else ?one)"
      using nd False g1 T1 by (simp add: addRequired_body_def)
    moreover have "good V b {node} g (if isCallInvariantIT T then ?args else ?one)"
      using args one by (intro good_after [OF mark(1,2)]) simp
    ultimately show ?thesis using good_drop [OF _ un] by simp
  qed
qed

lemma const_depth_mono: "const_depth m V K \<Longrightarrow> K \<le> f \<Longrightarrow> const_depth m V f"
  using getPointerOperands_mono [of K m _ f] by (auto simp: const_depth_def)

lemma intermediate_target_in:
  assumes "ginv V g" and "intermediate_node g n"
  shows "\<exists>T. tgt_of g n = Some T \<and> target_in V T"
proof -
  obtain v l where n: "n \<in> set (InternalNodes g)" and key: "key_of g n = Some (ITK_Intermediate, Some v, l)"
    using assms(2) by (auto simp: intermediate_node_def)
  then obtain T where T: "tgt_of g n = Some T" "kind T = ITK_Intermediate" "instrumentee T = Some v"
    "location T = l" by (auto simp: key_of_def)
  have "v \<in> V" "l \<in> V" using assms(1) n key by (fastforce simp: ginv_def)+
  with T show ?thesis by (auto simp: target_in_def isCallInvariantIT_def)
qed

lemma addRequired_marked: "has_all g n \<Longrightarrow> addRequired (Suc f) m n g = Inr g"
  by (auto simp: addRequired_body_def has_all_def split: option.splits)

lemma addRequired_rec_good:
  assumes fin: "finite V" and closed: "ir_closed m V" and K: "const_depth m V K"
  shows "rec_good V (N + K < fuel) N (addRequired fuel m)"
proof (induction fuel arbitrary: N)
  case (Suc f)
  show ?case
    unfolding rec_good_def
  proof (intro allI impI)
    fix g n assume g: "ginv V g" "intermediate_node g n" "mu V g \<le> N"
    show "good V (N + K < Suc f) {} g (addRequired (Suc f) m n g)"
    proof (cases "has_all g n")
      case True
      then show ?thesis using addRequired_marked g(1) by (simp add: good_Inr del: addRequired.simps)
    next
      case False
      obtain T where T: "tgt_of g n = Some T" "target_in V T"
        using intermediate_target_in [OF g(1,2)] by blast
      have n: "n \<in> dom (nodes g)"
        using g(2) internal_live [OF ginv_ok [OF g(1)]] by (simp add: intermediate_node_def)
      then obtain g0 where "upd_node n (\<lambda>nd. nd\<lparr>HasAllRequirements := True\<rparr>) g = Inr g0"
        by (auto simp: upd_node_def)
      from mark_mu [OF fin g(1,2) False this] g(3) obtain N' where N': "N = Suc N'" by (cases N) auto
      have depth: "const_depth m V f" if "N + K < Suc f"
        by (rule const_depth_mono [OF K]) (use that N' in simp)
      have rec: "rec_good V (N + K < Suc f) N' (addRequired f m)" using Suc.IH [of N'] by (simp add: N')
      have "good V (N + K < Suc f) {} g (addRequired_body f (addRequired f m) m n g)"
        using mark_mu [OF fin g(1,2) False] g(3) N'
        by (intro addRequired_body_good [OF fin g(1) n closed T depth rec]) fastforce+
      then show ?thesis by simp
    qed
  qed
qed (simp add: rec_good_def good_Inl)

lemma addRequired_good:
  assumes fin: "finite V" and closed: "ir_closed m V" and K: "const_depth m V K"
    and inv: "ginv V g" and n: "n \<in> dom (nodes g)" and T: "tgt_of g n = Some T" "target_in V T"
    and fuel: "mu V g + K + 1 < fuel"
  shows "good V True {} g (addRequired fuel m n g)"
proof -
  obtain f where f: "fuel = Suc f" "mu V g + K < f" using fuel by (cases fuel) auto
  have rec: "rec_good V True (mu V g) (addRequired f m)"
    using addRequired_rec_good [OF fin closed K, of "mu V g" f] f(2) by simp
  have "good V True {} g (addRequired_body f (addRequired f m) m n g)"
  proof (rule addRequired_body_good [OF fin inv n closed T _ rec])
    show "const_depth m V f" by (rule const_depth_mono [OF K]) (use f in simp)
    fix g1 assume g1: "upd_node n (\<lambda>nd. nd\<lparr>HasAllRequirements := True\<rparr>) g = Inr g1"
    show "mu V g1 \<le> mu V g" by (rule ext_mu [OF fin ginv_ok [OF inv] mark_node(2) [OF inv g1]])
  qed
  then show ?thesis by (simp add: f(1))
qed

lemma mu_bound: "finite V \<Longrightarrow> mu V g \<le> card V * card V"
proof -
  assume fin: "finite V"
  have "mu V g \<le> card (V \<times> V)"
    unfolding mu_def by (rule card_mono) (use fin in \<open>auto simp: open_pairs_def\<close>)
  then show ?thesis by (simp add: card_cartesian_product)
qed

section \<open>Inserting a target\<close>

definition with_external :: "wgraph \<Rightarrow> tid \<Rightarrow> wgraph" where
  "with_external g t =
     g\<lparr>nodes := (nodes g)(RunningId g \<mapsto>
         \<lparr>Target = t, requirements = [], requiredBy = [], HasAllRequirements = False\<rparr>),
       RunningId := Suc (RunningId g), ExternalNodes := ExternalNodes g @ [RunningId g]\<rparr>"

lemma with_external_fields:
  "nodes (with_external g t) = (nodes g)(RunningId g \<mapsto>
     \<lparr>Target = t, requirements = [], requiredBy = [], HasAllRequirements = False\<rparr>)"
  "targets (with_external g t) = targets g" "RunningId (with_external g t) = Suc (RunningId g)"
  "next_tid (with_external g t) = next_tid g" "InternalNodes (with_external g t) = InternalNodes g"
  "ExternalNodes (with_external g t) = ExternalNodes g @ [RunningId g]"
  by (simp_all add: with_external_def)

definition unused_target :: "wgraph \<Rightarrow> tid \<Rightarrow> bool" where
  "unused_target g t \<longleftrightarrow> (\<forall>n nd. nodes g n = Some nd \<longrightarrow> Target nd \<noteq> t)"

lemma with_external_old:
  "n \<noteq> RunningId g \<Longrightarrow> tgt_of (with_external g t) n = tgt_of g n"
  "n \<noteq> RunningId g \<Longrightarrow> key_of (with_external g t) n = key_of g n"
  "n \<noteq> RunningId g \<Longrightarrow> has_all (with_external g t) n = has_all g n"
  by (auto simp: tgt_of_def key_of_def has_all_def with_external_fields split: option.splits)

lemma with_external_new: "tgt_of (with_external g t) (RunningId g) = targets g t"
  by (simp add: tgt_of_def with_external_fields)

lemma with_external_req: "wg_ok g \<Longrightarrow> req_of (with_external g t) n = req_of g n"
  using fresh_id [of g] by (auto simp: req_of_def with_external_fields split: option.splits)

lemma with_external_ginv:
  assumes inv: "ginv V g" and T: "targets g t = Some T" "isValid T" and unused: "unused_target g t"
  shows "ginv V (with_external g t)"
proof -
  let ?g = "with_external g t"
  note ok = ginv_ok [OF inv]
  have dom: "dom (nodes g) = set (all_nodes g)" by (rule wg_ok_dom [OF ok])
  have notin: "RunningId g \<notin> set (all_nodes g)" using fresh_id [OF ok] dom by simp
  then have int: "n \<noteq> RunningId g" if "n \<in> set (InternalNodes g)" for n
    using that by (auto simp: all_nodes_def)
  have "wg_ok ?g"
  proof (rule wg_okI)
    show "distinct (all_nodes ?g)"
      using wg_ok_distinct [OF ok] notin by (auto simp: all_nodes_def with_external_fields)
    show "dom (nodes ?g) = set (all_nodes ?g)"
      using dom by (simp add: all_nodes_def with_external_fields)
    show "n < RunningId ?g" if "n \<in> dom (nodes ?g)" for n
      using that wg_ok_ids [OF ok, of n] by (fastforce simp: with_external_fields)
    show "s < next_tid ?g" if "s \<in> dom (targets ?g)" for s
      using that wg_ok_tids [OF ok, of s] by (simp add: with_external_fields)
    show "isValid S" if "tgt_of ?g n = Some S" for n S
      using that wg_ok_valid [OF ok, of n S] T with_external_old(1) [of n g t] with_external_new [of g t]
      by (cases "n = RunningId g") auto
    show "Target nd \<in> dom (targets ?g)" if "nodes ?g n = Some nd" for n nd
      using that wg_ok_target [OF ok, of n nd] T(1)
      by (cases "n = RunningId g") (auto simp: with_external_fields)
    show "n = n'" if "nodes ?g n = Some nd" "nodes ?g n' = Some nd'" "Target nd = Target nd'"
      for n n' nd nd'
      using that wg_ok_inj [OF ok, of n nd n' nd'] unused
      by (fastforce simp: with_external_fields unused_target_def split: if_splits)
    show "isWitnessSupplyIT S" if "n \<in> set (InternalNodes ?g)" "tgt_of ?g n = Some S" for n S
      using that wg_ok_supply [OF ok, of n S] int [of n] with_external_old(1) [of n g t]
      by (simp add: with_external_fields)
    show "set (req_of ?g n) \<subseteq> set (InternalNodes ?g)" for n
      using wg_ok_req [OF ok, of n] by (simp add: with_external_req [OF ok] with_external_fields)
  qed
  moreover have keys: "key_of ?g n = key_of g n" "tgt_of ?g n = tgt_of g n"
    if "n \<in> set (InternalNodes g)" for n
    using int [OF that] by (simp_all add: with_external_old)
  moreover have "inj_on (key_of ?g) (set (InternalNodes g))"
    using inv keys(1) by (simp add: ginv_def cong: inj_on_cong)
  ultimately show ?thesis
    using inv by (simp add: ginv_def flags_fresh_def with_external_fields)
qed

lemma insertRequiredTarget_unfold:
  "insertRequiredTarget addReq t g =
     bindE (addReq (RunningId g) (with_external g t)) (\<lambda>g3. Inr (g3\<lparr>AlreadyPropagated := False\<rparr>))"
  by (simp add: insertRequiredTarget_def new_node_def with_external_def Let_def)

lemma key_of_propagated [simp]: "key_of (g\<lparr>AlreadyPropagated := b\<rparr>) = key_of g"
  by (simp add: key_of_def fun_eq_iff)

lemma ginv_propagated [simp]: "ginv V (g\<lparr>AlreadyPropagated := b\<rparr>) = ginv V g"
  by (simp add: ginv_def wg_ok_def wg_struct_def flags_fresh_def all_nodes_def)

lemma ext_propagated [simp]: "ext X g (h\<lparr>AlreadyPropagated := b\<rparr>) = ext X g h"
  by (simp add: ext_def has_all_def)

lemma ext_unused:
  assumes "ext X g g'" and "wg_ok g" and "t \<in> dom (targets g)" and "unused_target g t"
  shows "unused_target g' t"
  unfolding unused_target_def
proof (intro allI impI)
  fix n nd' assume "nodes g' n = Some nd'"
  then have "(\<exists>nd. nodes g n = Some nd \<and> Target nd = Target nd') \<or> next_tid g \<le> Target nd'"
    using assms(1) unfolding ext_def by blast
  then show "Target nd' \<noteq> t"
    using assms(4) wg_ok_tids [OF assms(2,3)] by (fastforce simp: unused_target_def)
qed

lemma insertRequiredTarget_good:
  assumes fin: "finite V" and closed: "ir_closed m V" and K: "const_depth m V K"
    and inv: "ginv V g" and T: "targets g t = Some T" "isValid T" "target_in V T"
    and unused: "unused_target g t" and fuel: "card V * card V + K + 1 < fuel"
  shows "good V True {} (with_external g t) (insertRequiredTarget (addRequired fuel m) t g)"
proof -
  let ?g = "with_external g t"
  have inv': "ginv V ?g" by (rule with_external_ginv [OF inv T(1,2) unused])
  have n: "RunningId g \<in> dom (nodes ?g)" by (simp add: with_external_fields)
  have T': "tgt_of ?g (RunningId g) = Some T" using T(1) by (simp add: with_external_new)
  have "mu V ?g + K + 1 < fuel" using mu_bound [OF fin, of ?g] fuel by linarith
  then have "good V True {} ?g (addRequired fuel m (RunningId g) ?g)"
    by (rule addRequired_good [OF fin closed K inv' n T' T(3)])
  then show ?thesis
    by (cases "addRequired fuel m (RunningId g) ?g")
      (simp_all add: insertRequiredTarget_unfold good_def)
qed

section \<open>The graph of a function\<close>

text \<open>The loop of \<open>generateWitnesses\<close> that inserts every valid target.\<close>

definition buildWitnessGraph :: "nat \<Rightarrow> ir \<Rightarrow> tid list \<Rightarrow> wgraph \<Rightarrow> wgraph res" where
  "buildWitnessGraph fuel m Vec =
     foldE (\<lambda>t g. bindE (deref (targets g) t) (\<lambda>T.
       if isValid T then insertRequiredTarget (addRequired fuel m) t g else Inr g)) Vec"

lemma with_external_targets_ext:
  assumes "ext {} (with_external g t) g'" and "wg_ok g"
  shows "targets g \<subseteq>\<^sub>m targets g'" and "next_tid g \<le> next_tid g'"
    and "\<And>n nd'. nodes g' n = Some nd' \<Longrightarrow>
      (\<exists>nd. nodes g n = Some nd \<and> Target nd = Target nd') \<or> Target nd' = t \<or> next_tid g \<le> Target nd'"
proof -
  show "targets g \<subseteq>\<^sub>m targets g'" "next_tid g \<le> next_tid g'"
    using assms(1) by (simp_all add: ext_def with_external_fields)
  fix n nd' assume "nodes g' n = Some nd'"
  then have "(\<exists>nd. nodes (with_external g t) n = Some nd \<and> Target nd = Target nd') \<or>
      next_tid (with_external g t) \<le> Target nd'"
    using assms(1) unfolding ext_def by blast
  then show "(\<exists>nd. nodes g n = Some nd \<and> Target nd = Target nd') \<or> Target nd' = t \<or>
      next_tid g \<le> Target nd'"
    by (auto simp: with_external_fields split: if_splits)
qed

text \<open>
  What the loop keeps: the invariant, and that the targets still to be inserted are in the heap
  and belong to no node.
\<close>

definition pending :: "vid set \<Rightarrow> tid list \<Rightarrow> wgraph \<Rightarrow> bool" where
  "pending V ts g \<longleftrightarrow> ginv V g \<and> distinct ts \<and>
     (\<forall>t \<in> set ts. unused_target g t \<and> (\<exists>T. targets g t = Some T \<and> target_in V T))"

lemma pending_step:
  assumes fin: "finite V" and closed: "ir_closed m V" and K: "const_depth m V K"
    and fuel: "card V * card V + K + 1 < fuel"
    and pending: "pending V (t # ts) g"
    and T: "targets g t = Some T" "isValid T"
  shows "case insertRequiredTarget (addRequired fuel m) t g of
      Inl e \<Rightarrow> e \<noteq> UseAfterFree \<and> e \<noteq> OutOfFuel | Inr g' \<Rightarrow> pending V ts g'"
proof -
  have inv: "ginv V g" and unused: "unused_target g t" and Tin: "target_in V T"
    using pending T by (auto simp: pending_def)
  have good: "good V True {} (with_external g t) (insertRequiredTarget (addRequired fuel m) t g)"
    by (rule insertRequiredTarget_good [OF fin closed K inv T Tin unused fuel])
  show ?thesis
  proof (cases "insertRequiredTarget (addRequired fuel m) t g")
    case (Inr g')
    then have g': "ginv V g'" "ext {} (with_external g t) g'" using good by (simp_all add: good_Inr)
    note e = with_external_targets_ext [OF g'(2) ginv_ok [OF inv]]
    have "unused_target g' s \<and> (\<exists>S. targets g' s = Some S \<and> target_in V S)" if s: "s \<in> set ts" for s
    proof -
      obtain S where S: "targets g s = Some S" "target_in V S" and ne: "s \<noteq> t"
        and un: "unused_target g s"
        using pending s by (auto simp: pending_def)
      have "s \<in> dom (targets g)" using S(1) by blast
      then have "s < next_tid g" by (rule wg_ok_tids [OF ginv_ok [OF inv]])
      then have "unused_target g' s"
        unfolding unused_target_def using e(3) ne un [unfolded unused_target_def] by fastforce
      moreover have "targets g' s = Some S" using e(1) S(1) by (metis domI map_le_def)
      ultimately show ?thesis using S(2) by blast
    qed
    with g'(1) pending Inr show ?thesis by (simp add: pending_def)
  qed (use good in \<open>simp add: good_Inl\<close>)
qed

text \<open>
  C5: the graph of a function is built in a bounded number of steps and no step touches freed
  memory; when no assertion, unreachable or unsupported construct stops it, the graph is well
  formed, carries no flags yet, and has at most one internal node for a kind, an instrumentee and
  a location.
\<close>

theorem buildWitnessGraph_total:
  assumes "finite V" and "ir_closed m V" and "const_depth m V K"
    and "card V * card V + K + 1 < fuel" and "pending V Vec g"
  shows "case buildWitnessGraph fuel m Vec g of
      Inl e \<Rightarrow> e \<noteq> UseAfterFree \<and> e \<noteq> OutOfFuel
    | Inr g' \<Rightarrow> wg_ok g' \<and> flags_fresh g' \<and> inj_on (key_of g') (set (InternalNodes g'))"
  using assms(5)
proof (induction Vec arbitrary: g)
  case Nil
  then show ?case by (simp add: buildWitnessGraph_def pending_def ginv_def)
next
  case (Cons t ts)
  let ?step = "bindE (deref (targets g) t) (\<lambda>T.
       if isValid T then insertRequiredTarget (addRequired fuel m) t g else Inr g)"
  obtain T where T: "targets g t = Some T" using Cons.prems by (auto simp: pending_def)
  have unfold: "buildWitnessGraph fuel m (t # ts) g = bindE ?step (buildWitnessGraph fuel m ts)"
    by (simp add: buildWitnessGraph_def)
  have "case ?step of Inl e \<Rightarrow> e \<noteq> UseAfterFree \<and> e \<noteq> OutOfFuel | Inr g' \<Rightarrow> pending V ts g'"
  proof (cases "isValid T")
    case True
    then show ?thesis using pending_step [OF assms(1-4) Cons.prems T] T by simp
  next
    case False
    then show ?thesis using T Cons.prems by (simp add: pending_def)
  qed
  then show ?case
    using Cons.IH by (cases ?step) (simp_all add: unfold)
qed

lemma demo_insts: "get_inst demo v = (if v = 3 then Some (GetElementPtr 2 [] False)
    else if v = 4 then Some (GetElementPtr 2 [] True) else if v = 5 then Some (Load 3)
    else if v = 6 then Some (Load 4) else if v = 7 then Some (Ret None) else None)"
  by (simp add: get_inst_def demo_def demo_value_def)

lemma demo_consts: "get_const demo v = (if v = 1 then Some FunctionVal else None)"
  by (simp add: get_const_def demo_def demo_value_def)

lemma demo_closed: "ir_closed demo {2, 3, 4, 5, 6, 7}"
proof -
  have next1: "get_next_node demo v = Inr w \<Longrightarrow> w \<in> {3, 4, 5, 6, 7}" for v w
    using get_next_node_mem [of demo v w] by (simp add: demo_def)
  have entry: "entry_loc demo (parent_fun demo v) = Inr w \<Longrightarrow> w \<in> {3, 4, 5, 6, 7}" for v w
    using first_insertion_pt_mem [of demo 0 w] by (simp add: entry_loc_def parent_fun_def demo_def)
  show ?thesis
    unfolding ir_closed_def using next1 entry
    by (auto simp: demo_insts demo_consts flow_blocks_def const_operands_def split: if_splits)
qed

lemma demo_depth: "const_depth demo {2, 3, 4, 5, 6, 7} 1"
proof -
  have "const_base demo v = None" if "v \<in> {2, 3, 4, 5, 6, 7}" for v
    using that by (auto simp: const_base_def demo_consts)
  note base = this
  have "getPointerOperands 1 demo v \<noteq> Inl OutOfFuel" if "v \<in> {2, 3, 4, 5, 6, 7}" for v
    using getPointerOperands_base(1) [OF base [OF that], of 1]
      getPointerOperands_base(2) [OF base [OF that], of OutOfFuel] by auto
  then show ?thesis by (simp only: const_depth_def) blast
qed

lemma demo_pending: "pending {2, 3, 4, 5, 6, 7} [0, 1] demo_start"
proof -
  have "ginv V demo_start" for V
    unfolding ginv_def wg_ok_def wg_struct_def
    by (auto simp: demo_start_def empty_graph_def all_nodes_def tgt_of_def req_of_def flags_fresh_def)
  then show ?thesis
    by (auto simp: pending_def demo_start_def empty_graph_def unused_target_def target_in_def
        demo_target_def mkITarget_def isCallInvariantIT_def)
qed

theorem buildWitnessGraph_witness:
  "case buildWitnessGraph 50 demo [0, 1] demo_start of
      Inl e \<Rightarrow> e \<noteq> UseAfterFree \<and> e \<noteq> OutOfFuel
    | Inr g' \<Rightarrow> wg_ok g' \<and> flags_fresh g' \<and> inj_on (key_of g') (set (InternalNodes g'))"
  by (rule buildWitnessGraph_total [OF _ demo_closed demo_depth _ demo_pending]) simp_all

text \<open>
  Two loads through addresses computed from the same argument are enough for the destructor of
  the graph to write to a node that it deleted before.
\<close>

theorem demo_destructor_use_after_free:
  "case bindE (buildWitnessGraph 50 demo [0, 1] demo_start) destroyGraph of
     Inl e \<Rightarrow> e = UseAfterFree | Inr g \<Rightarrow> False"
  by code_simp

end
