(* ===== verification/Simplify.thy ===== *)
theory Simplify
  imports CreateWitness NodeLifetime
begin

text \<open>
  \<open>AfterInflowStrategy::simplifyWitnessGraph\<close>: invariants on pointers that did not change since
  their witness was obtained are dropped, and nodes whose witness is that of one other node are
  bypassed. The option \<open>mi-ais-optimize-witness-graph\<close> is the argument \<open>optimize\<close>.
\<close>

section \<open>Pointers that did not change\<close>

fun all_unchanged ::
  "('n \<Rightarrow> 'n set \<Rightarrow> (bool \<times> 'n set) res) \<Rightarrow> 'n list \<Rightarrow> 'n set \<Rightarrow> (bool \<times> 'n set) res" where
  "all_unchanged rec [] Seen = Inr (True, Seen)"
| "all_unchanged rec (q # qs) Seen =
     bindE (rec q Seen) (\<lambda>(b, Seen'). if b then all_unchanged rec qs Seen' else Inr (False, Seen'))"

definition moves_pointer :: "ir \<Rightarrow> vid \<Rightarrow> bool" where
  "moves_pointer m loc =
     (case get_inst m loc of Some (GetElementPtr _ _ hasAllZeroIndices) \<Rightarrow> \<not> hasAllZeroIndices | _ \<Rightarrow> False)"

primrec didNotChangeSinceWitness ::
  "nat \<Rightarrow> ir \<Rightarrow> wgraph \<Rightarrow> nid \<Rightarrow> nid set \<Rightarrow> (bool \<times> nid set) res" where
  "didNotChangeSinceWitness 0 m g N Seen = Inl OutOfFuel"
| "didNotChangeSinceWitness (Suc fuel) m g N Seen =
     (if N \<in> Seen then Inr (True, Seen)
      else bindE (deref (nodes g) N) (\<lambda>nd.
           bindE (node_target g N) (\<lambda>T.
           if isSourceIT T then Inr (True, insert N Seen)
           else bindE (getLocation T) (\<lambda>loc.
             if moves_pointer m loc then Inr (False, insert N Seen)
             else all_unchanged (didNotChangeSinceWitness fuel m g) (requirements nd)
                    (insert N Seen)))))"

definition drop_unchanged :: "nat \<Rightarrow> ir \<Rightarrow> nid \<Rightarrow> wgraph \<Rightarrow> wgraph res" where
  "drop_unchanged fuel m External g =
     bindE (deref (nodes g) External) (\<lambda>nd.
     bindE (node_target g External) (\<lambda>T.
     if isValid T \<and> isInvariant T then
       bindE (didNotChangeSinceWitness fuel m g External {}) (\<lambda>(b, _).
       Inr (if b then set_target (Target nd) (invalidate T) g else g))
     else Inr g))"

section \<open>Superfluous nodes\<close>

type_synonym req_map = "nid \<rightharpoonup> nid option"

definition rm_at :: "req_map \<Rightarrow> nid \<Rightarrow> nid option res" where
  "rm_at M n = (case M n of None \<Rightarrow> Inl KeyNotFound | Some r \<Rightarrow> Inr r)"

text \<open>The loop over the requirements: the common reference and whether it is the only one.\<close>

fun common_reference :: "req_map \<Rightarrow> nid list \<Rightarrow> nid option \<Rightarrow> (nid option \<times> bool) res" where
  "common_reference M [] Reference = Inr (Reference, True)"
| "common_reference M (n # ns) Reference =
     bindE (rm_at M n) (\<lambda>Req.
     if Reference = None then common_reference M ns Req
     else if Req \<noteq> None \<and> Reference \<noteq> Req then Inr (Reference, False)
     else common_reference M ns Reference)"

definition new_reference :: "ir \<Rightarrow> wgraph \<Rightarrow> nid \<Rightarrow> req_map \<Rightarrow> nid option res" where
  "new_reference m g N M =
     bindE (deref (nodes g) N) (\<lambda>nd.
     if requirements nd = [] then Inr (Some N)
     else bindE (common_reference M (requirements nd) None) (\<lambda>(Reference, AllSame).
       bindE (node_target g N) (\<lambda>T.
       let Reference' =
         (case (if isValid T then instrumentee T else None) of
            Some v \<Rightarrow> (case get_inst m v of Some (ExtractValue _ _) \<Rightarrow> Some N | _ \<Rightarrow> Reference)
          | None \<Rightarrow> Reference)
       in Inr (if AllSame then Reference' else Some N))))"

primrec updateWitnessNode :: "nat \<Rightarrow> ir \<Rightarrow> wgraph \<Rightarrow> nid \<Rightarrow> req_map \<Rightarrow> req_map res" where
  "updateWitnessNode 0 m g N M = Inl OutOfFuel"
| "updateWitnessNode (Suc fuel) m g N M =
     bindE (rm_at M N) (\<lambda>ValBefore.
     bindE (new_reference m g N M) (\<lambda>v.
     let M' = M(N \<mapsto> v) in
     if v \<noteq> ValBefore then
       bindE (deref (nodes g) N) (\<lambda>nd. foldE (updateWitnessNode fuel m g) (requiredBy nd) M')
     else Inr M'))"

definition bypass_node :: "req_map \<Rightarrow> nid \<Rightarrow> wgraph \<Rightarrow> wgraph res" where
  "bypass_node M N g =
     bindE (rm_at M N) (\<lambda>Req.
     case Req of
       None \<Rightarrow> Inl (AssertionFailed ''Req != nullptr'')
     | Some r \<Rightarrow>
         if r \<noteq> N then bindE (clearRequirements N g) (addRequirement N r) else Inr g)"

definition roots_of :: "wgraph \<Rightarrow> nid list" where
  "roots_of g = filter (\<lambda>n. req_of g n = []) (all_nodes g)"

definition simplifyWitnessGraph :: "nat \<Rightarrow> bool \<Rightarrow> 's mechanism \<Rightarrow> ir \<Rightarrow> wgraph \<Rightarrow> wgraph res" where
  "simplifyWitnessGraph fuel optimize im m g =
     (if \<not> optimize then Inr g
      else if \<not> im_invariantsAreChecks im then
        Inl (ReportedError (''The instrumentation mechanism `'' @ im_name im @
          ''` does not support optimizing invariants the same way as checks. '' @
          ''Don't use -mi-ais-optimize-witness-graph.''))
      else
        bindE (foldE (drop_unchanged fuel m) (ExternalNodes g) g) (\<lambda>g1.
        let M0 = (\<lambda>n. if n \<in> set (all_nodes g1) then Some None else None) in
        bindE (foldE (updateWitnessNode fuel m g1) (roots_of g1) M0) (\<lambda>M.
        bindE (map_nodes (bypass_node M) g1) (removeDeadNodes fuel))))"

section \<open>When a pointer did not change\<close>

text \<open>
  The nodes the search visits: a source and a node whose location moves the pointer end it.
\<close>

definition search_edge :: "ir \<Rightarrow> wgraph \<Rightarrow> nid \<Rightarrow> nid \<Rightarrow> bool" where
  "search_edge m g n k \<longleftrightarrow> k \<in> set (req_of g n) \<and>
     (\<forall>T. tgt_of g n = Some T \<longrightarrow> \<not> isSourceIT T \<and> \<not> moves_pointer m (location T))"

definition changed_at :: "ir \<Rightarrow> wgraph \<Rightarrow> nid \<Rightarrow> bool" where
  "changed_at m g n \<longleftrightarrow>
     (\<exists>T. tgt_of g n = Some T \<and> \<not> isSourceIT T \<and> moves_pointer m (location T))"

definition moved :: "ir \<Rightarrow> wgraph \<Rightarrow> nid \<Rightarrow> bool" where
  "moved m g N \<longleftrightarrow> (\<exists>n. (search_edge m g)\<^sup>*\<^sup>* N n \<and> changed_at m g n)"

definition searched :: "ir \<Rightarrow> wgraph \<Rightarrow> nid set \<Rightarrow> nid set \<Rightarrow> bool" where
  "searched m g R R' \<longleftrightarrow> R \<subseteq> R' \<and>
     (\<forall>n \<in> R' - R. \<not> changed_at m g n \<and> (\<forall>k. search_edge m g n k \<longrightarrow> k \<in> R'))"

lemma searched_trans: "searched m g A B \<Longrightarrow> searched m g B C \<Longrightarrow> searched m g A C"
  unfolding searched_def by blast

lemma searched_all:
  assumes "searched m g {} R" and "N \<in> R"
  shows "\<not> moved m g N"
proof
  assume "moved m g N"
  then obtain n where n: "(search_edge m g)\<^sup>*\<^sup>* N n" "changed_at m g n" by (auto simp: moved_def)
  from n(1) have "n \<in> R"
    by (induction rule: rtranclp_induct) (use assms in \<open>auto simp: searched_def\<close>)
  with n(2) assms(1) show False by (auto simp: searched_def)
qed

lemma moved_step: "search_edge m g N k \<Longrightarrow> moved m g k \<Longrightarrow> moved m g N"
  unfolding moved_def by (meson converse_rtranclp_into_rtranclp)

definition search_ok :: "ir \<Rightarrow> wgraph \<Rightarrow> nid list \<Rightarrow> nid set \<Rightarrow> (bool \<times> nid set) res \<Rightarrow> bool" where
  "search_ok m g qs R r \<longleftrightarrow>
     (case r of
        Inl e \<Rightarrow> False
      | Inr (b, R') \<Rightarrow>
          if b then searched m g R R' \<and> set qs \<subseteq> R' else \<exists>q \<in> set qs. moved m g q)"

lemma all_unchanged_ok:
  assumes "\<And>q S. q \<in> set qs \<Longrightarrow> R \<subseteq> S \<Longrightarrow> search_ok m g [q] S (rec q S)" and "R \<subseteq> S"
  shows "search_ok m g qs S (all_unchanged rec qs S)"
  using assms
proof (induction qs arbitrary: S)
  case (Cons q qs)
  from Cons.prems(1) [of q S] Cons.prems(2) have q: "search_ok m g [q] S (rec q S)" by simp
  then obtain b S1 where r: "rec q S = Inr (b, S1)" by (auto simp: search_ok_def split: sum.splits)
  show ?case
  proof (cases b)
    case False
    then show ?thesis using q r by (simp add: search_ok_def)
  next
    case True
    then have s1: "searched m g S S1" "q \<in> S1" using q r by (simp_all add: search_ok_def)
    then have "R \<subseteq> S1" using Cons.prems(2) by (auto simp: searched_def)
    then have rest: "search_ok m g qs S1 (all_unchanged rec qs S1)"
      using Cons.prems(1) by (intro Cons.IH) auto
    then obtain b2 S2 where r2: "all_unchanged rec qs S1 = Inr (b2, S2)"
      by (auto simp: search_ok_def split: sum.splits)
    have "searched m g S S2 \<and> q \<in> S2" if "searched m g S1 S2"
    proof
      show "searched m g S S2" by (rule searched_trans [OF s1(1) that])
      have "S1 \<subseteq> S2" using that unfolding searched_def by (rule conjunct1)
      with s1(2) show "q \<in> S2" by blast
    qed
    note pass = this
    have run: "all_unchanged rec (q # qs) S = Inr (b2, S2)" using True r r2 by simp
    show ?thesis
    proof (cases b2)
      case True
      then have "searched m g S1 S2" "set qs \<subseteq> S2" using rest r2 by (simp_all add: search_ok_def)
      with pass show ?thesis unfolding run by (simp add: search_ok_def True)
    next
      case False
      then have "\<exists>q \<in> set qs. moved m g q" using rest r2 by (simp add: search_ok_def)
      then show ?thesis unfolding run by (simp add: search_ok_def False)
    qed
  qed
qed (simp add: search_ok_def searched_def)

definition valid_from :: "wgraph \<Rightarrow> nid \<Rightarrow> bool" where
  "valid_from g N \<longleftrightarrow> (\<forall>n \<in> insert N (set (InternalNodes g)). \<forall>T. tgt_of g n = Some T \<longrightarrow> isValid T)"

lemma didNotChange_ok:
  assumes g: "wg_struct g"
  shows "N \<in> dom (nodes g) \<Longrightarrow> valid_from g N \<Longrightarrow> card (dom (nodes g) - R) < fuel \<Longrightarrow>
    search_ok m g [N] R (didNotChangeSinceWitness fuel m g N R)"
proof (induction fuel arbitrary: N R)
  case (Suc fuel)
  have fin: "finite (dom (nodes g))" using wg_struct_dom [OF g] by simp
  show ?case
  proof (cases "N \<in> R")
    case True
    then show ?thesis by (simp add: search_ok_def searched_def)
  next
    case False
    obtain nd where nd: "nodes g N = Some nd" using Suc.prems(1) by blast
    from wg_struct_target [OF g nd] obtain T where T: "tgt_of g N = Some T"
      using nd by (auto simp: tgt_of_def)
    then have tgt: "node_target g N = Inr T" by (simp add: node_target_eq_Inr)
    have valid: "isValid T" using Suc.prems(2) T by (simp add: valid_from_def)
    have req: "req_of g N = requirements nd" using nd by (simp add: req_of_def)
    let ?R = "insert N R"
    show ?thesis
    proof (cases "isSourceIT T \<or> moves_pointer m (location T)")
      case True
      have no: "\<not> search_edge m g N k" for k using True T by (auto simp: search_edge_def)
      have "changed_at m g N \<longleftrightarrow> \<not> isSourceIT T" using True T by (auto simp: changed_at_def)
      moreover have "moved m g N" if "changed_at m g N" using that by (auto simp: moved_def)
      ultimately show ?thesis
        using True False nd tgt valid no
        by (auto simp: search_ok_def searched_def getLocation_def)
    next
      case go: False
      then have unchanged: "\<not> changed_at m g N" using T by (simp add: changed_at_def)
      have edges: "search_edge m g N k \<longleftrightarrow> k \<in> set (requirements nd)" for k
        using go T req by (auto simp: search_edge_def)
      have "search_ok m g (requirements nd) ?R
          (all_unchanged (didNotChangeSinceWitness fuel m g) (requirements nd) ?R)"
      proof (rule all_unchanged_ok [where R = ?R])
        fix q S assume q: "q \<in> set (requirements nd)" and S: "?R \<subseteq> S"
        have int: "q \<in> set (InternalNodes g)" using wg_struct_req [OF g, of N] req q by auto
        have live: "q \<in> dom (nodes g)" using int wg_struct_dom [OF g] by (simp add: all_nodes_def)
        have vf: "valid_from g q" using Suc.prems(2) int by (auto simp: valid_from_def)
        have "dom (nodes g) - S \<subset> dom (nodes g) - R" using False S Suc.prems(1) by blast
        then have "card (dom (nodes g) - S) < card (dom (nodes g) - R)"
          using fin by (simp add: psubset_card_mono)
        with Suc.prems(3) have "card (dom (nodes g) - S) < fuel" by linarith
        then show "search_ok m g [q] S (didNotChangeSinceWitness fuel m g q S)"
          by (rule Suc.IH [OF live vf])
      qed simp
      then obtain b S where r: "all_unchanged (didNotChangeSinceWitness fuel m g) (requirements nd) ?R = Inr (b, S)"
        and b: "if b then searched m g ?R S \<and> set (requirements nd) \<subseteq> S
          else \<exists>q \<in> set (requirements nd). moved m g q"
        by (auto simp: search_ok_def split: sum.splits)
      have res: "didNotChangeSinceWitness (Suc fuel) m g N R = Inr (b, S)"
        using go False nd tgt valid r by (simp add: getLocation_def)
      have "searched m g R S \<and> N \<in> S" if b
        using that b unchanged edges by (auto simp: searched_def)
      moreover have "moved m g N" if "\<not> b"
        using that b edges moved_step by (simp only: if_False) blast
      ultimately show ?thesis unfolding res by (auto simp: search_ok_def)
    qed
  qed
qed simp

lemma didNotChange_correct:
  assumes "wg_struct g" and "N \<in> dom (nodes g)" and "valid_from g N" and "card (dom (nodes g)) < fuel"
  shows "\<exists>S. didNotChangeSinceWitness fuel m g N {} = Inr (\<not> moved m g N, S)"
proof -
  have ok: "search_ok m g [N] {} (didNotChangeSinceWitness fuel m g N {})"
    using assms(4) by (intro didNotChange_ok [OF assms(1-3)]) simp
  then show ?thesis
    using searched_all [of m g _ N] by (auto simp: search_ok_def split: sum.splits if_splits)
qed

text \<open>
  Invalidating the target of an external node changes neither the requirements nor the targets
  of internal nodes, so the search from another external node is not affected.
\<close>

lemma set_target_external:
  assumes g: "wg_struct g" and N: "nodes g N = Some nd" "N \<in> set (ExternalNodes g)"
    and T: "targets g (Target nd) = Some T" and kind: "kind T' = kind T" "location T' = location T"
  shows "req_of (set_target (Target nd) T' g) n = req_of g n"
    and "n \<noteq> N \<Longrightarrow> tgt_of (set_target (Target nd) T' g) n = tgt_of g n"
    and "moved m (set_target (Target nd) T' g) n = moved m g n"
    and "wg_struct (set_target (Target nd) T' g)"
proof -
  let ?g = "set_target (Target nd) T' g"
  have fields: "nodes ?g = nodes g" "InternalNodes ?g = InternalNodes g" "ExternalNodes ?g = ExternalNodes g"
    "targets ?g = (targets g)(Target nd \<mapsto> T')" "RunningId ?g = RunningId g" "next_tid ?g = next_tid g"
    by (simp_all add: set_target_def)
  have inj: "n = N" if "nodes g n = Some nd'" "Target nd' = Target nd" for n nd'
    using g that N(1) unfolding wg_struct_def by blast
  show req: "req_of ?g n = req_of g n" for n by (simp add: req_of_def fields)
  show tgt: "tgt_of ?g n = tgt_of g n" if "n \<noteq> N" for n
    using that inj by (auto simp: tgt_of_def fields split: option.splits)
  have tgtN: "tgt_of ?g N = Some T'" "tgt_of g N = Some T" using N(1) T by (simp_all add: tgt_of_def fields)
  have 1: "search_edge m ?g = search_edge m g"
  proof (intro ext)
    fix a b
    show "search_edge m ?g a b = search_edge m g a b"
      using tgtN kind tgt [of a] by (cases "a = N") (simp_all add: search_edge_def req isSourceIT_def)
  qed
  have 2: "changed_at m ?g = changed_at m g"
  proof
    fix a
    show "changed_at m ?g a = changed_at m g a"
      using tgtN kind tgt [of a] by (cases "a = N") (simp_all add: changed_at_def isSourceIT_def)
  qed
  show "moved m ?g n = moved m g n" for n by (simp add: moved_def 1 2)
  have ext: "N \<notin> set (InternalNodes g)"
    using wg_struct_distinct [OF g] N(2) by (auto simp: all_nodes_def)
  have dom: "dom (targets ?g) = dom (targets g)" using T by (auto simp: fields)
  have all: "all_nodes ?g = all_nodes g" by (simp add: all_nodes_def fields)
  have sup: "\<forall>n \<in> set (InternalNodes g). \<forall>S. tgt_of ?g n = Some S \<longrightarrow> isWitnessSupplyIT S"
  proof (intro ballI allI impI)
    fix n S assume n: "n \<in> set (InternalNodes g)" "tgt_of ?g n = Some S"
    then have "n \<noteq> N" using ext by metis
    from tgt [OF this] n(2) have "tgt_of g n = Some S" by simp
    with g n(1) show "isWitnessSupplyIT S" unfolding wg_struct_def by blast
  qed
  show "wg_struct ?g"
    using g sup unfolding wg_struct_def all dom req fields(1-3,5,6) by blast
qed

definition drops :: "ir \<Rightarrow> wgraph \<Rightarrow> nid \<Rightarrow> bool" where
  "drops m g n \<longleftrightarrow>
     (case tgt_of g n of None \<Rightarrow> False | Some T \<Rightarrow> isValid T \<and> isInvariant T \<and> \<not> moved m g n)"

lemma drop_unchanged_step:
  assumes g: "wg_struct g" and N: "N \<in> set (ExternalNodes g)"
    and int: "\<forall>n \<in> set (InternalNodes g). \<forall>T. tgt_of g n = Some T \<longrightarrow> isValid T"
    and fuel: "card (dom (nodes g)) < fuel"
  obtains g' where "drop_unchanged fuel m N g = Inr g'" and "wg_struct g'"
    and "nodes g' = nodes g" and "ExternalNodes g' = ExternalNodes g" and "InternalNodes g' = InternalNodes g"
    and "\<And>n. moved m g' n = moved m g n"
    and "\<And>n. tgt_of g' n = (if n = N \<and> drops m g N then map_option invalidate (tgt_of g n) else tgt_of g n)"
proof -
  have "N \<in> dom (nodes g)" using N wg_struct_dom [OF g] by (simp add: all_nodes_def)
  then obtain nd where nd: "nodes g N = Some nd" by blast
  obtain T where T: "targets g (Target nd) = Some T" using wg_struct_target [OF g nd] by blast
  have tgt: "tgt_of g N = Some T" using nd T by (simp add: tgt_of_def)
  then have nt: "node_target g N = Inr T" by (simp add: node_target_eq_Inr)
  have run: "drop_unchanged fuel m N g =
      Inr (if drops m g N then set_target (Target nd) (invalidate T) g else g)"
  proof (cases "isValid T \<and> isInvariant T")
    case True
    then have "valid_from g N" using int tgt by (auto simp: valid_from_def)
    from didNotChange_correct [OF g \<open>N \<in> dom (nodes g)\<close> this fuel, of m]
    obtain S where "didNotChangeSinceWitness fuel m g N {} = Inr (\<not> moved m g N, S)" by blast
    with True nd nt tgt show ?thesis by (simp add: drop_unchanged_def drops_def)
  next
    case False
    then show ?thesis using nd nt tgt by (auto simp: drop_unchanged_def drops_def)
  qed
  show thesis
  proof (cases "drops m g N")
    case False
    then show ?thesis using run g by (intro that [of g]) simp_all
  next
    case True
    let ?g = "set_target (Target nd) (invalidate T) g"
    have same: "kind (invalidate T) = kind T" "location (invalidate T) = location T"
      by (simp_all add: invalidate_def)
    note s = set_target_external [OF g nd N T same]
    have "tgt_of ?g n = (if n = N \<and> drops m g N then map_option invalidate (tgt_of g n) else tgt_of g n)" for n
      using s(2) [of n] True tgt nd by (cases "n = N") (simp_all add: tgt_of_def set_target_def)
    then show ?thesis using run True s(3,4) by (intro that [of ?g]) (simp_all add: set_target_def)
  qed
qed

text \<open>
  C8: simplification invalidates exactly the valid invariants whose pointer is not moved between
  its source and the invariant, and nothing else; checks are never dropped.
\<close>

theorem drop_unchanged_exact:
  assumes "wg_struct g"
    and "\<forall>n \<in> set (InternalNodes g). \<forall>T. tgt_of g n = Some T \<longrightarrow> isValid T"
    and "card (dom (nodes g)) < fuel"
  shows "\<exists>g'. foldE (drop_unchanged fuel m) (ExternalNodes g) g = Inr g' \<and>
    (\<forall>n. tgt_of g' n =
       (if n \<in> set (ExternalNodes g) \<and> drops m g n then map_option invalidate (tgt_of g n)
        else tgt_of g n))"
proof -
  have "\<exists>g'. foldE (drop_unchanged fuel m) Ns h = Inr g' \<and>
      (\<forall>n. tgt_of g' n =
        (if n \<in> set Ns \<and> drops m h n then map_option invalidate (tgt_of h n) else tgt_of h n))"
    if "wg_struct h" "set Ns \<subseteq> set (ExternalNodes h)" "distinct Ns"
      "\<forall>n \<in> set (InternalNodes h). \<forall>T. tgt_of h n = Some T \<longrightarrow> isValid T"
      "card (dom (nodes h)) < fuel" for Ns h
    using that
  proof (induction Ns arbitrary: h)
    case (Cons N Ns)
    have N: "N \<in> set (ExternalNodes h)" using Cons.prems(2) by simp
    obtain h1 where h1: "drop_unchanged fuel m N h = Inr h1" "wg_struct h1" "nodes h1 = nodes h"
      "ExternalNodes h1 = ExternalNodes h" "InternalNodes h1 = InternalNodes h"
      "\<And>n. moved m h1 n = moved m h n"
      "\<And>n. tgt_of h1 n = (if n = N \<and> drops m h N then map_option invalidate (tgt_of h n) else tgt_of h n)"
      by (rule drop_unchanged_step [OF Cons.prems(1) N Cons.prems(4,5)]) blast
    have notint: "N \<notin> set (InternalNodes h)"
      using wg_struct_distinct [OF Cons.prems(1)] N by (auto simp: all_nodes_def)
    have valid: "\<forall>n \<in> set (InternalNodes h1). \<forall>T. tgt_of h1 n = Some T \<longrightarrow> isValid T"
      using Cons.prems(4) notint h1(5,7) by auto
    have drops: "drops m h1 n = drops m h n" if "n \<noteq> N" for n
    proof -
      have "tgt_of h1 n = tgt_of h n" using that h1(7) [of n] by simp
      then show ?thesis using h1(6) by (simp add: drops_def split: option.splits)
    qed
    obtain g' where g': "foldE (drop_unchanged fuel m) Ns h1 = Inr g'"
      "\<And>n. tgt_of g' n =
        (if n \<in> set Ns \<and> drops m h1 n then map_option invalidate (tgt_of h1 n) else tgt_of h1 n)"
      using Cons.IH [OF h1(2) _ _ valid] Cons.prems(2,3,5) h1(3,4) by auto
    have "tgt_of g' n = (if n \<in> set (N # Ns) \<and> drops m h n then map_option invalidate (tgt_of h n)
        else tgt_of h n)" for n
      using g'(2) [of n] h1(7) [of n] drops [of n] Cons.prems(3) by (cases "n = N") auto
    then show ?case using h1(1) g'(1) by simp
  qed simp
  from this [OF assms(1) subset_refl _ assms(2,3)] wg_struct_distinct [OF assms(1)]
  show ?thesis by (simp add: all_nodes_def)
qed

theorem drop_unchanged_witness:
  "\<exists>g'. foldE (drop_unchanged 5 demo) [0] (demo_graph demo_invariant) = Inr g' \<and>
     tgt_of g' 1 = Some demo_source"
proof -
  let ?g = "demo_graph demo_invariant"
  have "\<forall>n \<in> set (InternalNodes ?g). \<forall>T. tgt_of ?g n = Some T \<longrightarrow> isValid T"
    by (simp add: demo_graph_tgt demo_source_valid)
  from drop_unchanged_exact [OF demo_graph_struct this, of 5 demo]
  show ?thesis by (auto simp: demo_graph_tgt)
qed

end
