(* ===== verification/Driver.thy ===== *)
theory Driver
  imports Gathering ExamplePass Attributes Config GraphConstruction WitnessTermination Simplify
begin

text \<open>
  \<open>lib/pass/WitnessGeneration.cpp\<close> and \<open>lib/pass/CheckGeneration.cpp\<close>: what happens to the targets of
  a function once they are gathered and filtered. The strategy and the mechanism are the objects
  of the configuration; the option \<open>mi-no-invariant-checks\<close> is an argument. Printing the graph and
  the debug output are left out.
\<close>

section \<open>Strategies as objects\<close>

record 's strategy =
  st_addRequired :: "nat \<Rightarrow> ir \<Rightarrow> nid \<Rightarrow> wgraph \<Rightarrow> wgraph res"
  st_simplify :: "nat \<Rightarrow> 's mechanism \<Rightarrow> ir \<Rightarrow> wgraph \<Rightarrow> wgraph res"
  st_createWitness :: "nat \<Rightarrow> 's mechanism \<Rightarrow> ir \<Rightarrow> nid \<Rightarrow> wgraph \<times> 's \<Rightarrow> (wgraph \<times> 's) res"

definition after_inflow :: "bool \<Rightarrow> bool \<Rightarrow> 's strategy" where
  "after_inflow optimize noShare =
     \<lparr>st_addRequired = addRequired, st_simplify = (\<lambda>fuel. simplifyWitnessGraph fuel optimize),
      st_createWitness = (\<lambda>fuel. createWitness fuel noShare)\<rparr>"

definition none_strategy :: "'s strategy" where
  "none_strategy =
     \<lparr>st_addRequired = (\<lambda>_ _. none_addRequired), st_simplify = (\<lambda>_ _ _. Inr),
      st_createWitness = (\<lambda>_ im _. none_createWitness im)\<rparr>"

section \<open>Witness generation\<close>

definition insert_targets :: "'s strategy \<Rightarrow> nat \<Rightarrow> ir \<Rightarrow> tid list \<Rightarrow> wgraph \<Rightarrow> wgraph res" where
  "insert_targets WS fuel m Vec =
     foldE (\<lambda>t g. bindE (deref (targets g) t) (\<lambda>T.
       if isValid T then insertRequiredTarget (st_addRequired WS fuel m) t g else Inr g)) Vec"

definition graph_createWitnesses ::
  "'s strategy \<Rightarrow> nat \<Rightarrow> 's mechanism \<Rightarrow> ir \<Rightarrow> wgraph \<times> 's \<Rightarrow> (wgraph \<times> 's) res" where
  "graph_createWitnesses WS fuel im m gs =
     bindE (assertE (AlreadyPropagated (fst gs)) ''AlreadyPropagated'') (\<lambda>_.
     foldE (st_createWitness WS fuel im m) (ExternalNodes (fst gs)) gs)"

definition materialize_target :: "'s mechanism \<Rightarrow> wgraph \<Rightarrow> tid \<Rightarrow> 's \<Rightarrow> 's res" where
  "materialize_target im g t s =
     bindE (deref (targets g) t) (\<lambda>T.
     if \<not> isValid T then Inr s
     else
       bindE (hasWitnessesIfNeeded T) (\<lambda>b.
       bindE (assertE b ''T->hasWitnessesIfNeeded()'') (\<lambda>_.
       bindE (requiresExplicitBounds T) (\<lambda>e.
       if e then im_materializeBounds im T s else Inr s))))"

text \<open>Everything but the destructor of the graph, which runs at the end of the function.\<close>

definition graph_phase ::
  "'s strategy \<Rightarrow> nat \<Rightarrow> 's mechanism \<Rightarrow> ir \<Rightarrow> tid list \<Rightarrow> wgraph \<Rightarrow> 's \<Rightarrow> (wgraph \<times> 's) res" where
  "graph_phase WS fuel im m Vec g s =
     bindE (insert_targets WS fuel m Vec g) (\<lambda>g1.
     bindE (propagateFlags fuel g1) (\<lambda>g2.
     bindE (st_simplify WS fuel im m g2) (\<lambda>g3.
     graph_createWitnesses WS fuel im m (g3, s))))"

definition witness_phase ::
  "'s strategy \<Rightarrow> nat \<Rightarrow> 's mechanism \<Rightarrow> ir \<Rightarrow> tid list \<Rightarrow> wgraph \<Rightarrow> 's \<Rightarrow> (wgraph \<times> 's) res" where
  "witness_phase WS fuel im m Vec g s =
     bindE (graph_phase WS fuel im m Vec g s) (\<lambda>(g4, s4).
     bindE (foldE (materialize_target im g4) Vec s4) (\<lambda>s5. Inr (g4, s5)))"

text \<open>
  The graph lives as long as the function runs; its destructor (\<open>destroyGraph\<close>) only changes nodes, so
  what remains are the targets and the state of the mechanism.
\<close>

definition generateWitnesses ::
  "'s strategy \<Rightarrow> nat \<Rightarrow> 's mechanism \<Rightarrow> ir \<Rightarrow> tid list \<Rightarrow> theap \<times> tid \<Rightarrow> 's \<Rightarrow>
   ((theap \<times> tid) \<times> 's) res" where
  "generateWitnesses WS fuel im m Vec hn s =
     bindE (witness_phase WS fuel im m Vec (empty_graph (fst hn) (snd hn)) s) (\<lambda>(g, s').
     Inr ((targets g, next_tid g), s'))"

section \<open>Check generation\<close>

definition generate_one :: "(itarget \<Rightarrow> bool) \<Rightarrow> 's mechanism \<Rightarrow> theap \<Rightarrow> tid \<Rightarrow> 's \<Rightarrow> 's res" where
  "generate_one P IM h t s =
     bindE (deref h t) (\<lambda>T. if isValid T \<and> P T then im_insertCheck IM T s else Inr s)"

definition generateInvariants :: "bool \<Rightarrow> 's mechanism \<Rightarrow> tid list \<Rightarrow> theap \<Rightarrow> 's \<Rightarrow> 's res" where
  "generateInvariants NoInvariantChecks IM Vec h s =
     (if NoInvariantChecks then Inr s else foldE (generate_one isInvariant IM h) Vec s)"

definition generateChecks :: "'s mechanism \<Rightarrow> tid list \<Rightarrow> theap \<Rightarrow> 's \<Rightarrow> 's res" where
  "generateChecks IM Vec h s = foldE (generate_one isCheck IM h) Vec s"

section \<open>The after-inflow strategy\<close>

lemma after_inflow_simps [simp]:
  "st_addRequired (after_inflow opt noShare) = addRequired"
  "st_simplify (after_inflow opt noShare) = (\<lambda>fuel. simplifyWitnessGraph fuel opt)"
  "st_createWitness (after_inflow opt noShare) = (\<lambda>fuel. createWitness fuel noShare)"
  by (simp_all add: after_inflow_def)

lemma insert_targets_after_inflow:
  "insert_targets (after_inflow opt noShare) fuel m Vec = buildWitnessGraph fuel m Vec"
  by (rule ext) (simp only: insert_targets_def buildWitnessGraph_def after_inflow_simps)

lemma graph_createWitnesses_after_inflow:
  "graph_createWitnesses (after_inflow opt noShare) fuel im m gs = createWitnesses fuel noShare im m gs"
  by (simp only: graph_createWitnesses_def createWitnesses_def after_inflow_simps)

section \<open>Every target of the vector is in the graph\<close>

definition holds_target :: "wgraph \<Rightarrow> tid \<Rightarrow> bool" where
  "holds_target g t \<longleftrightarrow> (\<exists>n \<in> set (ExternalNodes g). \<exists>nd. nodes g n = Some nd \<and> Target nd = t)"

definition no_call_invariants :: "wgraph \<Rightarrow> bool" where
  "no_call_invariants g \<longleftrightarrow>
     (\<forall>n \<in> set (ExternalNodes g). \<forall>T. tgt_of g n = Some T \<longrightarrow> \<not> isCallInvariantIT T)"

lemma ext_keeps_node:
  assumes "ext X g g'" and "nodes g n = Some nd"
  obtains nd' where "nodes g' n = Some nd'" and "Target nd' = Target nd"
proof -
  have "n \<in> dom (nodes g')" using assms ext_live by blast
  then obtain nd' where nd': "nodes g' n = Some nd'" by blast
  with assms have "Target nd' = Target nd" unfolding ext_def by (metis domI option.inject)
  with nd' show ?thesis by (rule that)
qed

lemma ext_holds_target:
  assumes "ext X g g'" and "holds_target g t"
  shows "holds_target g' t"
proof -
  from assms(2) obtain n nd where n: "n \<in> set (ExternalNodes g)" "nodes g n = Some nd" "Target nd = t"
    by (auto simp: holds_target_def)
  from ext_keeps_node [OF assms(1) n(2)] obtain nd' where "nodes g' n = Some nd'" "Target nd' = t"
    using n(3) by metis
  moreover have "ExternalNodes g' = ExternalNodes g" using assms(1) by (simp add: ext_def)
  ultimately show ?thesis using n(1) by (auto simp: holds_target_def)
qed

lemma with_external_holds: "holds_target (with_external g t) t"
  by (auto simp: holds_target_def with_external_fields)

lemma with_external_still_holds: "wg_ok g \<Longrightarrow> holds_target g u \<Longrightarrow> holds_target (with_external g t) u"
proof -
  assume ok: "wg_ok g" and "holds_target g u"
  then obtain n nd where n: "n \<in> set (ExternalNodes g)" "nodes g n = Some nd" "Target nd = u"
    by (auto simp: holds_target_def)
  moreover have "n \<noteq> RunningId g" using n(2) fresh_id [OF ok] by auto
  ultimately show ?thesis by (auto simp: holds_target_def with_external_fields)
qed

lemma with_external_no_call_invariants:
  assumes "wg_ok g" and "no_call_invariants g" and "targets g t = Some T" and "\<not> isCallInvariantIT T"
  shows "no_call_invariants (with_external g t)"
  unfolding no_call_invariants_def
proof (intro ballI allI impI)
  fix n S assume n: "n \<in> set (ExternalNodes (with_external g t))" and S: "tgt_of (with_external g t) n = Some S"
  show "\<not> isCallInvariantIT S"
  proof (cases "n = RunningId g")
    case True
    with S assms(3,4) show ?thesis by (simp add: with_external_new)
  next
    case False
    with n S assms(2) show ?thesis
      by (auto simp: no_call_invariants_def with_external_old with_external_fields)
  qed
qed

lemma ext_no_call_invariants:
  assumes "ext X g g'" and "wg_ok g" and "no_call_invariants g"
  shows "no_call_invariants g'"
proof -
  have "ExternalNodes g' = ExternalNodes g" using assms(1) by (simp add: ext_def)
  moreover have "n \<in> dom (nodes g)" if "n \<in> set (ExternalNodes g)" for n
    using wg_ok_live [OF assms(2)] that by (simp add: all_nodes_def)
  ultimately show ?thesis
    using assms(3) ext_tgt [OF assms(1)] by (auto simp: no_call_invariants_def)
qed

text \<open>What the insertion loop has reached once the targets \<open>done_ts\<close> are through.\<close>

definition inserted :: "tid set \<Rightarrow> wgraph \<Rightarrow> bool" where
  "inserted done_ts g \<longleftrightarrow> no_call_invariants g \<and> (\<forall>t \<in> done_ts. holds_target g t)"

lemma build_holds:
  assumes V: "finite V" "ir_closed m V" "const_depth m V K" "card V * card V + K + 1 < fuel"
    and "pending V Vec g" and "inserted D g"
    and "\<forall>t \<in> set Vec. \<forall>T. targets g t = Some T \<longrightarrow> \<not> isCallInvariantIT T"
    and "buildWitnessGraph fuel m Vec g = Inr g'"
  shows "ginv V g' \<and> inserted (D \<union> {t \<in> set Vec. \<exists>T. targets g t = Some T \<and> isValid T}) g' \<and>
    targets g \<subseteq>\<^sub>m targets g'"
  using assms(5-)
proof (induction Vec arbitrary: g D)
  case Nil
  then show ?case by (simp add: buildWitnessGraph_def pending_def)
next
  case (Cons t ts)
  obtain T where T: "targets g t = Some T" "target_in V T" and inv: "ginv V g" and unused: "unused_target g t"
    using Cons.prems(1) by (auto simp: pending_def)
  note ok = ginv_ok [OF inv]
  show ?case
  proof (cases "isValid T")
    case False
    have p: "pending V ts g" using Cons.prems(1) by (simp add: pending_def)
    have b: "buildWitnessGraph fuel m ts g = Inr g'"
      using Cons.prems(4) T(1) False by (simp add: buildWitnessGraph_def)
    have "{u \<in> set (t # ts). \<exists>S. targets g u = Some S \<and> isValid S} = {u \<in> set ts. \<exists>S. targets g u = Some S \<and> isValid S}"
      using T(1) False by auto
    with Cons.IH [OF p Cons.prems(2) _ b] Cons.prems(3) show ?thesis by simp
  next
    case True
    from Cons.prems(4) T(1) True obtain g1 where g1: "insertRequiredTarget (addRequired fuel m) t g = Inr g1"
      and b: "buildWitnessGraph fuel m ts g1 = Inr g'"
      by (auto simp: buildWitnessGraph_def bindE_eq_Inr)
    let ?g = "with_external g t"
    have p: "pending V ts g1"
      using pending_step [OF V Cons.prems(1) T(1) True] g1 by simp
    have e: "ext {} ?g g1"
      using insertRequiredTarget_good [OF V(1-3) inv T(1) True T(2) unused V(4)] g1 by (simp add: good_Inr)
    have okg: "wg_ok ?g" by (rule ginv_ok [OF with_external_ginv [OF inv T(1) True unused]])
    have sub: "targets g \<subseteq>\<^sub>m targets g1" by (rule with_external_targets_ext [OF e ok])
    have same: "targets g1 u = targets g u" if "u \<in> set ts" for u
    proof -
      have "u \<in> dom (targets g)" using Cons.prems(1) that by (force simp: pending_def)
      with sub show ?thesis by (metis map_le_def)
    qed
    have nc: "\<not> isCallInvariantIT T" using Cons.prems(3) T(1) by simp
    have "inserted (insert t D) g1"
      unfolding inserted_def
    proof (intro conjI ballI)
      have "no_call_invariants ?g"
        by (rule with_external_no_call_invariants [OF ok _ T(1) nc]) (use Cons.prems(2) in \<open>simp add: inserted_def\<close>)
      then show "no_call_invariants g1" by (rule ext_no_call_invariants [OF e okg])
      fix u assume "u \<in> insert t D"
      then have "holds_target ?g u"
        using Cons.prems(2) with_external_holds with_external_still_holds [OF ok] by (auto simp: inserted_def)
      then show "holds_target g1 u" by (rule ext_holds_target [OF e])
    qed
    from Cons.IH [OF p this _ b] Cons.prems(3) same
    have IH: "ginv V g' \<and> inserted (insert t D \<union> {u \<in> set ts. \<exists>S. targets g1 u = Some S \<and> isValid S}) g' \<and>
        targets g1 \<subseteq>\<^sub>m targets g'"
      by simp
    have "D \<union> {u \<in> set (t # ts). \<exists>S. targets g u = Some S \<and> isValid S} =
        insert t D \<union> {u \<in> set ts. \<exists>S. targets g1 u = Some S \<and> isValid S}"
      using T(1) True same by auto
    with IH sub show ?thesis using map_le_trans by metis
  qed
qed

section \<open>Propagation changes flags only\<close>

definition same_but_flags :: "wgraph \<Rightarrow> wgraph \<Rightarrow> bool" where
  "same_but_flags g g' \<longleftrightarrow>
     nodes g' = nodes g \<and> ExternalNodes g' = ExternalNodes g \<and>
     (\<forall>t. map_option kind (targets g' t) = map_option kind (targets g t))"

lemma same_but_flags_refl [simp]: "same_but_flags g g"
  by (simp add: same_but_flags_def)

lemma same_but_flags_trans: "same_but_flags g h \<Longrightarrow> same_but_flags h k \<Longrightarrow> same_but_flags g k"
  by (simp add: same_but_flags_def)

lemma joinFlags_kind: "joinFlags T S = Inr (c, T') \<Longrightarrow> kind T' = kind T"
  by (auto simp: joinFlags_def bindE_eq_Inr Let_def)

lemma propagate_succ_same:
  "propagate_succ n r (wl, g) = Inr (wl', g') \<Longrightarrow> same_but_flags g g'"
  by (auto simp: propagate_succ_def bindE_eq_Inr deref_eq_Inr Let_def same_but_flags_def set_target_def
      dest: joinFlags_kind)

lemma propagate_succs_same:
  "foldE (propagate_succ n) rs (wl, g) = Inr (wl', g') \<Longrightarrow> same_but_flags g g'"
proof (induction rs arbitrary: wl g)
  case (Cons r rs)
  then obtain wl1 g1 where "propagate_succ n r (wl, g) = Inr (wl1, g1)"
    "foldE (propagate_succ n) rs (wl1, g1) = Inr (wl', g')"
    by (auto simp: bindE_eq_Inr)
  with Cons.IH propagate_succ_same same_but_flags_trans show ?case by blast
qed simp

lemma propagate_loop_same: "propagate_loop fuel wl g = Inr g' \<Longrightarrow> same_but_flags g g'"
proof (induction fuel arbitrary: wl g)
  case (Suc fuel)
  show ?case
  proof (cases wl)
    case (Cons n wl1)
    from Suc.prems obtain nd :: wg_node and r where r: "foldE (propagate_succ n) (requirements nd) (wl1, g) = Inr r"
      "propagate_loop fuel (fst r) (snd r) = Inr g'"
      by (simp add: Cons bindE_eq_Inr case_prod_unfold del: split_paired_Ex) blast
    then have "foldE (propagate_succ n) (requirements nd) (wl1, g) = Inr (fst r, snd r)" by simp
    with r(2) Suc.IH propagate_succs_same same_but_flags_trans show ?thesis by blast
  qed (use Suc.prems in simp)
qed (simp split: if_splits)

lemma propagateFlags_same: "propagateFlags fuel g = Inr g' \<Longrightarrow> same_but_flags g g'"
  using propagate_loop_same [of fuel "ExternalNodes g" g]
  by (auto simp: propagateFlags_def bindE_eq_Inr same_but_flags_def)

lemma propagate_loop_mono: "propagate_loop fuel wl g = Inr g' \<Longrightarrow> propagate_loop (fuel + k) wl g = Inr g'"
proof (induction fuel arbitrary: wl g)
  case 0
  then show ?case by (cases k) (auto split: if_splits)
next
  case (Suc fuel)
  show ?case
  proof (cases wl)
    case (Cons n wl1)
    from Suc.prems obtain nd :: wg_node and r where "nodes g n = Some nd"
      "foldE (propagate_succ n) (requirements nd) (wl1, g) = Inr r" "propagate_loop fuel (fst r) (snd r) = Inr g'"
      by (simp add: Cons bindE_eq_Inr deref_eq_Inr case_prod_unfold del: split_paired_Ex) blast
    with Suc.IH show ?thesis by (simp add: Cons case_prod_unfold)
  qed (use Suc.prems in simp)
qed

text \<open>A propagation that ends has the invariant, whatever fuel it was given.\<close>

lemma propagateFlags_ok:
  assumes "wg_ok g" and "flags_fresh g" and "propagateFlags fuel g = Inr g'"
  shows "wg_ok g'"
proof -
  let ?b = "length (ExternalNodes g) + 4 * length (InternalNodes g)"
  from assms(3) have "propagateFlags (fuel + ?b) g = Inr g'"
    by (auto simp: propagateFlags_def bindE_eq_Inr propagate_loop_mono)
  with propagateFlags_inv [OF assms(1,2), of "fuel + ?b"] obtain h where
    h: "g' = h\<lparr>AlreadyPropagated := True\<rparr>" "prop_inv g [] {} h"
    by auto
  then have "wg_ok h" by (simp only: prop_inv_def)
  then show ?thesis by (simp add: h(1) wg_ok_def wg_struct_def all_nodes_def)
qed

section \<open>Witnesses are there when they are needed\<close>

lemma wg_ok_kind_creatable:
  assumes "wg_ok g" and "no_call_invariants g"
  shows "creatable g"
  unfolding creatable_def
proof (intro conjI allI impI)
  show "isWitnessSupplyIT R" if "r \<in> set (req_of g n)" "tgt_of g r = Some R" for n r R
    using wg_ok_edge [OF assms(1) that(1)] that(2) by (metis option.inject)
  fix n T assume T: "tgt_of g n = Some T" "isCallInvariantIT T"
  have "n \<notin> set (InternalNodes g)"
  proof
    assume "n \<in> set (InternalNodes g)"
    then have "isWitnessSupplyIT T" using assms(1) T(1) by (auto simp: wg_ok_def wg_struct_def)
    with T(2) show False by (auto simp: isWitnessSupplyIT_iff isCallInvariantIT_def)
  qed
  moreover have "n \<in> dom (nodes g)" using T(1) by (auto simp: tgt_of_def split: option.splits)
  ultimately have "n \<in> set (ExternalNodes g)" using wg_ok_live [OF assms(1)] by (auto simp: all_nodes_def)
  with T assms(2) show "\<exists>r \<in> set (req_of g n). \<exists>R v. tgt_of g r = Some R \<and> instrumentee R = Some v \<and>
      v \<in> snd ` set (requiredArgs T)"
    by (auto simp: no_call_invariants_def)
qed

lemma same_no_call_invariants: "same_but_flags g g' \<Longrightarrow> no_call_invariants g \<Longrightarrow> no_call_invariants g'"
  unfolding no_call_invariants_def
proof (intro ballI allI impI)
  fix n T' assume s: "same_but_flags g g'" and c: "\<forall>n \<in> set (ExternalNodes g). \<forall>T. tgt_of g n = Some T \<longrightarrow> \<not> isCallInvariantIT T"
    and n: "n \<in> set (ExternalNodes g')" and T': "tgt_of g' n = Some T'"
  from T' obtain nd where nd: "nodes g' n = Some nd" "targets g' (Target nd) = Some T'"
    by (auto simp: tgt_of_def split: option.splits)
  from s have "map_option kind (targets g' (Target nd)) = map_option kind (targets g (Target nd))"
    by (simp only: same_but_flags_def)
  then have "map_option kind (targets g (Target nd)) = Some (kind T')" by (simp only: nd(2) option.map)
  then obtain T where T: "targets g (Target nd) = Some T" "kind T = kind T'" by auto
  have "tgt_of g n = Some T" using s nd(1) T(1) by (simp add: tgt_of_def same_but_flags_def)
  with c n s T(2) show "\<not> isCallInvariantIT T'" by (auto simp: same_but_flags_def isCallInvariantIT_def)
qed

text \<open>
  After the targets are inserted, the flags propagated and the witnesses created, each target of
  the vector has the witnesses it needs, whatever mechanism made them.
\<close>

context witness_provider
begin

lemma phase_supplies:
  assumes V: "finite V" "ir_closed m V" "const_depth m V K" "card V * card V + K + 1 < fuel"
    and p: "pending V Vec (empty_graph h n)"
    and nc: "\<forall>t \<in> set Vec. \<forall>T. h t = Some T \<longrightarrow> \<not> isCallInvariantIT T"
    and g1: "buildWitnessGraph fuel m Vec (empty_graph h n) = Inr g1"
    and g2: "propagateFlags fuel2 g1 = Inr g2"
    and g4: "createWitnesses fuel2 noShare im m (g2, s) = Inr (g4, s4)"
    and t: "t \<in> set Vec" "h t = Some T" "isValid T"
  shows "\<exists>T'. targets g4 t = Some T' \<and> kind T' = kind T \<and> isValid T' \<and> hasWitnessesIfNeeded T' = Inr True"
proof -
  have start: "inserted {} (empty_graph h n)"
    by (simp add: inserted_def no_call_invariants_def empty_graph_def)
  have tg: "targets (empty_graph h n) = h" by (simp add: empty_graph_def)
  from build_holds [OF V p start _ g1] nc
  have b: "ginv V g1" "inserted {t \<in> set Vec. \<exists>T. h t = Some T \<and> isValid T} g1" "h \<subseteq>\<^sub>m targets g1"
    by (simp_all add: tg)
  obtain nn nd where nd: "nn \<in> set (ExternalNodes g1)" "nodes g1 nn = Some nd" "Target nd = t"
    using b(2) t by (auto simp: inserted_def holds_target_def)
  have T1: "targets g1 t = Some T" using b(3) t(2) by (metis domI map_le_def)
  note same = propagateFlags_same [OF g2]
  have ok2: "wg_ok g2" by (rule propagateFlags_ok [OF ginv_ok [OF b(1)] ginv_fresh [OF b(1)] g2])
  have "creatable g2"
    by (rule wg_ok_kind_creatable [OF ok2 same_no_call_invariants [OF same]])
      (use b(2) in \<open>simp add: inserted_def\<close>)
  then have sup: "grow g2 g4" "\<forall>n \<in> set (ExternalNodes g2). supplied g4 n"
    using createWitnesses_supplies [OF _ g4] by simp_all
  have nd2: "nn \<in> set (ExternalNodes g2)" "nodes g2 nn = Some nd" using nd same by (simp_all add: same_but_flags_def)
  have "map_option kind (targets g2 t) = Some (kind T)" using same T1 by (simp add: same_but_flags_def)
  then obtain T2 where T2: "targets g2 t = Some T2" "kind T2 = kind T" by auto
  have tgt2: "tgt_of g2 nn = Some T2" using nd2(2) nd(3) T2(1) by (simp add: tgt_of_def)
  from grow_tgt(1) [OF sup(1) tgt2] obtain ws where T4: "tgt_of g4 nn = Some (T2\<lparr>boundWitnesses := ws\<rparr>)" by blast
  have at: "targets g4 t = Some (T2\<lparr>boundWitnesses := ws\<rparr>)"
    using T4 nd2(2) nd(3) grow_nodes [OF sup(1)] by (simp add: tgt_of_def)
  have valid: "isValid (T2\<lparr>boundWitnesses := ws\<rparr>)"
    using wg_ok_valid [OF ok2 tgt2] by (simp add: isValid_def)
  have "supplied g4 nn" using sup(2) nd2(1) by blast
  with T4 valid have "hasWitnessesIfNeeded (T2\<lparr>boundWitnesses := ws\<rparr>) = Inr True"
    by (auto simp: supplied_def hasWitnessesIfNeeded_def hasBoundWitnesses_def)
  with at valid T2(2) show ?thesis by simp
qed

end


definition demo_heap :: theap where
  "demo_heap = [0 \<mapsto> demo_target, 1 \<mapsto> demo_target\<lparr>instrumentee := Some 4, location := 6\<rparr>]"

lemma demo_phase_runs:
  "\<not> isl (graph_phase (after_inflow False False) 50 splay_mechanism demo [0, 1] (empty_graph demo_heap 2) demo_splay)"
  by code_simp


section \<open>Every check target gets its check\<close>

text \<open>
  \<open>checked_by s s' h t c\<close>: the module of \<open>s'\<close> has a new call \<open>c\<close> of the dereference check, before the
  location of the target in its block, with the value of the witness of the target, a pointer and
  the access size.
\<close>

definition checked_by :: "splay_state \<Rightarrow> splay_state \<Rightarrow> theap \<Rightarrow> tid \<Rightarrow> vid \<Rightarrow> bool" where
  "checked_by s s' h t c \<longleftrightarrow>
     (\<exists>T i W castVal rest.
        h t = Some T \<and> getSingleBoundWitness T = Inr (Some i) \<and> sp_witnesses s i = Some W \<and>
        next_vid (sp_mod s) \<le> c \<and>
        subseq [c, location T] (bb_insts (sp_mod s') (inst_bb (sp_mod s') (location T))) \<and>
        get_inst (sp_mod s') c = Some (Call
          \<lparr>called_operand = fst (CheckDereferenceFunction s), called_function = Some (fst (CheckDereferenceFunction s)),
           call_args = [WitnessValue W, castVal, the (access_size (sp_mod s') T)] @ rest\<rparr> None))"

definition check_in :: "(itarget \<Rightarrow> bool) \<Rightarrow> theap \<Rightarrow> tid \<Rightarrow> bool" where
  "check_in P h t \<longleftrightarrow> (case h t of None \<Rightarrow> False | Some T \<Rightarrow> isValid T \<and> P T)"

definition same_tables :: "splay_state \<Rightarrow> splay_state \<Rightarrow> bool" where
  "same_tables s s' \<longleftrightarrow> sp_witnesses s' = sp_witnesses s \<and> CheckDereferenceFunction s' = CheckDereferenceFunction s"

lemma lift_mod_tables: "lift_mod f s = Inr (x, s') \<Longrightarrow> same_tables s s'"
  by (auto simp: lift_mod_def bindE_eq_Inr same_tables_def)

lemma check_name_arg_tables: "check_name_arg loc s = Inr (a, s') \<Longrightarrow> same_tables s s'"
  by (auto simp: check_name_arg_def bindE_eq_Inr same_tables_def split: if_splits dest!: lift_mod_tables)

lemma access_size_only_adds: "only_adds m m' \<Longrightarrow> access_size m' T = access_size m T"
  by (simp add: access_size_def SizeType_def only_addsD(5,6))

lemma subseq_pair_set: "subseq [a, b] xs \<Longrightarrow> a \<in> set xs \<and> b \<in> set xs"
  using subseq_order.trans [of "[a]" "[a, b]" xs] subseq_order.trans [of "[b]" "[a, b]" xs]
  by (simp add: subseq_singleton_left)

lemma splay_insertCheck_field [simp]: "im_insertCheck splay_mechanism = splay_insertCheck"
  by (simp add: splay_mechanism_def)

lemma subseq_next_in: "next_in c xs = Some l \<Longrightarrow> subseq [c, l] xs"
  by (induction c xs rule: next_in.induct) (auto split: if_splits)

lemma subseq_grows:
  assumes a: "only_adds m m'" and f: "fresh_ids m" and s: "subseq xs (bb_insts m b)"
  shows "subseq xs (bb_insts m' b)"
proof -
  have "bb_insts m b = filter (\<lambda>v. v < next_vid m) (bb_insts m' b)" by (rule only_addsD(2) [OF a f, symmetric])
  then have "subseq (bb_insts m b) (bb_insts m' b)" using subseq_filter_left by metis
  with s show ?thesis by (rule subseq_order.trans)
qed

lemma insertCheck_checked:
  assumes "splay_insertCheck T s = Inr s'" and "placed (sp_mod s) (location T)" and "isCheck T" and "h t = Some T"
  shows "\<exists>c. checked_by s s' h t c \<and> c < next_vid (sp_mod s') \<and> only_adds (sp_mod s) (sp_mod s') \<and> same_tables s s'"
proof -
  obtain i W v castVal nameArg s1 s2 c sz where
    st: "getSingleBoundWitness T = Inr (Some i)" "sp_witnesses s i = Some W"
      "lift_mod (insertCastNoSuffix (PtrArgType (sp_mod s)) v (Before (location T))) s = Inr (castVal, s1)"
      "check_name_arg (location T) s1 = Inr (nameArg, s2)"
      "lift_mod (insertCallNoName (Before (location T)) (CheckDereferenceFunction s2)
        ([WitnessValue W, castVal, sz] @ nameArg)) s2 = Inr (c, s')"
    and sz: "access_size (sp_mod s2) T = Some sz"
    by (rule splay_insertCheck_steps [OF assms(1)]) (use assms(3) in auto)
  have a2: "only_adds (sp_mod s) (sp_mod s2)"
    using sp_adds_trans [OF sp_cast2_adds [OF st(3)] check_name_arg_adds [OF st(4)]] by (simp add: sp_adds_def)
  have p2: "placed (sp_mod s2) (location T)" by (rule only_adds_placed [OF a2 assms(2)])
  from st(5) have call: "insertCall (Before (location T)) (CheckDereferenceFunction s2)
      ([WitnessValue W, castVal, sz] @ nameArg) ''inserted.call'' (sp_mod s2) = Inr (c, sp_mod s')"
    by (auto simp: lift_mod_def insertCallNoName_def bindE_eq_Inr)
  note a3 = only_adds_insertCall [OF call]
  have tab2: "same_tables s s2" using lift_mod_tables [OF st(3)] check_name_arg_tables [OF st(4)] by (simp add: same_tables_def)
  then have tab: "same_tables s s'" using lift_mod_tables [OF st(5)] by (simp add: same_tables_def)
  have "access_size (sp_mod s') T = Some sz"
    using sz by (simp only: access_size_only_adds [OF a3])
  note pos = insertCall_position [OF call p2]
  have "c < next_vid (sp_mod s')"
  proof -
    have "fresh_ids (sp_mod s')" using only_addsD(1) [OF a3] p2 by (simp add: placed_def)
    moreover have "c \<in> set (bb_insts (sp_mod s') (inst_bb (sp_mod s') (location T)))"
      using next_in_mem [OF pos(2)] by simp
    ultimately show ?thesis by (simp add: fresh_ids_def)
  qed
  moreover have "next_vid (sp_mod s) \<le> c" using a2 pos(1) by (simp add: only_adds_def)
  then have "checked_by s s' h t c"
    unfolding checked_by_def
    by (intro exI [of _ T] exI [of _ i] exI [of _ W] exI [of _ castVal] exI [of _ nameArg])
      (use assms(4) st(1,2) subseq_next_in [OF pos(2)] pos(3) tab2 \<open>access_size (sp_mod s') T = Some sz\<close>
        in \<open>simp add: same_tables_def\<close>)
  ultimately show ?thesis using only_adds_trans [OF a2 a3] tab by blast
qed

lemma checked_by_grows:
  assumes "checked_by s s1 h t c" and a: "only_adds (sp_mod s1) (sp_mod s2)" and f: "fresh_ids (sp_mod s1)"
  shows "checked_by s s2 h t c"
proof -
  from assms(1) obtain T i W castVal rest where c: "h t = Some T" "getSingleBoundWitness T = Inr (Some i)"
    "sp_witnesses s i = Some W" "next_vid (sp_mod s) \<le> c"
    and sub: "subseq [c, location T] (bb_insts (sp_mod s1) (inst_bb (sp_mod s1) (location T)))"
    and call: "get_inst (sp_mod s1) c = Some (Call
          \<lparr>called_operand = fst (CheckDereferenceFunction s), called_function = Some (fst (CheckDereferenceFunction s)),
           call_args = [WitnessValue W, castVal, the (access_size (sp_mod s1) T)] @ rest\<rparr> None)"
    unfolding checked_by_def by blast
  from subseq_pair_set [OF sub] have lt: "c < next_vid (sp_mod s1)" "location T < next_vid (sp_mod s1)"
    using f by (auto simp: fresh_ids_def)
  have "access_size (sp_mod s2) T = access_size (sp_mod s1) T"
    by (rule access_size_only_adds [OF a])
  moreover have "get_inst (sp_mod s2) c = get_inst (sp_mod s1) c"
    by (simp add: get_inst_def only_addsD(4) [OF a lt(1)])
  moreover have "subseq [c, location T] (bb_insts (sp_mod s2) (inst_bb (sp_mod s2) (location T)))"
    using subseq_grows [OF a f sub] by (simp add: only_addsD(3) [OF a lt(2)])
  ultimately show ?thesis using c call unfolding checked_by_def by auto
qed

lemma checks_placed_list:
  assumes "foldE (generate_one isCheck splay_mechanism h) Vec s = Inr s'" and "fresh_ids (sp_mod s)"
    and "\<And>t T. t \<in> set Vec \<Longrightarrow> h t = Some T \<Longrightarrow> isValid T \<Longrightarrow> isCheck T \<Longrightarrow> placed (sp_mod s) (location T)"
  shows "only_adds (sp_mod s) (sp_mod s') \<and> same_tables s s' \<and>
    (\<exists>cs. distinct cs \<and> list_all2 (checked_by s s' h) (filter (check_in isCheck h) Vec) cs)"
  using assms
proof (induction Vec arbitrary: s)
  case Nil
  then show ?case by (simp add: same_tables_def)
next
  case (Cons t ts)
  from Cons.prems(1) obtain s1 where g: "generate_one isCheck splay_mechanism h t s = Inr s1"
    and rest: "foldE (generate_one isCheck splay_mechanism h) ts s1 = Inr s'"
    by (auto simp: bindE_eq_Inr)
  from g obtain T where T: "h t = Some T"
    and s1: "(if isValid T \<and> isCheck T then splay_insertCheck T s else Inr s) = Inr s1"
    by (auto simp: generate_one_def bindE_eq_Inr deref_eq_Inr cong: if_cong)
  show ?case
  proof (cases "isValid T \<and> isCheck T")
    case False
    with s1 have "s1 = s" by auto
    with rest have rest: "foldE (generate_one isCheck splay_mechanism h) ts s = Inr s'" by simp
    have "filter (check_in isCheck h) (t # ts) = filter (check_in isCheck h) ts"
      using False T by (auto simp: check_in_def)
    moreover have "placed (sp_mod s) (location U)" if "u \<in> set ts" "h u = Some U" "isValid U" "isCheck U" for u U
      using that Cons.prems(3) [of u U] by simp
    ultimately show ?thesis using Cons.IH [OF rest Cons.prems(2)] by simp
  next
    case True
    with s1 have ins: "splay_insertCheck T s = Inr s1" by simp
    have "placed (sp_mod s) (location T)" using Cons.prems(3) [of t T] T True by simp
    from insertCheck_checked [where h = h and t = t, OF ins this _ T] True obtain c where
      c: "checked_by s s1 h t c" "c < next_vid (sp_mod s1)" "only_adds (sp_mod s) (sp_mod s1)" "same_tables s s1"
      by blast
    have f1: "fresh_ids (sp_mod s1)" by (rule only_addsD(1) [OF c(3) Cons.prems(2)])
    have p1: "placed (sp_mod s1) (location U)" if "u \<in> set ts" "h u = Some U" "isValid U" "isCheck U" for u U
      using that Cons.prems(3) [of u U] only_adds_placed [OF c(3)] by simp
    have IH: "only_adds (sp_mod s1) (sp_mod s') \<and> same_tables s1 s' \<and>
        (\<exists>cs. distinct cs \<and> list_all2 (checked_by s1 s' h) (filter (check_in isCheck h) ts) cs)"
      by (rule Cons.IH [OF rest f1]) (rule p1)
    then obtain cs where cs: "distinct cs" "list_all2 (checked_by s1 s' h) (filter (check_in isCheck h) ts) cs"
      by blast
    have "checked_by s s' h u d \<and> c < d" if "checked_by s1 s' h u d" for u d
      using that c(2-4) by (auto simp: checked_by_def same_tables_def only_adds_def)
    then have "list_all2 (\<lambda>u d. checked_by s s' h u d \<and> c < d) (filter (check_in isCheck h) ts) cs"
      using cs(2) by (auto elim: list_all2_mono)
    then have "list_all2 (checked_by s s' h) (filter (check_in isCheck h) ts) cs \<and> (\<forall>d \<in> set cs. c < d)"
      by (auto simp: list_all2_conv_all_nth in_set_conv_nth)
    moreover have "checked_by s s' h t c" using checked_by_grows [OF c(1) _ f1] IH by blast
    moreover have "filter (check_in isCheck h) (t # ts) = t # filter (check_in isCheck h) ts"
      using T True by (simp add: check_in_def)
    ultimately have "\<exists>cs. distinct cs \<and> list_all2 (checked_by s s' h) (filter (check_in isCheck h) (t # ts)) cs"
      using cs(1) by (intro exI [of _ "c # cs"]) auto
    then show ?thesis using IH c(3,4) only_adds_trans by (auto simp: same_tables_def)
  qed
qed

text \<open>
  C2: check generation with the splay mechanism only adds code, and adds for every valid check target
  of the function a call of its own that runs before the checked instruction, with the bounds witness
  and the size of the access.
\<close>

theorem checks_placed:
  assumes "generateChecks splay_mechanism Vec h s = Inr s'" and "fresh_ids (sp_mod s)"
    and "\<forall>t \<in> set Vec. \<forall>T. h t = Some T \<longrightarrow> isValid T \<longrightarrow> isCheck T \<longrightarrow> placed (sp_mod s) (location T)"
  shows "only_adds (sp_mod s) (sp_mod s') \<and>
    (\<exists>cs. distinct cs \<and> list_all2 (checked_by s s' h) (filter (check_in isCheck h) Vec) cs)"
  using checks_placed_list [OF assms(1) [unfolded generateChecks_def] assms(2)] assms(3) by blast

definition demo_checked_heap :: theap where
  "demo_checked_heap = [0 \<mapsto> demo_checked, 1 \<mapsto> demo_checked\<lparr>location := 6\<rparr>]"

lemma demo_generation_runs: "\<not> isl (generateChecks splay_mechanism [0, 1] demo_checked_heap demo_splay)"
  by code_simp

lemma checks_placed_witness:
  "\<exists>s' cs. generateChecks splay_mechanism [0, 1] demo_checked_heap demo_splay = Inr s' \<and> length cs = 2 \<and>
     distinct cs \<and> list_all2 (checked_by demo_splay s' demo_checked_heap) [0, 1] cs"
proof -
  obtain s' where s': "generateChecks splay_mechanism [0, 1] demo_checked_heap demo_splay = Inr s'"
    using demo_generation_runs by (cases "generateChecks splay_mechanism [0, 1] demo_checked_heap demo_splay") auto
  have "fresh_ids (sp_mod demo_splay)" by (auto simp: fresh_ids_def demo_splay_def demo_def)
  then have pl: "placed (sp_mod demo_splay) v" if "v \<in> {5, 6}" for v
    using that by (auto simp: placed_def demo_splay_def demo_def)
  have "filter (check_in isCheck demo_checked_heap) [0, 1] = [0, 1]"
    by (simp add: check_in_def demo_checked_heap_def demo_checked_def demo_target_def mkITarget_def isValid_def isCheck_iff)
  with checks_placed [OF s' \<open>fresh_ids (sp_mod demo_splay)\<close>] pl
  obtain cs where "distinct cs" "list_all2 (checked_by demo_splay s' demo_checked_heap) [0, 1] cs"
    by (auto simp: demo_checked_heap_def demo_checked_def demo_target_def mkITarget_def)
  moreover from this(2) have "length cs = 2" by (auto dest: list_all2_lengthD)
  ultimately show ?thesis using s' by blast
qed

end
