(* ===== verification/KeepCode.thy ===== *)
theory KeepCode
  imports Interface
begin

text \<open>
  What the operations of a mechanism keep of its state, all of witness generation and check
  generation keeps. The relation is a parameter of the locale \<open>code_keeper\<close>; the instance is the one
  that matters to a user of the pass: the code of the program stays.
\<close>

section \<open>Keeping a relation\<close>

locale code_keeper =
  fixes im :: "'s mechanism" and R :: "'s \<Rightarrow> 's \<Rightarrow> bool"
  assumes R_refl: "R s s"
    and R_trans: "R s t \<Longrightarrow> R t u \<Longrightarrow> R s u"
    and R_insertWitnesses: "im_insertWitnesses im T s = Inr (T', s') \<Longrightarrow> R s s'"
    and R_getRelocatedClone: "im_getRelocatedClone im w loc s = Inr (w', s') \<Longrightarrow> R s s'"
    and R_getWitnessPhi: "im_getWitnessPhi im phi s = Inr (w', s') \<Longrightarrow> R s s'"
    and R_addIncomingWitnessToPhi: "im_addIncomingWitnessToPhi im p q bb s = Inr s' \<Longrightarrow> R s s'"
    and R_getWitnessSelect: "im_getWitnessSelect im sel p q s = Inr (w', s') \<Longrightarrow> R s s'"
    and R_materializeBounds: "im_materializeBounds im T s = Inr s' \<Longrightarrow> R s s'"
    and R_insertCheck: "im_insertCheck im T s = Inr s' \<Longrightarrow> R s s'"
begin

definition RW :: "'s wstate \<Rightarrow> 's wstate \<Rightarrow> bool" where
  "RW gs gs' \<longleftrightarrow> R (snd gs) (snd gs')"

lemma RW_refl [simp]: "RW gs gs"
  by (simp add: RW_def R_refl)

lemma RW_trans: "RW a b \<Longrightarrow> RW b c \<Longrightarrow> RW a c"
  unfolding RW_def by (rule R_trans)

lemma RW_update: "ws_update n f gs = Inr gs' \<Longrightarrow> snd gs' = snd gs"
  by (auto simp: ws_update_def bindE_eq_Inr)

definition rec_keeps :: "(nid \<Rightarrow> 's wstate \<Rightarrow> 's wstate res) \<Rightarrow> bool" where
  "rec_keeps rec \<longleftrightarrow> (\<forall>n gs gs'. rec n gs = Inr gs' \<longrightarrow> RW gs gs')"

lemma rec_keepsD: "rec_keeps rec \<Longrightarrow> rec n gs = Inr gs' \<Longrightarrow> RW gs gs'"
  by (simp only: rec_keeps_def)

lemma fold_keeps:
  assumes "foldE f xs a = Inr b" and "\<And>x c d. f x c = Inr d \<Longrightarrow> RW (p c) (p d)"
  shows "RW (p a) (p b)"
proof (rule foldE_rel [OF assms(1), where R = "\<lambda>a b. RW (p a) (p b)"])
  show "RW (p c) (p d)" if "f x c = Inr d" for x c d using that by (rule assms(2))
  show "RW (p a) (p c)" if "RW (p a) (p b)" "RW (p b) (p c)" for a b c using that by (rule RW_trans)
qed simp

lemma cw_insert_keeps: "cw_insert im n gs = Inr gs' \<Longrightarrow> RW gs gs'"
  by (auto simp: cw_insert_def bindE_eq_Inr RW_def dest!: R_insertWitnesses RW_update)

lemma cw_call_keeps:
  assumes rec: "rec_keeps rec" and r: "cw_call rec n args reqs gs = Inr gs'"
  shows "RW gs gs'"
proof -
  let ?f = "\<lambda>requirement (witnesses, gs).
        bindE (rec requirement gs) (\<lambda>gs1.
        bindE (ws_target gs1 requirement) (\<lambda>R.
        bindE (getSingleBoundWitness R) (\<lambda>witness.
        bindE (getInstrumentee R) (\<lambda>v.
        let witnesses' = call_witnesses args v witness witnesses in
        bindE (ws_update n (setBoundWitnesses witnesses') gs1) (\<lambda>gs2.
        Inr (witnesses', gs2))))))"
  from r obtain b where b: "foldE ?f reqs ([], gs) = Inr b" "snd b = gs'"
    by (auto simp: cw_call_def bindE_eq_Inr)
  have "RW (snd (([], gs) :: witness_map \<times> 's wstate)) (snd b)"
  proof (rule fold_keeps [OF b(1)])
    fix x :: nid and c d :: "witness_map \<times> 's wstate"
    assume "?f x c = Inr d"
    then obtain gs1 where "rec x (snd c) = Inr gs1" "snd (snd d) = snd gs1"
      by (auto simp: case_prod_unfold bindE_eq_Inr Let_def dest: RW_update)
    with rec_keepsD [OF rec] show "RW (snd c) (snd d)" by (auto simp: RW_def)
  qed
  with b(2) show ?thesis by simp
qed

lemma clone_keeps:
  assumes "clone_witnesses im loc ws s = Inr (ws', s')"
  shows "R s s'"
proof -
  have "R (snd (([], s) :: witness_map \<times> 's)) (snd (ws', s'))"
    by (rule foldE_rel [OF assms [unfolded clone_witnesses_def], where R = "\<lambda>a b. R (snd a) (snd b)"])
      (auto simp: R_refl bindE_eq_Inr case_prod_unfold split: option.splits intro: R_trans R_getRelocatedClone)
  then show ?thesis by simp
qed

lemma cw_single_keeps:
  assumes rec: "rec_keeps rec" and r: "cw_single noShare im m rec n k gs = Inr gs'"
  shows "RW gs gs'"
proof -
  from r obtain gs1 where gs1: "rec k gs = Inr gs1" and "RW gs1 gs'"
    by (auto simp: cw_single_def bindE_eq_Inr RW_def R_refl split: if_splits dest!: RW_update dest: clone_keeps)
  with rec_keepsD [OF rec gs1] show ?thesis by (blast intro: RW_trans)
qed

lemma cw_insertvalue_keeps:
  assumes rec: "rec_keeps rec" and r: "cw_insertvalue rec n v is reqs gs = Inr gs'"
  shows "RW gs gs'"
proof -
  from r obtain gs1 where gs1: "foldE rec reqs gs = Inr gs1" and "snd gs' = snd gs1"
    by (auto simp: cw_insertvalue_def bindE_eq_Inr Let_def dest!: RW_update)
  moreover have "RW gs gs1"
    by (rule fold_keeps [OF gs1, where p = "\<lambda>x. x"]) (rule rec_keepsD [OF rec])
  ultimately show ?thesis by (simp add: RW_def)
qed

lemma cw_select_keeps:
  assumes rec: "rec_keeps rec" and r: "cw_select im rec n v reqs gs = Inr gs'"
  shows "RW gs gs'"
proof -
  from r obtain gs1 ws1 T2 where gs1: "foldE rec reqs gs = Inr gs1"
    and loop: "foldE (\<lambda>(k, wt1) gs.
        bindE (getBoundWitness T2 k) (\<lambda>wt2.
        bindE (im_getWitnessSelect im v wt1 wt2 (snd gs)) (\<lambda>(w, s).
        ws_update n (setBoundWitness (Some w) k) (fst gs, s)))) ws1 gs1 = Inr gs'"
    by (auto simp: cw_select_def bindE_eq_Inr)
  have 1: "RW gs gs1"
    by (rule fold_keeps [OF gs1, where p = "\<lambda>x. x"]) (rule rec_keepsD [OF rec])
  have 2: "RW gs1 gs'"
    by (rule fold_keeps [OF loop, where p = "\<lambda>x. x"])
      (auto simp: bindE_eq_Inr RW_def dest!: RW_update R_getWitnessSelect)
  from 1 2 show ?thesis by (rule RW_trans)
qed

lemma cw_phi_keeps:
  assumes rec: "rec_keeps rec" and r: "cw_phi im m rec n phi incoming reqs gs = Inr gs'"
  shows "RW gs gs'"
proof -
  let ?add = "\<lambda>bb (k, w) gs.
          bindE (ws_target gs n) (\<lambda>T.
          bindE (getBoundWitness T k) (\<lambda>phiWitness.
          bindE (im_addIncomingWitnessToPhi im phiWitness w bb (snd gs)) (\<lambda>s.
          Inr (fst gs, s))))"
  let ?step = "\<lambda>(reqNode, bb) gs.
        bindE (rec reqNode gs) (\<lambda>gs2.
        bindE (ws_target gs2 reqNode) (\<lambda>R.
        bindE (getBoundWitnesses R) (\<lambda>ws. foldE (?add bb) ws gs2)))"
  from r obtain gs1 indices where
    1: "foldE (\<lambda>index gs.
        bindE (im_getWitnessPhi im phi (snd gs)) (\<lambda>(w, s).
        ws_update n (setBoundWitness (Some w) index) (fst gs, s))) indices gs = Inr gs1"
    and 2: "foldE ?step (zip reqs (map snd incoming)) gs1 = Inr gs'"
    by (auto simp: cw_phi_def bindE_eq_Inr)
  have add: "RW a b" if "foldE (?add bb) ws a = Inr b" for ws bb a b
    by (rule fold_keeps [OF that, where p = "\<lambda>x. x"])
      (auto simp: bindE_eq_Inr RW_def dest: R_addIncomingWitnessToPhi)
  have "RW gs gs1"
    by (rule fold_keeps [OF 1, where p = "\<lambda>x. x"])
      (auto simp: bindE_eq_Inr RW_def dest!: RW_update R_getWitnessPhi)
  moreover have "RW gs1 gs'"
  proof (rule fold_keeps [OF 2, where p = "\<lambda>x. x"])
    fix x and c d :: "'s wstate"
    assume "?step x c = Inr d"
    then obtain gs2 ws where "rec (fst x) c = Inr gs2" "foldE (?add (snd x)) ws gs2 = Inr d"
      by (auto simp: case_prod_unfold bindE_eq_Inr)
    with rec_keepsD [OF rec] add RW_trans show "RW c d" by blast
  qed
  ultimately show ?thesis by (rule RW_trans)
qed

lemma body_keeps:
  assumes rec: "rec_keeps rec"
  shows "rec_keeps (createWitness_body noShare im m rec)"
  unfolding rec_keeps_def
proof (intro allI impI)
  fix n gs gs' assume r: "createWitness_body noShare im m rec n gs = Inr gs'"
  have many: "RW gs gs'" if "cw_many im m rec n T reqs gs = Inr gs'" for T reqs
  proof -
    from that obtain v i where "(case i of
           InsertValue _ valOp indices \<Rightarrow> cw_insertvalue rec n valOp indices reqs gs
         | PHI incoming \<Rightarrow> cw_phi im m rec n v incoming reqs gs
         | Select _ _ _ \<Rightarrow> cw_select im rec n v reqs gs
         | _ \<Rightarrow> Inl (UnreachableReached ''Invalid Node'')) = Inr gs'"
      by (auto simp: cw_many_def bindE_eq_Inr split: option.splits)
    then show ?thesis
      by (cases i) (simp_all add: cw_insertvalue_keeps [OF rec] cw_phi_keeps [OF rec] cw_select_keeps [OF rec])
  qed
  show "RW gs gs'"
    using r
    by (auto simp: createWitness_body_def bindE_eq_Inr split: if_splits list.splits
        intro: cw_insert_keeps cw_call_keeps [OF rec] cw_single_keeps [OF rec] many)
qed

lemma createWitness_keeps: "rec_keeps (createWitness fuel noShare im m)"
proof (induction fuel)
  case (Suc f)
  then have "rec_keeps (createWitness_body noShare im m (createWitness f noShare im m))" by (rule body_keeps)
  then show ?case by (simp add: rec_keeps_def)
qed (simp add: rec_keeps_def)

lemma createWitnesses_keeps:
  assumes "createWitnesses fuel noShare im m gs = Inr gs'"
  shows "R (snd gs) (snd gs')"
proof -
  from assms have f: "foldE (createWitness fuel noShare im m) (ExternalNodes (fst gs)) gs = Inr gs'"
    by (auto simp: createWitnesses_def bindE_eq_Inr)
  have "RW gs gs'"
    by (rule fold_keeps [OF f, where p = "\<lambda>x. x"]) (rule rec_keepsD [OF createWitness_keeps])
  then show ?thesis by (simp add: RW_def)
qed

end

section \<open>The code of the program is kept\<close>

text \<open>
  As \<open>only_adds\<close>, but a phi may get further incoming values: that is how the phis of witnesses are
  filled, after they are created.
\<close>

definition kind_kept :: "value_kind \<Rightarrow> value_kind \<Rightarrow> bool" where
  "kind_kept k k' \<longleftrightarrow> k' = k \<or> (\<exists>ins more. k = Inst (PHI ins) \<and> k' = Inst (PHI (ins @ more)))"

definition keeps_code :: "ir \<Rightarrow> ir \<Rightarrow> bool" where
  "keeps_code m m' \<longleftrightarrow>
     next_vid m \<le> next_vid m' \<and>
     (\<forall>v < next_vid m. kind_kept (v_kind (vals m v)) (v_kind (vals m' v)) \<and>
       v_type (vals m' v) = v_type (vals m v) \<and> inst_bb m' v = inst_bb m v) \<and>
     (fresh_ids m \<longrightarrow> fresh_ids m' \<and>
       (\<forall>b. filter (\<lambda>v. v < next_vid m) (bb_insts m' b) = bb_insts m b))"

lemma kind_kept_refl [simp]: "kind_kept k k"
  by (simp add: kind_kept_def)

lemma kind_kept_trans: "kind_kept a b \<Longrightarrow> kind_kept b c \<Longrightarrow> kind_kept a c"
  unfolding kind_kept_def by auto

lemma only_adds_keeps: "only_adds m m' \<Longrightarrow> keeps_code m m'"
  by (simp add: only_adds_def keeps_code_def)

lemma keeps_code_trans:
  assumes "keeps_code m m1" and "keeps_code m1 m2"
  shows "keeps_code m m2"
  unfolding keeps_code_def
proof (intro conjI allI impI)
  note 1 = assms(1) [unfolded keeps_code_def] and 2 = assms(2) [unfolded keeps_code_def]
  show le: "next_vid m \<le> next_vid m2" using 1 2 by linarith
  fix v assume v: "v < next_vid m"
  then have "v < next_vid m1" using 1 by linarith
  with v 1 2 show "v_type (vals m2 v) = v_type (vals m v)" "inst_bb m2 v = inst_bb m v"
    "kind_kept (v_kind (vals m v)) (v_kind (vals m2 v))"
    by (simp_all, metis kind_kept_trans)
next
  note 1 = assms(1) [unfolded keeps_code_def] and 2 = assms(2) [unfolded keeps_code_def]
  assume f: "fresh_ids m"
  then show "fresh_ids m2" using 1 2 by blast
  fix b
  have "filter (\<lambda>v. v < next_vid m) (bb_insts m2 b) =
      filter (\<lambda>v. v < next_vid m) (filter (\<lambda>v. v < next_vid m1) (bb_insts m2 b))"
    using 1 by (auto simp: filter_filter intro!: filter_cong)
  also have "\<dots> = bb_insts m b" using 1 2 f by simp
  finally show "filter (\<lambda>v. v < next_vid m) (bb_insts m2 b) = bb_insts m b" .
qed

text \<open>How a mechanism fills its phis.\<close>

lemma keeps_incoming:
  assumes "get_inst m v = Some (PHI ops)"
  shows "keeps_code m (m\<lparr>vals := (vals m)(v := (vals m v)\<lparr>v_kind := Inst (PHI (ops @ ins))\<rparr>)\<rparr>)"
proof -
  have "v_kind (vals m v) = Inst (PHI ops)" using assms by (auto simp: get_inst_def split: value_kind.splits)
  then show ?thesis by (auto simp: keeps_code_def kind_kept_def fresh_ids_def filter_id_conv)
qed

definition splay_keeps :: "splay_state \<Rightarrow> splay_state \<Rightarrow> bool" where
  "splay_keeps s s' \<longleftrightarrow> keeps_code (sp_mod s) (sp_mod s')"

lemma splay_keepsI: "sp_adds s s' \<Longrightarrow> splay_keeps s s'"
  by (simp add: sp_adds_def splay_keeps_def only_adds_keeps)

lemma splay_phi_adds: "splay_getWitnessPhi phi s = Inr (w, s') \<Longrightarrow> sp_adds s s'"
  by (auto simp: splay_getWitnessPhi_def Let_def sp_adds_def new_witness_def split: prod.splits
      dest: only_adds_emit)

lemma splay_select_adds: "splay_getWitnessSelect sel p q s = Inr (w, s') \<Longrightarrow> sp_adds s s'"
proof -
  assume r: "splay_getWitnessSelect sel p q s = Inr (w, s')"
  then obtain A B :: splay_witness where c: "(case get_inst (sp_mod s) sel of
       Some (Select c _ _) \<Rightarrow>
         (let (newSel, m) = emit_op (Before sel) ''select'' [c, WitnessValue A, WitnessValue B]
                              (Select c (WitnessValue A) (WitnessValue B)) (WitnessType (sp_mod s)) []
                              (sp_mod s)
          in Inr (new_witness newSel sel (s\<lparr>sp_mod := m\<rparr>)))
     | _ \<Rightarrow> Inl (AssertionFailed ''SelectInst'')) = Inr (w, s')"
    by (auto simp: splay_getWitnessSelect_def bindE_eq_Inr)
  from c obtain i where "get_inst (sp_mod s) sel = Some i" by (cases "get_inst (sp_mod s) sel") auto
  with c show ?thesis
    by (cases i) (auto simp: Let_def sp_adds_def new_witness_def split: prod.splits dest: only_adds_emit_op)
qed

lemma splay_clone_adds: "splay_getRelocatedClone w loc s = Inr (w', s') \<Longrightarrow> sp_adds s s'"
  by (auto simp: splay_getRelocatedClone_def bindE_eq_Inr new_witness_def sp_adds_def)

lemma splay_incoming_keeps: "splay_addIncomingWitnessToPhi p q bb s = Inr s' \<Longrightarrow> splay_keeps s s'"
proof -
  assume r: "splay_addIncomingWitnessToPhi p q bb s = Inr s'"
  then obtain P :: splay_witness where c: "(case get_inst (sp_mod s) (WitnessValue P) of
       Some (PHI ops) \<Rightarrow>
         bindE (cast_witness q s) (\<lambda>(_, I).
         Inr (s\<lparr>sp_mod := (sp_mod s)\<lparr>vals := (vals (sp_mod s))(WitnessValue P :=
           (vals (sp_mod s) (WitnessValue P))\<lparr>v_kind := Inst (PHI (ops @ [(WitnessValue I, bb)]))\<rparr>)\<rparr>\<rparr>))
     | _ \<Rightarrow> Inl (AssertionFailed ''cast<PHINode>'')) = Inr s'"
    by (auto simp: splay_addIncomingWitnessToPhi_def bindE_eq_Inr Let_def)
  then obtain i where i: "get_inst (sp_mod s) (WitnessValue P) = Some i"
    by (cases "get_inst (sp_mod s) (WitnessValue P)") auto
  with c obtain ops where ops: "i = PHI ops" by (cases i) auto
  with c i obtain I :: splay_witness where s': "s' = s\<lparr>sp_mod := (sp_mod s)\<lparr>vals := (vals (sp_mod s))(WitnessValue P :=
           (vals (sp_mod s) (WitnessValue P))\<lparr>v_kind := Inst (PHI (ops @ [(WitnessValue I, bb)]))\<rparr>)\<rparr>\<rparr>"
    by (auto simp: bindE_eq_Inr)
  from keeps_incoming [of "sp_mod s" "WitnessValue P" ops "[(WitnessValue I, bb)]"] i ops
  show ?thesis by (simp add: splay_keeps_def s')
qed

lemma splay_insertCheck_adds: "splay_insertCheck T s = Inr s' \<Longrightarrow> sp_adds s s'"
  by (erule splay_insertCheck_steps)
    (auto intro: sp_adds_trans [OF sp_adds_trans [OF sp_cast2_adds check_name_arg_adds] sp_call_adds] simp: insertCallNoName_def)

interpretation splay_code: code_keeper splay_mechanism splay_keeps
proof
  show "splay_keeps s s" for s by (simp add: splay_keeps_def only_adds_keeps)
  show "splay_keeps s u" if "splay_keeps s t" "splay_keeps t u" for s t u
    using that unfolding splay_keeps_def by (rule keeps_code_trans)
qed (auto simp: splay_mechanism_def
    intro: splay_keepsI splay_insertWitnesses_adds splay_phi_adds splay_select_adds splay_clone_adds
      splay_materializeBounds_adds splay_incoming_keeps splay_insertCheck_adds)

end
