(* ===== verification/Replace.thy ===== *)
theory Replace
  imports IR
begin

text \<open>
  The operations of LLVM's \<open>Value\<close> and \<open>Instruction\<close> that rewrite the program in place: the operands of
  an instruction, \<open>replaceAllUsesWith\<close>, \<open>users\<close>, \<open>removeFromParent\<close>, and what they leave alone.
\<close>

section \<open>Operands\<close>

definition map_call :: "(vid \<Rightarrow> vid) \<Rightarrow> call_info \<Rightarrow> call_info" where
  "map_call f c = c\<lparr>called_operand := f (called_operand c), call_args := map f (call_args c)\<rparr>"

fun map_operands :: "(vid \<Rightarrow> vid) \<Rightarrow> instr \<Rightarrow> instr" where
  "map_operands f (Alloca ty n) = Alloca ty (f n)"
| "map_operands f (Load p) = Load (f p)"
| "map_operands f (Store v p) = Store (f v) (f p)"
| "map_operands f (Call c i) = Call (map_call f c) i"
| "map_operands f (Invoke c b) = Invoke (map_call f c) b"
| "map_operands f (Ret v) = Ret (map_option f v)"
| "map_operands f (PHI ins) = PHI (map (\<lambda>(v, b). (f v, b)) ins)"
| "map_operands f (Select c a b) = Select (f c) (f a) (f b)"
| "map_operands f (GetElementPtr p is z) = GetElementPtr (f p) (map f is) z"
| "map_operands f (BitCast v) = BitCast (f v)"
| "map_operands f (IntToPtr v) = IntToPtr (f v)"
| "map_operands f (PtrToInt v) = PtrToInt (f v)"
| "map_operands f (ExtractValue v is) = ExtractValue (f v) is"
| "map_operands f (InsertValue a v is) = InsertValue (f a) (f v) is"
| "map_operands f (Br c) = Br (map_option f c)"
| "map_operands f (OtherInst oper vs) = OtherInst oper (map f vs)"
| "map_operands f (ExtractElement vs) = ExtractElement (map f vs)"
| "map_operands f (InsertElement vs) = InsertElement (map f vs)"
| "map_operands f (ShuffleVector vs) = ShuffleVector (map f vs)"
| "map_operands f (Switch vs) = Switch (map f vs)"
| "map_operands f (Resume vs) = Resume (map f vs)"
| "map_operands f (IndirectBr vs) = IndirectBr (map f vs)"
| "map_operands f (AtomicCmpXchg vs) = AtomicCmpXchg (map f vs)"
| "map_operands f (AtomicRMW vs) = AtomicRMW (map f vs)"
| "map_operands f LandingPad = LandingPad"

fun operands :: "instr \<Rightarrow> vid list" where
  "operands (Alloca ty n) = [n]"
| "operands (Load p) = [p]"
| "operands (Store v p) = [v, p]"
| "operands (Call c i) = called_operand c # call_args c"
| "operands (Invoke c b) = called_operand c # call_args c"
| "operands (Ret v) = (case v of None \<Rightarrow> [] | Some x \<Rightarrow> [x])"
| "operands (PHI ins) = map fst ins"
| "operands (Select c a b) = [c, a, b]"
| "operands (GetElementPtr p is z) = p # is"
| "operands (BitCast v) = [v]"
| "operands (IntToPtr v) = [v]"
| "operands (PtrToInt v) = [v]"
| "operands (ExtractValue v is) = [v]"
| "operands (InsertValue a v is) = [a, v]"
| "operands (Br c) = (case c of None \<Rightarrow> [] | Some x \<Rightarrow> [x])"
| "operands (OtherInst oper vs) = vs"
| "operands (ExtractElement vs) = vs"
| "operands (InsertElement vs) = vs"
| "operands (ShuffleVector vs) = vs"
| "operands (Switch vs) = vs"
| "operands (Resume vs) = vs"
| "operands (IndirectBr vs) = vs"
| "operands (AtomicCmpXchg vs) = vs"
| "operands (AtomicRMW vs) = vs"
| "operands LandingPad = []"

lemma operands_map: "operands (map_operands f i) = map f (operands i)"
  by (cases i) (auto simp: map_call_def split: option.splits)

section \<open>Users\<close>

text \<open>One entry for each use, as \<open>Value::users\<close> gives them. Users are instructions of the module.\<close>

definition uses_in :: "ir \<Rightarrow> vid \<Rightarrow> vid \<Rightarrow> nat" where
  "uses_in m v i = (case get_inst m i of None \<Rightarrow> 0 | Some k \<Rightarrow> count_list (operands k) v)"

definition users :: "ir \<Rightarrow> vid \<Rightarrow> vid list" where
  "users m v = use_order m (concat (map (\<lambda>i. replicate (uses_in m v i) i) (all_insts m)))"

definition uses_ok :: "ir \<Rightarrow> bool" where
  "uses_ok m \<longleftrightarrow> (\<forall>us. set (use_order m us) = set us)"

lemma uses_in_pos: "0 < uses_in m v i \<longleftrightarrow> (\<exists>k. get_inst m i = Some k \<and> v \<in> set (operands k))"
proof -
  have "0 < count_list xs v \<longleftrightarrow> v \<in> set xs" for xs using count_list_0_iff [of xs v] by auto
  then show ?thesis by (auto simp: uses_in_def split: option.splits)
qed

lemma set_users:
  "uses_ok m \<Longrightarrow> set (users m v) = {i \<in> set (all_insts m). \<exists>k. get_inst m i = Some k \<and> v \<in> set (operands k)}"
  by (auto simp: users_def uses_ok_def uses_in_pos)

lemma users_empty: "uses_ok m \<Longrightarrow> users m v = [] \<longleftrightarrow> (\<forall>i \<in> set (all_insts m). \<forall>k. get_inst m i = Some k \<longrightarrow> v \<notin> set (operands k))"
  using set_users [of m v] by (auto simp flip: set_empty)

section \<open>Replacing and removing\<close>

definition replace_uses :: "vid \<Rightarrow> vid \<Rightarrow> ir \<Rightarrow> ir" where
  "replace_uses old new m =
     m\<lparr>vals := (\<lambda>v. (vals m v)\<lparr>v_kind :=
         (case v_kind (vals m v) of
            Inst i \<Rightarrow> Inst (map_operands (\<lambda>x. if x = old then new else x) i) | k \<Rightarrow> k)\<rparr>)\<rparr>"

definition remove_from_parent :: "vid \<Rightarrow> ir \<Rightarrow> ir" where
  "remove_from_parent v m =
     m\<lparr>bb_insts := (bb_insts m)(inst_bb m v := filter (\<lambda>x. x \<noteq> v) (bb_insts m (inst_bb m v)))\<rparr>"

lemma replace_uses_kind:
  "get_inst (replace_uses old new m) v = map_option (map_operands (\<lambda>x. if x = old then new else x)) (get_inst m v)"
  by (simp add: replace_uses_def get_inst_def split: value_kind.splits)

lemma no_use_left:
  assumes "new \<noteq> old" and "get_inst (replace_uses old new m) v = Some i"
  shows "old \<notin> set (operands i)"
proof -
  from assms(2) obtain j where "i = map_operands (\<lambda>x. if x = old then new else x) j"
    by (auto simp: replace_uses_kind)
  with assms(1) show ?thesis by (auto simp: operands_map)
qed

lemma replace_uses_fields [simp]:
  "bb_insts (replace_uses old new m) = bb_insts m" "inst_bb (replace_uses old new m) = inst_bb m"
  "next_vid (replace_uses old new m) = next_vid m"
  by (simp_all add: replace_uses_def)

lemma remove_fields [simp]:
  "vals (remove_from_parent v m) = vals m" "next_vid (remove_from_parent v m) = next_vid m"
  "bb_insts (remove_from_parent v m) = (bb_insts m)(inst_bb m v := filter (\<lambda>x. x \<noteq> v) (bb_insts m (inst_bb m v)))"
  "get_inst (remove_from_parent v m) x = get_inst m x"
  by (simp_all add: remove_from_parent_def get_inst_def)

end
