(* ===== verification/Worklist.thy ===== *)
theory Worklist
  imports Prelude
begin

text \<open>
  The depth-first searches of \<open>Setup.cpp\<close>: a stack of items, a set of items already seen, a test that
  ends the search and the items to push. The stack is a list whose head is the back of the vector. The
  search ends when the fuel exceeds \<open>search_bound\<close>, and then finds an item exactly if one is reachable.
\<close>

fun search :: "('a \<Rightarrow> bool res) \<Rightarrow> ('a \<Rightarrow> 'a list) \<Rightarrow> nat \<Rightarrow> 'a list \<Rightarrow> 'a list \<Rightarrow> 'a option res" where
  "search found push fuel [] seen = Inr None"
| "search found push 0 (item # workList) seen = Inl OutOfFuel"
| "search found push (Suc n) (item # workList) seen =
     (if item \<in> set seen then search found push n workList seen
      else bindE (found item) (\<lambda>f.
        if f then Inr (Some item)
        else search found push n (rev (push item) @ workList) (item # seen)))"

definition search_bound :: "('a \<Rightarrow> 'a list) \<Rightarrow> 'a set \<Rightarrow> 'a list \<Rightarrow> 'a list \<Rightarrow> nat" where
  "search_bound push U workList seen = length workList + (\<Sum>x \<in> U - set seen. Suc (length (push x)))"

inductive reaches :: "('a \<Rightarrow> 'a list) \<Rightarrow> 'a \<Rightarrow> 'a \<Rightarrow> bool" for push where
  reaches_refl: "reaches push x x"
| reaches_step: "reaches push x y \<Longrightarrow> z \<in> set (push y) \<Longrightarrow> reaches push x z"

inductive_simps reaches_simps: "reaches push x y"

lemma reaches_first: "y \<in> set (push x) \<Longrightarrow> reaches push y z \<Longrightarrow> reaches push x z"
proof (rotate_tac, induction rule: reaches.induct)
  case (reaches_refl y)
  then show ?case by (rule reaches_step [OF reaches.reaches_refl])
next
  case (reaches_step y w z)
  then show ?case by (blast intro: reaches.reaches_step)
qed

lemma reaches_rtranclp: "reaches push x y \<Longrightarrow> (\<lambda>a b. b \<in> set (push a))\<^sup>*\<^sup>* x y"
  by (induction rule: reaches.induct) (auto intro: rtranclp.rtrancl_into_rtrancl)

lemma reaches_induct_first:
  assumes "reaches push x y" and "P y" and "\<And>a b. b \<in> set (push a) \<Longrightarrow> P b \<Longrightarrow> P a"
  shows "P x"
  using reaches_rtranclp [OF assms(1)] by (induction rule: converse_rtranclp_induct) (use assms(2,3) in auto)

section \<open>The search ends\<close>

lemma search_bound_step:
  assumes "finite U" and "item \<in> U" and "item \<notin> set seen"
  shows "search_bound push U (rev (push item) @ workList) (item # seen) < search_bound push U (item # workList) seen"
proof -
  have U: "U - set seen = insert item (U - set (item # seen))" using assms by auto
  have "finite (U - set (item # seen))" using assms(1) by simp
  then have "(\<Sum>x \<in> U - set seen. Suc (length (push x))) =
      Suc (length (push item)) + (\<Sum>x \<in> U - set (item # seen). Suc (length (push x)))"
    unfolding U by (subst sum.insert) auto
  then show ?thesis by (simp add: search_bound_def)
qed

lemma search_not_stuck:
  assumes "finite U" and "\<And>x. x \<in> U \<Longrightarrow> set (push x) \<subseteq> U" and "\<And>x. x \<in> U \<Longrightarrow> found x \<noteq> Inl OutOfFuel"
    and "set workList \<subseteq> U" and "search_bound push U workList seen \<le> fuel"
  shows "search found push fuel workList seen \<noteq> Inl OutOfFuel"
  using assms(4,5)
proof (induction fuel arbitrary: workList seen)
  case 0
  then show ?case by (cases workList) (auto simp: search_bound_def)
next
  case (Suc n)
  show ?case
  proof (cases workList)
    case (Cons item wl)
    with Suc.prems have U: "item \<in> U" "set wl \<subseteq> U" by auto
    show ?thesis
    proof (cases "item \<in> set seen")
      case True
      with Suc Cons U show ?thesis by (simp add: search_bound_def)
    next
      case False
      have "search_bound push U (rev (push item) @ wl) (item # seen) \<le> n"
        using search_bound_step [OF assms(1) U(1) False, of push wl] Suc.prems(2) unfolding Cons by linarith
      then have "search found push n (rev (push item) @ wl) (item # seen) \<noteq> Inl OutOfFuel"
        using assms(2) [OF U(1)] U(2) by (intro Suc.IH) auto
      with assms(3) [OF U(1)] False Cons show ?thesis by (cases "found item") auto
    qed
  qed simp
qed

section \<open>What the search finds\<close>

lemma search_found:
  "search found push fuel workList seen = Inr (Some x) \<Longrightarrow>
    found x = Inr True \<and> (\<exists>w \<in> set workList. reaches push w x)"
proof (induction found push fuel workList seen rule: search.induct)
  case (3 found push n item workList seen)
  show ?case
  proof (cases "item \<in> set seen")
    case True
    with 3 show ?thesis by auto
  next
    case False
    with 3(3) obtain f where f: "found item = Inr f" by (auto simp: bindE_eq_Inr)
    show ?thesis
    proof (cases f)
      case True
      with 3(3) f False show ?thesis by (auto intro: reaches_refl)
    next
      case nf: False
      with 3 f False have "found x = Inr True \<and> (\<exists>w \<in> set (rev (push item) @ workList). reaches push w x)" by simp
      then show ?thesis using reaches_first by fastforce
    qed
  qed
qed simp_all

lemma search_error:
  "search found push fuel workList seen = Inl e \<Longrightarrow>
    e = OutOfFuel \<or> (\<exists>w \<in> set workList. \<exists>x. reaches push w x \<and> found x = Inl e)"
proof (induction found push fuel workList seen rule: search.induct)
  case (3 found push n item workList seen)
  show ?case
  proof (cases "item \<in> set seen")
    case True
    with 3 show ?thesis by auto
  next
    case False
    show ?thesis
    proof (cases "found item")
      case (Inl e')
      with 3(3) False show ?thesis by (auto intro: reaches_refl)
    next
      case (Inr f)
      with 3 False have "e = OutOfFuel \<or> (\<exists>w \<in> set (rev (push item) @ workList). \<exists>x. reaches push w x \<and> found x = Inl e)"
        by (simp split: if_splits)
      then show ?thesis using reaches_first by fastforce
    qed
  qed
qed simp_all

text \<open>The items seen are closed under \<open>push\<close> up to the work list.\<close>

definition frontier :: "('a \<Rightarrow> bool res) \<Rightarrow> ('a \<Rightarrow> 'a list) \<Rightarrow> 'a list \<Rightarrow> 'a list \<Rightarrow> bool" where
  "frontier found push workList seen \<longleftrightarrow>
     (\<forall>x \<in> set seen. found x = Inr False \<and> set (push x) \<subseteq> set seen \<union> set workList)"

lemma frontier_Nil [simp]: "frontier found push workList []"
  by (simp add: frontier_def)

lemma frontier_closed:
  assumes "frontier found push [] seen" and "x \<in> set seen" and "reaches push x y"
  shows "y \<in> set seen"
  using assms(3,2) by induction (use assms(1) in \<open>auto simp: frontier_def\<close>)

lemma search_exhausted:
  "search found push fuel workList seen = Inr None \<Longrightarrow> frontier found push workList seen \<Longrightarrow>
    \<exists>seen'. set workList \<union> set seen \<subseteq> set seen' \<and> frontier found push [] seen'"
proof (induction found push fuel workList seen rule: search.induct)
  case (3 found push n item workList seen)
  show ?case
  proof (cases "item \<in> set seen")
    case True
    with 3(4) have "frontier found push workList seen" by (auto simp: frontier_def)
    with 3 True show ?thesis by auto
  next
    case False
    with 3(3) obtain f where f: "found item = Inr f" by (auto simp: bindE_eq_Inr)
    with 3(3) False have nf: "\<not> f" "search found push n (rev (push item) @ workList) (item # seen) = Inr None"
      by (auto split: if_splits)
    have "frontier found push (rev (push item) @ workList) (item # seen)"
      using 3(4) f nf(1) by (auto simp: frontier_def)
    from 3(2) [OF False f nf(1) nf(2) this] show ?thesis by auto
  qed
qed auto

lemma search_none:
  assumes "search found push fuel workList [] = Inr None" and "w \<in> set workList" and "reaches push w x"
  shows "found x = Inr False"
proof -
  obtain seen where s: "set workList \<subseteq> set seen" "frontier found push [] seen"
    using search_exhausted [OF assms(1)] by auto
  have "x \<in> set seen" by (rule frontier_closed [OF s(2) _ assms(3)]) (use s(1) assms(2) in blast)
  with s(2) show ?thesis by (simp add: frontier_def)
qed

end
