(* ===== verification/Setup.thy ===== *)
theory Setup
  imports Attributes Builder Replace Worklist
begin

text \<open>
  \<open>lib/pass/Setup.cpp\<close>: what is done to the module before the mechanism sets itself up: lifetime
  markers are removed, accesses are labelled, the code that manages variable arguments is marked,
  pointers that are loaded and stored as integers are made visible, arguments passed by value are
  copied at the call site and the functions of a given file are marked. The state is the module and,
  for the arguments passed by value, the attributes of functions and calls. Sets and maps of pointers
  are ordered by address, so their order is an option (\<open>address_order\<close>). Counters are left out.
\<close>

record setup_options =
  KeepLifeTimeIntrinsics :: bool
  LabelAccesses :: bool
  NoTransformObfuscatedPointer :: bool
  NoConvertByValArgs :: bool
  FunctionsToSkip :: string
  skip_file :: "string option"
  address_order :: "vid list \<Rightarrow> vid list"

section \<open>Lifetime markers\<close>

definition remove_lifetime_in :: "bbid \<Rightarrow> ir \<Rightarrow> ir" where
  "remove_lifetime_in bb m =
     m\<lparr>bb_insts := (bb_insts m)(bb := filter (\<lambda>i. \<not> isLifeTimeIntrinsic m i) (bb_insts m bb))\<rparr>"

definition removeLifeTimeIntrinsics :: "vid \<Rightarrow> ir \<Rightarrow> ir" where
  "removeLifeTimeIntrinsics F m = fold remove_lifetime_in (fun_blocks m F) m"

section \<open>Variable arguments\<close>

definition isVarArgIntrinsic :: "ir \<Rightarrow> vid \<Rightarrow> bool" where
  "isVarArgIntrinsic m inst =
     (case get_intrinsic m inst of
        Some IntrVastart \<Rightarrow> True
      | Some IntrVacopy \<Rightarrow> True
      | Some IntrVaend \<Rightarrow> True
      | _ \<Rightarrow> False)"

definition vararg_load :: "vid \<Rightarrow> nat \<Rightarrow> ir \<Rightarrow> (nat \<times> ir) res" where
  "vararg_load entry propLevel m =
     (if is_load m entry then
        bindE (assertE (propLevel > 0) ''propLevel > 0'') (\<lambda>_.
        if propLevel - 1 = 0 then bindE (setVarArgLoadArg entry m) (\<lambda>m'. Inr (0, m'))
        else Inr (propLevel - 1, m))
      else Inr (propLevel, m))"

text \<open>One round of the loop, on the entry that was popped; the head of the list is the back of the vector.\<close>

definition vararg_step :: "vid \<Rightarrow> nat \<Rightarrow> (vid \<times> nat) list \<Rightarrow> ir \<Rightarrow> ((vid \<times> nat) list \<times> ir) res" where
  "vararg_step entry propLevel worklist m =
     (if get_intrinsic m entry \<noteq> None then
        (if isVarArgIntrinsic m entry then bindE (setVarArgHandling entry m) (\<lambda>m1. Inr (worklist, m1))
         else Inr (worklist, m))
      else if get_call m entry \<noteq> None then Inr (worklist, m)
      else if hasNoInstrument m entry \<or> hasVarArgHandling m entry then Inr (worklist, m)
      else
        bindE (setVarArgHandling entry m) (\<lambda>m1.
        bindE (vararg_load entry propLevel m1) (\<lambda>(level, m2).
        if level = 0 then Inr (worklist, m2)
        else Inr (rev (map (\<lambda>u. (u, level)) (users m2 entry)) @ worklist, m2))))"

fun vararg_loop :: "nat \<Rightarrow> (vid \<times> nat) list \<Rightarrow> ir \<Rightarrow> ir res" where
  "vararg_loop fuel [] m = Inr m"
| "vararg_loop 0 (e # worklist) m = Inl OutOfFuel"
| "vararg_loop (Suc n) ((entry, propLevel) # worklist) m =
     bindE (vararg_step entry propLevel worklist m) (\<lambda>(worklist', m'). vararg_loop n worklist' m')"

definition vararg_init :: "vid \<Rightarrow> (vid \<times> nat) list \<times> ir \<Rightarrow> ((vid \<times> nat) list \<times> ir) res" where
  "vararg_init handle wm =
     (case wm of (worklist, m) \<Rightarrow>
     bindE (if is_instruction m handle then setVarArgHandling handle m else Inr m) (\<lambda>m1.
     Inr (rev (map (\<lambda>u. (u, 2)) (users m1 handle)) @ worklist, m1)))"

definition markVarargInsts :: "nat \<Rightarrow> vid \<Rightarrow> ir \<Rightarrow> (bool \<times> ir) res" where
  "markVarargInsts fuel F m =
     (let handles = getVarArgHandles m F in
      if handles = [] then Inr (False, m)
      else bindE (foldE vararg_init handles ([], m)) (\<lambda>(worklist, m1).
           bindE (vararg_loop fuel worklist m1) (\<lambda>m2. Inr (True, m2))))"

text \<open>The rounds of the loop: the users of the handles, and those of every instruction once.\<close>

definition vararg_fuel :: "ir \<Rightarrow> vid \<Rightarrow> nat" where
  "vararg_fuel m F =
     sum_list (map (\<lambda>h. length (users m h)) (getVarArgHandles m F)) +
     sum_list (map (\<lambda>i. Suc (length (users m i))) (remdups (all_insts m)))"

definition hasUnmarkedVarArgIntrinsic :: "ir \<Rightarrow> vid \<Rightarrow> bool" where
  "hasUnmarkedVarArgIntrinsic m F =
     list_ex (\<lambda>inst. isVarArgIntrinsic m inst \<and> \<not> hasVarArgHandling m inst) (fun_insts m F)"

section \<open>Arguments passed by value\<close>

definition ByVal :: attr where "ByVal = OtherAttr ''byval''"

definition no_attrs :: attr_list where
  "no_attrs = \<lparr>fn_attrs = {}, ret_attrs = {}, param_attrs = []\<rparr>"

definition hasByValArgument :: "attr_map \<Rightarrow> vid \<Rightarrow> bool" where
  "hasByValArgument attrs call = list_ex (\<lambda>p. ByVal \<in> p) (param_attrs (attrs call))"

definition isByValArgument :: "attr_map \<Rightarrow> vid \<Rightarrow> call_info \<Rightarrow> nat \<Rightarrow> bool" where
  "isByValArgument attrs call c i =
     (ByVal \<in> param_attr (attrs call) i \<or>
      (case called_function c of None \<Rightarrow> False | Some f \<Rightarrow> ByVal \<in> param_attr (attrs f) i))"

definition removeParamAttr :: "nat \<Rightarrow> attr_list \<Rightarrow> attr_list" where
  "removeParamAttr i a =
     (if i < length (param_attrs a) then a\<lparr>param_attrs := (param_attrs a)[i := param_attrs a ! i - {ByVal}]\<rparr> else a)"

definition set_call :: "vid \<Rightarrow> call_info \<Rightarrow> ir \<Rightarrow> ir" where
  "set_call inst c m =
     m\<lparr>vals := (vals m)(inst := (vals m inst)\<lparr>v_kind :=
         (case get_inst m inst of
            Some (Call _ i) \<Rightarrow> Inst (Call c i)
          | Some (Invoke _ b) \<Rightarrow> Inst (Invoke c b)
          | _ \<Rightarrow> v_kind (vals m inst))\<rparr>)\<rparr>"

text \<open>\<open>CreateMemCpy\<close>, which casts the pointers to \<open>i8*\<close> first.\<close>

definition create_memcpy :: "ipoint \<Rightarrow> vid \<Rightarrow> vid \<Rightarrow> nat \<Rightarrow> ir \<Rightarrow> vid \<times> ir" where
  "create_memcpy p dst src n m =
     (let i8p = ctx_ty m ''i8*'';
          (d, m1) = emit_op p ''bitcast'' [dst] (BitCast dst) i8p [] m;
          (s, m2) = emit_op p ''bitcast'' [src] (BitCast src) i8p [] m1;
          (fn, m3) = getOrInsertFunction ''llvm.memcpy.p0i8.p0i8.i64'' m2;
          ci = \<lparr>called_operand = fn, called_function = Some fn,
                call_args = [d, s, const_int m (ctx_ty m ''i64'') n, const_int m (ctx_ty m ''i1'') 0]\<rparr>
      in emit p (Call ci (Some IntrMemcpy)) (ctx_ty m ''void'') [] m3)"

definition transform_byval_arg :: "vid \<Rightarrow> nat \<Rightarrow> ir \<times> attr_map \<Rightarrow> (ir \<times> attr_map) res" where
  "transform_byval_arg call i ma =
     (case ma of (m, attrs) \<Rightarrow>
     case get_call m call of
       None \<Rightarrow> Inl NullPointer
     | Some c \<Rightarrow>
         if \<not> isByValArgument attrs call c i then Inr (m, attrs)
         else
           (let callArg = call_args c ! i in
            case val_type m callArg of
              PointerTy elemTy \<Rightarrow>
                bindE (entry_loc m (parent_fun m call)) (\<lambda>ip.
                let (alloc, m1) = emit (Before ip) (Alloca elemTy (const_int m (ctx_ty m ''i32'') 1))
                                    (ptr_to m elemTy) ''byval.alloc'' m;
                    (cpy, m2) = create_memcpy (Before call) alloc callArg (type_alloc_size m elemTy) m1
                in Inr (set_call call (c\<lparr>call_args := (call_args c)[i := alloc]\<rparr>) m2,
                        attrs(cpy := no_attrs, call := removeParamAttr i (attrs call))))
            | _ \<Rightarrow> Inl (AssertionFailed ''callArg->getType()->isPointerTy()'')))"

definition transformCallByValArgs :: "vid \<Rightarrow> ir \<times> attr_map \<Rightarrow> (ir \<times> attr_map) res" where
  "transformCallByValArgs call ma =
     (case get_call (fst ma) call of
        None \<Rightarrow> Inl NullPointer
      | Some c \<Rightarrow> foldE (transform_byval_arg call) [0 ..< length (call_args c)] ma)"

definition is_var_arg_type :: "type_desc \<Rightarrow> bool" where
  "is_var_arg_type t = (case t of FunctionTy _ _ va \<Rightarrow> va | _ \<Rightarrow> False)"

definition call_is_vararg :: "ir \<Rightarrow> call_info \<Rightarrow> bool" where
  "call_is_vararg m c =
     (case val_type m (called_operand c) of
        PointerTy t \<Rightarrow> is_var_arg_type (types m t)
      | t \<Rightarrow> is_var_arg_type t)"

definition transform_byval_call :: "vid \<Rightarrow> ir \<times> attr_map \<Rightarrow> (ir \<times> attr_map) res" where
  "transform_byval_call inst ma =
     (case ma of (m, attrs) \<Rightarrow>
     case get_call m inst of
       None \<Rightarrow> Inr (m, attrs)
     | Some c \<Rightarrow>
         if \<not> hasByValArgument attrs inst then Inr (m, attrs)
         else if call_is_vararg m c then
           Inl (ReportedError (''Function `'' @
             (case called_function c of None \<Rightarrow> ''?'' | Some f \<Rightarrow> v_name (vals m f)) @
             ''` has varargs and byvalue arguments. Safety for these arguments cannot be assured.''))
         else transformCallByValArgs inst (m, attrs))"

definition drop_byval_params :: "vid \<Rightarrow> attr_map \<Rightarrow> attr_map" where
  "drop_byval_params F attrs =
     attrs(F := (attrs F)\<lparr>param_attrs := map (\<lambda>p. p - {ByVal}) (param_attrs (attrs F))\<rparr>)"

definition transform_byval_function :: "vid \<Rightarrow> ir \<times> attr_map \<Rightarrow> (ir \<times> attr_map) res" where
  "transform_byval_function F ma =
     (case ma of (m, attrs) \<Rightarrow>
     let attrs1 = drop_byval_params F attrs in
     if is_declaration m F then Inr (m, attrs1)
     else foldE transform_byval_call (fun_insts m F) (m, attrs1))"

definition transformByValFunctions :: "ir \<times> attr_map \<Rightarrow> (ir \<times> attr_map) res" where
  "transformByValFunctions ma = foldE transform_byval_function (mod_functions (fst ma)) ma"

section \<open>Labels and functions to skip\<close>

definition label_access :: "vid \<Rightarrow> nat \<times> ir \<Rightarrow> nat \<times> ir" where
  "label_access i im =
     (case im of (idx, m) \<Rightarrow> if is_store m i \<or> is_load m i then (Suc idx, setAccessID i idx m) else (idx, m))"

definition labelAccesses :: "vid \<Rightarrow> ir \<Rightarrow> ir" where
  "labelAccesses F m = snd (fold label_access (fun_insts m F) (0, m))"

definition is_space :: "char \<Rightarrow> bool" where
  "is_space c = (c \<in> {CHR 0x20, CHR 0x09, CHR 0x0A, CHR 0x0B, CHR 0x0C, CHR 0x0D})"

definition trim :: "string \<Rightarrow> string" where
  "trim s = rev (dropWhile is_space (rev (dropWhile is_space s)))"

fun split_lines :: "string \<Rightarrow> string list" where
  "split_lines [] = [[]]"
| "split_lines (c # cs) =
     (if c = CHR 0x0A then [] # split_lines cs
      else (case split_lines cs of [] \<Rightarrow> [[c]] | l # ls \<Rightarrow> (c # l) # ls))"

text \<open>The lines of the file, without blank lines and those that start with the comment marker.\<close>

definition names_to_skip :: "string \<Rightarrow> string list" where
  "names_to_skip content = map trim (filter (\<lambda>l. l \<noteq> [] \<and> hd l \<noteq> CHR 0x23) (split_lines content))"

definition markFunctionsToSkip :: "setup_options \<Rightarrow> ir \<Rightarrow> ir res" where
  "markFunctionsToSkip opts m =
     (if FunctionsToSkip opts = [] then Inr m
      else
        (case skip_file opts of
           None \<Rightarrow> Inr m
         | Some content \<Rightarrow>
             (let toIgnore = names_to_skip content in
              foldE (\<lambda>F m. if is_declaration m F then Inr m
                           else if v_name (vals m F) = [] then Inr m
                           else if v_name (vals m F) \<in> set toIgnore then setNoInstrument F m
                           else Inr m) (mod_functions m) m)))"

end
