(* ===== verification/Deobfuscate.thy ===== *)
theory Deobfuscate
  imports Setup
begin

text \<open>
  The second half of \<open>lib/pass/Setup.cpp\<close>: pointers that the program loads and stores as integers
  (\<open>transformPointerObfuscations\<close>), and \<open>prepareModule\<close>, which runs all steps. Deleted instructions are
  recorded, since the code keeps pointers to them in its sets.
\<close>

section \<open>Queries\<close>

definition isPtrToPtrTy :: "ir \<Rightarrow> tyid \<Rightarrow> bool" where
  "isPtrToPtrTy m ty = (case types m ty of PointerTy e \<Rightarrow> is_pointer_ty (types m e) | _ \<Rightarrow> False)"

definition isUserWithCastingPotential :: "ir \<Rightarrow> vid \<Rightarrow> bool" where
  "isUserWithCastingPotential m v =
     (case get_inst m v of
        Some (IntToPtr _) \<Rightarrow> True
      | Some (BitCast _) \<Rightarrow> True
      | Some (PHI _) \<Rightarrow> True
      | _ \<Rightarrow> False)"

abbreviation ty_of :: "ir \<Rightarrow> vid \<Rightarrow> tyid" where
  "ty_of m v \<equiv> v_type (vals m v)"

definition cast_source_is_ptr :: "ir \<Rightarrow> vid \<Rightarrow> bool" where
  "cast_source_is_ptr m ptrOp =
     (case get_inst m ptrOp of
        Some (BitCast src) \<Rightarrow>
          isPtrToPtrTy m (ty_of m src) \<or>
          list_ex (\<lambda>u. isUserWithCastingPotential m u \<and> isPtrToPtrTy m (ty_of m u)) (users m src)
      | _ \<Rightarrow> False)"

definition user_casts_to_ptr :: "ir \<Rightarrow> vid \<Rightarrow> bool" where
  "user_casts_to_ptr m ptrOp =
     list_ex (\<lambda>u. case get_inst m u of Some (BitCast src) \<Rightarrow> isPtrToPtrTy m (ty_of m src) | _ \<Rightarrow> False)
       (users m ptrOp)"

definition valCastedBeforeLoad :: "ir \<Rightarrow> vid \<Rightarrow> bool" where
  "valCastedBeforeLoad m inst =
     (case get_inst m inst of
        Some (Load ptrOp) \<Rightarrow> cast_source_is_ptr m ptrOp \<or> user_casts_to_ptr m ptrOp
      | _ \<Rightarrow> False)"

definition is_int_to_ptr :: "ir \<Rightarrow> vid \<Rightarrow> bool" where
  "is_int_to_ptr m v = (case get_inst m v of Some (IntToPtr _) \<Rightarrow> True | _ \<Rightarrow> False)"

definition casting_users :: "ir \<Rightarrow> vid \<Rightarrow> vid list" where
  "casting_users m v = filter (isUserWithCastingPotential m) (users m v)"

definition push_users :: "ir \<Rightarrow> vid \<Rightarrow> vid list" where
  "push_users m item =
     (case get_inst m item of
        Some (PHI _) \<Rightarrow> [item]
      | Some (BitCast _) \<Rightarrow> casting_users m item
      | _ \<Rightarrow> [])"

text \<open>Enough rounds for the searches below: every instruction is seen once.\<close>

definition search_fuel :: "(vid \<Rightarrow> vid list) \<Rightarrow> ir \<Rightarrow> vid list \<Rightarrow> nat" where
  "search_fuel push m workList =
     length workList + sum_list (map (\<lambda>x. Suc (length (push x))) (remdups (workList @ all_insts m)))"

definition valIsActuallyPtr :: "ir \<Rightarrow> vid \<Rightarrow> bool res" where
  "valIsActuallyPtr m inst =
     bindE (assertE (case val_type m inst of IntegerTy _ \<Rightarrow> True | _ \<Rightarrow> False) ''inst->getType()->isIntegerTy()'') (\<lambda>_.
     let workList = rev (casting_users m inst) in
     bindE (search (\<lambda>item. Inr (is_int_to_ptr m item)) (push_users m) (search_fuel (push_users m) m workList) workList [])
       (\<lambda>r. Inr (r \<noteq> None)))"

definition is_call_inst :: "ir \<Rightarrow> vid \<Rightarrow> bool" where
  "is_call_inst m v = (case get_inst m v of Some (Call _ _) \<Rightarrow> True | _ \<Rightarrow> False)"

text \<open>Whether the search for a pointer use returns the item.\<close>

definition used_as_ptr :: "ir \<Rightarrow> vid \<Rightarrow> bool res" where
  "used_as_ptr m item =
     (if is_pointer_ty (val_type m item) then Inr True
      else if is_call_inst m item \<or> is_load m item then
        bindE (valIsActuallyPtr m item) (\<lambda>b. Inr (b \<or> is_load m item \<and> valCastedBeforeLoad m item))
      else Inr False)"

definition push_related :: "ir \<Rightarrow> vid \<Rightarrow> vid list" where
  "push_related m item =
     (case get_inst m item of
        Some (BitCast src) \<Rightarrow> src # casting_users m item
      | Some (PHI _) \<Rightarrow> casting_users m item
      | _ \<Rightarrow> [])"

definition bitcast_sources :: "ir \<Rightarrow> vid list" where
  "bitcast_sources m =
     List.map_filter (\<lambda>i. case get_inst m i of Some (BitCast src) \<Rightarrow> Some src | _ \<Rightarrow> None) (all_insts m)"

definition getSrcIfHasUsageAsPtr :: "ir \<Rightarrow> vid \<Rightarrow> vid option res" where
  "getSrcIfHasUsageAsPtr m v =
     search (used_as_ptr m) (push_related m)
       (search_fuel (push_related m) m (v # bitcast_sources m)) [v] []"

definition isIntegerTypeWithPtrWidth :: "ir \<Rightarrow> tyid \<Rightarrow> bool" where
  "isIntegerTypeWithPtrWidth m ty = (types m ty = IntegerTy (ptr_bits m))"

section \<open>Loads\<close>

text \<open>The module and the instructions that were deleted.\<close>

type_synonym dstate = "ir \<times> vid list"

definition createStoreLocationCast :: "ipoint \<Rightarrow> vid \<Rightarrow> tyid \<Rightarrow> ir \<Rightarrow> vid \<times> ir" where
  "createStoreLocationCast p toCast toCastTo m =
     emit_op p ''bitcast'' [toCast] (BitCast toCast) (ptr_to m toCastTo) [] m"

definition mark_deobfuscation :: "vid \<Rightarrow> ir \<Rightarrow> ir res" where
  "mark_deobfuscation v m = (if canHoldMetadata m v then setPointerDeobfuscation v m else Inr m)"

definition replace_in :: "vid \<Rightarrow> vid \<Rightarrow> vid \<Rightarrow> ir \<Rightarrow> ir" where
  "replace_in user old new m =
     m\<lparr>vals := (vals m)(user := (vals m user)\<lparr>v_kind :=
         (case v_kind (vals m user) of
            Inst i \<Rightarrow> Inst (map_operands (\<lambda>x. if x = old then new else x) i) | k \<Rightarrow> k)\<rparr>)\<rparr>"

text \<open>\<open>removeFromParent\<close> and \<open>deleteValue\<close>, which asserts that no use is left.\<close>

definition delete_inst :: "vid \<Rightarrow> dstate \<Rightarrow> dstate res" where
  "delete_inst v md =
     (let m = remove_from_parent v (fst md) in
      bindE (assertE (users m v = []) ''use_empty() && Uses remain when a value is destroyed!'') (\<lambda>_.
      Inr (m, v # snd md)))"

text \<open>What the loop over the users collects: the replacements and the instructions to remove.\<close>

type_synonym replacements = "(vid \<times> vid \<times> vid) list \<times> vid list"

definition deobf_user ::
  "vid \<Rightarrow> vid \<Rightarrow> vid \<Rightarrow> replacements \<times> ir \<Rightarrow> (replacements \<times> ir) res" where
  "deobf_user load ptrLoad user rm =
     (case rm of ((replaceInfo, removeQueue), m) \<Rightarrow>
     bindE (get_next_node m ptrLoad) (\<lambda>ip.
     case get_inst m user of
       Some (IntToPtr _) \<Rightarrow>
         (let ptrTy = ty_of m user in
          bindE (if ptrTy \<noteq> ty_of m ptrLoad then
                   (let (c, m1) = emit_op (Before ip) ''bitcast'' [ptrLoad] (BitCast ptrLoad) ptrTy [] m
                    in bindE (mark_deobfuscation c m1) (\<lambda>m2. Inr (c, m2)))
                 else Inr (ptrLoad, m)) (\<lambda>(toReplaceWith, m2).
          Inr ((replaceInfo @ map (\<lambda>u. (u, user, toReplaceWith)) (users m2 user), removeQueue @ [user]), m2)))
     | Some (Store _ ptrOp) \<Rightarrow>
         (let (storeLoc, m1) = createStoreLocationCast (Before user) ptrOp (ty_of m ptrLoad) m in
          bindE (mark_deobfuscation storeLoc m1) (\<lambda>m2.
          let (store, m3) = emit (Before user) (Store ptrLoad storeLoc) (ctx_ty m ''void'') [] m2 in
          bindE (setPointerDeobfuscation store m3) (\<lambda>m4.
          Inr ((replaceInfo, removeQueue @ [user]), m4))))
     | _ \<Rightarrow>
         (let (ptrToInt, m1) = emit_op (Before ip) ''ptrtoint'' [ptrLoad] (PtrToInt ptrLoad) (ty_of m load) [] m in
          bindE (mark_deobfuscation ptrToInt m1) (\<lambda>m2.
          Inr ((replaceInfo @ [(user, load, ptrToInt)], removeQueue), m2)))))"

definition deobf_ptr_load :: "vid \<Rightarrow> vid \<Rightarrow> ir \<Rightarrow> (vid \<times> ir) res" where
  "deobf_ptr_load load ptrOp m =
     (let i8p = ctx_ty m ''i8*'';
          (ptrToPtrCast, m1) = emit_op (Before load) ''bitcast'' [ptrOp] (BitCast ptrOp) (ptr_to m i8p) [] m
      in bindE (mark_deobfuscation ptrToPtrCast m1) (\<lambda>m2.
         let (ptrLoad, m3) = emit (Before load) (Load ptrToPtrCast) i8p ''mi.deobfuscated.ptr.load'' m2
         in bindE (setPointerDeobfuscation ptrLoad m3) (\<lambda>m4. Inr (ptrLoad, m4))))"

definition in_order :: "setup_options \<Rightarrow> vid list \<Rightarrow> vid list" where
  "in_order opts xs = address_order opts (remdups xs)"

definition transformObfuscatedLoad :: "setup_options \<Rightarrow> vid \<Rightarrow> dstate \<Rightarrow> dstate res" where
  "transformObfuscatedLoad opts load md =
     (case md of (m, deleted) \<Rightarrow>
     case get_inst m load of
       Some (Load ptrOp) \<Rightarrow>
         bindE (deobf_ptr_load load ptrOp m) (\<lambda>(ptrLoad, m1).
         bindE (foldE (deobf_user load ptrLoad) (users m1 load) (([], []), m1)) (\<lambda>((replaceInfo, removeQueue), m2).
         let m3 = fold (\<lambda>(u, old, new). replace_in u old new) replaceInfo m2 in
         bindE (foldE delete_inst (in_order opts removeQueue) (m3, deleted)) (\<lambda>(m4, deleted4).
         bindE (assertE (users m4 load = []) ''load->getNumUses() == 0'') (\<lambda>_.
         delete_inst load (m4, deleted4)))))
     | _ \<Rightarrow> Inl UseAfterFree)"

section \<open>Stores\<close>

definition transformObfuscatedStore :: "vid \<times> vid \<Rightarrow> dstate \<Rightarrow> dstate res" where
  "transformObfuscatedStore sv md =
     (case (sv, md) of ((store, v), (m, deleted)) \<Rightarrow>
     if v \<in> set deleted then Inl UseAfterFree
     else
       bindE (assertE (\<not> is_load m v) ''!isa<LoadInst>(val)'') (\<lambda>_.
       case get_inst m v of
         Some (PtrToInt src) \<Rightarrow>
           (case get_inst m store of
              Some (Store _ ptrOp) \<Rightarrow>
                (let (storeLoc, m1) = createStoreLocationCast (Before store) ptrOp (ty_of m src) m;
                     (_, m2) = emit (Before store) (Store src storeLoc) (ctx_ty m ''void'') [] m1
                 in delete_inst store (m2, deleted))
            | _ \<Rightarrow> Inl UseAfterFree)
       | _ \<Rightarrow> Inr (m, deleted)))"

section \<open>Blocks and functions\<close>

text \<open>The stores (with the value found) and the loads of a block.\<close>

definition collect_obfuscated ::
  "ir \<Rightarrow> vid \<Rightarrow> (vid \<times> vid) list \<times> vid list \<Rightarrow> ((vid \<times> vid) list \<times> vid list) res" where
  "collect_obfuscated m inst sl =
     (case sl of (obfuscatedStores, obfuscatedLoads) \<Rightarrow>
     case get_inst m inst of
       Some (Load _) \<Rightarrow>
         if \<not> isIntegerTypeWithPtrWidth m (ty_of m inst) then Inr sl
         else
           bindE (valIsActuallyPtr m inst) (\<lambda>b.
           Inr (obfuscatedStores, if valCastedBeforeLoad m inst \<or> b then obfuscatedLoads @ [inst] else obfuscatedLoads))
     | Some (Store toBeStored _) \<Rightarrow>
         if \<not> isIntegerTypeWithPtrWidth m (ty_of m toBeStored) then Inr sl
         else
           bindE (getSrcIfHasUsageAsPtr m toBeStored) (\<lambda>found.
           Inr (case found of None \<Rightarrow> obfuscatedStores | Some w \<Rightarrow> obfuscatedStores @ [(inst, w)], obfuscatedLoads))
     | _ \<Rightarrow> Inr sl)"

fun erase_located :: "vid \<Rightarrow> (vid \<times> vid) list \<Rightarrow> (vid \<times> vid) list" where
  "erase_located load [] = []"
| "erase_located load (e # es) = (if snd e = load then es else e # erase_located load es)"

definition by_address :: "setup_options \<Rightarrow> (vid \<times> vid) list \<Rightarrow> (vid \<times> vid) list" where
  "by_address opts es = List.map_filter (\<lambda>s. map_option (\<lambda>w. (s, w)) (map_of es s)) (address_order opts (map fst es))"

definition transform_load :: "setup_options \<Rightarrow> vid \<Rightarrow> (vid \<times> vid) list \<times> dstate \<Rightarrow> ((vid \<times> vid) list \<times> dstate) res" where
  "transform_load opts load ed =
     bindE (transformObfuscatedLoad opts load (snd ed)) (\<lambda>d. Inr (erase_located load (fst ed), d))"

definition transform_block :: "setup_options \<Rightarrow> bbid \<Rightarrow> dstate \<Rightarrow> dstate res" where
  "transform_block opts block md =
     bindE (foldE (collect_obfuscated (fst md)) (bb_insts (fst md) block) ([], [])) (\<lambda>(obfuscatedStores, obfuscatedLoads).
     bindE (foldE (transform_load opts) (address_order opts obfuscatedLoads) (by_address opts obfuscatedStores, md))
       (\<lambda>(stores, md1).
     foldE transformObfuscatedStore stores md1))"

definition transformPointerObfuscations :: "setup_options \<Rightarrow> vid \<Rightarrow> ir \<Rightarrow> ir res" where
  "transformPointerObfuscations opts F m =
     bindE (foldE (transform_block opts) (fun_blocks m F) (m, [])) (\<lambda>(m', _). Inr m')"

section \<open>The whole set-up\<close>

definition prepare_function :: "setup_options \<Rightarrow> vid \<Rightarrow> ir \<Rightarrow> ir res" where
  "prepare_function opts F m =
     (if is_declaration m F then Inr m
      else
        let m1 = (if \<not> KeepLifeTimeIntrinsics opts then removeLifeTimeIntrinsics F m else m);
            m2 = (if LabelAccesses opts then labelAccesses F m1 else m1)
        in bindE (markVarargInsts (vararg_fuel m2 F) F m2) (\<lambda>(_, m3).
           if hasUnmarkedVarArgIntrinsic m3 F then
             Inl (ReportedError ''Some functions use va_lists in an uncommon fashion (stored in a global variable or on the heap). This is currently not supported.'')
           else if \<not> NoTransformObfuscatedPointer opts then transformPointerObfuscations opts F m3
           else Inr m3))"

definition setup_prepareModule :: "setup_options \<Rightarrow> ir \<times> attr_map \<Rightarrow> (ir \<times> attr_map) res" where
  "setup_prepareModule opts ma =
     bindE (foldE (prepare_function opts) (mod_functions (fst ma)) (fst ma)) (\<lambda>m1.
     bindE (if \<not> NoConvertByValArgs opts then transformByValFunctions (m1, snd ma) else Inr (m1, snd ma)) (\<lambda>(m2, attrs).
     bindE (markFunctionsToSkip opts m2) (\<lambda>m3. Inr (m3, attrs))))"

end
