(* ===== verification/Pass.thy ===== *)
theory Pass
  imports Driver KeepCode Deobfuscate
begin

text \<open>
  \<open>MemInstrumentPass::runOnModule\<close> (\<open>lib/pass/MemInstrumentPass.cpp\<close>) and the phases it runs, in
  their order and for every mode. The state is that of the mechanism (with the module), the
  attributes of functions and calls, the counters and the targets. The two operations of PICO, which is a
  submodule, are fields of the configuration. The loops
  run over the functions of the module at their start: what the phases declare on the way has no
  body and is skipped.
\<close>

section \<open>State\<close>

record 's pass_config =
  pc_mode :: mi_mode
  pc_policy :: classifier
  pc_strategy :: "'s strategy"
  pc_mechanism :: "'s mechanism_object"
  selectedOpts :: "optimization list"
  pc_options :: opt_config
  NoInvariantChecks :: bool
  pc_module_name :: string
  pc_setup :: setup_options
  pico_prepareModule :: "'s \<Rightarrow> 's res"
  pico_materialize :: "tid list \<Rightarrow> vid \<Rightarrow> theap \<times> 's \<Rightarrow> (theap \<times> 's) res"

record 's pass_state =
  ps_mech :: 's
  ps_attrs :: attr_map
  ps_stats :: gather_stats
  ps_targets :: opt_state

abbreviation pass_module :: "'s pass_config \<Rightarrow> 's pass_state \<Rightarrow> ir" where
  "pass_module cfg ps \<equiv> mo_module (pc_mechanism cfg) (ps_mech ps)"

definition skip_function :: "ir \<Rightarrow> vid \<Rightarrow> bool" where
  "skip_function m F = (is_declaration m F \<or> hasNoInstrument m F)"

section \<open>Gathering\<close>

definition add_vector :: "vid \<Rightarrow> itarget list \<Rightarrow> opt_state \<Rightarrow> opt_state" where
  "add_vector F ts st =
     (let ids = [o_next st ..< o_next st + length ts]
      in st\<lparr>o_heap := o_heap st ++ map_of (zip ids ts), o_next := o_next st + length ts,
            o_map := omap_set F ids (o_map st)\<rparr>)"

definition gather_function :: "'s pass_config \<Rightarrow> vid \<Rightarrow> 's pass_state \<Rightarrow> 's pass_state res" where
  "gather_function cfg F ps =
     (let m = pass_module cfg ps in
      if skip_function m F then Inr ps
      else bindE (gatherITargets (pc_policy cfg) m F ([], ps_stats ps)) (\<lambda>(ts, stats).
           Inr (ps\<lparr>ps_targets := add_vector F ts (ps_targets ps), ps_stats := stats\<rparr>)))"

section \<open>Code generation for a function\<close>

definition place_opt ::
  "'s pass_config \<Rightarrow> opt_state \<Rightarrow> vid \<Rightarrow> optimization \<Rightarrow> theap \<times> 's \<Rightarrow> (theap \<times> 's) res" where
  "place_opt cfg st F opt hs =
     (case opt of
        example_checkopt \<Rightarrow> example_materializeExternalChecks (pc_mechanism cfg) (WorkList st F) hs
      | pico_checkopt \<Rightarrow> pico_materialize cfg (vec_of st F) F hs
      | _ \<Rightarrow> Inr hs)"

definition placeChecks :: "'s pass_config \<Rightarrow> opt_state \<Rightarrow> vid \<Rightarrow> theap \<times> 's \<Rightarrow> (theap \<times> 's) res" where
  "placeChecks cfg st F = foldE (place_opt cfg st F) (selectedOpts cfg)"

definition store_heap :: "theap \<Rightarrow> tid \<Rightarrow> 's \<Rightarrow> 's pass_state \<Rightarrow> 's pass_state" where
  "store_heap h n s ps = ps\<lparr>ps_mech := s, ps_targets := (ps_targets ps)\<lparr>o_heap := h, o_next := n\<rparr>\<rparr>"

definition instrument_function :: "'s pass_config \<Rightarrow> nat \<Rightarrow> vid \<Rightarrow> 's pass_state \<Rightarrow> 's pass_state res" where
  "instrument_function cfg fuel F ps =
     (let m = pass_module cfg ps; IM = mo_interface (pc_mechanism cfg);
          Vec = vec_of (ps_targets ps) F
      in if skip_function m F then Inr ps
      else
        bindE (generateWitnesses (pc_strategy cfg) fuel IM m Vec
                 (o_heap (ps_targets ps), o_next (ps_targets ps)) (ps_mech ps)) (\<lambda>((h, n), s1).
        if pc_mode cfg = MI_GENERATE_WITNESSES then Inr (store_heap h n s1 ps)
        else bindE (generateInvariants (NoInvariantChecks cfg) IM Vec h s1) (\<lambda>s2.
        if pc_mode cfg = MI_GENERATE_INVARIANTS then Inr (store_heap h n s2 ps)
        else bindE (placeChecks cfg (ps_targets ps) F (h, s2)) (\<lambda>(h3, s3).
        if pc_mode cfg = MI_GENERATE_OPTIMIZATION_CHECKS then Inr (store_heap h3 n s3 ps)
        else bindE (generateChecks IM Vec h3 s3) (\<lambda>s4. Inr (store_heap h3 n s4 ps))))))"

section \<open>The pass\<close>

definition runPreparation :: "'s pass_config \<Rightarrow> 's \<Rightarrow> 's res" where
  "runPreparation cfg =
     foldE (\<lambda>opt s. case opt of pico_checkopt \<Rightarrow> pico_prepareModule cfg s | _ \<Rightarrow> Inr s) (selectedOpts cfg)"

text \<open>Everything before the targets are gathered.\<close>

definition setup_module :: "'s pass_config \<Rightarrow> 's pass_state \<Rightarrow> 's pass_state res" where
  "setup_module cfg ps =
     bindE (setup_prepareModule (pc_setup cfg) (pass_module cfg ps, ps_attrs ps)) (\<lambda>(m, attrs).
     bindE (runPreparation cfg (mo_set_module (pc_mechanism cfg) m (ps_mech ps))) (\<lambda>s1.
     bindE (mo_initialize (pc_mechanism cfg) s1) (\<lambda>s2.
     Inr (ps\<lparr>ps_mech := s2, ps_attrs := attrs\<rparr>))))"

definition target_lists :: "opt_state \<Rightarrow> vid \<Rightarrow> itarget list" where
  "target_lists st F = List.map_filter (o_heap st) (vec_of st F)"

definition gather_phase :: "'s pass_config \<Rightarrow> 's pass_state \<Rightarrow> 's pass_state res" where
  "gather_phase cfg ps = foldE (gather_function cfg) (mod_functions (pass_module cfg ps)) ps"

definition update_phase :: "'s pass_config \<Rightarrow> 's pass_state \<Rightarrow> 's pass_state res" where
  "update_phase cfg ps =
     bindE (updateITargets (pc_options cfg) (mo_interface (pc_mechanism cfg)) (pass_module cfg ps)
              (selectedOpts cfg) (ps_targets ps)) (\<lambda>st. Inr (ps\<lparr>ps_targets := st\<rparr>))"

definition drop_attributes :: "'s pass_config \<Rightarrow> 's pass_state \<Rightarrow> 's pass_state" where
  "drop_attributes cfg ps =
     ps\<lparr>ps_attrs := dropInvalidatedFunctionAttributes
          (im_invariantsAreChecks (mo_interface (pc_mechanism cfg))) (pass_module cfg ps)
          (target_lists (ps_targets ps)) (ps_attrs ps)\<rparr>"

definition instrument_phase :: "'s pass_config \<Rightarrow> nat \<Rightarrow> 's pass_state \<Rightarrow> 's pass_state res" where
  "instrument_phase cfg fuel ps =
     foldE (instrument_function cfg fuel) (mod_functions (pass_module cfg ps)) ps"

definition skipped_module :: "string \<Rightarrow> bool" where
  "skipped_module name = (suffix ''tools/timeit.c'' name \<or> suffix ''fpcmp.c'' name)"

text \<open>What is done once the module is set up.\<close>

definition process_module :: "'s pass_config \<Rightarrow> nat \<Rightarrow> 's pass_state \<Rightarrow> 's pass_state res" where
  "process_module cfg fuel ps1 =
     (if pc_mode cfg = MI_SETUP then Inr ps1
      else bindE (gather_phase cfg ps1) (\<lambda>ps2.
      if pc_mode cfg = MI_GATHER_ITARGETS then Inr ps2
      else bindE (update_phase cfg ps2) (\<lambda>ps3.
      if pc_mode cfg = MI_FILTER_ITARGETS then Inr ps3
      else instrument_phase cfg fuel (drop_attributes cfg ps3))))"

definition runOnModule :: "'s pass_config \<Rightarrow> nat \<Rightarrow> 's pass_state \<Rightarrow> (bool \<times> 's pass_state) res" where
  "runOnModule cfg fuel ps =
     (if pc_mode cfg = MI_NOTHING then Inr (True, ps)
      else if skipped_module (pc_module_name cfg) then
        (let (changed, s) = mo_skipInstrumentation (pc_mechanism cfg) (ps_mech ps)
         in Inr (changed, ps\<lparr>ps_mech := s\<rparr>))
      else
        bindE (setup_module cfg ps) (\<lambda>ps1.
        bindE (process_module cfg fuel ps1) (\<lambda>ps'. Inr (True, ps'))))"

section \<open>Phases that only look\<close>

text \<open>Gathering and filtering change targets and counters, not the module.\<close>

definition looks_only :: "'s pass_state \<Rightarrow> 's pass_state \<Rightarrow> bool" where
  "looks_only ps ps' \<longleftrightarrow> ps_mech ps' = ps_mech ps \<and> ps_attrs ps' = ps_attrs ps"

lemma gather_function_looks: "gather_function cfg F ps = Inr ps' \<Longrightarrow> looks_only ps ps'"
  by (auto simp: gather_function_def Let_def bindE_eq_Inr looks_only_def split: if_splits)

lemma gather_phase_looks: "gather_phase cfg ps = Inr ps' \<Longrightarrow> looks_only ps ps'"
  unfolding gather_phase_def
  by (erule foldE_rel) (auto simp: looks_only_def dest: gather_function_looks)

lemma update_phase_looks: "update_phase cfg ps = Inr ps' \<Longrightarrow> looks_only ps ps'"
  by (auto simp: update_phase_def bindE_eq_Inr looks_only_def)

section \<open>Code generation keeps what the mechanism keeps\<close>

text \<open>The strategies of the program.\<close>

definition known_strategy :: "'s strategy \<Rightarrow> bool" where
  "known_strategy WS \<longleftrightarrow> WS = none_strategy \<or> (\<exists>opt noShare. WS = after_inflow opt noShare)"

context code_keeper
begin

lemma none_createWitness_keeps: "none_createWitness im n gs = Inr gs' \<Longrightarrow> RW gs gs'"
  by (cases gs) (auto simp: none_createWitness_def bindE_eq_Inr RW_def R_refl split: if_splits dest: R_insertWitnesses)

lemma strategy_keeps:
  assumes "known_strategy WS" and "graph_createWitnesses WS fuel im m gs = Inr gs'"
  shows "R (snd gs) (snd gs')"
proof -
  from assms(1) consider "WS = none_strategy" | opt noShare where "WS = after_inflow opt noShare"
    by (auto simp: known_strategy_def)
  then show ?thesis
  proof cases
    case 1
    with assms(2) have f: "foldE (none_createWitness im) (ExternalNodes (fst gs)) gs = Inr gs'"
      by (auto simp: graph_createWitnesses_def none_strategy_def bindE_eq_Inr)
    have "RW gs gs'"
      by (rule fold_keeps [OF f, where p = "\<lambda>x. x"]) (rule none_createWitness_keeps)
    then show ?thesis by (simp add: RW_def)
  next
    case 2
    with assms(2) show ?thesis by (simp add: graph_createWitnesses_after_inflow createWitnesses_keeps)
  qed
qed

lemma generate_one_keeps: "generate_one P im h t s = Inr s' \<Longrightarrow> R s s'"
  by (auto simp: generate_one_def bindE_eq_Inr R_refl split: if_splits intro: R_insertCheck)

lemma generate_keeps:
  "generateInvariants b im Vec h s = Inr s' \<Longrightarrow> R s s'"
  "generateChecks im Vec h s = Inr s' \<Longrightarrow> R s s'"
  by (auto simp: generateInvariants_def generateChecks_def R_refl split: if_splits
      elim!: foldE_rel intro: R_refl R_trans generate_one_keeps)

lemma materialize_target_keeps: "materialize_target im g t s = Inr s' \<Longrightarrow> R s s'"
  by (auto simp: materialize_target_def bindE_eq_Inr R_refl split: if_splits intro: R_materializeBounds)

lemma generateWitnesses_keeps:
  assumes WS: "known_strategy WS" and r: "generateWitnesses WS fuel im m Vec hn s = Inr (hn', s')"
  shows "R s s'"
proof -
  from r obtain g where w: "witness_phase WS fuel im m Vec (empty_graph (fst hn) (snd hn)) s = Inr (g, s')"
    by (auto simp: generateWitnesses_def bindE_eq_Inr)
  then obtain g4 s4 where g: "graph_phase WS fuel im m Vec (empty_graph (fst hn) (snd hn)) s = Inr (g4, s4)"
    and mat: "foldE (materialize_target im g4) Vec s4 = Inr s'"
    by (auto simp: witness_phase_def bindE_eq_Inr)
  from g obtain g3 where "graph_createWitnesses WS fuel im m (g3, s) = Inr (g4, s4)"
    by (auto simp: graph_phase_def bindE_eq_Inr)
  then have 1: "R s s4" using strategy_keeps [OF WS] by fastforce
  have 2: "R s4 s'"
    by (rule foldE_rel [OF mat, where R = R]) (auto intro: R_refl R_trans materialize_target_keeps)
  from R_trans [OF 1 2] show ?thesis .
qed

end

locale code_object = code_keeper "mo_interface IM" R for IM :: "'s mechanism_object" and R
begin

text \<open>No optimization that places code is selected.\<close>

lemma placeChecks_nothing:
  assumes "example_checkopt \<notin> set (selectedOpts cfg)" and "pico_checkopt \<notin> set (selectedOpts cfg)"
  shows "placeChecks cfg st F hs = Inr hs"
proof -
  have "foldE (place_opt cfg st F) opts hs = Inr hs" if "set opts \<subseteq> set (selectedOpts cfg)" for opts
    using that assms by (induction opts) (auto simp: place_opt_def split: optimization.splits)
  then show ?thesis by (simp add: placeChecks_def)
qed

lemma instrument_function_keeps:
  assumes cfg: "pc_mechanism cfg = IM" "known_strategy (pc_strategy cfg)"
    and opts: "example_checkopt \<notin> set (selectedOpts cfg)" "pico_checkopt \<notin> set (selectedOpts cfg)"
    and r: "instrument_function cfg fuel F ps = Inr ps'"
  shows "R (ps_mech ps) (ps_mech ps')"
proof (cases "skip_function (pass_module cfg ps) F")
  case True
  with r show ?thesis by (auto simp: instrument_function_def Let_def R_refl)
next
  case False
  let ?I = "mo_interface IM" and ?Vec = "vec_of (ps_targets ps) F"
  from r False obtain h n s1 where
    w: "generateWitnesses (pc_strategy cfg) fuel ?I (pass_module cfg ps) ?Vec
          (o_heap (ps_targets ps), o_next (ps_targets ps)) (ps_mech ps) = Inr ((h, n), s1)"
    and rest: "(if pc_mode cfg = MI_GENERATE_WITNESSES then Inr (store_heap h n s1 ps)
        else bindE (generateInvariants (NoInvariantChecks cfg) ?I ?Vec h s1) (\<lambda>s2.
        if pc_mode cfg = MI_GENERATE_INVARIANTS then Inr (store_heap h n s2 ps)
        else bindE (placeChecks cfg (ps_targets ps) F (h, s2)) (\<lambda>(h3, s3).
        if pc_mode cfg = MI_GENERATE_OPTIMIZATION_CHECKS then Inr (store_heap h3 n s3 ps)
        else bindE (generateChecks ?I ?Vec h3 s3) (\<lambda>s4. Inr (store_heap h3 n s4 ps))))) = Inr ps'"
    by (auto simp: instrument_function_def Let_def bindE_eq_Inr cfg(1))
  have 1: "R (ps_mech ps) s1" by (rule generateWitnesses_keeps [OF cfg(2) w])
  have "R s1 (ps_mech ps')"
  proof (cases "pc_mode cfg = MI_GENERATE_WITNESSES")
    case True
    with rest show ?thesis by (auto simp: store_heap_def R_refl)
  next
    case False
    with rest obtain s2 where s2: "generateInvariants (NoInvariantChecks cfg) ?I ?Vec h s1 = Inr s2"
      and "ps_mech ps' = s2 \<or> generateChecks ?I ?Vec h s2 = Inr (ps_mech ps')"
      by (auto simp: placeChecks_nothing [OF opts] store_heap_def bindE_eq_Inr split: if_splits)
    then have "R s1 s2" "R s2 (ps_mech ps')" using generate_keeps R_refl by blast+
    then show ?thesis by (rule R_trans)
  qed
  with 1 show ?thesis by (rule R_trans)
qed

lemma instrument_phase_keeps:
  assumes cfg: "pc_mechanism cfg = IM" "known_strategy (pc_strategy cfg)"
    and opts: "example_checkopt \<notin> set (selectedOpts cfg)" "pico_checkopt \<notin> set (selectedOpts cfg)"
    and r: "instrument_phase cfg fuel ps = Inr ps'"
  shows "R (ps_mech ps) (ps_mech ps')"
  by (rule foldE_rel [OF r [unfolded instrument_phase_def], where R = "\<lambda>a b. R (ps_mech a) (ps_mech b)"])
    (auto intro: R_refl R_trans instrument_function_keeps [OF cfg opts])

text \<open>What the pass does after the set-up of the module keeps the relation, in every mode.\<close>

lemma process_keeps:
  assumes cfg: "pc_mechanism cfg = IM" "known_strategy (pc_strategy cfg)"
    and opts: "example_checkopt \<notin> set (selectedOpts cfg)" "pico_checkopt \<notin> set (selectedOpts cfg)"
    and r: "process_module cfg fuel ps = Inr ps'"
  shows "R (ps_mech ps) (ps_mech ps') \<and>
    (pc_mode cfg \<in> {MI_SETUP, MI_GATHER_ITARGETS, MI_FILTER_ITARGETS} \<longrightarrow> looks_only ps ps')"
proof -
  have looks: "ps_mech ps2 = ps_mech ps \<and> ps_attrs ps2 = ps_attrs ps" if "gather_phase cfg ps = Inr ps2" for ps2
    using gather_phase_looks [OF that] by (simp add: looks_only_def)
  have looks2: "ps_mech ps3 = ps_mech ps2 \<and> ps_attrs ps3 = ps_attrs ps2" if "update_phase cfg ps2 = Inr ps3" for ps2 ps3
    using update_phase_looks [OF that] by (simp add: looks_only_def)
  let ?early = "pc_mode cfg \<in> {MI_SETUP, MI_GATHER_ITARGETS, MI_FILTER_ITARGETS}"
  show ?thesis
  proof (cases ?early)
    case True
    with r looks looks2 have "ps_mech ps' = ps_mech ps \<and> ps_attrs ps' = ps_attrs ps"
      by (auto simp: process_module_def bindE_eq_Inr)
    then show ?thesis by (simp add: looks_only_def R_refl)
  next
    case False
    with r obtain ps2 ps3 where p: "gather_phase cfg ps = Inr ps2"
      "update_phase cfg ps2 = Inr ps3" and run: "instrument_phase cfg fuel (drop_attributes cfg ps3) = Inr ps'"
      by (auto simp: process_module_def bindE_eq_Inr)
    have "ps_mech (drop_attributes cfg ps3) = ps_mech ps"
      using looks [OF p(1)] looks2 [OF p(2)] by (simp add: drop_attributes_def)
    with instrument_phase_keeps [OF cfg opts run] False show ?thesis by simp
  qed
qed

end

lemma mo_interface_splay [simp]: "mo_interface splay_object = splay_mechanism"
  by (simp add: splay_object_def)

interpretation splay_run: code_object splay_object splay_keeps
  using splay_code.code_keeper_axioms by (simp add: code_object_def)


section \<open>A run of the pass\<close>

definition demo_pass :: "mi_mode \<Rightarrow> splay_state pass_config" where
  "demo_pass mode =
     \<lparr>pc_mode = mode, pc_policy = beforeoutflow_classifyTargets demo_opts,
      pc_strategy = after_inflow False False, pc_mechanism = splay_object,
      selectedOpts = [annotation_checkrem, dominance_checkrem], pc_options = demo_opt_config,
      NoInvariantChecks = False, pc_module_name = ''demo.c'',
      pc_setup = \<lparr>KeepLifeTimeIntrinsics = False, LabelAccesses = False, NoTransformObfuscatedPointer = False,
        NoConvertByValArgs = False, FunctionsToSkip = [], skip_file = None, address_order = (\<lambda>vs. vs)\<rparr>,
      pico_prepareModule = Inr, pico_materialize = (\<lambda>_ _. Inr)\<rparr>"

definition demo_pass_state :: "splay_state pass_state" where
  "demo_pass_state =
     \<lparr>ps_mech = demo_splay, ps_attrs = (\<lambda>_. \<lparr>fn_attrs = {}, ret_attrs = {}, param_attrs = []\<rparr>),
      ps_stats = no_stats,
      ps_targets = \<lparr>o_heap = Map.empty, o_next = 0, o_map = [], WorkList = (\<lambda>_. []),
        hotnessForAccesses = Map.empty\<rparr>\<rparr>"

lemma demo_pass_runs: "\<not> isl (process_module (demo_pass MI_GENERATE_CHECKS) 50 demo_pass_state)"
  by code_simp


end
