(* ===== verification/PlainWitness.thy ===== *)
theory PlainWitness
  imports Interface
begin

text \<open>
  The example and the run-time statistics mechanism have witnesses without contents, and insert
  them in the same way. The operation that makes a witness and the module of the state are
  arguments here; both mechanisms are instances, and the contract of the witness strategies holds
  for every instance.
\<close>

definition plain_store :: "('s \<Rightarrow> wid \<times> 's) \<Rightarrow> nat \<Rightarrow> itarget \<times> 's \<Rightarrow> (itarget \<times> 's) res" where
  "plain_store mk index Ts =
     (case Ts of (T, s) \<Rightarrow> let (w, s1) = mk s in Inr (setBoundWitness (Some w) index T, s1))"

definition plain_insertWitnesses ::
  "('s \<Rightarrow> ir) \<Rightarrow> ('s \<Rightarrow> wid \<times> 's) \<Rightarrow> itarget \<Rightarrow> 's \<Rightarrow> (itarget \<times> 's) res" where
  "plain_insertWitnesses md mk T s =
     bindE (assertE (isValid T) ''Target.isValid()'') (\<lambda>_.
     bindE (hasInstrumentee T) (\<lambda>h.
     bindE (assertE h ''Target.hasInstrumentee()'') (\<lambda>_.
     bindE (getInstrumentee T) (\<lambda>v.
     let m = md s in
     if \<not> is_aggregate_ty (val_type m v) then
       (let (w, s1) = mk s in bindE (setSingleBoundWitness (Some w) T) (\<lambda>T'. Inr (T', s1)))
     else if get_call m v \<noteq> None \<or> is_landing_pad m v then
       bindE (computePointerIndices m (v_type (vals m v))) (\<lambda>indices.
       foldE (plain_store mk) indices (T, s))
     else
       bindE (assertE (get_const m v \<noteq> None) ''isa<Constant>(instrumentee)'') (\<lambda>_.
       bindE (getAggregatePointerIndicesAndValues m v) (\<lambda>indexToPtr.
       foldE (\<lambda>(i, _). plain_store mk i) indexToPtr (T, s)))))))"

text \<open>A global variable of the size type, as both mechanisms create them.\<close>

definition new_global :: "string \<Rightarrow> ir \<Rightarrow> vid \<times> ir" where
  "new_global name m =
     (let (gv, m1) = new_value (Const GlobalVariable) (ctx_ty m ''i64*'') name m
      in (gv, m1\<lparr>mod_globals := mod_globals m1 @ [gv]\<rparr>))"

section \<open>The contract\<close>

lemma plain_store_sets: "plain_store mk i (T, s) = Inr (T', s') \<Longrightarrow> \<exists>w i. T' = setBoundWitness w i T"
  by (auto simp: plain_store_def case_prod_unfold Let_def)

lemma plain_insertWitnesses_stores:
  assumes bw: "boundWitnesses T = []" and r: "plain_insertWitnesses md mk T s = Inr (T', s')"
  shows "boundWitnesses T' \<noteq> [] \<and> stores_in T T'"
proof -
  have T: "stores_in T T" using bw by (simp add: stores_in_def)
  from r obtain v where v: "getInstrumentee T = Inr v"
    by (auto simp: plain_insertWitnesses_def bindE_eq_Inr)
  consider (one) w where "T' = setBoundWitness (Some w) 0 T"
    | (agg) indices where "computePointerIndices (md s) (v_type (vals (md s) v)) = Inr indices"
        "foldE (plain_store mk) indices (T, s) = Inr (T', s')"
    | (con) ip where "getAggregatePointerIndicesAndValues (md s) v = Inr ip"
        "foldE (\<lambda>(i, _). plain_store mk i) ip (T, s) = Inr (T', s')"
    using r v
    by (auto simp: plain_insertWitnesses_def bindE_eq_Inr Let_def setSingleBoundWitness_def
        setBoundWitness_def case_prod_unfold split: if_splits)
  then show ?thesis
  proof cases
    case one
    then show ?thesis using stores_in_set [OF T] by (simp add: setBoundWitness_def)
  next
    case agg
    have "stores_in T T' \<and> (indices \<noteq> [] \<or> boundWitnesses T \<noteq> [] \<longrightarrow> boundWitnesses T' \<noteq> [])"
      by (rule stores_loop [OF _ agg(2) T]) (rule plain_store_sets)
    then show ?thesis using computePointerIndices_nonempty [OF agg(1)] by blast
  next
    case con
    have "stores_in T T' \<and> (ip \<noteq> [] \<or> boundWitnesses T \<noteq> [] \<longrightarrow> boundWitnesses T' \<noteq> [])"
      by (rule stores_loop [OF _ con(2) T]) (auto intro: plain_store_sets split: prod.splits)
    then show ?thesis using getAggregatePointerIndicesAndValues_ok(1) [OF con(1)] by blast
  qed
qed

lemma plain_insert_fuel: "plain_insertWitnesses md mk T s \<noteq> Inl OutOfFuel"
proof -
  have store: "plain_store mk i Ts \<noteq> Inl OutOfFuel" for i Ts
    by (simp add: plain_store_def case_prod_unfold Let_def)
  have 1: "foldE (plain_store mk) xs Ts \<noteq> Inl OutOfFuel" for xs Ts
    by (rule foldE_fuel [where I = "\<lambda>_. True"]) (auto simp: store)
  have 2: "foldE (\<lambda>q. plain_store mk (fst q)) xs Ts \<noteq> Inl OutOfFuel" for xs :: "(nat \<times> vid) list" and Ts
    by (rule foldE_fuel [where I = "\<lambda>_. True"]) (auto simp: store)
  show ?thesis
    by (auto simp: plain_insertWitnesses_def bindE_eq_Inl Let_def 1 2 getAggregate_fuel
        setSingleBoundWitness_def case_prod_unfold split: if_splits)
qed

text \<open>Nothing but the state that makes witnesses is touched.\<close>

lemma plain_insertWitnesses_rel:
  assumes r: "plain_insertWitnesses md mk T s = Inr (T', s')"
    and refl: "\<And>s. R s s" and trans: "\<And>s t u. R s t \<Longrightarrow> R t u \<Longrightarrow> R s u" and mk: "\<And>s. R s (snd (mk s))"
  shows "R s s'"
proof -
  let ?R = "\<lambda>a b :: itarget \<times> 'a. R (snd a) (snd b)"
  have store: "?R a b" if "plain_store mk i a = Inr b" for i a b
    using that mk by (auto simp: plain_store_def case_prod_unfold Let_def)
  consider "s' = snd (mk s)" | xs where "foldE (plain_store mk) xs (T, s) = Inr (T', s')"
    | xs :: "(nat \<times> vid) list" where "foldE (\<lambda>(i, _). plain_store mk i) xs (T, s) = Inr (T', s')"
    using r
    by (auto simp: plain_insertWitnesses_def bindE_eq_Inr Let_def case_prod_unfold split: if_splits)
  then show ?thesis
  proof cases
    case 1
    then show ?thesis using mk by simp
  next
    case 2
    have "?R (T, s) (T', s')"
      by (rule foldE_rel [where R = ?R, OF 2]) (auto intro: refl trans store)
    then show ?thesis by simp
  next
    case 3
    have "?R (T, s) (T', s')"
      by (rule foldE_rel [where R = ?R, OF 3]) (use refl trans store in \<open>auto split: prod.splits\<close>)
    then show ?thesis by simp
  qed
qed

end
