(* ===== verification/ExampleMechanism.thy ===== *)
theory ExampleMechanism
  imports PlainWitness ExamplePass KeepCode
begin

text \<open>
  \<open>lib/instrumentation_mechanisms/ExampleMechanism.cpp\<close>: a check compares the pointer with two
  bounds loaded from global variables and calls the fail function in a new block when it is outside
  them. Witnesses hold nothing; phis, selects and explicit bounds are not supported.
\<close>

record example_state =
  ex_mod :: ir
  ex_next_wid :: wid
  ex_failFunction :: callee
  LowerBoundLocation :: vid
  UpperBoundLocation :: vid
  CheckResultLocation :: vid

definition new_example_witness :: "example_state \<Rightarrow> wid \<times> example_state" where
  "new_example_witness s = (ex_next_wid s, s\<lparr>ex_next_wid := Suc (ex_next_wid s)\<rparr>)"

definition example_getLowerBound :: "wid \<Rightarrow> example_state \<Rightarrow> vid option res" where
  "example_getLowerBound _ _ = Inr None"

definition example_getUpperBound :: "wid \<Rightarrow> example_state \<Rightarrow> vid option res" where
  "example_getUpperBound _ _ = Inr None"

definition example_insertWitnesses :: "itarget \<Rightarrow> example_state \<Rightarrow> (itarget \<times> example_state) res" where
  "example_insertWitnesses = plain_insertWitnesses ex_mod new_example_witness"

definition example_getRelocatedClone :: "wid \<Rightarrow> vid \<Rightarrow> example_state \<Rightarrow> (wid \<times> example_state) res" where
  "example_getRelocatedClone _ _ s = Inr (new_example_witness s)"

section \<open>Checks\<close>

definition load_global :: "ipoint \<Rightarrow> vid \<Rightarrow> ir \<Rightarrow> vid \<times> ir" where
  "load_global p g m = emit p (Load g) (SizeType m) [] m"

text \<open>The instructions of a check; \<open>sz\<close> is the access size.\<close>

definition example_guard :: "vid \<Rightarrow> vid \<Rightarrow> vid \<Rightarrow> vid \<Rightarrow> vid \<Rightarrow> ir \<Rightarrow> vid \<times> ir" where
  "example_guard loc v LowerLoc UpperLoc sz m =
     (let p = Before loc; I64Ty = SizeType m; I1Ty = ctx_ty m ''i1'';
          (Ptr2Int, m) = ptr_to_int p v m;
          (Lower, m) = load_global p LowerLoc m;
          (CmpLower, m) = binop p ''icmp ult'' Ptr2Int Lower I1Ty m;
          (AccessUpper, m) = binop p ''add'' Ptr2Int sz I64Ty m;
          (Upper, m) = load_global p UpperLoc m;
          (CmpUpper, m) = binop p ''icmp ugt'' AccessUpper Upper I1Ty m
      in binop p ''or'' CmpLower CmpUpper I1Ty m)"

definition example_fail :: "vid \<Rightarrow> vid \<Rightarrow> vid \<Rightarrow> callee \<Rightarrow> ir \<Rightarrow> ir" where
  "example_fail Or loc ResultLoc failFunction m =
     (let (Unreach, m) = SplitBlockAndInsertIfThen Or loc m;
          (_, m) = emit (Before Unreach) (Store (const_int m (SizeType m) 1) ResultLoc) (ctx_ty m ''void'') [] m;
          (_, m) = create_call (Before Unreach) failFunction [] m
      in m)"

definition example_insertCheck :: "itarget \<Rightarrow> example_state \<Rightarrow> example_state res" where
  "example_insertCheck T s =
     bindE (assertE (isValid T) ''Target.isValid()'') (\<lambda>_.
     bindE (assertE (isCheck T) ''Target.isCheck()'') (\<lambda>_.
     bindE (getLocation T) (\<lambda>loc.
     bindE (getInstrumentee T) (\<lambda>v.
     case access_size (ex_mod s) T of
       None \<Rightarrow> Inl NullPointer
     | Some sz \<Rightarrow>
         (let (Or, m) = example_guard loc v (LowerBoundLocation s) (UpperBoundLocation s) sz (ex_mod s)
          in Inr (s\<lparr>ex_mod := example_fail Or loc (CheckResultLocation s) (ex_failFunction s) m\<rparr>))))))"

definition example_materializeBounds :: "itarget \<Rightarrow> example_state \<Rightarrow> example_state res" where
  "example_materializeBounds _ _ =
     Inl (UnreachableReached ''Explicit bounds are not supported by this mechanism!'')"

definition example_getFailFunction :: "example_state \<Rightarrow> callee res" where
  "example_getFailFunction s = Inr (ex_failFunction s)"

definition example_getWitnessPhi :: "vid \<Rightarrow> example_state \<Rightarrow> (wid \<times> example_state) res" where
  "example_getWitnessPhi _ _ = Inl (UnreachableReached ''Phis are not supported by this mechanism!'')"

definition example_addIncomingWitnessToPhi ::
  "witness_ptr \<Rightarrow> witness_ptr \<Rightarrow> bbid \<Rightarrow> example_state \<Rightarrow> example_state res" where
  "example_addIncomingWitnessToPhi _ _ _ _ =
     Inl (UnreachableReached ''Phis are not supported by this mechanism!'')"

definition example_getWitnessSelect ::
  "vid \<Rightarrow> witness_ptr \<Rightarrow> witness_ptr \<Rightarrow> example_state \<Rightarrow> (wid \<times> example_state) res" where
  "example_getWitnessSelect _ _ _ _ =
     Inl (UnreachableReached ''Selects are not supported by this mechanism!'')"

section \<open>Set-up\<close>

definition example_initialize :: "example_state \<Rightarrow> example_state res" where
  "example_initialize s =
     bindE (insertCommonFunctionDeclarations (ex_mod s)) (\<lambda>(fs, m).
     let (l, m1) = new_global ''mi_lower_bound_location'' m;
         (u, m2) = new_global ''mi_upper_bound_location'' m1;
         (r, m3) = new_global ''mi_check_result_location'' m2
     in Inr (s\<lparr>ex_mod := m3, ex_failFunction := hd fs, LowerBoundLocation := l,
               UpperBoundLocation := u, CheckResultLocation := r\<rparr>))"

definition example_mechanism :: "example_state mechanism" where
  "example_mechanism =
     \<lparr>im_name = ''Example'', im_invariantsAreChecks = False,
      im_insertWitnesses = example_insertWitnesses,
      im_getRelocatedClone = example_getRelocatedClone,
      im_getWitnessPhi = example_getWitnessPhi,
      im_addIncomingWitnessToPhi = example_addIncomingWitnessToPhi,
      im_getWitnessSelect = example_getWitnessSelect,
      im_materializeBounds = example_materializeBounds,
      im_insertCheck = example_insertCheck\<rparr>"

definition example_object :: "example_state mechanism_object" where
  "example_object =
     \<lparr>mo_interface = example_mechanism, mo_module = ex_mod, mo_set_module = (\<lambda>m s. s\<lparr>ex_mod := m\<rparr>),
      mo_getLowerBound = example_getLowerBound, mo_getUpperBound = example_getUpperBound,
      mo_getFailFunction = example_getFailFunction, mo_initialize = example_initialize,
      mo_skipInstrumentation = skipInstrumentation\<rparr>"

interpretation example_owner: module_owner example_object
  by unfold_locales (simp add: example_object_def)

interpretation example_provider: total_provider example_mechanism
proof
  fix T :: itarget and s T' s'
  assume bw: "boundWitnesses T = []" and r: "im_insertWitnesses example_mechanism T s = Inr (T', s')"
  then have "plain_insertWitnesses ex_mod new_example_witness T s = Inr (T', s')"
    by (simp add: example_mechanism_def example_insertWitnesses_def)
  from plain_insertWitnesses_stores [OF bw this]
  show "boundWitnesses T' \<noteq> [] \<and> omap_ok (boundWitnesses T') \<and> T' = T\<lparr>boundWitnesses := boundWitnesses T'\<rparr>"
    by (auto simp: stores_in_def)
qed (simp_all add: example_mechanism_def example_insertWitnesses_def plain_insert_fuel
    example_getRelocatedClone_def example_getWitnessPhi_def example_addIncomingWitnessToPhi_def
    example_getWitnessSelect_def)

end
