(* ===== verification/CheckSemantics.thy ===== *)
theory CheckSemantics
  imports ExampleMechanism "HOL-Library.Word"
begin

text \<open>
  What the check of the example mechanism does when it runs: an evaluation of the straight-line
  code it inserts, on 64-bit words with wrap-around, and the shape of the three blocks.
\<close>

section \<open>Evaluating inserted code\<close>

type_synonym cell = "64 word"

definition truth :: "bool \<Rightarrow> cell" where
  "truth b = (if b then 1 else 0)"

definition eval_binary :: "string \<Rightarrow> cell \<Rightarrow> cell \<Rightarrow> cell" where
  "eval_binary oper a b =
     (if oper = ''add'' then a + b
      else if oper = ''icmp ult'' then truth (a < b)
      else if oper = ''icmp ugt'' then truth (b < a)
      else if oper = ''or'' then or a b
      else 0)"

text \<open>Pointers are their addresses; \<open>mem\<close> is the content of the global variables.\<close>

definition eval_inst :: "(vid \<Rightarrow> cell) \<Rightarrow> instr \<Rightarrow> (vid \<Rightarrow> cell) \<Rightarrow> cell" where
  "eval_inst mem i env =
     (case i of
        PtrToInt v \<Rightarrow> env v
      | Load p \<Rightarrow> mem p
      | OtherInst oper [a, b] \<Rightarrow> eval_binary oper (env a) (env b)
      | _ \<Rightarrow> 0)"

fun run_code :: "ir \<Rightarrow> (vid \<Rightarrow> cell) \<Rightarrow> vid list \<Rightarrow> (vid \<Rightarrow> cell) \<Rightarrow> vid \<Rightarrow> cell" where
  "run_code m mem [] env = env"
| "run_code m mem (v # vs) env =
     run_code m mem vs
       (case get_inst m v of Some i \<Rightarrow> env(v := eval_inst mem i env) | None \<Rightarrow> env)"

lemma run_code_cong:
  "(\<And>v. v \<in> set vs \<Longrightarrow> get_inst m v = get_inst m' v) \<Longrightarrow> run_code m mem vs env = run_code m' mem vs env"
  by (induction vs arbitrary: env) auto

section \<open>Inserting a sequence of instructions\<close>

fun emit_all :: "ipoint \<Rightarrow> (instr \<times> tyid) list \<Rightarrow> ir \<Rightarrow> ir" where
  "emit_all p [] m = m"
| "emit_all p ((i, ty) # xs) m = emit_all p xs (snd (emit p i ty [] m))"

lemma emit_snd_fields [simp]:
  "next_vid (snd (emit p i ty nm m)) = Suc (next_vid m)" "fst (emit p i ty nm m) = next_vid m"
  "ctx_ty (snd (emit p i ty nm m)) = ctx_ty m" "const_int (snd (emit p i ty nm m)) = const_int m"
  "fold_op (snd (emit p i ty nm m)) = fold_op m" "next_bb (snd (emit p i ty nm m)) = next_bb m"
  by (simp_all add: emit_def new_value_def Let_def)

lemma emit_all_fields [simp]:
  "next_vid (emit_all p xs m) = next_vid m + length xs" "ctx_ty (emit_all p xs m) = ctx_ty m"
  "const_int (emit_all p xs m) = const_int m" "fold_op (emit_all p xs m) = fold_op m"
  "next_bb (emit_all p xs m) = next_bb m"
  by (induction xs arbitrary: m) auto

lemma emit_all_append: "emit_all p (xs @ [(i, ty)]) m = snd (emit p i ty [] (emit_all p xs m))"
  by (induction xs arbitrary: m) auto

lemma emit_after: "emit p i ty [] (emit_all p xs m) = (next_vid m + length xs, emit_all p (xs @ [(i, ty)]) m)"
  by (metis emit_all_append emit_all_fields(1) emit_snd_fields(2) prod.collapse)

lemma insert_before_split:
  "loc \<notin> set pre \<Longrightarrow> insert_before loc n (pre @ loc # post) = pre @ n # loc # post"
  by (induction pre) auto

lemma emit_all_old:
  "v < next_vid m \<Longrightarrow> vals (emit_all p xs m) v = vals m v"
  "v < next_vid m \<Longrightarrow> inst_bb (emit_all p xs m) v = inst_bb m v"
  by (induction xs arbitrary: m) (auto simp: emit_def new_value_def Let_def)

lemma emit_all_new: "k < length xs \<Longrightarrow> get_inst (emit_all p xs m) (next_vid m + k) = Some (fst (xs ! k))"
proof (induction xs arbitrary: m k)
  case (Cons x xs)
  let ?m = "snd (emit p (fst x) (snd x) [] m)"
  show ?case
  proof (cases k)
    case 0
    have "vals (emit_all p xs ?m) (next_vid m) = vals ?m (next_vid m)" by (rule emit_all_old) simp
    moreover have "v_kind (vals ?m (next_vid m)) = Inst (fst x)" by (simp add: emit_def new_value_def Let_def)
    ultimately show ?thesis using 0 by (cases x) (simp add: get_inst_def)
  next
    case (Suc j)
    with Cons.prems Cons.IH [of j ?m] show ?thesis by (cases x) simp
  qed
qed simp

lemma emit_all_block:
  assumes "bb_insts m (inst_bb m loc) = pre @ loc # post" and "loc \<notin> set pre" and "loc < next_vid m"
  shows "bb_insts (emit_all (Before loc) xs m) =
    (bb_insts m)(inst_bb m loc := pre @ [next_vid m..<next_vid m + length xs] @ loc # post)"
  using assms
proof (induction xs arbitrary: m pre)
  case Nil
  then show ?case by (metis append_Nil emit_all.simps(1) fun_upd_triv list.size(3) nat_arith.rule0 upt_rec less_irrefl)
next
  case (Cons x xs)
  let ?m = "snd (emit (Before loc) (fst x) (snd x) [] m)"
  have f: "bb_insts ?m = (bb_insts m)(inst_bb m loc := insert_before loc (next_vid m) (bb_insts m (inst_bb m loc)))"
    "inst_bb ?m = (inst_bb m)(next_vid m := inst_bb m loc)"
    by (simp_all add: emit_def new_value_def Let_def ip_block_def ip_insert_def)
  then have b: "bb_insts ?m (inst_bb ?m loc) = (pre @ [next_vid m]) @ loc # post"
    using Cons.prems by (simp add: insert_before_split)
  have "bb_insts (emit_all (Before loc) xs ?m) =
    (bb_insts ?m)(inst_bb ?m loc := (pre @ [next_vid m]) @ [next_vid ?m..<next_vid ?m + length xs] @ loc # post)"
    by (rule Cons.IH [OF b]) (use Cons.prems in auto)
  moreover have "[next_vid m..<next_vid m + length (x # xs)] = next_vid m # [Suc (next_vid m)..<Suc (next_vid m) + length xs]"
    by (simp add: upt_conv_Cons del: upt_Suc)
  ultimately show ?case using f Cons.prems by (cases x) simp
qed

section \<open>The guard\<close>

text \<open>The folder leaves operations on the pointer and on new instructions alone.\<close>

definition unfolded :: "ir \<Rightarrow> vid \<Rightarrow> bool" where
  "unfolded m v \<longleftrightarrow> (\<forall>oper a rest ty. a = v \<or> next_vid m \<le> a \<longrightarrow> fold_op m oper (a # rest) ty = None)"

definition guard_cond :: "(vid \<Rightarrow> cell) \<Rightarrow> (vid \<Rightarrow> cell) \<Rightarrow> vid \<Rightarrow> vid \<Rightarrow> vid \<Rightarrow> vid \<Rightarrow> bool" where
  "guard_cond mem env v L U sz \<longleftrightarrow> env v < mem L \<or> mem U < env v + env sz"

lemma truth_or: "or (truth a) (truth b) = truth (a \<or> b)"
  by (simp add: truth_def)

definition guard_code :: "vid \<Rightarrow> vid \<Rightarrow> vid \<Rightarrow> vid \<Rightarrow> ir \<Rightarrow> (instr \<times> tyid) list" where
  "guard_code v L U sz m =
     (let n = next_vid m; i64 = ctx_ty m ''i64''; i1 = ctx_ty m ''i1'' in
      [(PtrToInt v, i64), (Load L, i64), (OtherInst ''icmp ult'' [n, n + 1], i1),
       (OtherInst ''add'' [n, sz], i64), (Load U, i64), (OtherInst ''icmp ugt'' [n + 3, n + 4], i1),
       (OtherInst ''or'' [n + 2, n + 5], i1)])"

lemma length_guard_code [simp]: "length (guard_code v L U sz m) = 7"
  by (simp add: guard_code_def Let_def)

lemma example_guard_code:
  assumes "unfolded m v"
  shows "example_guard loc v L U sz m = (next_vid m + 6, emit_all (Before loc) (guard_code v L U sz m) m)"
proof -
  have nf: "fold_op m oper (v # r) ty = None" "k \<ge> next_vid m \<Longrightarrow> fold_op m oper (k # r) ty = None" for k oper r ty
    using assms by (simp_all add: unfolded_def)
  have start: "emit p i ty [] m = (next_vid m, emit_all p [(i, ty)] m)" for p i ty
    using emit_after [where xs = "[]"] by simp
  show ?thesis
    by (simp add: example_guard_def ptr_to_int_def load_global_def binop_def emit_op_def nf SizeType_def
        guard_code_def emit_after start Let_def eval_nat_numeral del: emit_all.simps)
qed

lemma upt_7: "[n..<n + 7] = [n, n + 1, n + 2, n + 3, n + 4, n + 5, n + 6]" for n :: nat
  by (simp add: upt_conv_Cons del: upt_Suc)

lemma guard_code_runs:
  assumes "v < next_vid m" and "sz < next_vid m"
  shows "run_code (emit_all p (guard_code v L U sz m) m) mem [next_vid m..<next_vid m + 7] env (next_vid m + 6) =
    truth (guard_cond mem env v L U sz)"
proof -
  let ?m = "emit_all p (guard_code v L U sz m) m" and ?n = "next_vid m"
  have i: "get_inst ?m (?n + k) = Some (fst (guard_code v L U sz m ! k))" if "k < 7" for k
    by (rule emit_all_new) (simp add: that)
  note at = i [of 0] i [of 1] i [of 2] i [of 3] i [of 4] i [of 5] i [of 6]
  show ?thesis
    unfolding upt_7 using assms at
    by (simp add: guard_code_def Let_def eval_inst_def eval_binary_def truth_or guard_cond_def)
qed

section \<open>The blocks of a check\<close>

lemma emit_AtEnd:
  "bb_insts (snd (emit (AtEnd b) i ty nm m)) = (bb_insts m)(b := bb_insts m b @ [next_vid m])"
  "inst_bb (snd (emit (AtEnd b) i ty nm m)) = (inst_bb m)(next_vid m := b)"
  "vals (snd (emit p i ty nm m)) = (vals m)(next_vid m := \<lparr>v_kind = Inst i, v_type = ty, v_name = nm, v_md = Map.empty\<rparr>)"
  "bb_insts (snd (emit (Before u) i ty nm m)) =
     (bb_insts m)(inst_bb m u := insert_before u (next_vid m) (bb_insts m (inst_bb m u)))"
  "inst_bb (snd (emit (Before u) i ty nm m)) = (inst_bb m)(next_vid m := inst_bb m u)"
  by (simp_all add: emit_def new_value_def Let_def ip_block_def ip_insert_def)

lemma get_inst_upd: "get_inst m v = (case v_kind (vals m v) of Inst i \<Rightarrow> Some i | _ \<Rightarrow> None)"
  by (simp add: get_inst_def)

lemma split_at:
  "loc \<notin> set pre \<Longrightarrow> takeWhile (\<lambda>v. v \<noteq> loc) (pre @ loc # post) = pre"
  "loc \<notin> set pre \<Longrightarrow> dropWhile (\<lambda>v. v \<noteq> loc) (pre @ loc # post) = loc # post"
  by (induction pre) auto

lemma example_fail_blocks:
  assumes b: "bb_insts m H = pre @ loc # post" "loc \<notin> set pre" "inst_bb m loc = H" "H < next_bb m"
    and r: "m' = example_fail c loc R fn m"
  defines "n \<equiv> next_vid m"
  shows "bb_insts m' H = pre @ [n + 1]" and "get_inst m' (n + 1) = Some (Br (Some c))"
    and "bb_insts m' (next_bb m) = [n + 2, n + 3, n]" and "bb_insts m' (Suc (next_bb m)) = loc # post"
    and "get_inst m' (n + 2) = Some (Store (const_int m (SizeType m) 1) R)"
    and "get_inst m' (n + 3) = Some (Call \<lparr>called_operand = fst fn, called_function = Some (fst fn), call_args = []\<rparr> None)"
    and "get_inst m' n = Some (OtherInst ''unreachable'' [])"
    and "\<And>v. v < n \<Longrightarrow> v_kind (vals m' v) = redirect_phi H (Suc (next_bb m)) (v_kind (vals m v))"
proof -
  let ?s = "split_block loc m" and ?void = "ctx_ty m ''void''"
  have sp: "next_vid ?s = n" "ctx_ty ?s = ctx_ty m" "const_int ?s = const_int m"
    "bb_insts ?s = (bb_insts m)(H := pre, next_bb m := [], Suc (next_bb m) := loc # post)"
    "vals ?s = (\<lambda>v. (vals m v)\<lparr>v_kind := redirect_phi H (Suc (next_bb m)) (v_kind (vals m v))\<rparr>)"
    using b by (simp_all add: n_def split_block_def Let_def split_at)
  define m2 where "m2 = snd (emit (AtEnd (next_bb m)) (OtherInst ''unreachable'' []) ?void [] ?s)"
  define m3 where "m3 = snd (emit (AtEnd H) (Br (Some c)) ?void [] m2)"
  define m4 where "m4 = snd (emit (Before n) (Store (const_int m (SizeType m) 1) R) ?void [] m3)"
  have sp2: "SplitBlockAndInsertIfThen c loc m = (n, m3)"
    by (simp add: SplitBlockAndInsertIfThen_def Let_def case_prod_unfold m3_def m2_def sp b)
  have m': "m' = snd (emit (Before n) (Call \<lparr>called_operand = fst fn, called_function = Some (fst fn), call_args = []\<rparr> None)
      (snd fn) [] m4)"
    by (simp add: r example_fail_def sp2 Let_def case_prod_unfold create_call_def m4_def SizeType_def)
      (simp add: m3_def m2_def sp)
  have id: "next_vid m2 = n + 1" "next_vid m3 = n + 2" "next_vid m4 = n + 3"
    by (simp_all add: m2_def m3_def m4_def sp)
  note e = emit_AtEnd
  have i: "inst_bb m2 n = next_bb m" "inst_bb m3 n = next_bb m" "inst_bb m4 n = next_bb m"
    by (simp_all add: m2_def m3_def m4_def e sp)
  have bb: "bb_insts m2 = (bb_insts ?s)(next_bb m := [n])" "bb_insts m3 = (bb_insts m2)(H := pre @ [n + 1])"
    "bb_insts m4 = (bb_insts m3)(next_bb m := [n + 2, n])" "bb_insts m' = (bb_insts m4)(next_bb m := [n + 2, n + 3, n])"
    using b(4) by (simp_all add: m2_def m3_def m4_def m' e sp id i [unfolded m2_def m3_def m4_def] eval_nat_numeral)
  show "bb_insts m' H = pre @ [n + 1]" "bb_insts m' (next_bb m) = [n + 2, n + 3, n]"
    "bb_insts m' (Suc (next_bb m)) = loc # post"
    using b(4) by (simp_all add: bb sp)
  show "get_inst m' (n + 1) = Some (Br (Some c))" "get_inst m' n = Some (OtherInst ''unreachable'' [])"
    "get_inst m' (n + 2) = Some (Store (const_int m (SizeType m) 1) R)"
    "get_inst m' (n + 3) = Some (Call \<lparr>called_operand = fst fn, called_function = Some (fst fn), call_args = []\<rparr> None)"
    by (simp_all add: get_inst_def m' m4_def m3_def m2_def e sp id)
  show "v_kind (vals m' v) = redirect_phi H (Suc (next_bb m)) (v_kind (vals m v))" if "v < n" for v
    using that by (simp add: m' m4_def m3_def m2_def e sp id)
qed

section \<open>The check\<close>


section \<open>Wrap-around\<close>

lemma word_end:
  fixes p sz u :: cell
  shows "\<not> u < p + sz \<longleftrightarrow>
    (if unat p + unat sz < 2 ^ 64 then unat p + unat sz \<le> unat u else unat p + unat sz - 2 ^ 64 \<le> unat u)"
proof -
  have lt: "unat p < 2 ^ 64" "unat sz < 2 ^ 64" using unsigned_less [of p] unsigned_less [of sz] by simp_all
  have "unat (p + sz) = (unat p + unat sz) mod 2 ^ 64" by (simp add: unat_word_ariths)
  also have "\<dots> = (if unat p + unat sz < 2 ^ 64 then unat p + unat sz else unat p + unat sz - 2 ^ 64)"
    using lt by (simp add: mod_if)
  finally show ?thesis by (simp add: word_less_nat_alt not_less)
qed

text \<open>
  C28: the guard of the example mechanism lets exactly those accesses pass that start at or above the
  lower bound and end at or below the upper one, and in addition those whose end wraps around the
  address space and lies at or below the upper bound then.
\<close>

theorem example_guard_bounds:
  assumes "example_guard loc v L U sz m = (c, m')" and "unfolded m v"
    and "v < next_vid m" and "sz < next_vid m"
  shows "run_code m' mem [next_vid m..<next_vid m'] env c = 0 \<longleftrightarrow>
    unat (mem L) \<le> unat (env v) \<and>
    (unat (env v) + unat (env sz) \<le> unat (mem U) \<or>
     2 ^ 64 \<le> unat (env v) + unat (env sz) \<and> unat (env v) + unat (env sz) - 2 ^ 64 \<le> unat (mem U))"
proof -
  have g: "c = next_vid m + 6" "m' = emit_all (Before loc) (guard_code v L U sz m) m"
    using assms(1) example_guard_code [OF assms(2)] by simp_all
  have "run_code m' mem [next_vid m..<next_vid m'] env c = truth (guard_cond mem env v L U sz)"
    using guard_code_runs [OF assms(3,4)] by (simp add: g del: upt_Suc)
  moreover have "truth b = 0 \<longleftrightarrow> \<not> b" for b by (simp add: truth_def)
  moreover have "unat (mem U) < 2 ^ 64" using unsigned_less [of "mem U"] by simp
  ultimately show ?thesis
    using word_end [of "mem U" "env v" "env sz"] by (auto simp: guard_cond_def word_le_nat_alt not_less split: if_splits)
qed

section \<open>Concrete runs\<close>

definition demo_example :: example_state where
  "demo_example =
     \<lparr>ex_mod = demo\<lparr>const_int := (\<lambda>_ n. 50 + n)\<rparr>, ex_next_wid = 0, ex_failFunction = (89, 0),
      LowerBoundLocation = 90, UpperBoundLocation = 91, CheckResultLocation = 92\<rparr>"

lemma demo_example_fields:
  "bb_insts (ex_mod demo_example) = (\<lambda>b. if b = 0 then [3, 4, 5, 6, 7] else [])"
  "inst_bb (ex_mod demo_example) = (\<lambda>_. 0)" "bb_fun (ex_mod demo_example) = (\<lambda>_. 1)"
  "fun_blocks (ex_mod demo_example) = (\<lambda>f. if f = 1 then [0] else [])"
  "next_vid (ex_mod demo_example) = 100" "next_bb (ex_mod demo_example) = 1"
  "fold_op (ex_mod demo_example) = (\<lambda>_ _ _. None)"
  by (simp_all add: demo_example_def demo_def)

lemma demo_example_ok:
  "code_ok (ex_mod demo_example)" "in_code (ex_mod demo_example) 5" "unfolded (ex_mod demo_example) 3"
proof -
  note f = demo_example_fields
  show "unfolded (ex_mod demo_example) 3" by (simp only: unfolded_def f simp_thms)
  show "in_code (ex_mod demo_example) 5" by (simp add: in_code_def parent_fun_def f)
  have 1: "v < 100" if "v \<in> set (bb_insts (ex_mod demo_example) b)" for v b
    using that by (auto simp: f split: if_splits)
  have 2: "distinct (bb_insts (ex_mod demo_example) b)" for b by (simp add: f)
  have 3: "b = 0" if "v \<in> set (bb_insts (ex_mod demo_example) b)" for v b
    using that by (auto simp: f split: if_splits)
  have 4: "distinct (fun_blocks (ex_mod demo_example) F)" for F by (simp add: f)
  have 5: "F = 1 \<and> b = 0" if "b \<in> set (fun_blocks (ex_mod demo_example) F)" for b F
    using that by (auto simp: f split: if_splits)
  have 6: "bb_insts (ex_mod demo_example) b = []" if "b \<ge> 1" for b using that by (simp add: f)
  have 7: "bb_fun (ex_mod demo_example) b = F \<and> b < next_bb (ex_mod demo_example)"
    if "b \<in> set (fun_blocks (ex_mod demo_example) F)" for b F
    using 5 [OF that] by (simp add: f(3,6))
  have 8: "inst_bb (ex_mod demo_example) v = b" if "v \<in> set (bb_insts (ex_mod demo_example) b)" for v b
    using 3 [OF that] by (simp add: f(2))
  have 9: "fresh_ids (ex_mod demo_example)" using 1 by (simp only: fresh_ids_def f(5)) blast
  have 10: "bb_insts (ex_mod demo_example) b = []" if "next_bb (ex_mod demo_example) \<le> b" for b
    using 6 that by (simp only: f(6))
  show "code_ok (ex_mod demo_example)"
    unfolding code_ok_def using 2 4 7 8 9 10 by blast
qed

lemma demo_target_fields:
  "instrumentee demo_target = Some 3" "location demo_target = 5" "isValid demo_target" "isCheck demo_target"
  by code_simp+

lemma demo_target_size: "access_size (ex_mod demo_example) demo_target = Some 54"
  by (simp add: access_size_def demo_target_def it_ctor_defs isVarSizeCheckIT_def isConstSizeCheckIT_def
      demo_example_def)

lemma demo_example_runs: "\<not> isl (example_insertCheck demo_target demo_example)"
  by (simp add: example_insertCheck_def demo_target_fields demo_target_size getLocation_def getInstrumentee_def
      hasInstrumentee_def       case_prod_unfold Let_def)


text \<open>An access of eight bytes at the last address passes bounds that end at address seven.\<close>

theorem example_guard_bounds_witness:
  "\<exists>c m'. example_guard 5 3 90 91 58 (ex_mod demo_example) = (c, m') \<and>
     run_code m' (\<lambda>g. if g = 91 then 7 else 0) [100..<next_vid m'] (\<lambda>v. if v = 3 then - 1 else 8) c = 0"
proof -
  obtain c m' where g: "example_guard 5 3 90 91 58 (ex_mod demo_example) = (c, m')" by (metis surj_pair)
  have "unat (- 1 :: cell) = 2 ^ 64 - 1" by (simp add: unsigned_minus_1_eq_mask mask_eq_exp_minus_1)
  with example_guard_bounds [OF g demo_example_ok(3), of "\<lambda>g. if g = 91 then 7 else 0" "\<lambda>v. if v = 3 then - 1 else 8"] g
  show ?thesis by (simp add: demo_example_fields(5))
qed

end
