(* ===== verification/BlockCalls.thy ===== *)
theory BlockCalls
  imports Builder
begin

text \<open>
  The calls a block gains while code is appended to it: the constructors of the mechanisms register
  objects, table entries or times by sequences of such calls.
\<close>

definition call_args_of :: "ir \<Rightarrow> vid \<Rightarrow> vid \<Rightarrow> vid list option" where
  "call_args_of m f v =
     (case get_inst m v of
        Some (Call ci _) \<Rightarrow> if called_function ci = Some f then Some (call_args ci) else None
      | _ \<Rightarrow> None)"

definition calls_of :: "ir \<Rightarrow> vid \<Rightarrow> vid list \<Rightarrow> vid list list" where
  "calls_of m f vs = List.map_filter (call_args_of m f) vs"

text \<open>From \<open>m\<close> to \<open>m'\<close> block \<open>b\<close> is extended, with the calls \<open>argss\<close> of \<open>f\<close>; old instructions stay.\<close>

definition appends :: "bbid \<Rightarrow> vid \<Rightarrow> vid list list \<Rightarrow> ir \<Rightarrow> ir \<Rightarrow> bool" where
  "appends b f argss m m' \<longleftrightarrow>
     (\<exists>vs. bb_insts m' b = bb_insts m b @ vs \<and> calls_of m' f vs = argss \<and> (\<forall>v \<in> set vs. v < next_vid m')) \<and>
     next_vid m \<le> next_vid m' \<and> (\<forall>v < next_vid m. v_kind (vals m' v) = v_kind (vals m v) \<and> v_name (vals m' v) = v_name (vals m v)) \<and>
     fun_blocks m' = fun_blocks m \<and> mod_functions m' = mod_functions m \<and> const_int m' = const_int m \<and> ctx_ty m' = ctx_ty m"

lemma calls_of_append: "calls_of m f (xs @ ys) = calls_of m f xs @ calls_of m f ys"
  by (simp add: calls_of_def map_filter_def)

lemma calls_of_old:
  assumes "\<And>v. v \<in> set vs \<Longrightarrow> v_kind (vals m' v) = v_kind (vals m v)"
  shows "calls_of m' f vs = calls_of m f vs"
proof -
  have "call_args_of m' f v = call_args_of m f v" if "v \<in> set vs" for v
    using assms [OF that] by (simp add: call_args_of_def get_inst_def)
  then show ?thesis by (simp add: calls_of_def map_filter_def cong: map_cong filter_cong)
qed

lemma appendsD:
  assumes "appends b f argss m m'"
  shows "const_int m' = const_int m" "ctx_ty m' = ctx_ty m" "next_vid m \<le> next_vid m'" "fun_blocks m' = fun_blocks m"
    "mod_functions m' = mod_functions m"
    and "v < next_vid m \<Longrightarrow> v_kind (vals m' v) = v_kind (vals m v)"
    and "v < next_vid m \<Longrightarrow> v_name (vals m' v) = v_name (vals m v)"
  using assms by (simp_all add: appends_def)

lemma appends_refl [simp]: "appends b f [] m m"
  by (simp add: appends_def calls_of_def map_filter_def)

lemma appends_trans [trans]:
  assumes "appends b f xs m m1" and "appends b f ys m1 m2"
  shows "appends b f (xs @ ys) m m2"
proof -
  note 1 = assms(1) [unfolded appends_def] and 2 = assms(2) [unfolded appends_def]
  obtain vs ws where v: "bb_insts m1 b = bb_insts m b @ vs" "calls_of m1 f vs = xs" "\<forall>v \<in> set vs. v < next_vid m1"
    and w: "bb_insts m2 b = bb_insts m1 b @ ws" "calls_of m2 f ws = ys" "\<forall>v \<in> set ws. v < next_vid m2"
    using 1 2 by blast
  have "calls_of m2 f vs = xs" using calls_of_old [of vs m2 m1 f] v 2 by simp
  then have "calls_of m2 f (vs @ ws) = xs @ ys" by (simp add: calls_of_append w(2))
  moreover have "\<forall>v \<in> set (vs @ ws). v < next_vid m2" using v(3) w(3) 2 by auto
  moreover have "v_kind (vals m2 x) = v_kind (vals m x) \<and> v_name (vals m2 x) = v_name (vals m x)" if "x < next_vid m" for x
  proof -
    have "x < next_vid m1" using that 1 by linarith
    with that 1 2 show ?thesis by simp
  qed
  moreover have "next_vid m \<le> next_vid m2" using 1 2 by linarith
  ultimately show ?thesis
    unfolding appends_def using v(1) w(1) 1 2 by (intro conjI exI [of _ "vs @ ws"]) auto
qed

lemma appends_frame:
  assumes "next_vid m' = next_vid m" and "\<And>v. v_kind (vals m' v) = v_kind (vals m v)"
    and "\<And>v. v_name (vals m' v) = v_name (vals m v)" and "bb_insts m' = bb_insts m"
    and "fun_blocks m' = fun_blocks m" and "mod_functions m' = mod_functions m" and "const_int m' = const_int m" and "ctx_ty m' = ctx_ty m"
  shows "appends b f [] m m'"
  using assms by (simp add: appends_def calls_of_def map_filter_def)

lemma mark_fields:
  "setNoInstrument V m = Inr m' \<Longrightarrow> fun_blocks m' = fun_blocks m \<and> mod_functions m' = mod_functions m"
  "setNoInstrument V m = Inr m' \<Longrightarrow> v_name (vals m' v) = v_name (vals m v)"
  by (auto simp: setNoInstrument_def addMIMetadata_def set_metadata_def Let_def split: if_splits)

lemma appends_mark: "setNoInstrument V m = Inr m' \<Longrightarrow> appends b f [] m m'"
  using addMIMetadata_fields [of V NOINSTRUMENT_MD m m'] mark_fields [of V m m']
  by (intro appends_frame) (simp_all add: setNoInstrument_def)

lemma appends_emit:
  assumes "emit (AtEnd b) i ty nm m = (n, m')"
  shows "appends b f (case i of Call ci _ \<Rightarrow> if called_function ci = Some f then [call_args ci] else [] | _ \<Rightarrow> []) m m'"
proof -
  note e = emit_fields [OF assms]
  have "get_inst m' n = Some i" by (simp add: get_inst_def e)
  then have "calls_of m' f [n] = (case i of Call ci _ \<Rightarrow> if called_function ci = Some f then [call_args ci] else [] | _ \<Rightarrow> [])"
    by (cases i) (simp_all add: calls_of_def map_filter_def call_args_of_def)
  moreover have "fun_blocks m' = fun_blocks m \<and> mod_functions m' = mod_functions m" using assms by (auto simp: emit_def new_value_def Let_def)
  ultimately show ?thesis by (simp add: appends_def e ip_block_def ip_insert_def)
qed

lemma appends_emit_op:
  assumes "emit_op (AtEnd b) oper args i ty nm m = (n, m')" and "\<And>ci x. i \<noteq> Call ci x"
  shows "appends b f [] m m'"
proof (cases "fold_op m oper args ty")
  case None
  with assms(1) have "emit (AtEnd b) i ty nm m = (n, m')" by (simp add: emit_op_def)
  from appends_emit [OF this, of f] assms(2) show ?thesis by (cases i) auto
qed (use assms(1) in \<open>simp add: emit_op_def\<close>)

lemma appends_call:
  assumes "insertCall (AtEnd b) fn args name m = Inr (c, m')"
  shows "appends b f (if fst fn = f then [args] else []) m m'"
proof -
  let ?i = "Call \<lparr>called_operand = fst fn, called_function = Some (fst fn), call_args = args\<rparr> None"
  obtain c1 m1 where e: "emit (AtEnd b) ?i (snd fn) (if types m (snd fn) = VoidTy then [] else name) m = (c1, m1)"
    by (metis surj_pair)
  with assms have "setNoInstrument c1 m1 = Inr m'"
    by (auto simp: insertCall_def Let_def bindE_eq_Inr)
  from appends_trans [OF appends_emit [OF e, of f] appends_mark [OF this, of b f]] show ?thesis
    by (simp split: if_splits)
qed

lemma appends_call_no_name:
  "insertCallNoName (AtEnd b) fn args m = Inr (c, m') \<Longrightarrow> appends b f (if fst fn = f then [args] else []) m m'"
  unfolding insertCallNoName_def by (rule appends_call)

lemma appends_cast:
  assumes "insertCastNoSuffix ty v (AtEnd b) m = Inr (r, m')"
  shows "appends b f [] m m'"
proof -
  obtain r1 m1 where e: "emit_op (AtEnd b) ''bitcast'' [v] (BitCast v) ty (v_name (vals m v) @ ''_casted'') m = (r1, m1)"
    by (metis surj_pair)
  with assms have "m' = m1 \<or> setNoInstrument r1 m1 = Inr m'"
    by (auto simp: insertCastNoSuffix_def insertCast_def Let_def bindE_eq_Inr split: if_splits)
  moreover have "appends b f [] m m1" by (rule appends_emit_op [OF e]) simp
  ultimately show ?thesis using appends_trans [of b f "[]" m m1 "[]" m'] appends_mark by auto
qed

lemma appends_string:
  assumes "insertStringLiteral str m = Inr (gv, m')"
  shows "appends b f [] m m'"
proof -
  obtain v m1 where e: "new_value (Const GlobalVariable) (ctx_ty m ''string'') (''stringliteral.'' @ str) m = (v, m1)"
    by (metis surj_pair)
  with assms have mk: "setNoInstrument v (m1\<lparr>mod_globals := mod_globals m1 @ [v]\<rparr>) = Inr m'"
    by (auto simp: insertStringLiteral_def Let_def bindE_eq_Inr)
  have "appends b f [] m (m1\<lparr>mod_globals := mod_globals m1 @ [v]\<rparr>)"
    using e by (auto simp: new_value_def appends_def calls_of_def map_filter_def)
  from appends_trans [OF this appends_mark [OF mk]] show ?thesis by simp
qed

text \<open>A loop that appends the calls of its elements.\<close>

lemma appends_loop:
  assumes "foldE step xs m = Inr m'"
    and "\<And>x m1 m2. step x m1 = Inr m2 \<Longrightarrow> const_int m1 = const_int m \<Longrightarrow> ctx_ty m1 = ctx_ty m \<Longrightarrow>
           appends b f (argss x) m1 m2"
  shows "appends b f (concat (map argss xs)) m m'"
proof -
  have "appends b f (concat (map argss xs)) m1 m'" if "foldE step xs m1 = Inr m'"
    "const_int m1 = const_int m" "ctx_ty m1 = ctx_ty m" for m1
    using that
  proof (induction xs arbitrary: m1)
    case (Cons x xs)
    from Cons.prems(1) obtain m2 where 1: "step x m1 = Inr m2" "foldE step xs m2 = Inr m'" by (auto simp: bindE_eq_Inr)
    have a: "appends b f (argss x) m1 m2" by (rule assms(2) [OF 1(1) Cons.prems(2,3)])
    have "appends b f (concat (map argss xs)) m2 m'"
      by (rule Cons.IH [OF 1(2)]) (use Cons.prems(2,3) appendsD(1,2) [OF a] in simp_all)
    with a appends_trans show ?case by simp
  qed simp
  with assms(1) show ?thesis by simp
qed

section \<open>Building does not fail\<close>

text \<open>
  A mark can be set on an instruction, a global variable or a function, so the building blocks of a
  set-up do not fail in a module whose functions are functions.
\<close>

definition functions_ok :: "ir \<Rightarrow> bool" where
  "functions_ok m \<longleftrightarrow> (\<forall>f \<in> set (mod_functions m). f < next_vid m \<and> get_const m f = Some FunctionVal)"

lemma markable:
  assumes "is_instruction m V \<or> get_const m V = Some FunctionVal \<or> get_const m V = Some GlobalVariable"
  shows "\<exists>m'. setNoInstrument V m = Inr m'"
  using assms by (auto simp: setNoInstrument_def addMIMetadata_def is_global_object_def Let_def)

lemma functions_ok_mark:
  assumes "setNoInstrument V m = Inr m'" and "functions_ok m"
  shows "functions_ok m'"
proof -
  have "get_const m' f = get_const m f" for f
    using addMIMetadata_fields(6) [OF assms(1) [unfolded setNoInstrument_def], of f] by (simp add: get_const_def)
  moreover have "next_vid m' = next_vid m"
    using addMIMetadata_fields(1) [OF assms(1) [unfolded setNoInstrument_def]] .
  ultimately show ?thesis using assms mark_fields(1) by (auto simp: functions_ok_def)
qed

lemma insertCall_total: "\<exists>c m'. insertCall p fn args name m = Inr (c, m')"
proof -
  obtain c1 m1 where e: "emit p (Call \<lparr>called_operand = fst fn, called_function = Some (fst fn), call_args = args\<rparr>
      None) (snd fn) (if types m (snd fn) = VoidTy then [] else name) m = (c1, m1)"
    by (metis surj_pair)
  then have "is_instruction m1 c1" by (simp add: is_instruction_def get_inst_def emit_fields [OF e])
  then obtain m2 where "setNoInstrument c1 m1 = Inr m2" using markable by blast
  with e show ?thesis by (simp add: insertCall_def Let_def)
qed

lemma insertCast_total: "\<exists>r m'. insertCast ty v p sfx m = Inr (r, m')"
proof -
  obtain r m1 where e: "emit_op p ''bitcast'' [v] (BitCast v) ty (v_name (vals m v) @ sfx) m = (r, m1)" by (metis surj_pair)
  show ?thesis
  proof (cases "is_instruction m1 r")
    case True
    then obtain m2 where "setNoInstrument r m1 = Inr m2" using markable by blast
    with e True show ?thesis by (simp add: insertCast_def)
  qed (use e in \<open>simp add: insertCast_def\<close>)
qed

lemma insertStringLiteral_total: "\<exists>gv m'. insertStringLiteral str m = Inr (gv, m')"
proof -
  obtain v m1 where e: "new_value (Const GlobalVariable) (ctx_ty m ''string'') (''stringliteral.'' @ str) m = (v, m1)"
    by (metis surj_pair)
  then have "get_const (m1\<lparr>mod_globals := mod_globals m1 @ [v]\<rparr>) v = Some GlobalVariable"
    by (auto simp: new_value_def get_const_def)
  then obtain m2 where "setNoInstrument v (m1\<lparr>mod_globals := mod_globals m1 @ [v]\<rparr>) = Inr m2" using markable by blast
  with e show ?thesis by (simp add: insertStringLiteral_def Let_def)
qed

lemma getOrInsertFunction_ok:
  assumes "functions_ok m" and "getOrInsertFunction name m = (f, m')"
  shows "get_const m' f = Some FunctionVal \<and> functions_ok m'"
proof (cases "filter (\<lambda>f. v_name (vals m f) = name) (mod_functions m)")
  case Nil
  with assms show ?thesis
    by (auto simp: getOrInsertFunction_def new_value_def get_const_def functions_ok_def less_Suc_eq)
next
  case (Cons g gs)
  then have "g \<in> set (mod_functions m)" by (metis list.set_intros(1) mem_Collect_eq set_filter)
  with Cons assms show ?thesis by (auto simp: getOrInsertFunction_def functions_ok_def)
qed

lemma insertFunDecl_total:
  assumes "functions_ok m"
  shows "\<exists>f m'. insertFunDecl name ret m = Inr (f, m') \<and> functions_ok m'"
proof -
  obtain g m0 where g: "getOrInsertFunction name m = (g, m0)" by (metis surj_pair)
  note ok = getOrInsertFunction_ok [OF assms g]
  then obtain m1 where m1: "setNoInstrument g m0 = Inr m1" using markable by blast
  with functions_ok_mark ok have "functions_ok m1" by blast
  with g m1 show ?thesis by (simp add: insertFunDecl_def)
qed

lemma newCtorFunctions_total:
  "functions_ok m \<Longrightarrow> \<exists>fs m'. newCtorFunctions names m = Inr (fs, m') \<and> functions_ok m'"
proof (induction names arbitrary: m)
  case (Cons name names)
  let ?m1 = "snd (new_value (Const FunctionVal) (ctx_ty m ''fn'') name m)" and ?f = "next_vid m"
  let ?m2 = "?m1\<lparr>mod_functions := mod_functions ?m1 @ [?f], fun_blocks := (fun_blocks ?m1)(?f := [])\<rparr>"
  have ok: "functions_ok ?m2" "get_const ?m2 ?f = Some FunctionVal"
    using Cons.prems by (auto simp: functions_ok_def new_value_def get_const_def less_Suc_eq)
  then obtain m3 where m3: "setNoInstrument ?f ?m2 = Inr m3" using markable by blast
  then have "functions_ok m3" using functions_ok_mark ok(1) by blast
  from Cons.IH [OF this] m3 show ?case by (auto simp: Let_def new_value_def)
qed simp

lemma functions_ok_frame:
  assumes "functions_ok m" and "next_vid m \<le> next_vid m'" and "mod_functions m' = mod_functions m"
    and "\<And>v. v < next_vid m \<Longrightarrow> v_kind (vals m' v) = v_kind (vals m v)"
  shows "functions_ok m'"
proof -
  have "get_const m' f = get_const m f" if "f < next_vid m" for f using assms(4) [OF that] by (simp add: get_const_def)
  then show ?thesis using assms(1-3) by (fastforce simp: functions_ok_def)
qed

lemma registerCtors_total:
  assumes "functions_ok m"
  shows "\<exists>fs m'. registerCtors names m = Inr (fs, m') \<and> functions_ok m'"
proof -
  obtain fs m1 where c: "newCtorFunctions names m = Inr (fs, m1)" "functions_ok m1"
    using newCtorFunctions_total [OF assms] by blast
  let ?m2 = "m1\<lparr>mod_globals := filter (\<lambda>g. v_name (vals m1 g) \<noteq> ''llvm.global_ctors'') (mod_globals m1)\<rparr>"
  obtain gv m3 where n: "new_value (Const GlobalVariable) (ctx_ty m ''ctors'') ''llvm.global_ctors'' ?m2 = (gv, m3)"
    by (metis surj_pair)
  let ?m4 = "m3\<lparr>mod_globals := mod_globals m3 @ [gv], global_ctors := fs @ global_ctors m3\<rparr>"
  have ok: "functions_ok ?m4"
    by (rule functions_ok_frame [OF c(2)]) (use n in \<open>auto simp: new_value_def\<close>)
  have "get_const ?m4 gv = Some GlobalVariable" using n by (auto simp: new_value_def get_const_def)
  then obtain m5 where m5: "setNoInstrument gv ?m4 = Inr m5" using markable by blast
  then have "functions_ok m5" using functions_ok_mark ok by blast
  with c(1) n m5 show ?thesis by (simp add: registerCtors_def Let_def)
qed

lemma functions_ok_block: "functions_ok m \<Longrightarrow> functions_ok (snd (new_block f m))"
  by (rule functions_ok_frame) (simp_all add: new_block_def)

end
