(* ===== verification/Sleep.thy ===== *)
theory Sleep
  imports KeepCode BlockCalls "HOL-Library.Word"
begin

text \<open>
  \<open>lib/instrumentation_mechanisms/SleepMechanism.cpp\<close>: the splay mechanism with another set-up,
  which tells the sleep run time how long every operation takes. The options are 32-bit integers;
  -1 stands for an option that is not given.
\<close>

record sleep_options =
  DefaultTime :: "32 word"
  GenBoundsTime :: "32 word"
  DerefCheckTime :: "32 word"
  InvarCheckTime :: "32 word"
  StackAllocTime :: "32 word"
  HeapAllocTime :: "32 word"
  GlobalAllocTime :: "32 word"
  HeapFreeTime :: "32 word"

definition default_sleep_options :: sleep_options where
  "default_sleep_options =
     \<lparr>DefaultTime = 0, GenBoundsTime = - 1, DerefCheckTime = - 1, InvarCheckTime = - 1,
      StackAllocTime = - 1, HeapAllocTime = - 1, GlobalAllocTime = - 1, HeapFreeTime = - 1\<rparr>"

definition getSleepValOrDefault :: "sleep_options \<Rightarrow> 32 word \<Rightarrow> 32 word" where
  "getSleepValOrDefault opts v = (if v \<noteq> - 1 then v else DefaultTime opts)"

text \<open>The calls of \<open>ADD_TIME_VAL\<close>, in their order.\<close>

definition sleep_times :: "sleep_options \<Rightarrow> (nat \<times> 32 word) list" where
  "sleep_times opts =
     [(0, getSleepValOrDefault opts (DerefCheckTime opts)),
      (1, getSleepValOrDefault opts (InvarCheckTime opts)),
      (2, getSleepValOrDefault opts (GenBoundsTime opts)),
      (3, getSleepValOrDefault opts (StackAllocTime opts)),
      (4, getSleepValOrDefault opts (HeapAllocTime opts)),
      (5, getSleepValOrDefault opts (GlobalAllocTime opts)),
      (6, getSleepValOrDefault opts (HeapFreeTime opts))]"

definition add_time_val :: "bbid \<Rightarrow> callee \<Rightarrow> nat \<times> 32 word \<Rightarrow> ir \<Rightarrow> ir res" where
  "add_time_val block configFunction iv m =
     bindE (insertCallNoName (AtEnd block) configFunction
              [const_int m (SizeType m) (fst iv), const_int m (SizeType m) (unat (snd iv))] m) (\<lambda>(_, m').
     Inr m')"

definition sleep_callback :: "sleep_options \<Rightarrow> ir \<Rightarrow> ir res" where
  "sleep_callback opts m =
     bindE (insertFunDecl ''__mi_config'' ''void'' m) (\<lambda>(configFunction, m1).
     let (f, m2) = new_value (Const FunctionVal) (ctx_ty m ''fn'') ''__mi_init_callback__'' m1;
         m3 = m2\<lparr>mod_functions := mod_functions m2 @ [f], fun_blocks := (fun_blocks m2)(f := [])\<rparr>
     in bindE (setNoInstrument f m3) (\<lambda>m4.
        let (block, m5) = new_block f m4
        in bindE (foldE (add_time_val block configFunction) (sleep_times opts) m5) (\<lambda>m6.
           Inr (snd (emit (AtEnd block) (Ret None) (ctx_ty m ''void'') [] m6)))))"

definition sleep_initialize :: "sleep_options \<Rightarrow> splay_state \<Rightarrow> splay_state res" where
  "sleep_initialize opts s =
     bindE (splay_initialize s) (\<lambda>s1.
     bindE (sleep_callback opts (sp_mod s1)) (\<lambda>m. Inr (s1\<lparr>sp_mod := m\<rparr>)))"

definition sleep_object :: "sleep_options \<Rightarrow> splay_state mechanism_object" where
  "sleep_object opts =
     splay_object\<lparr>mo_interface := splay_mechanism\<lparr>im_name := ''Sleep''\<rparr>, mo_initialize := sleep_initialize opts\<rparr>"

interpretation sleep_owner: module_owner "sleep_object opts" for opts
  by unfold_locales (simp add: sleep_object_def splay_object_def)

lemma keeper_renamed: "code_keeper im R \<Longrightarrow> code_keeper (im\<lparr>im_name := n\<rparr>) R"
  by (simp add: code_keeper_def)

interpretation sleep_code: code_keeper "mo_interface (sleep_object opts)" splay_keeps for opts
  using keeper_renamed [OF splay_code.code_keeper_axioms, of "''Sleep''"]
  by (simp add: sleep_object_def splay_object_def)

section \<open>The table of times\<close>

lemma sleep_times_indices: "map fst (sleep_times opts) = [0..<7]"
  by (simp add: sleep_times_def upt_rec)

definition time_args :: "ir \<Rightarrow> nat \<times> 32 word \<Rightarrow> vid list" where
  "time_args m iv = [const_int m (SizeType m) (fst iv), const_int m (SizeType m) (unat (snd iv))]"

lemma add_times_append:
  assumes "foldE (add_time_val b fn) xs m = Inr m'"
  shows "appends b (fst fn) (map (time_args m) xs) m m'"
proof -
  have "appends b (fst fn) (concat (map (\<lambda>x. [time_args m x]) xs)) m m'"
  proof (rule appends_loop [OF assms])
    fix x m1 m2
    assume "add_time_val b fn x m1 = Inr m2" and c: "const_int m1 = const_int m" "ctx_ty m1 = ctx_ty m"
    then obtain r where "insertCallNoName (AtEnd b) fn (time_args m x) m1 = Inr (r, m2)"
      by (auto simp: add_time_val_def bindE_eq_Inr time_args_def SizeType_def)
    from appends_call_no_name [OF this, of "fst fn"] show "appends b (fst fn) [time_args m x] m1 m2" by simp
  qed
  then show ?thesis by (simp add: map_concat [symmetric] concat_map_singleton)
qed

lemma add_times_total: "\<exists>m'. foldE (add_time_val b fn) xs m = Inr m'"
proof -
  have one: "\<exists>m'. add_time_val b fn x m = Inr m' \<and> True" for x m
    using insertCall_total [of "AtEnd b" fn "time_args m x" "''inserted.call''" m]
    by (auto simp: add_time_val_def insertCallNoName_def time_args_def)
  have "\<exists>m'. foldE (add_time_val b fn) xs m = Inr m' \<and> True" by (rule foldE_total) (simp, rule one)
  then show ?thesis by simp
qed

lemma sleep_callback_total:
  assumes "functions_ok m"
  shows "\<exists>m'. sleep_callback opts m = Inr m'"
proof -
  obtain cfg m1 where d: "insertFunDecl ''__mi_config'' ''void'' m = Inr (cfg, m1)"
    using insertFunDecl_total [OF assms] by blast
  let ?m2 = "snd (new_value (Const FunctionVal) (ctx_ty m ''fn'') ''__mi_init_callback__'' m1)" and ?f = "next_vid m1"
  let ?m3 = "?m2\<lparr>mod_functions := mod_functions ?m2 @ [?f], fun_blocks := (fun_blocks ?m2)(?f := [])\<rparr>"
  have "get_const ?m3 ?f = Some FunctionVal" by (simp add: get_const_def new_value_def)
  then obtain m4 where "setNoInstrument ?f ?m3 = Inr m4" using markable by blast
  moreover obtain m6 where "foldE (add_time_val (next_bb m4) cfg) (sleep_times opts) (snd (new_block ?f m4)) = Inr m6"
    using add_times_total by blast
  moreover have "ctx_ty m1 = ctx_ty m" using only_addsD(6) [OF only_adds_decl [OF d]] .
  ultimately show ?thesis by (simp add: sleep_callback_def d Let_def new_value_def new_block_def)
qed



end
