(* ===== verification/RuntimeStat.thy ===== *)
theory RuntimeStat
  imports PlainWitness
begin

text \<open>
  \<open>lib/instrumentation_mechanisms/RuntimeStatMechanism.cpp\<close>: a check increments the counter of the
  class of its access. In verbose mode every load and store has a counter of its own, numbered in
  the order of the code. The table \<open>StringMap\<close> is hashed by address, so the order in which the set-up
  walks over it is an argument (\<open>rt_order\<close>). The option \<open>RemovalAnnotationString\<close> and the name of
  the module are fields of the state. Statistics counters are left out.
\<close>

record rtstat_state =
  rt_mod :: ir
  rt_next_wid :: wid
  Verbose :: bool
  StatIncFunction :: callee
  StatTableID :: vid
  StringMap :: "(vid \<times> nat \<times> string) list"
  rt_annotation :: string
  rt_module_name :: string
  rt_order :: "(vid \<times> nat \<times> string) list \<Rightarrow> (vid \<times> nat \<times> string) list"

definition LoadIdx :: nat where "LoadIdx = 1"
definition StoreIdx :: nat where "StoreIdx = 2"
definition NoSanLoadIdx :: nat where "NoSanLoadIdx = 3"
definition NoSanStoreIdx :: nat where "NoSanStoreIdx = 4"
definition PMDApreciseIdx :: nat where "PMDApreciseIdx = 1"
definition PMDAsummaryIdx :: nat where "PMDAsummaryIdx = 2"
definition PMDAlocalIdx :: nat where "PMDAlocalIdx = 3"
definition PMDAbadIdx :: nat where "PMDAbadIdx = 4"

lemmas rt_consts = LoadIdx_def StoreIdx_def NoSanLoadIdx_def NoSanStoreIdx_def
  PMDApreciseIdx_def PMDAsummaryIdx_def PMDAlocalIdx_def PMDAbadIdx_def

section \<open>Witnesses\<close>

definition new_rt_witness :: "rtstat_state \<Rightarrow> wid \<times> rtstat_state" where
  "new_rt_witness s = (rt_next_wid s, s\<lparr>rt_next_wid := Suc (rt_next_wid s)\<rparr>)"

definition rt_getLowerBound :: "wid \<Rightarrow> rtstat_state \<Rightarrow> vid option res" where
  "rt_getLowerBound _ _ = Inr None"

definition rt_getUpperBound :: "wid \<Rightarrow> rtstat_state \<Rightarrow> vid option res" where
  "rt_getUpperBound _ _ = Inr None"

definition rt_insertWitnesses :: "itarget \<Rightarrow> rtstat_state \<Rightarrow> (itarget \<times> rtstat_state) res" where
  "rt_insertWitnesses = plain_insertWitnesses rt_mod new_rt_witness"

definition rt_getRelocatedClone :: "wid \<Rightarrow> vid \<Rightarrow> rtstat_state \<Rightarrow> (wid \<times> rtstat_state) res" where
  "rt_getRelocatedClone _ _ s = Inr (new_rt_witness s)"

section \<open>Checks\<close>

definition rt_marked :: "rtstat_state \<Rightarrow> vid \<Rightarrow> bool" where
  "rt_marked s v = (get_metadata (rt_mod s) v (rt_annotation s) \<noteq> None)"

definition rt_index :: "rtstat_state \<Rightarrow> vid \<Rightarrow> nat" where
  "rt_index s loc =
     (let m = rt_mod s; F = parent_fun m loc in
      (if is_load m loc \<and> rt_marked s loc then 5 * NoSanLoadIdx
       else if is_store m loc \<and> rt_marked s loc then 5 * NoSanStoreIdx
       else if is_load m loc then 5 * LoadIdx
       else if is_store m loc then 5 * StoreIdx
       else 0) +
      (if get_metadata m F ''PMDAprecise'' \<noteq> None then PMDApreciseIdx
       else if get_metadata m F ''PMDAsummary'' \<noteq> None then PMDAsummaryIdx
       else if get_metadata m F ''PMDAlocal'' \<noteq> None then PMDAlocalIdx
       else if get_metadata m F ''PMDAbad'' \<noteq> None then PMDAbadIdx
       else 0))"

definition rt_counter :: "rtstat_state \<Rightarrow> vid \<Rightarrow> nat res" where
  "rt_counter s loc =
     (if Verbose s then
        (case map_of (StringMap s) loc of
           None \<Rightarrow> Inl (AssertionFailed ''RT instrumentation required for unknown instruction!'')
         | Some (idx, _) \<Rightarrow> Inr idx)
      else Inr (rt_index s loc))"

definition rt_insertCheck :: "itarget \<Rightarrow> rtstat_state \<Rightarrow> rtstat_state res" where
  "rt_insertCheck T s =
     bindE (assertE (isValid T) ''Target.isValid()'') (\<lambda>_.
     bindE (assertE (isCheck T) ''Target.isCheck()'') (\<lambda>_.
     bindE (getLocation T) (\<lambda>loc.
     bindE (rt_counter s loc) (\<lambda>idx.
     let (tableID, m) = emit (Before loc) (Load (StatTableID s)) (SizeType (rt_mod s)) ''stat_table_id'' (rt_mod s)
     in bindE (insertCallNoName (Before loc) (StatIncFunction s) [tableID, const_int m (SizeType m) idx] m) (\<lambda>(_, m').
        Inr (s\<lparr>rt_mod := m'\<rparr>))))))"

definition rt_materializeBounds :: "itarget \<Rightarrow> rtstat_state \<Rightarrow> rtstat_state res" where
  "rt_materializeBounds _ _ =
     Inl (UnreachableReached ''Explicit bounds are not supported by this mechanism!'')"

definition rt_getFailFunction :: "rtstat_state \<Rightarrow> callee res" where
  "rt_getFailFunction _ =
     Inl (UnreachableReached ''FailFunction calls are not supported by this mechanism!'')"

definition rt_getWitnessPhi :: "vid \<Rightarrow> rtstat_state \<Rightarrow> (wid \<times> rtstat_state) res" where
  "rt_getWitnessPhi _ _ = Inl (UnreachableReached ''Phis are not supported by this mechanism!'')"

definition rt_addIncomingWitnessToPhi ::
  "witness_ptr \<Rightarrow> witness_ptr \<Rightarrow> bbid \<Rightarrow> rtstat_state \<Rightarrow> rtstat_state res" where
  "rt_addIncomingWitnessToPhi _ _ _ _ =
     Inl (UnreachableReached ''Phis are not supported by this mechanism!'')"

definition rt_getWitnessSelect ::
  "vid \<Rightarrow> witness_ptr \<Rightarrow> witness_ptr \<Rightarrow> rtstat_state \<Rightarrow> (wid \<times> rtstat_state) res" where
  "rt_getWitnessSelect _ _ _ _ =
     Inl (UnreachableReached ''Selects are not supported by this mechanism!'')"

section \<open>The table of accesses\<close>

definition functionAnnotation :: "ir \<Rightarrow> vid \<Rightarrow> string" where
  "functionAnnotation m F =
     (if get_metadata m F ''PMDAlocal'' \<noteq> None then ''PMDAlocal''
      else if get_metadata m F ''PMDAprecise'' \<noteq> None then ''PMDAprecise''
      else if get_metadata m F ''PMDAsummary'' \<noteq> None then ''PMDAsummary''
      else if get_metadata m F ''PMDAbad'' \<noteq> None then ''PMDAbad''
      else ''[missing]'')"

definition access_kind :: "rtstat_state \<Rightarrow> vid \<Rightarrow> string option" where
  "access_kind s v =
     (if rt_marked s v then
        (if is_load (rt_mod s) v then Some ''marked load''
         else if is_store (rt_mod s) v then Some ''marked store'' else None)
      else
        (if is_load (rt_mod s) v then Some ''unmarked load''
         else if is_store (rt_mod s) v then Some ''unmarked store'' else None))"

definition access_name :: "rtstat_state \<Rightarrow> vid \<Rightarrow> string \<Rightarrow> vid \<Rightarrow> string res" where
  "access_name s F Kind v =
     (let m = rt_mod s in
      if hasAccessID m v then
        bindE (getAccessID m v) (\<lambda>ID.
        Inr (rt_module_name s @ '','' @ v_name (vals m F) @ '','' @ to_string ID))
      else
        Inr ((case debug_loc m v of
                Some (Line, File) \<Rightarrow>
                  File @ '' - l '' @ to_string Line @ '' - c '' @ to_string (debug_col m v) @ '' - ''
              | None \<Rightarrow> ''unknown location - '') @
             Kind @ '' '' @ functionAnnotation m F @ '' - '' @ v_name (vals m v)))"

definition add_access ::
  "rtstat_state \<Rightarrow> vid \<Rightarrow> vid \<Rightarrow> nat \<times> (vid \<times> nat \<times> string) list \<Rightarrow> (nat \<times> (vid \<times> nat \<times> string) list) res" where
  "add_access s F v ct =
     (case ct of (Counter, table) \<Rightarrow>
      case access_kind s v of
        None \<Rightarrow> Inr (Counter, table)
      | Some Kind \<Rightarrow>
          bindE (access_name s F Kind v) (\<lambda>Name.
          Inr (Suc Counter,
               if v \<in> fst ` set table then table else table @ [(v, Counter, Name)])))"

definition populateStringMap :: "rtstat_state \<Rightarrow> (nat \<times> rtstat_state) res" where
  "populateStringMap s =
     bindE (foldE (\<lambda>F ct.
              if is_declaration (rt_mod s) F then Inr ct
              else foldE (add_access s F) (fun_insts (rt_mod s) F) ct)
            (mod_functions (rt_mod s)) (0, StringMap s)) (\<lambda>(Counter, table).
     Inr (Counter, s\<lparr>StringMap := table\<rparr>))"

section \<open>Set-up\<close>

definition rt_addEntry :: "bbid \<Rightarrow> callee \<Rightarrow> vid \<Rightarrow> nat \<times> string \<Rightarrow> ir \<Rightarrow> ir res" where
  "rt_addEntry bb InitEntryFun call entry m =
     bindE (insertStringLiteral (snd entry) m) (\<lambda>(str, m1).
     bindE (insertCastNoSuffix (ctx_ty m ''i8*'') str (AtEnd bb) m1) (\<lambda>(castStr, m2).
     bindE (insertCallNoName (AtEnd bb) InitEntryFun [call, const_int m (SizeType m) (fst entry), castStr] m2)
       (\<lambda>(_, m3). Inr m3)))"

definition rt_entries :: "(nat \<times> string) list" where
  "rt_entries =
     [(0, ''others''), (1, ''others1''), (2, ''others2''), (3, ''others3''), (4, ''others4''),
      (5 * LoadIdx, ''unmarked loads PMDAmissingdata''),
      (5 * LoadIdx + PMDApreciseIdx, ''unmarked loads PMDAprecise''),
      (5 * LoadIdx + PMDAsummaryIdx, ''unmarked loads PMDAsummary''),
      (5 * LoadIdx + PMDAlocalIdx, ''unmarked loads PMDAlocal''),
      (5 * LoadIdx + PMDAbadIdx, ''unmarked loads PMDAbad''),
      (5 * StoreIdx, ''unmarked stores PMDAmissingdata''),
      (5 * StoreIdx + PMDApreciseIdx, ''unmarked stores PMDAprecise''),
      (5 * StoreIdx + PMDAsummaryIdx, ''unmarked stores PMDAsummary''),
      (5 * StoreIdx + PMDAlocalIdx, ''unmarked stores PMDAlocal''),
      (5 * StoreIdx + PMDAbadIdx, ''unmarked stores PMDAbad''),
      (5 * NoSanLoadIdx, ''marked loads PMDAmissingdata''),
      (5 * NoSanLoadIdx + PMDApreciseIdx, ''marked loads PMDAprecise''),
      (5 * NoSanLoadIdx + PMDAsummaryIdx, ''marked loads PMDAsummary''),
      (5 * NoSanLoadIdx + PMDAlocalIdx, ''marked loads PMDAlocal''),
      (5 * NoSanLoadIdx + PMDAbadIdx, ''marked loads PMDAbad''),
      (5 * NoSanStoreIdx, ''marked stores PMDAmissingdata''),
      (5 * NoSanStoreIdx + PMDApreciseIdx, ''marked stores PMDAprecise''),
      (5 * NoSanStoreIdx + PMDAsummaryIdx, ''marked stores PMDAsummary''),
      (5 * NoSanStoreIdx + PMDAlocalIdx, ''marked stores PMDAlocal''),
      (5 * NoSanStoreIdx + PMDAbadIdx, ''marked stores PMDAbad'')]"

text \<open>The declarations: the state, the two functions of the set-up and the block of the constructor.\<close>

definition rt_declare :: "rtstat_state \<Rightarrow> ((callee \<times> callee \<times> bbid) \<times> rtstat_state) res" where
  "rt_declare s =
     bindE (insertFunDecl ''__mi_stat_inc'' ''void'' (rt_mod s)) (\<lambda>(incFun, m1).
     let (tableID, m2) = new_global ''MI_StatID'' m1 in
     bindE (insertFunDecl ''__mi_stat_init'' ''i64'' m2) (\<lambda>(InitFun, m3).
     bindE (insertFunDecl ''__mi_stat_init_entry'' ''void'' m3) (\<lambda>(InitEntryFun, m4).
     bindE (registerCtors [''__mi_stat_setup''] m4) (\<lambda>(Fun, m5).
     let (BB, m6) = new_block (Fun ! 0) m5
     in Inr ((InitFun, InitEntryFun, BB), s\<lparr>rt_mod := m6, StatIncFunction := incFun, StatTableID := tableID\<rparr>)))))"

definition rt_initialize :: "rtstat_state \<Rightarrow> rtstat_state res" where
  "rt_initialize s0 =
     bindE (rt_declare s0) (\<lambda>((InitFun, InitEntryFun, BB), s).
     let i64 = SizeType (rt_mod s) in
     bindE
       (if Verbose s then
          bindE (populateStringMap s) (\<lambda>(Count, s1).
          bindE (insertCallNoName (AtEnd BB) InitFun [const_int (rt_mod s1) i64 Count] (rt_mod s1)) (\<lambda>(call, m).
          let (_, m1) = emit (AtEnd BB) (Store call (StatTableID s1)) (ctx_ty m ''void'') [] m
          in bindE (foldE (\<lambda>P. rt_addEntry BB InitEntryFun call (snd P)) (rt_order s1 (StringMap s1)) m1) (\<lambda>m2.
             Inr (s1\<lparr>rt_mod := m2\<rparr>))))
        else
          bindE (insertCallNoName (AtEnd BB) InitFun [const_int (rt_mod s) i64 25] (rt_mod s)) (\<lambda>(call, m).
          bindE (foldE (rt_addEntry BB InitEntryFun call) rt_entries m) (\<lambda>m1.
          Inr (s\<lparr>rt_mod := m1\<rparr>)))) (\<lambda>s2.
     Inr (s2\<lparr>rt_mod := snd (emit (AtEnd BB) (Ret None) (ctx_ty (rt_mod s2) ''void'') [] (rt_mod s2))\<rparr>)))"

definition rtstat_mechanism :: "rtstat_state mechanism" where
  "rtstat_mechanism =
     \<lparr>im_name = ''RuntimeStat'', im_invariantsAreChecks = False,
      im_insertWitnesses = rt_insertWitnesses,
      im_getRelocatedClone = rt_getRelocatedClone,
      im_getWitnessPhi = rt_getWitnessPhi,
      im_addIncomingWitnessToPhi = rt_addIncomingWitnessToPhi,
      im_getWitnessSelect = rt_getWitnessSelect,
      im_materializeBounds = rt_materializeBounds,
      im_insertCheck = rt_insertCheck\<rparr>"

definition rtstat_object :: "bool \<Rightarrow> rtstat_state mechanism_object" where
  "rtstat_object verbose =
     \<lparr>mo_interface = rtstat_mechanism, mo_module = rt_mod, mo_set_module = (\<lambda>m s. s\<lparr>rt_mod := m\<rparr>),
      mo_getLowerBound = rt_getLowerBound, mo_getUpperBound = rt_getUpperBound,
      mo_getFailFunction = rt_getFailFunction, mo_initialize = (\<lambda>s. rt_initialize (s\<lparr>Verbose := verbose\<rparr>)),
      mo_skipInstrumentation = skipInstrumentation\<rparr>"

interpretation rtstat_owner: module_owner "rtstat_object v" for v
  by unfold_locales (simp add: rtstat_object_def)

interpretation rtstat_provider: total_provider rtstat_mechanism
proof
  fix T :: itarget and s T' s'
  assume bw: "boundWitnesses T = []" and r: "im_insertWitnesses rtstat_mechanism T s = Inr (T', s')"
  then have "plain_insertWitnesses rt_mod new_rt_witness T s = Inr (T', s')"
    by (simp add: rtstat_mechanism_def rt_insertWitnesses_def)
  from plain_insertWitnesses_stores [OF bw this]
  show "boundWitnesses T' \<noteq> [] \<and> omap_ok (boundWitnesses T') \<and> T' = T\<lparr>boundWitnesses := boundWitnesses T'\<rparr>"
    by (auto simp: stores_in_def)
qed (simp_all add: rtstat_mechanism_def rt_insertWitnesses_def plain_insert_fuel
    rt_getRelocatedClone_def rt_getWitnessPhi_def rt_addIncomingWitnessToPhi_def rt_getWitnessSelect_def)

end
