(* ===== verification/RuntimeStatLaws.thy ===== *)
theory RuntimeStatLaws
  imports RuntimeStat BlockCalls
begin

text \<open>
  What the run-time statistics mechanism counts and registers: the counter of every access is one of
  those its constructor registers, with the label of its class or, in verbose mode, with its name.
\<close>

section \<open>The counters of a run without verbose output\<close>

text \<open>What the counters stand for: the label of the class of an access.\<close>

definition pmda_class :: "ir \<Rightarrow> vid \<Rightarrow> nat" where
  "pmda_class m F =
     (if get_metadata m F ''PMDAprecise'' \<noteq> None then 1
      else if get_metadata m F ''PMDAsummary'' \<noteq> None then 2
      else if get_metadata m F ''PMDAlocal'' \<noteq> None then 3
      else if get_metadata m F ''PMDAbad'' \<noteq> None then 4 else 0)"

definition rt_label :: "rtstat_state \<Rightarrow> vid \<Rightarrow> string" where
  "rt_label s loc =
     (let k = pmda_class (rt_mod s) (parent_fun (rt_mod s) loc);
          mark = (if rt_marked s loc then ''marked'' else ''unmarked'')
      in if is_load (rt_mod s) loc \<or> is_store (rt_mod s) loc then
           mark @ (if is_load (rt_mod s) loc then '' loads '' else '' stores '') @
           [''PMDAmissingdata'', ''PMDAprecise'', ''PMDAsummary'', ''PMDAlocal'', ''PMDAbad''] ! k
         else [''others'', ''others1'', ''others2'', ''others3'', ''others4''] ! k)"

lemma load_not_store: "is_load m v \<Longrightarrow> \<not> is_store m v"
  by (simp add: is_load_def is_store_def split: option.splits instr.splits)

lemma rt_entries_indices: "map fst rt_entries = [0..<25]"
  by (simp add: rt_entries_def rt_consts upt_rec)

lemma rt_entries_at:
  "map_of rt_entries 0 = Some ''others''"
  "map_of rt_entries (Suc 0) = Some ''others1''"
  "map_of rt_entries 2 = Some ''others2''"
  "map_of rt_entries 3 = Some ''others3''"
  "map_of rt_entries 4 = Some ''others4''"
  "map_of rt_entries 5 = Some ''unmarked loads PMDAmissingdata''"
  "map_of rt_entries 6 = Some ''unmarked loads PMDAprecise''"
  "map_of rt_entries 7 = Some ''unmarked loads PMDAsummary''"
  "map_of rt_entries 8 = Some ''unmarked loads PMDAlocal''"
  "map_of rt_entries 9 = Some ''unmarked loads PMDAbad''"
  "map_of rt_entries 10 = Some ''unmarked stores PMDAmissingdata''"
  "map_of rt_entries 11 = Some ''unmarked stores PMDAprecise''"
  "map_of rt_entries 12 = Some ''unmarked stores PMDAsummary''"
  "map_of rt_entries 13 = Some ''unmarked stores PMDAlocal''"
  "map_of rt_entries 14 = Some ''unmarked stores PMDAbad''"
  "map_of rt_entries 15 = Some ''marked loads PMDAmissingdata''"
  "map_of rt_entries 16 = Some ''marked loads PMDAprecise''"
  "map_of rt_entries 17 = Some ''marked loads PMDAsummary''"
  "map_of rt_entries 18 = Some ''marked loads PMDAlocal''"
  "map_of rt_entries 19 = Some ''marked loads PMDAbad''"
  "map_of rt_entries 20 = Some ''marked stores PMDAmissingdata''"
  "map_of rt_entries 21 = Some ''marked stores PMDAprecise''"
  "map_of rt_entries 22 = Some ''marked stores PMDAsummary''"
  "map_of rt_entries 23 = Some ''marked stores PMDAlocal''"
  "map_of rt_entries 24 = Some ''marked stores PMDAbad''"
  by (simp_all add: rt_entries_def rt_consts)

lemma rt_entries_class:
  assumes "k \<in> {0, 1, 2, 3, 4}"
  shows "map_of rt_entries k = Some ([''others'', ''others1'', ''others2'', ''others3'', ''others4''] ! k)"
    and "map_of rt_entries (5 + k) =
      Some (''unmarked'' @ '' loads '' @ [''PMDAmissingdata'', ''PMDAprecise'', ''PMDAsummary'', ''PMDAlocal'', ''PMDAbad''] ! k)"
    and "map_of rt_entries (10 + k) =
      Some (''unmarked'' @ '' stores '' @ [''PMDAmissingdata'', ''PMDAprecise'', ''PMDAsummary'', ''PMDAlocal'', ''PMDAbad''] ! k)"
    and "map_of rt_entries (15 + k) =
      Some (''marked'' @ '' loads '' @ [''PMDAmissingdata'', ''PMDAprecise'', ''PMDAsummary'', ''PMDAlocal'', ''PMDAbad''] ! k)"
    and "map_of rt_entries (20 + k) =
      Some (''marked'' @ '' stores '' @ [''PMDAmissingdata'', ''PMDAprecise'', ''PMDAsummary'', ''PMDAlocal'', ''PMDAbad''] ! k)"
proof -
  from assms consider "k = 0" | "k = 1" | "k = 2" | "k = 3" | "k = 4" by blast
  note c = this
  show "map_of rt_entries k = Some ([''others'', ''others1'', ''others2'', ''others3'', ''others4''] ! k)"
    using c by cases (simp_all add: rt_entries_at)
  show "map_of rt_entries (5 + k) =
      Some (''unmarked'' @ '' loads '' @ [''PMDAmissingdata'', ''PMDAprecise'', ''PMDAsummary'', ''PMDAlocal'', ''PMDAbad''] ! k)"
    using c by cases (simp_all add: rt_entries_at)
  show "map_of rt_entries (10 + k) =
      Some (''unmarked'' @ '' stores '' @ [''PMDAmissingdata'', ''PMDAprecise'', ''PMDAsummary'', ''PMDAlocal'', ''PMDAbad''] ! k)"
    using c by cases (simp_all add: rt_entries_at)
  show "map_of rt_entries (15 + k) =
      Some (''marked'' @ '' loads '' @ [''PMDAmissingdata'', ''PMDAprecise'', ''PMDAsummary'', ''PMDAlocal'', ''PMDAbad''] ! k)"
    using c by cases (simp_all add: rt_entries_at)
  show "map_of rt_entries (20 + k) =
      Some (''marked'' @ '' stores '' @ [''PMDAmissingdata'', ''PMDAprecise'', ''PMDAsummary'', ''PMDAlocal'', ''PMDAbad''] ! k)"
    using c by cases (simp_all add: rt_entries_at)
qed

text \<open>
  C30: without verbose output, every access has one of the 25 registered counters, and the text
  registered with it names the class of the access.
\<close>

theorem rt_index_registered:
  "map fst rt_entries = [0..<25] \<and> map_of rt_entries (rt_index s loc) = Some (rt_label s loc)"
proof -
  have "pmda_class (rt_mod s) (parent_fun (rt_mod s) loc) \<in> {0, 1, 2, 3, 4}"
    by (simp add: pmda_class_def)
  moreover have "rt_index s loc =
      (if is_load (rt_mod s) loc then (if rt_marked s loc then 15 else 5)
       else if is_store (rt_mod s) loc then (if rt_marked s loc then 20 else 10) else 0) +
      pmda_class (rt_mod s) (parent_fun (rt_mod s) loc)"
    by (simp add: rt_index_def pmda_class_def rt_consts Let_def load_not_store)
  ultimately obtain k where k: "k \<in> {0, 1, 2, 3, 4}" "pmda_class (rt_mod s) (parent_fun (rt_mod s) loc) = k"
    and i: "rt_index s loc = (if is_load (rt_mod s) loc then (if rt_marked s loc then 15 else 5)
       else if is_store (rt_mod s) loc then (if rt_marked s loc then 20 else 10) else 0) + k"
    by blast
  have "map_of rt_entries (rt_index s loc) = Some (rt_label s loc)"
    unfolding i rt_label_def k(2) Let_def using load_not_store [of "rt_mod s" loc]
    by (simp only: rt_entries_class [OF k(1)] add_0 if_True if_False simp_thms split: if_split) simp
  with rt_entries_indices show ?thesis by blast
qed

section \<open>The table of a verbose run\<close>

definition table_ok :: "nat \<times> (vid \<times> nat \<times> string) list \<Rightarrow> bool" where
  "table_ok ct \<longleftrightarrow>
     distinct (map fst (snd ct)) \<and> distinct (map (fst \<circ> snd) (snd ct)) \<and> (\<forall>e \<in> set (snd ct). fst (snd e) < fst ct)"

definition covers :: "vid set \<Rightarrow> nat \<times> (vid \<times> nat \<times> string) list \<Rightarrow> bool" where
  "covers A ct \<longleftrightarrow> fst ` set (snd ct) = A"

lemma access_kind_iff: "access_kind s v = None \<longleftrightarrow> \<not> is_load (rt_mod s) v \<and> \<not> is_store (rt_mod s) v"
  by (simp add: access_kind_def)

lemma add_access_ok:
  assumes "add_access s F v ct = Inr ct'" and "table_ok ct"
  shows "table_ok ct' \<and> fst ` set (snd ct') = fst ` set (snd ct) \<union> (if access_kind s v = None then {} else {v})"
proof (cases "access_kind s v")
  case None
  with assms show ?thesis by (simp add: add_access_def case_prod_unfold split_def)
next
  case (Some k)
  obtain n t where ct: "ct = (n, t)" by (cases ct)
  with assms(1) Some obtain name where
    c: "ct' = (Suc n, if v \<in> fst ` set t then t else t @ [(v, n, name)])"
    by (auto simp: add_access_def bindE_eq_Inr)
  have ok: "distinct (map fst t)" "distinct (map (fst \<circ> snd) t)" "\<And>e. e \<in> set t \<Longrightarrow> fst (snd e) < n"
    using assms(2) by (auto simp: table_ok_def ct)
  have "n \<notin> (fst \<circ> snd) ` set t" using ok(3) by force
  with ok show ?thesis
    using Some by (auto simp: table_ok_def c ct less_Suc_eq image_iff split: if_splits)
qed

lemma add_accesses_ok:
  assumes "foldE (add_access s F) vs ct = Inr ct'" and "table_ok ct"
  shows "table_ok ct' \<and> fst ` set (snd ct') = fst ` set (snd ct) \<union> {v \<in> set vs. access_kind s v \<noteq> None}"
  using assms
proof (induction vs arbitrary: ct)
  case (Cons v vs)
  then obtain c1 where 1: "add_access s F v ct = Inr c1" "foldE (add_access s F) vs c1 = Inr ct'"
    by (auto simp: bindE_eq_Inr)
  note a = add_access_ok [OF 1(1) Cons.prems(2)]
  have "table_ok ct' \<and> fst ` set (snd ct') = fst ` set (snd c1) \<union> {v \<in> set vs. access_kind s v \<noteq> None}"
    by (rule Cons.IH [OF 1(2)]) (use a in blast)
  with a show ?case by (auto split: if_splits)
qed simp

definition accesses :: "rtstat_state \<Rightarrow> vid set" where
  "accesses s =
     {v. \<exists>F \<in> set (mod_functions (rt_mod s)). v \<in> set (fun_insts (rt_mod s) F) \<and>
         (is_load (rt_mod s) v \<or> is_store (rt_mod s) v)}"

lemma populate_ok:
  assumes "populateStringMap s = Inr (n, s')" and "StringMap s = []"
  shows "s' = s\<lparr>StringMap := StringMap s'\<rparr>" and "table_ok (n, StringMap s')" and "fst ` set (StringMap s') = accesses s"
proof -
  let ?f = "\<lambda>F ct. if is_declaration (rt_mod s) F then Inr ct
              else foldE (add_access s F) (fun_insts (rt_mod s) F) ct"
  from assms have r: "foldE ?f (mod_functions (rt_mod s)) (0, []) = Inr (n, StringMap s')"
    and s': "s' = s\<lparr>StringMap := StringMap s'\<rparr>"
    by (auto simp: populateStringMap_def bindE_eq_Inr)
  show "s' = s\<lparr>StringMap := StringMap s'\<rparr>" by (rule s')
  let ?acc = "\<lambda>Fs. {v. \<exists>F \<in> set Fs. v \<in> set (fun_insts (rt_mod s) F) \<and> access_kind s v \<noteq> None}"
  have "table_ok ct' \<and> fst ` set (snd ct') = fst ` set (snd ct) \<union> ?acc Fs"
    if "foldE ?f Fs ct = Inr ct'" "table_ok ct" for Fs ct ct'
    using that
  proof (induction Fs arbitrary: ct)
    case (Cons F Fs)
    then obtain c1 where 1: "?f F ct = Inr c1" "foldE ?f Fs c1 = Inr ct'" by (auto simp: bindE_eq_Inr)
    have a: "table_ok c1 \<and> fst ` set (snd c1) = fst ` set (snd ct) \<union> ?acc [F]"
    proof (cases "is_declaration (rt_mod s) F")
      case True
      with 1(1) Cons.prems(2) show ?thesis by (simp add: is_declaration_def fun_insts_def)
    next
      case False
      with 1(1) have "foldE (add_access s F) (fun_insts (rt_mod s) F) ct = Inr c1" by simp
      from add_accesses_ok [OF this Cons.prems(2)] show ?thesis by simp
    qed
    have "table_ok ct' \<and> fst ` set (snd ct') = fst ` set (snd c1) \<union> ?acc Fs"
      by (rule Cons.IH [OF 1(2)]) (use a in blast)
    with a show ?case by auto
  qed simp
  from this [OF r] show "table_ok (n, StringMap s')" "fst ` set (StringMap s') = accesses s"
    by (auto simp: table_ok_def accesses_def access_kind_iff)
qed

lemma table_lookup: "table_ok (n, t) \<Longrightarrow> (v, i, name) \<in> set t \<longleftrightarrow> map_of t v = Some (i, name)"
  by (simp add: table_ok_def)

text \<open>
  C31: in verbose mode every load and store of a function with a body gets a counter of its own, below
  the number the set-up announces, and no other instruction has one: a check placed elsewhere, for
  example at a call of \<open>memcpy\<close>, fails an assertion.
\<close>

theorem populateStringMap_counters:
  assumes "populateStringMap s = Inr (n, s')" and "StringMap s = []" and "Verbose s"
  shows "(\<forall>v \<in> accesses s. \<exists>i < n. rt_counter s' v = Inr i) \<and>
    (\<forall>v \<in> accesses s. \<forall>w \<in> accesses s. rt_counter s' v = rt_counter s' w \<longrightarrow> v = w) \<and>
    (\<forall>v. v \<notin> accesses s \<longrightarrow>
       rt_counter s' v = Inl (AssertionFailed ''RT instrumentation required for unknown instruction!''))"
proof -
  note p = populate_ok [OF assms(1,2)]
  have "Verbose s' = Verbose s" by (subst p(1)) simp
  then have vb: "Verbose s'" using assms(3) by simp
  let ?t = "StringMap s'"
  have dom: "fst ` set ?t = accesses s" by (rule p(3))
  have some: "\<exists>i name. map_of ?t v = Some (i, name) \<and> i < n" if "v \<in> accesses s" for v
  proof -
    from that dom obtain e where e: "e \<in> set ?t" "fst e = v" by force
    then have "(v, fst (snd e), snd (snd e)) \<in> set ?t" by (cases e) auto
    moreover from this have "fst (snd e) < n" using p(2) by (force simp: table_ok_def)
    ultimately show ?thesis using table_lookup [OF p(2)] by blast
  qed
  have inj: "v = w" if "map_of ?t v = Some (i, a)" "map_of ?t w = Some (i, b)" for v w i a b
  proof -
    have "(v, i, a) \<in> set ?t" "(w, i, b) \<in> set ?t" using that by (simp_all add: map_of_SomeD)
    moreover have "inj_on (fst \<circ> snd) (set ?t)" using p(2) by (simp add: table_ok_def distinct_map)
    ultimately have "(v, i, a) = (w, i, b)"
      using inj_onD [of "fst \<circ> snd" "set ?t" "(v, i, a)" "(w, i, b)"] by simp
    then show ?thesis by simp
  qed
  have none: "map_of ?t v = None" if "v \<notin> accesses s" for v using that dom by (simp add: map_of_eq_None_iff)
  have "\<exists>i < n. rt_counter s' v = Inr i" if "v \<in> accesses s" for v
    using some [OF that] vb by (auto simp: rt_counter_def)
  moreover have "v = w" if "v \<in> accesses s" "w \<in> accesses s" "rt_counter s' v = rt_counter s' w" for v w
    using some [OF that(1)] some [OF that(2)] that(3) vb inj by (auto simp: rt_counter_def)
  ultimately show ?thesis using none vb by (simp add: rt_counter_def)
qed

section \<open>What the set-up registers\<close>

lemma rt_addEntry_appends:
  assumes "rt_addEntry BB fn call e m = Inr m'"
  shows "\<exists>str. appends BB (fst fn) [[call, const_int m (SizeType m) (fst e), str]] m m'"
proof -
  from assms obtain str m1 where 1: "insertStringLiteral (snd e) m = Inr (str, m1)"
    and "bindE (insertCastNoSuffix (ctx_ty m ''i8*'') str (AtEnd BB) m1) (\<lambda>(castStr, m2).
     bindE (insertCallNoName (AtEnd BB) fn [call, const_int m (SizeType m) (fst e), castStr] m2)
       (\<lambda>(_, m3). Inr m3)) = Inr m'"
    by (auto simp: rt_addEntry_def bindE_eq_Inr)
  then obtain castStr m2 c where 2: "insertCastNoSuffix (ctx_ty m ''i8*'') str (AtEnd BB) m1 = Inr (castStr, m2)"
    and 3: "insertCallNoName (AtEnd BB) fn [call, const_int m (SizeType m) (fst e), castStr] m2 = Inr (c, m')"
    by (auto simp: bindE_eq_Inr)
  have "appends BB (fst fn) ([] @ [] @ [[call, const_int m (SizeType m) (fst e), castStr]]) m m'"
    using appends_trans [OF appends_string [OF 1] appends_trans [OF appends_cast [OF 2] appends_call_no_name [OF 3, of "fst fn"]]]
    by simp
  then show ?thesis by auto
qed

lemma rt_addEntries_append:
  assumes "foldE (\<lambda>x. rt_addEntry BB fn call (g x)) xs m = Inr m'"
  shows "\<exists>argss. appends BB (fst fn) argss m m' \<and>
    map (take 2) argss = map (\<lambda>x. [call, const_int m (SizeType m) (fst (g x))]) xs"
  using assms
proof (induction xs arbitrary: m)
  case Nil
  then show ?case by (intro exI [of _ "[]"]) simp
next
  case (Cons x xs)
  then obtain m1 where 1: "rt_addEntry BB fn call (g x) m = Inr m1"
    and 2: "foldE (\<lambda>x. rt_addEntry BB fn call (g x)) xs m1 = Inr m'" by (auto simp: bindE_eq_Inr)
  from rt_addEntry_appends [OF 1] obtain str where
    a: "appends BB (fst fn) [[call, const_int m (SizeType m) (fst (g x)), str]] m m1" by blast
  have c: "const_int m1 = const_int m" "SizeType m1 = SizeType m" using appendsD [OF a] by (simp_all add: SizeType_def)
  from Cons.IH [OF 2] obtain argss where
    "appends BB (fst fn) argss m1 m'"
    "map (take 2) argss = map (\<lambda>x. [call, const_int m (SizeType m) (fst (g x))]) xs"
    by (auto simp: c)
  with appends_trans [OF a] show ?case
    by (intro exI [of _ "[call, const_int m (SizeType m) (fst (g x)), str] # argss"]) simp
qed

lemma rt_index_lt: "rt_index s loc < 25"
  by (simp add: rt_index_def rt_consts Let_def)

definition rt_counters :: "rtstat_state \<Rightarrow> nat list" where
  "rt_counters s = (if Verbose s then map (fst \<circ> snd) (rt_order s (StringMap s)) else [0..<25])"

text \<open>The body of the constructor, from the call of the initialisation to the return.\<close>

definition rt_setup_body :: "rtstat_state \<Rightarrow> bbid \<Rightarrow> vid \<Rightarrow> bool" where
  "rt_setup_body s' BB entryFun \<longleftrightarrow>
     (\<exists>call rest ret. bb_insts (rt_mod s') BB = call # rest @ [ret] \<and> get_inst (rt_mod s') ret = Some (Ret None) \<and>
        map (take 2) (calls_of (rt_mod s') entryFun rest) =
          map (\<lambda>i. [call, const_int (rt_mod s') (SizeType (rt_mod s')) i]) (rt_counters s'))"

lemma setup_body:
  assumes call: "insertCallNoName (AtEnd BB) fn args m = Inr (call, m1)" and empty: "bb_insts m BB = []"
    and a: "appends BB f argss m1 m2" and e: "emit (AtEnd BB) (Ret None) ty [] m2 = (ret, m3)"
    and args: "map (take 2) argss = map (\<lambda>i. [call, const_int m3 (SizeType m3) i]) is"
  shows "\<exists>rest. bb_insts m3 BB = call # rest @ [ret] \<and> get_inst m3 ret = Some (Ret None) \<and>
    map (take 2) (calls_of m3 f rest) = map (\<lambda>i. [call, const_int m3 (SizeType m3) i]) is"
proof -
  let ?i = "Call \<lparr>called_operand = fst fn, called_function = Some (fst fn), call_args = args\<rparr> None"
  obtain c1 m0 where c: "emit (AtEnd BB) ?i (snd fn) (if types m (snd fn) = VoidTy then [] else ''inserted.call'') m = (c1, m0)"
    by (metis surj_pair)
  then have mk: "c1 = call" "setNoInstrument c1 m0 = Inr m1"
    using call by (auto simp: insertCallNoName_def insertCall_def Let_def bindE_eq_Inr)
  have "bb_insts m1 BB = [call]"
    using addMIMetadata_fields(5) [OF mk(2) [unfolded setNoInstrument_def]] emit_fields(7) [OF c] mk(1) empty
    by (simp add: ip_block_def ip_insert_def)
  then obtain vs where vs: "bb_insts m2 BB = call # vs" "calls_of m2 f vs = argss" "\<forall>v \<in> set vs. v < next_vid m2"
    using a by (auto simp: appends_def)
  note ef = emit_fields [OF e]
  have "calls_of m3 f vs = calls_of m2 f vs" by (rule calls_of_old) (use vs(3) ef(1,6) in auto)
  with vs(2) have "calls_of m3 f vs = argss" by simp
  then show ?thesis using vs(1) ef(1,6,7) args by (auto simp: get_inst_def ip_block_def ip_insert_def)
qed

section \<open>The set-up without verbose output succeeds\<close>

lemma new_global_ok: "functions_ok m \<Longrightarrow> functions_ok (snd (new_global name m))"
  by (erule functions_ok_frame) (auto simp: new_global_def new_value_def)

lemma rt_declare_total:
  assumes "functions_ok (rt_mod s)"
  shows "\<exists>I E BB s1. rt_declare s = Inr ((I, E, BB), s1)"
proof -
  obtain f1 m1 where 1: "insertFunDecl ''__mi_stat_inc'' ''void'' (rt_mod s) = Inr (f1, m1)" "functions_ok m1"
    using insertFunDecl_total [OF assms] by blast
  obtain g m2 where 2: "new_global ''MI_StatID'' m1 = (g, m2)" by (metis surj_pair)
  then have "functions_ok m2" using new_global_ok [OF 1(2), of "''MI_StatID''"] by simp
  then obtain f3 m3 where 3: "insertFunDecl ''__mi_stat_init'' ''i64'' m2 = Inr (f3, m3)" "functions_ok m3"
    using insertFunDecl_total by blast
  obtain f4 m4 where 4: "insertFunDecl ''__mi_stat_init_entry'' ''void'' m3 = Inr (f4, m4)" "functions_ok m4"
    using insertFunDecl_total [OF 3(2)] by blast
  obtain fs m5 where "registerCtors [''__mi_stat_setup''] m4 = Inr (fs, m5)" using registerCtors_total [OF 4(2)] by blast
  with 1 2 3 4 show ?thesis by (simp add: rt_declare_def Let_def case_prod_unfold)
qed

lemma rt_addEntry_total: "\<exists>m'. rt_addEntry BB fn call e m = Inr m'"
proof -
  obtain str m1 where 1: "insertStringLiteral (snd e) m = Inr (str, m1)" using insertStringLiteral_total by blast
  obtain castStr m2 where 2: "insertCastNoSuffix (ctx_ty m ''i8*'') str (AtEnd BB) m1 = Inr (castStr, m2)"
    using insertCast_total unfolding insertCastNoSuffix_def by blast
  obtain c m3 where "insertCallNoName (AtEnd BB) fn [call, const_int m (SizeType m) (fst e), castStr] m2 = Inr (c, m3)"
    using insertCall_total unfolding insertCallNoName_def by blast
  with 1 2 show ?thesis by (simp add: rt_addEntry_def)
qed

lemma rt_initialize_plain_total:
  assumes "functions_ok (rt_mod s)" and V: "\<not> Verbose s"
  shows "\<exists>s'. rt_initialize s = Inr s'"
proof -
  obtain I E BB s1 where d: "rt_declare s = Inr ((I, E, BB), s1)" using rt_declare_total [OF assms(1)] by blast
  then have V1: "\<not> Verbose s1" using V by (auto simp: rt_declare_def bindE_eq_Inr Let_def case_prod_unfold)
  obtain call m where c: "insertCallNoName (AtEnd BB) I [const_int (rt_mod s1) (SizeType (rt_mod s1)) 25] (rt_mod s1) = Inr (call, m)"
    using insertCall_total unfolding insertCallNoName_def by blast
  have "\<exists>m1. foldE (rt_addEntry BB E call) rt_entries m = Inr m1 \<and> True"
    by (rule foldE_total) (simp, use rt_addEntry_total in blast)
  then obtain m1 where "foldE (rt_addEntry BB E call) rt_entries m = Inr m1" by blast
  with d V1 c show ?thesis by (simp add: rt_initialize_def Let_def)
qed

text \<open>The two modes, from the state after the declarations.\<close>

definition registers :: "rtstat_state \<Rightarrow> bool" where
  "registers s' \<longleftrightarrow> (\<exists>BB entryFun. rt_setup_body s' BB entryFun) \<and> distinct (rt_counters s') \<and>
    (\<forall>loc i. rt_counter s' loc = Inr i \<longrightarrow> i \<in> set (rt_counters s'))"

lemma registers_verbose:
  assumes p: "populateStringMap s1 = Inr (n, s2)" and V: "Verbose s1" "StringMap s1 = []"
    and empty: "bb_insts (rt_mod s1) BB = []"
    and order: "\<And>xs. set (rt_order s1 xs) = set xs" "\<And>xs. distinct xs \<Longrightarrow> distinct (rt_order s1 xs)"
    and c: "insertCallNoName (AtEnd BB) InitFun args (rt_mod s2) = Inr (call, m)"
    and l: "foldE (\<lambda>P. rt_addEntry BB entryFun call (snd P)) (rt_order s2 (StringMap s2))
        (snd (emit (AtEnd BB) (Store call (StatTableID s2)) (ctx_ty m ''void'') [] m)) = Inr m2"
    and s': "s' = s2\<lparr>rt_mod := snd (emit (AtEnd BB) (Ret None) (ctx_ty m2 ''void'') [] m2)\<rparr>"
  shows "registers s'"
proof -
  note pop = populate_ok [OF p V(2)]
  have f2: "rt_mod s2 = rt_mod s1" "rt_order s2 = rt_order s1" "Verbose s2" using V(1) by (subst pop(1), simp)+
  obtain st m1 where st: "emit (AtEnd BB) (Store call (StatTableID s2)) (ctx_ty m ''void'') [] m = (st, m1)"
    by (metis surj_pair)
  obtain ret m3 where e: "emit (AtEnd BB) (Ret None) (ctx_ty m2 ''void'') [] m2 = (ret, m3)" by (metis surj_pair)
  have a1: "appends BB (fst entryFun) [] m m1" using appends_emit [OF st, of "fst entryFun"] by simp
  from rt_addEntries_append [OF l [unfolded st snd_conv]] obtain argss where
    a2: "appends BB (fst entryFun) argss m1 m2"
      "map (take 2) argss = map (\<lambda>x. [call, const_int m1 (SizeType m1) (fst (snd x))]) (rt_order s2 (StringMap s2))"
    by blast
  from appends_trans [OF a1 a2(1)] have a: "appends BB (fst entryFun) argss m m2" by simp
  have a3: "appends BB (fst entryFun) [] m2 m3" using appends_emit [OF e, of "fst entryFun"] by simp
  have cs: "const_int m3 = const_int m1" "SizeType m3 = SizeType m1"
    using appendsD(1,2) [OF a2(1)] appendsD(1,2) [OF a3] by (simp_all add: SizeType_def)
  have args: "map (take 2) argss = map (\<lambda>i. [call, const_int m3 (SizeType m3) i]) (map (fst \<circ> snd) (rt_order s2 (StringMap s2)))"
    by (simp add: a2(2) cs)
  from setup_body [OF c _ a e args] empty f2(1) have body: "rt_setup_body s' BB (fst entryFun)"
    by (auto simp: rt_setup_body_def rt_counters_def s' e f2)
  have t: "distinct (StringMap s2)" "inj_on (fst \<circ> snd) (set (StringMap s2))"
    using pop(2) by (auto simp: table_ok_def distinct_map)
  then have dist: "distinct (rt_counters s')"
    using order by (simp add: rt_counters_def s' f2 distinct_map)
  have "i \<in> set (rt_counters s')" if "rt_counter s' loc = Inr i" for loc i
  proof -
    from that obtain name where "(loc, i, name) \<in> set (StringMap s2)"
      by (auto simp: rt_counter_def s' f2 split: option.splits dest: map_of_SomeD)
    then have "i \<in> (fst \<circ> snd) ` set (StringMap s2)" by force
    then show ?thesis using order(1) by (simp add: rt_counters_def s' f2)
  qed
  with body dist show ?thesis unfolding registers_def by blast
qed

lemma registers_plain:
  assumes V: "\<not> Verbose s1" and empty: "bb_insts (rt_mod s1) BB = []"
    and c: "insertCallNoName (AtEnd BB) InitFun args (rt_mod s1) = Inr (call, m)"
    and l: "foldE (rt_addEntry BB entryFun call) rt_entries m = Inr m2"
    and s': "s' = s1\<lparr>rt_mod := snd (emit (AtEnd BB) (Ret None) (ctx_ty m2 ''void'') [] m2)\<rparr>"
  shows "registers s'"
proof -
  obtain ret m3 where e: "emit (AtEnd BB) (Ret None) (ctx_ty m2 ''void'') [] m2 = (ret, m3)" by (metis surj_pair)
  from rt_addEntries_append [where g = "\<lambda>x. x", OF l] obtain argss where
    a: "appends BB (fst entryFun) argss m m2"
      "map (take 2) argss = map (\<lambda>x. [call, const_int m (SizeType m) (fst x)]) rt_entries"
    by blast
  have a3: "appends BB (fst entryFun) [] m2 m3" using appends_emit [OF e, of "fst entryFun"] by simp
  have cs: "const_int m3 = const_int m" "SizeType m3 = SizeType m"
    using appendsD(1,2) [OF a(1)] appendsD(1,2) [OF a3] by (simp_all add: SizeType_def)
  have "map (\<lambda>i. [call, const_int m3 (SizeType m3) i]) (map fst rt_entries) = map (take 2) argss"
    by (simp add: a(2) cs)
  then have args: "map (take 2) argss = map (\<lambda>i. [call, const_int m3 (SizeType m3) i]) [0..<25]"
    by (simp only: rt_entries_indices)
  from setup_body [OF c empty a(1) e args] V have "rt_setup_body s' BB (fst entryFun)"
    by (auto simp: rt_setup_body_def rt_counters_def s' e)
  moreover have "i \<in> set (rt_counters s')" if "rt_counter s' loc = Inr i" for loc i
    using that V rt_index_lt [of s' loc] by (auto simp: rt_counter_def rt_counters_def s')
  moreover have "distinct (rt_counters s')" using V by (simp add: rt_counters_def s')
  ultimately show ?thesis unfolding registers_def by blast
qed


definition demo_rtstat :: rtstat_state where
  "demo_rtstat =
     \<lparr>rt_mod = demo, rt_next_wid = 0, Verbose = False, StatIncFunction = (80, 0), StatTableID = 81, StringMap = [],
      rt_annotation = ''nosanitize'', rt_module_name = ''demo.c'', rt_order = rev\<rparr>"


lemma demo_populates: "\<not> isl (populateStringMap (demo_rtstat\<lparr>Verbose := True\<rparr>))"
  by code_simp

theorem populateStringMap_counters_witness:
  "\<exists>n s'. populateStringMap (demo_rtstat\<lparr>Verbose := True\<rparr>) = Inr (n, s') \<and> (\<exists>i < n. rt_counter s' 5 = Inr i)"
proof -
  let ?s = "demo_rtstat\<lparr>Verbose := True\<rparr>"
  obtain n s' where r: "populateStringMap ?s = Inr (n, s')"
    using demo_populates by (cases "populateStringMap ?s") auto
  have "5 \<in> accesses ?s"
    by (auto simp: accesses_def demo_rtstat_def demo_def fun_insts_def is_load_def get_inst_def demo_value_def)
  moreover have "StringMap ?s = []" "Verbose ?s" by (simp_all add: demo_rtstat_def)
  ultimately show ?thesis using populateStringMap_counters [OF r] r by blast
qed

end
