(* ===== verification/DeobfuscateLaws.thy ===== *)
theory DeobfuscateLaws
  imports Deobfuscate "HOL-Library.Multiset"
begin

text \<open>
  What the searches of the deobfuscation find, which of its cases cannot occur, and where the loop over
  the stores of a block touches deleted instructions.
\<close>

section \<open>The searches\<close>

lemma sum_list_remdups: "sum_list (map f (remdups xs)) = sum f (set xs)"
  by (induction xs) (auto simp: insert_absorb)

lemma search_fuel_bound:
  fixes push :: "vid \<Rightarrow> vid list"
  assumes "length wl \<le> length workList"
  shows "search_bound push (set workList \<union> set (all_insts m)) wl [] \<le> search_fuel push m workList"
proof -
  have "sum_list (map (\<lambda>x. Suc (length (push x))) (remdups (workList @ all_insts m))) =
      (\<Sum>x \<in> set workList \<union> set (all_insts m). Suc (length (push x)))"
    unfolding sum_list_remdups by simp
  then show ?thesis using assms unfolding search_bound_def search_fuel_def by simp
qed

lemma casting_users_insts: "uses_ok m \<Longrightarrow> set (casting_users m v) \<subseteq> set (all_insts m)"
  by (auto simp: casting_users_def set_users)

lemma push_users_set:
  "uses_ok m \<Longrightarrow> set (push_users m x) \<subseteq> insert x (set (all_insts m))"
  using casting_users_insts [of m x] by (cases "get_inst m x") (auto simp: push_users_def split: instr.splits)

definition int_typed :: "ir \<Rightarrow> vid \<Rightarrow> bool" where
  "int_typed m v \<longleftrightarrow> (\<exists>w. val_type m v = IntegerTy w)"

lemma valIsActuallyPtr_search:
  assumes "uses_ok m" and "int_typed m v"
  obtains r where "valIsActuallyPtr m v = Inr (r \<noteq> None)"
    and "search (\<lambda>item. Inr (is_int_to_ptr m item)) (push_users m)
      (search_fuel (push_users m) m (rev (casting_users m v))) (rev (casting_users m v)) [] = Inr r"
proof -
  let ?wl = "rev (casting_users m v)"
  let ?U = "set ?wl \<union> set (all_insts m)"
  let ?s = "search (\<lambda>item. Inr (is_int_to_ptr m item)) (push_users m) (search_fuel (push_users m) m ?wl) ?wl []"
  have ns: "?s \<noteq> Inl OutOfFuel"
  proof (rule search_not_stuck [where U = ?U])
    show "set (push_users m x) \<subseteq> ?U" if "x \<in> ?U" for x
      using push_users_set [OF assms(1), of x] that by auto
    show "search_bound (push_users m) ?U ?wl [] \<le> search_fuel (push_users m) m ?wl"
      by (rule search_fuel_bound) simp
  qed auto
  have "?s \<noteq> Inl e" for e using search_error [of "\<lambda>item. Inr (is_int_to_ptr m item)"] ns by fastforce
  then obtain r where r: "?s = Inr r" by (cases ?s) auto
  from assms(2) have "valIsActuallyPtr m v = Inr (r \<noteq> None)"
    by (auto simp: valIsActuallyPtr_def int_typed_def r Let_def)
  with r show thesis using that by blast
qed

text \<open>An integer whose value is cast to a pointer, directly or after bitcasts.\<close>

inductive cast_to_pointer :: "ir \<Rightarrow> vid \<Rightarrow> bool" for m where
  cast_direct: "u \<in> set (users m v) \<Longrightarrow> get_inst m u = Some (IntToPtr w) \<Longrightarrow> cast_to_pointer m v"
| cast_later: "u \<in> set (users m v) \<Longrightarrow> get_inst m u = Some (BitCast w) \<Longrightarrow> cast_to_pointer m u \<Longrightarrow>
    cast_to_pointer m v"

inductive_simps cast_to_pointer_simps: "cast_to_pointer m v"

lemma cast_to_pointer_search:
  "cast_to_pointer m v \<Longrightarrow> \<exists>u \<in> set (casting_users m v). \<exists>x. reaches (push_users m) u x \<and> is_int_to_ptr m x"
proof (induction rule: cast_to_pointer.induct)
  case (cast_direct u v w)
  then have "u \<in> set (casting_users m v)" "is_int_to_ptr m u"
    by (auto simp: casting_users_def isUserWithCastingPotential_def is_int_to_ptr_def)
  then show ?case by (blast intro: reaches_refl)
next
  case (cast_later u v w)
  then obtain y x where x: "y \<in> set (casting_users m u)" "reaches (push_users m) y x" "is_int_to_ptr m x" by blast
  have u: "u \<in> set (casting_users m v)"
    using cast_later(1,2) by (auto simp: casting_users_def isUserWithCastingPotential_def)
  have "y \<in> set (push_users m u)" using x(1) cast_later(2) by (simp add: push_users_def)
  from reaches_first [OF this x(2)] u x(3) show ?case by blast
qed

lemma search_cast_to_pointer:
  assumes "reaches (push_users m) u x" and "is_int_to_ptr m x" and "u \<in> set (users m v)"
  shows "cast_to_pointer m v"
proof -
  obtain w where w: "get_inst m x = Some (IntToPtr w)"
    using assms(2) by (auto simp: is_int_to_ptr_def split: option.splits instr.splits)
  let ?P = "\<lambda>u. \<forall>v. u \<in> set (users m v) \<longrightarrow> cast_to_pointer m v"
  have "?P u"
  proof (rule reaches_induct_first [OF assms(1)])
    show "?P x" using w by (blast intro: cast_direct)
    fix a b assume b: "b \<in> set (push_users m a)" and P: "?P b"
    from b have "b = a \<or> (\<exists>i. get_inst m a = Some (BitCast i) \<and> b \<in> set (users m a))"
    proof (cases "get_inst m a")
      case (Some i)
      with b show ?thesis by (cases i) (auto simp: push_users_def casting_users_def)
    qed (simp add: push_users_def)
    then show "?P a" using P by (blast intro: cast_later)
  qed
  with assms(3) show ?thesis by blast
qed

lemma valIsActuallyPtr_eq:
  assumes "uses_ok m" and "val_type m v = IntegerTy w"
  shows "valIsActuallyPtr m v = Inr (cast_to_pointer m v)"
proof -
  let ?wl = "rev (casting_users m v)"
  obtain r where r: "valIsActuallyPtr m v = Inr (r \<noteq> None)"
    and s: "search (\<lambda>item. Inr (is_int_to_ptr m item)) (push_users m)
      (search_fuel (push_users m) m ?wl) ?wl [] = Inr r"
    using valIsActuallyPtr_search [OF assms(1), of v] assms(2) by (auto simp: int_typed_def)
  show ?thesis
  proof (cases r)
    case None
    have "\<not> cast_to_pointer m v"
      using search_none [OF s [unfolded None]] cast_to_pointer_search [of m v] by fastforce
    with r None show ?thesis by simp
  next
    case (Some x)
    from search_found [OF s [unfolded Some]] obtain u where
      "is_int_to_ptr m x" "u \<in> set (users m v)" "reaches (push_users m) u x"
      by (auto simp: casting_users_def)
    then have "cast_to_pointer m v" by (blast intro: search_cast_to_pointer)
    with r Some show ?thesis by simp
  qed
qed

text \<open>
  C36: an integer the program loads or a call returns is taken for a pointer exactly if it is cast to
  one directly or after bitcasts; phis are never followed, although the code means to.
\<close>

theorem valIsActuallyPtr_iff:
  assumes "uses_ok m" and "val_type m v = IntegerTy w"
  shows "valIsActuallyPtr m v = Inr (cast_to_pointer m v)"
  by (rule valIsActuallyPtr_eq [OF assms])

lemma valIsActuallyPtr_total: "uses_ok m \<Longrightarrow> val_type m v = IntegerTy w \<Longrightarrow> \<exists>b. valIsActuallyPtr m v = Inr b"
  using valIsActuallyPtr_search [of m v] unfolding int_typed_def by metis

section \<open>Cases that cannot occur\<close>

text \<open>The type of the address of a load.\<close>

definition load_typed :: "ir \<Rightarrow> vid \<Rightarrow> vid \<Rightarrow> bool" where
  "load_typed m l p \<longleftrightarrow> get_inst m l = Some (Load p) \<and> types m (ty_of m p) = PointerTy (ty_of m l)"

text \<open>
  C39: a user of the address of an integer load never counts as a cast to a pointer: the code asks for
  the source type of the cast, which is the type of the address itself, so only a cast before the load
  is found.
\<close>

theorem valCastedBeforeLoad_users_dead:
  assumes "uses_ok m" and "load_typed m l p" and "int_typed m l"
  shows "\<not> user_casts_to_ptr m p \<and> valCastedBeforeLoad m l = cast_source_is_ptr m p"
proof -
  have np: "\<not> isPtrToPtrTy m (ty_of m p)"
    using assms(2,3) by (auto simp: isPtrToPtrTy_def load_typed_def int_typed_def)
  have "\<not> user_casts_to_ptr m p"
  proof
    assume "user_casts_to_ptr m p"
    then obtain u where u: "u \<in> set (users m p)"
      and c: "case get_inst m u of Some (BitCast src) \<Rightarrow> isPtrToPtrTy m (ty_of m src) | _ \<Rightarrow> False"
      by (auto simp: user_casts_to_ptr_def list_ex_iff)
    from c obtain i where i: "get_inst m u = Some i" by (cases "get_inst m u") auto
    with c obtain src where "get_inst m u = Some (BitCast src)" "isPtrToPtrTy m (ty_of m src)" by (cases i) simp_all
    note this u
    moreover from this have "src = p" using assms(1) by (auto simp: set_users)
    ultimately show False using np by simp
  qed
  then show ?thesis using assms(2) by (simp add: valCastedBeforeLoad_def load_typed_def)
qed

text \<open>A value the search finds is a pointer, or a call or a load.\<close>

lemma getSrcIfHasUsageAsPtr_found:
  assumes "getSrcIfHasUsageAsPtr m v = Inr (Some w)"
  shows "is_pointer_ty (val_type m w) \<or> is_call_inst m w \<or> is_load m w"
proof -
  have "used_as_ptr m w = Inr True" using search_found [OF assms [unfolded getSrcIfHasUsageAsPtr_def]] by blast
  then show ?thesis by (auto simp: used_as_ptr_def split: if_splits)
qed

definition ptrtoint_typed :: "ir \<Rightarrow> bool" where
  "ptrtoint_typed m \<longleftrightarrow> (\<forall>v p. get_inst m v = Some (PtrToInt p) \<longrightarrow> \<not> is_pointer_ty (val_type m v))"

lemma found_not_ptrtoint:
  assumes "ptrtoint_typed m" and "getSrcIfHasUsageAsPtr m v = Inr (Some w)"
  shows "get_inst m w \<noteq> Some (PtrToInt p)"
  using getSrcIfHasUsageAsPtr_found [OF assms(2)] assms(1)
  by (auto simp: ptrtoint_typed_def is_call_inst_def is_load_def)

lemma store_unchanged:
  assumes "\<And>p. get_inst (fst md) (snd sv) \<noteq> Some (PtrToInt p)" and "transformObfuscatedStore sv md = Inr md'"
  shows "md' = md"
proof -
  obtain s w m d where sv: "sv = (s, w)" "md = (m, d)" by (cases sv, cases md)
  from assms(1) consider "get_inst m w = None" | i where "get_inst m w = Some i" "\<forall>p. i \<noteq> PtrToInt p"
    by (cases "get_inst m w") (auto simp: sv)
  then show ?thesis
  proof cases
    case 1
    with assms(2) show ?thesis by (simp add: sv transformObfuscatedStore_def bindE_eq_Inr split: if_splits)
  next
    case (2 i)
    with assms(2) show ?thesis
      by (cases i) (simp_all add: sv transformObfuscatedStore_def bindE_eq_Inr split: if_splits)
  qed
qed

lemma stores_unchanged:
  assumes "foldE transformObfuscatedStore es md = Inr md'"
    and "\<And>s w p. (s, w) \<in> set es \<Longrightarrow> get_inst (fst md) w \<noteq> Some (PtrToInt p)"
  shows "md' = md"
  using assms
proof (induction es)
  case (Cons e es)
  then obtain md1 where 1: "transformObfuscatedStore e md = Inr md1" "foldE transformObfuscatedStore es md1 = Inr md'"
    by (auto simp: bindE_eq_Inr)
  have "md1 = md" by (rule store_unchanged [OF _ 1(1)]) (use Cons.prems(2) in \<open>cases e, auto\<close>)
  with 1(2) Cons show ?case by auto
qed simp

section \<open>What a block does\<close>

text \<open>The stores that were collected come with a value the search found, and none is collected twice.\<close>

lemma collect_step:
  assumes "collect_obfuscated m x (ss, ls) = Inr sl'"
  shows "sl' = (ss, ls) \<or> sl' = (ss, ls @ [x]) \<or>
    (\<exists>v w. getSrcIfHasUsageAsPtr m v = Inr (Some w) \<and> sl' = (ss @ [(x, w)], ls))"
proof (cases "get_inst m x")
  case None
  with assms show ?thesis by (auto simp: collect_obfuscated_def)
next
  case (Some i)
  with assms show ?thesis
    by (cases i) (auto simp: collect_obfuscated_def bindE_eq_Inr split: if_splits option.splits)
qed

definition found_stores :: "ir \<Rightarrow> (vid \<times> vid) list \<Rightarrow> bool" where
  "found_stores m es \<longleftrightarrow> (\<forall>e \<in> set es. \<exists>v. getSrcIfHasUsageAsPtr m v = Inr (Some (snd e)))"

lemma collected:
  "foldE (collect_obfuscated m) is (ss, ls) = Inr (stores, loads) \<Longrightarrow> found_stores m ss \<Longrightarrow>
    distinct is \<Longrightarrow> distinct (map fst ss) \<Longrightarrow> distinct ls \<Longrightarrow>
    set (map fst ss) \<inter> set is = {} \<Longrightarrow> set ls \<inter> set is = {} \<Longrightarrow>
    found_stores m stores \<and> distinct (map fst stores) \<and> distinct loads"
proof (induction "is" arbitrary: ss ls)
  case (Cons x xs)
  then obtain sl' where 1: "collect_obfuscated m x (ss, ls) = Inr sl'"
    "foldE (collect_obfuscated m) xs sl' = Inr (stores, loads)"
    by (auto simp: bindE_eq_Inr)
  from collect_step [OF 1(1)] show ?case
  proof (elim disjE exE conjE)
    assume "sl' = (ss, ls)"
    with 1(2) Cons.prems Cons.IH [of ss ls] show ?thesis by auto
  next
    assume "sl' = (ss, ls @ [x])"
    with 1(2) Cons.prems Cons.IH [of ss "ls @ [x]"] show ?thesis by auto
  next
    fix v w assume v: "getSrcIfHasUsageAsPtr m v = Inr (Some w)" and sl: "sl' = (ss @ [(x, w)], ls)"
    have "found_stores m (ss @ [(x, w)])" using Cons.prems(2) v by (auto simp: found_stores_def)
    with 1(2) sl Cons.prems Cons.IH [of "ss @ [(x, w)]" ls] show ?thesis by auto
  qed
qed simp

lemma collected_block:
  assumes "foldE (collect_obfuscated m) (bb_insts m block) ([], []) = Inr (stores, loads)"
    and "distinct (bb_insts m block)"
  shows "found_stores m stores" and "distinct (map fst stores)" and "distinct loads"
  using collected [OF assms(1)] assms(2) by (simp_all add: found_stores_def)

lemma by_address_entries: "(s, w) \<in> set (by_address opts es) \<Longrightarrow> (s, w) \<in> set es"
  by (auto simp: by_address_def map_filter_def dest: map_of_SomeD)

text \<open>
  C37: an integer store whose value the search takes for a pointer is never rewritten: the search
  returns pointers, calls and loads, but the rewriting expects the cast of a pointer to an integer. A
  block without obfuscated loads is left as it is, or the pass stops.
\<close>

theorem obfuscated_stores_untouched:
  assumes "foldE (collect_obfuscated m) (bb_insts m block) ([], []) = Inr (stores, [])"
    and "distinct (bb_insts m block)" and "ptrtoint_typed m" and "\<And>us. set (address_order opts us) = set us"
    and "transform_block opts block (m, deleted) = Inr md'"
  shows "md' = (m, deleted)"
proof -
  have "address_order opts [] = []" using assms(4) [of "[]"] by simp
  with assms(1,5) have f: "foldE transformObfuscatedStore (by_address opts stores) (m, deleted) = Inr md'"
    by (simp add: transform_block_def)
  show ?thesis
  proof (rule stores_unchanged [OF f])
    fix s w p assume "(s, w) \<in> set (by_address opts stores)"
    then have "(s, w) \<in> set stores" by (rule by_address_entries)
    then obtain v where "getSrcIfHasUsageAsPtr m v = Inr (Some w)"
      using collected_block(1) [OF assms(1,2)] by (fastforce simp: found_stores_def)
    then show "get_inst (fst (m, deleted)) w \<noteq> Some (PtrToInt p)" using found_not_ptrtoint [OF assms(3)] by simp
  qed
qed

section \<open>Deleted instructions\<close>

lemma delete_inst_deletes: "delete_inst v md = Inr md' \<Longrightarrow> snd md' = v # snd md"
  by (auto simp: delete_inst_def bindE_eq_Inr Let_def)

lemma delete_all_keeps: "foldE delete_inst vs md = Inr md' \<Longrightarrow> set (snd md) \<subseteq> set (snd md')"
  by (rule foldE_rel [where R = "\<lambda>a b. set (snd a) \<subseteq> set (snd b)"]) (auto dest: delete_inst_deletes)

lemma load_deleted:
  assumes "transformObfuscatedLoad opts l md = Inr md'"
  shows "l \<in> set (snd md')" and "set (snd md) \<subseteq> set (snd md')"
proof -
  obtain m d where md: "md = (m, d)" by (cases md)
  from assms obtain i where i: "get_inst m l = Some i"
    by (cases "get_inst m l") (auto simp: md transformObfuscatedLoad_def)
  with assms obtain p where p: "get_inst m l = Some (Load p)" by (cases i) (auto simp: md transformObfuscatedLoad_def)
  from assms p obtain m3 rq m4 d4 where 1: "foldE delete_inst rq (m3, d) = Inr (m4, d4)"
    and 2: "delete_inst l (m4, d4) = Inr md'"
    by (auto simp: md transformObfuscatedLoad_def bindE_eq_Inr Let_def)
  from delete_inst_deletes [OF 2] delete_all_keeps [OF 1]
  show "l \<in> set (snd md')" "set (snd md) \<subseteq> set (snd md')" by (auto simp: md)
qed

lemma store_keeps_deleted:
  assumes "transformObfuscatedStore sv md = Inr md'"
  shows "snd sv \<notin> set (snd md)" and "set (snd md) \<subseteq> set (snd md')"
proof -
  obtain s w m d where sv: "sv = (s, w)" "md = (m, d)" by (cases sv, cases md)
  from assms show "snd sv \<notin> set (snd md)" by (auto simp: sv transformObfuscatedStore_def)
  show "set (snd md) \<subseteq> set (snd md')"
  proof (cases "\<exists>p. get_inst m w = Some (PtrToInt p)")
    case False
    then have "md' = md" by (intro store_unchanged [OF _ assms]) (auto simp: sv)
    then show ?thesis by simp
  next
    case True
    then obtain p where p: "get_inst m w = Some (PtrToInt p)" by blast
    with assms obtain i where i: "get_inst m s = Some i"
      by (cases "get_inst m s") (auto simp: sv transformObfuscatedStore_def bindE_eq_Inr split: if_splits)
    with p assms obtain m2 where "delete_inst s (m2, d) = Inr md'"
      by (cases i) (auto simp: sv transformObfuscatedStore_def bindE_eq_Inr Let_def case_prod_unfold split: if_splits)
    from delete_inst_deletes [OF this] show ?thesis by (auto simp: sv)
  qed
qed

lemma stores_not_deleted:
  "foldE transformObfuscatedStore es md = Inr md' \<Longrightarrow> (s, w) \<in> set es \<Longrightarrow> w \<notin> set (snd md)"
proof (induction es arbitrary: md)
  case (Cons e es)
  then obtain md1 where 1: "transformObfuscatedStore e md = Inr md1" "foldE transformObfuscatedStore es md1 = Inr md'"
    by (auto simp: bindE_eq_Inr)
  note k = store_keeps_deleted [OF 1(1)]
  show ?case
  proof (cases "(s, w) = e")
    case True
    with k(1) show ?thesis by auto
  next
    case False
    with Cons 1(2) have "w \<notin> set (snd md1)" by auto
    with k(2) show ?thesis by blast
  qed
qed simp

text \<open>Each load takes one store off the map at most.\<close>

abbreviation stores_of :: "vid \<Rightarrow> (vid \<times> vid) list \<Rightarrow> nat" where
  "stores_of l es \<equiv> length (filter (\<lambda>e. snd e = l) es)"

lemma erase_located_counts: "stores_of l (erase_located l' es) = (if l = l' then stores_of l es - 1 else stores_of l es)"
  by (induction es) auto

lemma transform_loads:
  "foldE (transform_load opts) ls (es, md) = Inr (es', md') \<Longrightarrow> distinct ls \<Longrightarrow>
    stores_of l es \<le> stores_of l es' + (if l \<in> set ls then 1 else 0) \<and> set (snd md) \<subseteq> set (snd md') \<and>
    set ls \<subseteq> set (snd md')"
proof (induction ls arbitrary: es md)
  case (Cons x xs)
  then obtain ed1 where ed1: "transform_load opts x (es, md) = Inr ed1" "foldE (transform_load opts) xs ed1 = Inr (es', md')"
    by (auto simp: bindE_eq_Inr)
  from ed1(1) obtain md1 where "transformObfuscatedLoad opts x md = Inr md1" "ed1 = (erase_located x es, md1)"
    by (auto simp: transform_load_def bindE_eq_Inr)
  with ed1(2) have 1: "transformObfuscatedLoad opts x md = Inr md1"
    "foldE (transform_load opts) xs (erase_located x es, md1) = Inr (es', md')"
    by simp_all
  note d = load_deleted [OF 1(1)]
  have "stores_of l (erase_located x es) \<le> stores_of l es' + (if l \<in> set xs then 1 else 0)"
    "set (snd md1) \<subseteq> set (snd md')" "set xs \<subseteq> set (snd md')"
    using Cons.IH [OF 1(2)] Cons.prems(2) by simp_all
  with d Cons.prems(2) show ?case by (auto simp: erase_located_counts split: if_splits)
qed simp

lemma by_address_mset:
  assumes "mset (address_order opts (map fst es)) = mset (map fst es)" and "distinct (map fst es)"
  shows "mset (by_address opts es) = mset es"
proof -
  let ?f = "\<lambda>s. (s, the (map_of es s))"
  have p: "set (address_order opts (map fst es)) = fst ` set es" using assms(1) by (metis list.set_map set_mset_mset)
  have ne: "map_of es s \<noteq> None" if "s \<in> set (address_order opts (map fst es))" for s
    using that p by (auto simp: map_of_eq_None_iff)
  have "filter (\<lambda>s. map_option (\<lambda>w. (s, w)) (map_of es s) \<noteq> None) (address_order opts (map fst es)) =
      address_order opts (map fst es)"
    by (rule filter_True) (use ne in auto)
  then have "by_address opts es =
      map (\<lambda>s. the (map_option (\<lambda>w. (s, w)) (map_of es s))) (address_order opts (map fst es))"
    by (simp add: by_address_def map_filter_def comp_def)
  also have "\<dots> = map ?f (address_order opts (map fst es))" by (rule map_cong) (use ne in force)+
  finally have "by_address opts es = map ?f (address_order opts (map fst es))" .
  then have "mset (by_address opts es) = mset (map (?f \<circ> fst) es)" using assms(1) by (metis map_map mset_map)
  also have "map (?f \<circ> fst) es = es" using assms(2) by (auto intro!: map_idI)
  finally show ?thesis .
qed

text \<open>
  C38: when two stores of a block store the same obfuscated load of the block, deobfuscation cannot
  succeed: the load takes only one of them off the map, and the loop over the other looks at the
  deleted load.
\<close>

theorem two_stores_of_load_fail:
  assumes "foldE (collect_obfuscated m) (bb_insts m block) ([], []) = Inr (stores, loads)"
    and "distinct (bb_insts m block)" and "\<And>us. mset (address_order opts us) = mset us"
    and "(s1, l) \<in> set stores" and "(s2, l) \<in> set stores" and "s1 \<noteq> s2" and "l \<in> set loads"
  shows "transform_block opts block (m, deleted) \<noteq> Inr md'"
proof
  assume "transform_block opts block (m, deleted) = Inr md'"
  with assms(1) obtain es md1 where
    1: "foldE (transform_load opts) (address_order opts loads) (by_address opts stores, (m, deleted)) = Inr (es, md1)"
    and 2: "foldE transformObfuscatedStore es md1 = Inr md'"
    by (auto simp: transform_block_def bindE_eq_Inr)
  note c = collected_block [OF assms(1,2)]
  have ls: "distinct (address_order opts loads)" "set (address_order opts loads) = set loads"
    using c(3) assms(3) [of loads] by (metis distinct_count_atmost_1 set_mset_mset count_mset, metis set_mset_mset)
  have "stores_of l (by_address opts stores) = stores_of l stores"
    using by_address_mset [OF assms(3) c(2)] by (metis mset_filter size_mset)
  moreover have "2 \<le> stores_of l stores"
  proof -
    have "{(s1, l), (s2, l)} \<subseteq> set (filter (\<lambda>e. snd e = l) stores)" using assms(4,5) by auto
    then have "card {(s1, l), (s2, l)} \<le> length (filter (\<lambda>e. snd e = l) stores)"
      by (meson List.finite_set card_length card_mono le_trans)
    then show ?thesis using assms(6) by simp
  qed
  moreover have t: "stores_of l (by_address opts stores) \<le> stores_of l es + 1" "set loads \<subseteq> set (snd md1)"
    using transform_loads [OF 1 ls(1), of l] ls(2) assms(7) by simp_all
  ultimately have "stores_of l es \<noteq> 0" by linarith
  then obtain s where "(s, l) \<in> set es" by (auto simp: filter_empty_conv)
  from stores_not_deleted [OF 2 this] t(2) assms(7) show False by auto
qed

end
