(* ===== verification/VarargLaws.thy ===== *)
theory VarargLaws
  imports Setup
begin

text \<open>
  Marking the code that manages variable arguments: the loop ends within its fuel, its assertion never
  fails, nothing but marks changes and the users of every handle are taken care of.
\<close>

section \<open>What marks leave alone\<close>

definition same_code :: "ir \<Rightarrow> ir \<Rightarrow> bool" where
  "same_code m m' \<longleftrightarrow> (\<exists>f. m' = m\<lparr>vals := (\<lambda>v. (vals m v)\<lparr>v_md := f v\<rparr>)\<rparr>)"

lemma same_code_refl [simp]: "same_code m m"
  unfolding same_code_def by (rule exI [of _ "\<lambda>v. v_md (vals m v)"]) simp

lemma same_code_trans: "same_code m m1 \<Longrightarrow> same_code m1 m2 \<Longrightarrow> same_code m m2"
  by (auto simp: same_code_def)

lemma same_code_set_metadata: "same_code m (set_metadata v k n m)"
  unfolding same_code_def
  by (rule exI [of _ "\<lambda>w. if w = v then (v_md (vals m v))(k \<mapsto> n) else v_md (vals m w)"])
    (auto simp: set_metadata_def fun_eq_iff)

lemma same_code_mark: "addMIMetadata v s m = Inr m' \<Longrightarrow> same_code m m'"
  by (auto simp: addMIMetadata_def Let_def same_code_set_metadata split: if_splits)

lemma same_code_fields:
  assumes "same_code m m'"
  shows "get_inst m' = get_inst m" and "all_insts m' = all_insts m" and "users m' = users m"
    and "md_concat m' = md_concat m" and "use_order m' = use_order m"
proof -
  obtain f where f: "m' = m\<lparr>vals := (\<lambda>v. (vals m v)\<lparr>v_md := f v\<rparr>)\<rparr>" using assms by (auto simp: same_code_def)
  show g: "get_inst m' = get_inst m" by (auto simp: f get_inst_def)
  show a: "all_insts m' = all_insts m" by (simp add: f all_insts_def fun_insts_def [abs_def])
  have "uses_in m' = uses_in m" by (simp add: uses_in_def [abs_def] g)
  then show "users m' = users m" by (simp add: users_def [abs_def] a) (simp add: f)
  show "md_concat m' = md_concat m" "use_order m' = use_order m" by (simp_all add: f)
qed

lemma same_code_queries:
  assumes "same_code m m'"
  shows "get_intrinsic m' = get_intrinsic m" and "get_call m' = get_call m" and "is_load m' = is_load m"
    and "isVarArgIntrinsic m' = isVarArgIntrinsic m" and "is_instruction m' = is_instruction m"
  using same_code_fields(1) [OF assms]
  by (simp_all add: get_intrinsic_def [abs_def] get_call_def [abs_def] is_load_def [abs_def]
      isVarArgIntrinsic_def [abs_def] is_instruction_def [abs_def])

text \<open>Marks are only added, and none that forbids instrumentation.\<close>

definition marks_more :: "ir \<Rightarrow> ir \<Rightarrow> bool" where
  "marks_more m m' \<longleftrightarrow> same_code m m' \<and> hasNoInstrument m' = hasNoInstrument m \<and>
     (\<forall>v. hasVarArgHandling m v \<longrightarrow> hasVarArgHandling m' v)"

lemma marks_more_refl [simp]: "marks_more m m"
  by (simp add: marks_more_def)

lemma marks_more_trans: "marks_more m m1 \<Longrightarrow> marks_more m1 m2 \<Longrightarrow> marks_more m m2"
  unfolding marks_more_def using same_code_trans by auto

lemma md_concat_ok_same: "same_code m m' \<Longrightarrow> md_concat_ok m \<Longrightarrow> md_concat_ok m'"
  using same_code_fields(4) [of m m'] by (simp add: md_concat_ok_def)

lemma mark_handling:
  assumes "md_concat_ok m" and "is_instruction m v"
  obtains m' where "setVarArgHandling v m = Inr m'" and "marks_more m m'"
    and "\<And>w. hasVarArgHandling m' w \<longleftrightarrow> w = v \<or> hasVarArgHandling m w"
proof -
  obtain m' where m': "setVarArgHandling v m = Inr m'"
    using addMIMetadata_defined [of v VARARG_MD m] assms(2) by (auto simp: setVarArgHandling_def canHoldMetadata_def)
  have n: "hasNoInstrument m' w = hasNoInstrument m w" "hasVarArgHandling m' w \<longleftrightarrow> w = v \<or> hasVarArgHandling m w" for w
    using addMIMetadata_marks [OF assms(1) m' [unfolded setVarArgHandling_def]]
    by (auto simp: hasNoInstrument_def hasVarArgHandling_def md_name_defs)
  have "same_code m m'" using m' same_code_mark by (auto simp: setVarArgHandling_def)
  with n have "marks_more m m'" by (auto simp: marks_more_def)
  with m' n(2) that show thesis by blast
qed

lemma mark_load_arg:
  assumes "md_concat_ok m" and "is_instruction m v"
  obtains m' where "setVarArgLoadArg v m = Inr m'" and "marks_more m m'"
    and "\<And>w. hasVarArgHandling m' w \<longleftrightarrow> hasVarArgHandling m w"
proof -
  obtain m' where m': "setVarArgLoadArg v m = Inr m'"
    using addMIMetadata_defined [of v VARARG_LOAD_MD m] assms(2) by (auto simp: setVarArgLoadArg_def canHoldMetadata_def)
  have n: "hasNoInstrument m' w = hasNoInstrument m w" "hasVarArgHandling m' w \<longleftrightarrow> hasVarArgHandling m w" for w
    using addMIMetadata_marks [OF assms(1) m' [unfolded setVarArgLoadArg_def]]
    by (auto simp: hasNoInstrument_def hasVarArgHandling_def md_name_defs)
  have "same_code m m'" using m' same_code_mark by (auto simp: setVarArgLoadArg_def)
  with n have "marks_more m m'" by (auto simp: marks_more_def)
  with m' n(2) that show thesis by blast
qed

section \<open>One round\<close>

text \<open>An instruction the marking is done with.\<close>

definition vararg_handled :: "ir \<Rightarrow> vid \<Rightarrow> bool" where
  "vararg_handled m u \<longleftrightarrow>
     (if isVarArgIntrinsic m u then hasVarArgHandling m u
      else get_call m u \<noteq> None \<or> hasNoInstrument m u \<or> hasVarArgHandling m u)"

lemma vararg_handled_mono: "marks_more m m' \<Longrightarrow> vararg_handled m u \<Longrightarrow> vararg_handled m' u"
  using same_code_queries [of m m'] by (auto simp: vararg_handled_def marks_more_def split: if_splits)

definition worklist_ok :: "ir \<Rightarrow> (vid \<times> nat) list \<Rightarrow> bool" where
  "worklist_ok m wl \<longleftrightarrow> (\<forall>(u, l) \<in> set wl. u \<in> set (all_insts m) \<and> is_instruction m u \<and> 0 < l)"

definition unmarked_uses :: "ir \<Rightarrow> nat" where
  "unmarked_uses m = (\<Sum>i \<in> {i \<in> set (all_insts m). \<not> hasVarArgHandling m i}. length (users m i))"

lemma unmarked_uses_less:
  assumes "same_code m m'" and "\<And>w. hasVarArgHandling m' w \<longleftrightarrow> w = v \<or> hasVarArgHandling m w"
    and "v \<in> set (all_insts m)" and "\<not> hasVarArgHandling m v"
  shows "unmarked_uses m = length (users m v) + unmarked_uses m'"
proof -
  let ?U = "{i \<in> set (all_insts m). \<not> hasVarArgHandling m i}"
  have "unmarked_uses m' = (\<Sum>i \<in> ?U - {v}. length (users m i))"
    unfolding unmarked_uses_def same_code_fields(2,3) [OF assms(1)] by (rule sum.cong) (use assms(2) in auto)
  moreover have "(\<Sum>i \<in> ?U. length (users m i)) = length (users m v) + (\<Sum>i \<in> ?U - {v}. length (users m i))"
    by (rule sum.remove) (use assms(3,4) in auto)
  ultimately show ?thesis by (simp add: unmarked_uses_def)
qed

lemma unmarked_uses_mono:
  assumes "marks_more m m'"
  shows "unmarked_uses m' \<le> unmarked_uses m"
proof -
  have s: "same_code m m'" using assms by (simp add: marks_more_def)
  show ?thesis
    unfolding unmarked_uses_def same_code_fields(2,3) [OF s]
    by (rule sum_mono2) (use assms in \<open>auto simp: marks_more_def\<close>)
qed

lemma users_ok: "uses_ok m \<Longrightarrow> l > 0 \<Longrightarrow> worklist_ok m (map (\<lambda>u. (u, l)) (users m v))"
  by (auto simp: worklist_ok_def set_users is_instruction_def)

lemma worklist_ok_rev [simp]: "worklist_ok m (rev wl) = worklist_ok m wl"
  by (simp add: worklist_ok_def)

lemma worklist_ok_append [simp]: "worklist_ok m (wl @ wl') \<longleftrightarrow> worklist_ok m wl \<and> worklist_ok m wl'"
  by (auto simp: worklist_ok_def)

lemma worklist_ok_same: "same_code m m' \<Longrightarrow> worklist_ok m' wl = worklist_ok m wl"
  using same_code_fields(2) [of m m'] same_code_queries(5) [of m m'] by (simp add: worklist_ok_def)

lemma uses_ok_same: "same_code m m' \<Longrightarrow> uses_ok m' = uses_ok m"
  using same_code_fields(5) [of m m'] by (simp add: uses_ok_def)

lemma vararg_load_total:
  assumes "md_concat_ok m" and "is_instruction m e" and "0 < l"
  shows "\<exists>l' m'. vararg_load e l m = Inr (l', m') \<and> marks_more m m' \<and> unmarked_uses m' = unmarked_uses m"
proof (cases "is_load m e \<and> l - 1 = 0")
  case True
  from assms(1,2) obtain m' where m': "setVarArgLoadArg e m = Inr m'" "marks_more m m'"
    "\<And>w. hasVarArgHandling m' w \<longleftrightarrow> hasVarArgHandling m w" by (rule mark_load_arg) blast
  have "same_code m m'" using m'(2) by (simp add: marks_more_def)
  then have "unmarked_uses m' = unmarked_uses m" by (simp add: unmarked_uses_def same_code_fields m'(3))
  with True m' assms(3) show ?thesis by (simp add: vararg_load_def)
next
  case False
  with assms(3) show ?thesis by (auto simp: vararg_load_def)
qed

lemma vararg_step_total:
  assumes "md_concat_ok m" and "uses_ok m" and "worklist_ok m ((e, l) # wl)"
  shows "\<exists>wl' m'. vararg_step e l wl m = Inr (wl', m') \<and> marks_more m m' \<and> vararg_handled m' e \<and>
    worklist_ok m' wl' \<and> set wl \<subseteq> set wl' \<and> length wl' + unmarked_uses m' \<le> length wl + unmarked_uses m"
proof -
  have e: "e \<in> set (all_insts m)" "is_instruction m e" "0 < l" and wl: "worklist_ok m wl"
    using assms(3) by (auto simp: worklist_ok_def)
  from assms(1) e(2) obtain m1 where m1: "setVarArgHandling e m = Inr m1" "marks_more m m1"
    "\<And>w. hasVarArgHandling m1 w \<longleftrightarrow> w = e \<or> hasVarArgHandling m w" by (rule mark_handling) blast
  have s1: "same_code m m1" using m1(2) by (simp add: marks_more_def)
  consider (vararg) "isVarArgIntrinsic m e" | (call) "\<not> isVarArgIntrinsic m e" "get_call m e \<noteq> None"
    | (marked) "get_call m e = None" "hasNoInstrument m e \<or> hasVarArgHandling m e"
    | (mark) "get_call m e = None" "\<not> hasNoInstrument m e" "\<not> hasVarArgHandling m e"
    by blast
  then show ?thesis
  proof cases
    case vararg
    then have "get_intrinsic m e \<noteq> None" by (cases "get_intrinsic m e") (simp_all add: isVarArgIntrinsic_def)
    with vararg m1 have "vararg_step e l wl m = Inr (wl, m1)" by (simp add: vararg_step_def)
    moreover have "vararg_handled m1 e" using m1(3) same_code_queries [OF s1] vararg by (simp add: vararg_handled_def)
    ultimately show ?thesis using m1(2) wl worklist_ok_same [OF s1] unmarked_uses_mono [OF m1(2)] by auto
  next
    case call
    then have "vararg_step e l wl m = Inr (wl, m)" by (simp add: vararg_step_def)
    moreover have "vararg_handled m e" using call by (simp add: vararg_handled_def)
    ultimately show ?thesis using wl by auto
  next
    case marked
    have i: "get_intrinsic m e = None"
      using marked(1) by (cases "get_inst m e") (auto simp: get_intrinsic_def get_call_def split: instr.splits)
    with marked have "vararg_step e l wl m = Inr (wl, m)" by (simp add: vararg_step_def)
    moreover have "vararg_handled m e" using marked i by (simp add: vararg_handled_def isVarArgIntrinsic_def)
    ultimately show ?thesis using wl by auto
  next
    case mark
    have i: "get_intrinsic m e = None"
      using mark(1) by (cases "get_inst m e") (auto simp: get_intrinsic_def get_call_def split: instr.splits)
    have e1: "is_instruction m1 e" using e(2) same_code_queries(5) [OF s1] by simp
    obtain l' m2 where m2: "vararg_load e l m1 = Inr (l', m2)" "marks_more m1 m2" "unmarked_uses m2 = unmarked_uses m1"
      using vararg_load_total [OF md_concat_ok_same [OF s1 assms(1)] e1 e(3)] by blast
    let ?wl = "if l' = 0 then wl else rev (map (\<lambda>u. (u, l')) (users m2 e)) @ wl"
    have step: "vararg_step e l wl m = Inr (?wl, m2)" using mark i m1(1) m2(1) by (simp add: vararg_step_def)
    have mm: "marks_more m m2" by (rule marks_more_trans [OF m1(2) m2(2)])
    then have s2: "same_code m m2" by (simp add: marks_more_def)
    have "hasVarArgHandling m2 e" using m1(3) m2(2) by (simp add: marks_more_def)
    then have h: "vararg_handled m2 e" by (simp add: vararg_handled_def)
    have "worklist_ok m2 ?wl"
      using wl worklist_ok_same [OF s2] users_ok [of m2 l' e] uses_ok_same [OF s2] assms(2) by simp
    moreover have "length ?wl + unmarked_uses m2 \<le> length wl + unmarked_uses m"
      using unmarked_uses_less [OF s1 m1(3) e(1) mark(3)] m2(3) by (simp add: same_code_fields(3) [OF s2])
    ultimately show ?thesis using step mm h by auto
  qed
qed

section \<open>The loop\<close>

lemma vararg_loop_total:
  assumes "md_concat_ok m" and "uses_ok m" and "worklist_ok m wl" and "length wl + unmarked_uses m \<le> fuel"
  shows "\<exists>m'. vararg_loop fuel wl m = Inr m' \<and> marks_more m m' \<and> (\<forall>u \<in> fst ` set wl. vararg_handled m' u)"
  using assms
proof (induction fuel arbitrary: wl m)
  case 0
  then show ?case by (auto intro: exI [of _ m])
next
  case (Suc n)
  show ?case
  proof (cases wl)
    case (Cons el wl1)
    obtain e l where el: "el = (e, l)" by (cases el)
    obtain wl' m1 where st: "vararg_step e l wl1 m = Inr (wl', m1)" "marks_more m m1" "vararg_handled m1 e"
      "worklist_ok m1 wl'" "set wl1 \<subseteq> set wl'" "length wl' + unmarked_uses m1 \<le> length wl1 + unmarked_uses m"
      using vararg_step_total [OF Suc.prems(1,2) Suc.prems(3) [unfolded Cons el]] by blast
    have s: "same_code m m1" using st(2) by (simp add: marks_more_def)
    have "length wl' + unmarked_uses m1 \<le> n" using st(6) Suc.prems(4) Cons by simp
    with Suc.IH [OF md_concat_ok_same [OF s Suc.prems(1)] _ st(4)] uses_ok_same [OF s] Suc.prems(2)
    obtain m' where m': "vararg_loop n wl' m1 = Inr m'" "marks_more m1 m'" "\<forall>u \<in> fst ` set wl'. vararg_handled m' u"
      by auto
    have "vararg_handled m' u" if "u \<in> fst ` set wl" for u
      using that Cons el m'(3) st(5) vararg_handled_mono [OF m'(2) st(3)] by auto
    with m'(1) st(1) Cons el marks_more_trans [OF st(2) m'(2)] show ?thesis by auto
  qed (auto intro: exI [of _ m])
qed

lemma vararg_init_total:
  assumes "md_concat_ok m" and "uses_ok m" and "worklist_ok m wl"
  shows "\<exists>m'. foldE vararg_init hs (wl, m) = Inr (rev (concat (map (\<lambda>h. map (\<lambda>u. (u, 2)) (users m h)) hs)) @ wl, m') \<and>
    marks_more m m' \<and> (\<forall>h \<in> set hs. is_instruction m h \<longrightarrow> hasVarArgHandling m' h)"
  using assms
proof (induction hs arbitrary: wl m)
  case (Cons h hs)
  obtain m1 where m1: "(if is_instruction m h then setVarArgHandling h m else Inr m) = Inr m1" "marks_more m m1"
    "is_instruction m h \<longrightarrow> hasVarArgHandling m1 h"
  proof (cases "is_instruction m h")
    case True
    from Cons.prems(1) True obtain m1 where "setVarArgHandling h m = Inr m1" "marks_more m m1"
      "\<And>w. hasVarArgHandling m1 w \<longleftrightarrow> w = h \<or> hasVarArgHandling m w" by (rule mark_handling) blast
    with True that show thesis by auto
  qed (use that in auto)
  have s: "same_code m m1" using m1(2) by (simp add: marks_more_def)
  let ?wl = "rev (map (\<lambda>u. (u, 2)) (users m1 h)) @ wl"
  have wl: "worklist_ok m1 ?wl"
    using Cons.prems users_ok [of m1 2 h] uses_ok_same [OF s] worklist_ok_same [OF s] by simp
  from m1(1) have i: "vararg_init h (wl, m) = Inr (?wl, m1)" by (simp add: vararg_init_def)
  obtain m' where m': "foldE vararg_init hs (?wl, m1) =
      Inr (rev (concat (map (\<lambda>h. map (\<lambda>u. (u, 2)) (users m1 h)) hs)) @ ?wl, m')" "marks_more m1 m'"
    "\<forall>h \<in> set hs. is_instruction m1 h \<longrightarrow> hasVarArgHandling m' h"
    using Cons.IH [OF md_concat_ok_same [OF s Cons.prems(1)] _ wl] uses_ok_same [OF s] Cons.prems(2) by blast
  have "hasVarArgHandling m' h" if "is_instruction m h" using that m1(3) m'(2) by (simp add: marks_more_def)
  with i m' marks_more_trans [OF m1(2) m'(2)] same_code_queries(5) [OF s] same_code_fields(3) [OF s]
  show ?case by simp
qed simp

text \<open>
  C35: marking the code that manages variable arguments always succeeds: it ends within the given
  rounds, its assertion on the level cannot fail, and nothing but marks is added. Then every instruction
  that uses a handle of the function is marked, unless it is a call or was not to be instrumented
  before; calls of the va_start, va_copy and va_end intrinsics on a handle are marked.
\<close>

theorem markVarargInsts_total:
  assumes "md_concat_ok m" and "uses_ok m"
  shows "\<exists>m'. markVarargInsts (vararg_fuel m F) F m = Inr (getVarArgHandles m F \<noteq> [], m') \<and> marks_more m m' \<and>
    (\<forall>h \<in> set (getVarArgHandles m F). (is_instruction m h \<longrightarrow> hasVarArgHandling m' h) \<and>
      (\<forall>u \<in> set (users m h). vararg_handled m' u))"
proof (cases "getVarArgHandles m F = []")
  case True
  then show ?thesis by (auto simp: markVarargInsts_def)
next
  case False
  let ?hs = "getVarArgHandles m F"
  let ?wl = "rev (concat (map (\<lambda>h. map (\<lambda>u. (u, 2 :: nat)) (users m h)) ?hs))"
  obtain m1 where m1: "foldE vararg_init ?hs ([], m) = Inr (?wl, m1)" "marks_more m m1"
    "\<forall>h \<in> set ?hs. is_instruction m h \<longrightarrow> hasVarArgHandling m1 h"
    using vararg_init_total [OF assms, of "[]" ?hs] by (auto simp: worklist_ok_def)
  have s: "same_code m m1" using m1(2) by (simp add: marks_more_def)
  have "worklist_ok m ?wl" using users_ok [OF assms(2), of 2] by (auto simp: worklist_ok_def)
  then have wl: "worklist_ok m1 ?wl" using worklist_ok_same [OF s] by simp
  have "length ?wl = sum_list (map (\<lambda>h. length (users m h)) ?hs)" by (simp add: length_concat comp_def)
  moreover have "unmarked_uses m1 \<le> sum_list (map (\<lambda>i. Suc (length (users m i))) (remdups (all_insts m)))"
  proof -
    have "unmarked_uses m1 \<le> (\<Sum>i \<in> set (all_insts m). length (users m i))"
      unfolding unmarked_uses_def same_code_fields(2,3) [OF s] by (rule sum_mono2) auto
    also have "\<dots> \<le> (\<Sum>i \<in> set (all_insts m). Suc (length (users m i)))" by (rule sum_mono) simp
    also have "\<dots> = sum_list (map (\<lambda>i. Suc (length (users m i))) (remdups (all_insts m)))"
      by (simp only: sum_list_distinct_conv_sum_set distinct_remdups set_remdups)
    finally show ?thesis .
  qed
  ultimately have "length ?wl + unmarked_uses m1 \<le> vararg_fuel m F" by (simp add: vararg_fuel_def)
  from vararg_loop_total [OF md_concat_ok_same [OF s assms(1)] _ wl this] uses_ok_same [OF s] assms(2)
  obtain m' where m': "vararg_loop (vararg_fuel m F) ?wl m1 = Inr m'" "marks_more m1 m'"
    "\<forall>u \<in> fst ` set ?wl. vararg_handled m' u" by auto
  have "markVarargInsts (vararg_fuel m F) F m = Inr (True, m')" using False m1(1) m'(1) by (simp add: markVarargInsts_def)
  moreover have "hasVarArgHandling m' h" if "h \<in> set ?hs" "is_instruction m h" for h
    using that m1(3) m'(2) by (simp add: marks_more_def)
  moreover have "vararg_handled m' u" if "h \<in> set ?hs" "u \<in> set (users m h)" for h u
    using that m'(3) by (force simp: image_iff)
  ultimately show ?thesis using False marks_more_trans [OF m1(2) m'(2)] by auto
qed

end
