(* ===== verification/SetupLaws.thy ===== *)
theory SetupLaws
  imports Deobfuscate
begin

text \<open>
  What \<open>prepareModule\<close> leaves behind: labels that can be read back, no lifetime markers, and variable
  argument code that is marked in a bounded number of rounds.
\<close>

section \<open>Labels\<close>

lemma is_access_set_metadata [simp]:
  "is_load (set_metadata v k n m) i = is_load m i" "is_store (set_metadata v k n m) i = is_store m i"
  by (simp_all add: is_load_def is_store_def get_inst_def set_metadata_def)

lemma label_step:
  "label_access i (idx, m) =
     (if is_store m i \<or> is_load m i then (Suc idx, set_metadata i ACCESS_ID [MDString (to_string idx)] m) else (idx, m))"
  by (simp add: label_access_def setAccessID_def)

lemma labels:
  assumes "fold label_access is (idx, m) = (idx', m')" and "distinct is"
  shows "(\<forall>v. v \<notin> set is \<longrightarrow> get_metadata m' v = get_metadata m v) \<and> get_as_integer m' = get_as_integer m \<and>
    (\<forall>n < length (filter (\<lambda>i. is_store m i \<or> is_load m i) is).
       get_metadata m' (filter (\<lambda>i. is_store m i \<or> is_load m i) is ! n) ACCESS_ID = Some [MDString (to_string (idx + n))])"
  using assms
proof (induction "is" arbitrary: idx m)
  case (Cons i xs)
  show ?case
  proof (cases "is_store m i \<or> is_load m i")
    case False
    with Cons.prems have f: "fold label_access xs (idx, m) = (idx', m')" "distinct xs" "i \<notin> set xs"
      by (simp_all add: label_step)
    have "filter (\<lambda>i. is_store m i \<or> is_load m i) (i # xs) = filter (\<lambda>i. is_store m i \<or> is_load m i) xs"
      using False by simp
    with Cons.IH [OF f(1,2)] show ?thesis by (metis set_subset_Cons subsetD)
  next
    case True
    let ?m = "set_metadata i ACCESS_ID [MDString (to_string idx)] m"
    let ?acc = "\<lambda>i. is_store m i \<or> is_load m i"
    from True Cons.prems have f: "fold label_access xs (Suc idx, ?m) = (idx', m')" "distinct xs" "i \<notin> set xs"
      by (simp_all add: label_step)
    note IH = Cons.IH [OF f(1,2), simplified]
    have g: "get_as_integer ?m = get_as_integer m" by (simp add: set_metadata_def)
    have here: "get_metadata m' i ACCESS_ID = Some [MDString (to_string idx)]"
      using IH f(3) by (simp add: get_set_metadata)
    have other: "get_metadata m' v = get_metadata m v" if "v \<notin> set (i # xs)" for v
      using IH that by (auto simp: get_set_metadata fun_eq_iff)
    have "get_metadata m' ((i # filter ?acc xs) ! n) ACCESS_ID = Some [MDString (to_string (idx + n))]"
      if "n < Suc (length (filter ?acc xs))" for n
      using IH here that by (cases n) simp_all
    with True other IH g show ?thesis by simp
  qed
qed simp

text \<open>
  C40: the loads and stores of a function are numbered in their order, and the number can be read
  back, given that \<open>getAsInteger\<close> reads what \<open>std::to_string\<close> writes.
\<close>

theorem labelAccesses_roundtrip:
  assumes "accesses = filter (\<lambda>i. is_store m i \<or> is_load m i) (fun_insts m F)" and "distinct (fun_insts m F)"
    and "n < length accesses" and "get_as_integer m (to_string n) = Some n"
  shows "getAccessID (labelAccesses F m) (accesses ! n) = Inr n"
proof -
  obtain idx' m' where f: "fold label_access (fun_insts m F) (0, m) = (idx', m')" by (metis surj_pair)
  then have m': "labelAccesses F m = m'" by (simp add: labelAccesses_def)
  from labels [OF f assms(2)] assms(1,3)
  have "get_metadata m' (accesses ! n) ACCESS_ID = Some [MDString (to_string n)]" "get_as_integer m' = get_as_integer m"
    by simp_all
  then show ?thesis by (simp add: getAccessID_def hasAccessID_def m' assms(4))
qed

section \<open>Lifetime markers\<close>

text \<open>Between \<open>m\<close> and \<open>m'\<close> no lifetime marker appears and no function gets blocks.\<close>

definition no_new_lifetime :: "ir \<Rightarrow> ir \<Rightarrow> bool" where
  "no_new_lifetime m m' \<longleftrightarrow>
     (\<forall>F. set (fun_blocks m' F) \<subseteq> set (fun_blocks m F)) \<and> set (mod_functions m) \<subseteq> set (mod_functions m') \<and>
     (\<forall>F \<in> set (mod_functions m') - set (mod_functions m). fun_blocks m' F = []) \<and>
     (\<forall>b i. i \<in> set (bb_insts m' b) \<and> isLifeTimeIntrinsic m' i \<longrightarrow> i \<in> set (bb_insts m b) \<and> isLifeTimeIntrinsic m i)"

lemma no_new_lifetime_refl [simp]: "no_new_lifetime m m"
  by (simp add: no_new_lifetime_def)

lemma no_new_lifetime_trans: "no_new_lifetime m m1 \<Longrightarrow> no_new_lifetime m1 m2 \<Longrightarrow> no_new_lifetime m m2"
proof -
  assume 1: "no_new_lifetime m m1" and 2: "no_new_lifetime m1 m2"
  note 1 = 1 [unfolded no_new_lifetime_def] and 2 = 2 [unfolded no_new_lifetime_def]
  have "fun_blocks m2 F = []" if "F \<in> set (mod_functions m2) - set (mod_functions m)" for F
  proof (cases "F \<in> set (mod_functions m1)")
    case True
    with that 1 have "fun_blocks m1 F = []" by blast
    with 2 show ?thesis by (metis set_empty subset_empty)
  qed (use that 2 in blast)
  moreover have "set (fun_blocks m2 F) \<subseteq> set (fun_blocks m F)" for F using 1 2 by blast
  ultimately show ?thesis unfolding no_new_lifetime_def using 1 2 by blast
qed

lemma no_new_lifetime_same:
  assumes "fun_blocks m' = fun_blocks m" and "mod_functions m' = mod_functions m"
    and "\<And>b i. i \<in> set (bb_insts m' b) \<Longrightarrow> isLifeTimeIntrinsic m' i \<Longrightarrow> i \<in> set (bb_insts m b) \<and> isLifeTimeIntrinsic m i"
  shows "no_new_lifetime m m'"
  using assms by (auto simp: no_new_lifetime_def)

lemma lifetime_get_inst:
  "isLifeTimeIntrinsic m i \<longleftrightarrow> (\<exists>c. get_inst m i = Some (Call c (Some IntrLifetimeStart)) \<or>
     get_inst m i = Some (Call c (Some IntrLifetimeEnd)))"
proof (cases "get_inst m i")
  case (Some k)
  then show ?thesis
    by (cases k) (auto simp: isLifeTimeIntrinsic_def get_intrinsic_def split: option.splits intrinsic.splits)
qed (simp add: isLifeTimeIntrinsic_def get_intrinsic_def)

definition lifetime_instr :: "instr \<Rightarrow> bool" where
  "lifetime_instr k \<longleftrightarrow> (\<exists>c. k = Call c (Some IntrLifetimeStart) \<or> k = Call c (Some IntrLifetimeEnd))"

lemma lifetime_emit:
  assumes "emit p k ty nm m = (n, m')" and "\<not> lifetime_instr k"
  shows "no_new_lifetime m m'"
proof (rule no_new_lifetime_same)
  from assms(1) show "fun_blocks m' = fun_blocks m" "mod_functions m' = mod_functions m"
    by (auto simp: emit_def new_value_def Let_def)
  have n: "n = next_vid m" "get_inst m' n = Some k" "\<And>v. v \<noteq> n \<Longrightarrow> get_inst m' v = get_inst m v"
    using assms(1) by (auto simp: emit_def new_value_def Let_def get_inst_def)
  fix b i assume i: "i \<in> set (bb_insts m' b)" "isLifeTimeIntrinsic m' i"
  then have "i \<noteq> n" using assms(2) n(2) by (auto simp: lifetime_get_inst lifetime_instr_def)
  moreover from this have "isLifeTimeIntrinsic m i" using i(2) n(3) by (simp add: lifetime_get_inst)
  moreover have "set (bb_insts m' b) \<subseteq> insert n (set (bb_insts m b))"
    using assms(1) by (auto simp: emit_def new_value_def Let_def ip_insert_def set_insert_before split: ipoint.splits if_splits)
  ultimately show "i \<in> set (bb_insts m b) \<and> isLifeTimeIntrinsic m i" using i(1) by blast
qed

lemma lifetime_emit_op:
  "emit_op p oper args k ty nm m = (v, m') \<Longrightarrow> \<not> lifetime_instr k \<Longrightarrow> no_new_lifetime m m'"
  by (auto simp: emit_op_def lifetime_emit split: option.splits)

lemma lifetime_vals:
  assumes "\<And>i. isLifeTimeIntrinsic m' i \<Longrightarrow> isLifeTimeIntrinsic m i" and "fun_blocks m' = fun_blocks m"
    and "mod_functions m' = mod_functions m" and "\<And>b. set (bb_insts m' b) \<subseteq> set (bb_insts m b)"
  shows "no_new_lifetime m m'"
  by (rule no_new_lifetime_same) (use assms in auto)

lemma lifetime_set_metadata: "no_new_lifetime m (set_metadata v k n m)"
  by (rule lifetime_vals) (auto simp: lifetime_get_inst get_inst_def set_metadata_def split: if_splits)

lemma lifetime_mark: "addMIMetadata v s m = Inr m' \<Longrightarrow> no_new_lifetime m m'"
  by (auto simp: addMIMetadata_def Let_def lifetime_set_metadata split: if_splits)

lemmas lifetime_marks =
  lifetime_mark [of _ NOINSTRUMENT_MD, folded setNoInstrument_def]
  lifetime_mark [of _ VARARG_MD, folded setVarArgHandling_def]
  lifetime_mark [of _ VARARG_LOAD_MD, folded setVarArgLoadArg_def]
  lifetime_mark [of _ PTR_DEOB_MD, folded setPointerDeobfuscation_def]

lemma lifetime_remove: "no_new_lifetime m (remove_from_parent v m)"
  by (rule lifetime_vals) (auto simp: remove_from_parent_def lifetime_get_inst get_inst_def)

lemma map_operands_lifetime: "lifetime_instr (map_operands f k) \<Longrightarrow> lifetime_instr k"
  by (cases k) (auto simp: lifetime_instr_def)

lemma lifetime_replace_in: "no_new_lifetime m (replace_in u a b m)"
proof (rule lifetime_vals)
  fix i assume l: "isLifeTimeIntrinsic (replace_in u a b m) i"
  have "get_inst (replace_in u a b m) i =
      (if i = u then map_option (map_operands (\<lambda>x. if x = a then b else x)) (get_inst m i) else get_inst m i)"
    by (simp add: replace_in_def get_inst_def split: value_kind.splits)
  with l map_operands_lifetime show "isLifeTimeIntrinsic m i"
    by (auto simp: lifetime_get_inst lifetime_instr_def split: if_splits)
qed (simp_all add: replace_in_def)

lemma lifetime_getOrInsert:
  assumes "getOrInsertFunction name m = (f, m')"
  shows "no_new_lifetime m m'"
proof (cases "filter (\<lambda>f. v_name (vals m f) = name) (mod_functions m)")
  case Nil
  with assms have m': "f = next_vid m" "fun_blocks m' = (fun_blocks m)(f := [])" "mod_functions m' = mod_functions m @ [f]"
    "bb_insts m' = bb_insts m" "\<And>i. get_inst m' i = (if i = f then None else get_inst m i)"
    by (auto simp: getOrInsertFunction_def new_value_def Let_def get_inst_def)
  then show ?thesis by (auto simp: no_new_lifetime_def lifetime_get_inst split: if_splits)
next
  case Cons
  with assms show ?thesis by (simp add: getOrInsertFunction_def)
qed

lemma lifetime_set_call: "no_new_lifetime m (set_call call c m)"
proof (rule lifetime_vals)
  fix i assume l: "isLifeTimeIntrinsic (set_call call c m) i"
  show "isLifeTimeIntrinsic m i"
  proof (cases "i = call")
    case False
    then have "get_inst (set_call call c m) i = get_inst m i" by (simp add: set_call_def get_inst_def)
    with l show ?thesis by (simp add: lifetime_get_inst)
  next
    case True
    show ?thesis
    proof (cases "get_inst m call")
      case None
      with l True show ?thesis by (auto simp: lifetime_get_inst set_call_def get_inst_def)
    next
      case (Some k)
      with l True show ?thesis by (cases k) (auto simp: lifetime_get_inst set_call_def get_inst_def)
    qed
  qed
qed (simp_all add: set_call_def)

lemma lifetime_fold:
  assumes "\<And>x m. no_new_lifetime m (f x m)"
  shows "no_new_lifetime m (fold f xs m)"
proof (induction xs arbitrary: m)
  case (Cons x xs)
  show ?case using no_new_lifetime_trans [OF assms Cons.IH] by simp
qed simp

lemma remove_lifetime_one:
  "bb_insts (remove_lifetime_in a m) b =
     (if b = a then filter (\<lambda>i. \<not> isLifeTimeIntrinsic m i) (bb_insts m b) else bb_insts m b)"
  "vals (remove_lifetime_in a m) = vals m" "fun_blocks (remove_lifetime_in a m) = fun_blocks m"
  "mod_functions (remove_lifetime_in a m) = mod_functions m"
  by (simp_all add: remove_lifetime_in_def)

lemma lifetime_vals_eq: "vals m' = vals m \<Longrightarrow> isLifeTimeIntrinsic m' = isLifeTimeIntrinsic m"
  by (auto simp: lifetime_get_inst get_inst_def fun_eq_iff)

lemma remove_lifetime_fields:
  "vals (fold remove_lifetime_in bs m) = vals m" "fun_blocks (fold remove_lifetime_in bs m) = fun_blocks m"
  "mod_functions (fold remove_lifetime_in bs m) = mod_functions m"
  by (induction bs arbitrary: m) (simp_all add: remove_lifetime_one)

lemma remove_lifetime_bb:
  "bb_insts (fold remove_lifetime_in bs m) b =
     (if b \<in> set bs then filter (\<lambda>i. \<not> isLifeTimeIntrinsic m i) (bb_insts m b) else bb_insts m b)"
proof (induction bs arbitrary: m)
  case (Cons a bs)
  have "isLifeTimeIntrinsic (remove_lifetime_in a m) = isLifeTimeIntrinsic m"
    by (rule lifetime_vals_eq) (rule remove_lifetime_one)
  then show ?case by (simp add: Cons.IH remove_lifetime_one(1) conj_commute)
qed simp

lemma lifetime_removed:
  "no_new_lifetime m (removeLifeTimeIntrinsics F m)"
  "i \<in> set (fun_insts (removeLifeTimeIntrinsics F m) F) \<Longrightarrow> \<not> isLifeTimeIntrinsic (removeLifeTimeIntrinsics F m) i"
proof -
  have l: "isLifeTimeIntrinsic (removeLifeTimeIntrinsics F m) = isLifeTimeIntrinsic m"
    by (rule lifetime_vals_eq) (simp add: removeLifeTimeIntrinsics_def remove_lifetime_fields)
  show "no_new_lifetime m (removeLifeTimeIntrinsics F m)"
    by (rule lifetime_vals) (auto simp: l, auto simp: removeLifeTimeIntrinsics_def remove_lifetime_bb remove_lifetime_fields split: if_splits)
  assume "i \<in> set (fun_insts (removeLifeTimeIntrinsics F m) F)"
  then show "\<not> isLifeTimeIntrinsic (removeLifeTimeIntrinsics F m) i"
    unfolding l by (auto simp: fun_insts_def removeLifeTimeIntrinsics_def remove_lifetime_bb remove_lifetime_fields)
qed

lemma lifetime_labels: "no_new_lifetime m (labelAccesses F m)"
proof -
  have "no_new_lifetime (snd im) (snd (fold label_access xs im))" for xs im
  proof (induction xs arbitrary: im)
    case (Cons x xs)
    have "no_new_lifetime (snd im) (snd (label_access x im))"
      by (cases im) (simp add: label_step lifetime_set_metadata)
    from no_new_lifetime_trans [OF this Cons.IH] show ?case by simp
  qed simp
  from this [of "(0, m)"] show ?thesis by (simp add: labelAccesses_def)
qed

text \<open>A loop whose body adds no marker adds none.\<close>

lemma lifetime_foldE:
  assumes "foldE f xs s = Inr s'" and "\<And>x s s'. f x s = Inr s' \<Longrightarrow> no_new_lifetime (g s) (g s')"
  shows "no_new_lifetime (g s) (g s')"
  by (rule foldE_rel [OF assms(1), where R = "\<lambda>a b. no_new_lifetime (g a) (g b)"])
    (auto intro: no_new_lifetime_trans assms(2))

lemma lifetime_vararg_load: "vararg_load e l m = Inr (l', m') \<Longrightarrow> no_new_lifetime m m'"
  by (auto simp: vararg_load_def bindE_eq_Inr split: if_splits dest: lifetime_marks)

lemma lifetime_vararg_step: "vararg_step e l wl m = Inr (wl', m') \<Longrightarrow> no_new_lifetime m m'"
  unfolding vararg_step_def
  by (auto simp: bindE_eq_Inr split: if_splits
      intro: no_new_lifetime_trans [OF lifetime_marks(2) lifetime_vararg_load] dest: lifetime_marks)

lemma lifetime_vararg_loop: "vararg_loop n wl m = Inr m' \<Longrightarrow> no_new_lifetime m m'"
proof (induction n wl m rule: vararg_loop.induct)
  case (3 n e l wl m)
  then obtain wl1 m1 where 1: "vararg_step e l wl m = Inr (wl1, m1)" "vararg_loop n wl1 m1 = Inr m'"
    by (auto simp: bindE_eq_Inr)
  from no_new_lifetime_trans [OF lifetime_vararg_step [OF 1(1)] 3(1) [OF 1(1) _ 1(2)]] show ?case by simp
qed simp_all

lemma lifetime_varargs:
  assumes "markVarargInsts n F m = Inr (b, m')"
  shows "no_new_lifetime m m'"
proof (cases "getVarArgHandles m F = []")
  case True
  with assms show ?thesis by (simp add: markVarargInsts_def)
next
  case False
  with assms obtain wl m1 where 1: "foldE vararg_init (getVarArgHandles m F) ([], m) = Inr (wl, m1)"
    "vararg_loop n wl m1 = Inr m'"
    by (auto simp: markVarargInsts_def Let_def bindE_eq_Inr)
  have "no_new_lifetime (snd ([] :: (vid \<times> nat) list, m)) (snd (wl, m1))"
    by (rule lifetime_foldE [OF 1(1)])
      (auto simp: vararg_init_def bindE_eq_Inr split: if_splits dest: lifetime_marks)
  from no_new_lifetime_trans [OF this [simplified] lifetime_vararg_loop [OF 1(2)]] show ?thesis .
qed

end
