(* ===== verification/Lowfat.thy ===== *)
theory Lowfat
  imports Interface "HOL-Library.Word"
begin

text \<open>
  \<open>lib/instrumentation_mechanisms/LowfatMechanism.cpp\<close>: the mechanism that derives bounds from the
  address of an object. A witness is a base pointer; objects are moved to sections and stack regions
  of their size class at set-up. The tables of \<open>LFSizes.h\<close> belong to the run time, a submodule, and
  are an argument (\<open>lf_table\<close>). Statistics counters and debug output are left out.
\<close>

section \<open>State\<close>

record lowfat_witness =
  LWitnessValue :: vid
  LUpperBound :: "vid option"
  LLowerBound :: "vid option"
  LLocation :: vid

record lf_options =
  NoGlobalVarProtection :: bool
  AllowUnsafeGlobals :: bool
  TransformCommonToWeakLinkage :: bool
  NoStackProtection :: bool
  NoVLAProtection :: bool
  LazyBase :: bool

record lf_sizes =
  MAX_GLOBAL_ALLOC_SIZE :: nat
  MAX_STACK_ALLOC_SIZE :: nat
  STACK_SIZES :: "nat \<Rightarrow> 64 word"
  STACK_MASKS :: "nat \<Rightarrow> 64 word"
  STACK_OFFSETS :: "nat \<Rightarrow> 64 word"

datatype linkage =
    ExternalLinkage | AvailableExternallyLinkage | LinkOnceAnyLinkage | LinkOnceODRLinkage
  | WeakAnyLinkage | WeakODRLinkage | AppendingLinkage | InternalLinkage | PrivateLinkage
  | ExternalWeakLinkage | CommonLinkage

text \<open>The properties of a global variable the set-up reads and writes; an alignment is in bytes.\<close>

record global_attrs =
  gv_linkage :: linkage
  gv_section :: "string option"
  gv_align :: "nat option"
  gv_unnamed_addr :: bool
  gv_constant :: bool
  gv_declaration :: bool

record lowfat_state =
  lf_mod :: ir
  lf_opts :: lf_options
  lf_table :: lf_sizes
  lf_globals :: "vid \<Rightarrow> global_attrs"
  lf_alloca_align :: "vid \<Rightarrow> nat"
  lf_witnesses :: "wid \<rightharpoonup> lowfat_witness"
  lf_next_wid :: wid
  lf_failFunction :: callee
  lf_verboseFailFunction :: callee
  CheckDerefFunction :: callee
  CheckOOBFunction :: callee
  CalcBaseFunction :: callee
  LfGetUpperBoundFunction :: callee
  LfGetLowerBoundFunction :: callee
  StackMirrorFunction :: callee
  StackSizesFunction :: callee
  StackOffsetFunction :: callee
  StackMaskFunction :: callee

definition lf_lift :: "(ir \<Rightarrow> ('a \<times> ir) res) \<Rightarrow> lowfat_state \<Rightarrow> ('a \<times> lowfat_state) res" where
  "lf_lift f s = bindE (f (lf_mod s)) (\<lambda>(x, m). Inr (x, s\<lparr>lf_mod := m\<rparr>))"

section \<open>Witnesses\<close>

definition lf_getLowerBound :: "wid \<Rightarrow> lowfat_state \<Rightarrow> vid option res" where
  "lf_getLowerBound w s = bindE (deref (lf_witnesses s) w) (\<lambda>W. Inr (LLowerBound W))"

definition lf_getUpperBound :: "wid \<Rightarrow> lowfat_state \<Rightarrow> vid option res" where
  "lf_getUpperBound w s = bindE (deref (lf_witnesses s) w) (\<lambda>W. Inr (LUpperBound W))"

definition new_lf_witness :: "vid \<Rightarrow> vid \<Rightarrow> lowfat_state \<Rightarrow> wid \<times> lowfat_state" where
  "new_lf_witness v loc s =
     (lf_next_wid s,
      s\<lparr>lf_witnesses := (lf_witnesses s)(lf_next_wid s \<mapsto>
           \<lparr>LWitnessValue = v, LUpperBound = None, LLowerBound = None, LLocation = loc\<rparr>),
        lf_next_wid := Suc (lf_next_wid s)\<rparr>)"

definition lf_getInsertionLocation :: "ir \<Rightarrow> lowfat_witness \<Rightarrow> vid res" where
  "lf_getInsertionLocation m W =
     skip_phis m (dropWhile (\<lambda>v. v \<noteq> LLocation W) (bb_insts m (inst_bb m (LLocation W))))"

definition lf_hasBoundsMaterialized :: "lowfat_witness \<Rightarrow> bool" where
  "lf_hasBoundsMaterialized W = (LUpperBound W \<noteq> None \<and> LLowerBound W \<noteq> None)"

definition cast_lf :: "witness_ptr \<Rightarrow> lowfat_state \<Rightarrow> (wid \<times> lowfat_witness) res" where
  "cast_lf w s =
     (case w of
        None \<Rightarrow> Inl (AssertionFailed ''cast<LowfatWitness>'')
      | Some i \<Rightarrow> bindE (deref (lf_witnesses s) i) (\<lambda>W. Inr (i, W)))"

text \<open>
  The loop that looks through bitcasts. It ends in code whose values are defined before they are
  used; the fuel is the number of values of the module.
\<close>

fun look_through :: "nat \<Rightarrow> ir \<Rightarrow> vid \<Rightarrow> vid res" where
  "look_through fuel m v =
     (case get_inst m v of
        Some (BitCast x) \<Rightarrow> (case fuel of 0 \<Rightarrow> Inl OutOfFuel | Suc n \<Rightarrow> look_through n m x)
      | _ \<Rightarrow> Inr v)"

declare look_through.simps [simp del]

definition is_undef :: "ir \<Rightarrow> vid \<Rightarrow> bool" where
  "is_undef m v = (get_const m v = Some UndefValue)"

definition calls_mirror :: "ir \<Rightarrow> vid \<Rightarrow> bool" where
  "calls_mirror m v =
     (case get_inst m v of
        Some (Call ci _) \<Rightarrow>
          (case called_function ci of None \<Rightarrow> False | Some f \<Rightarrow> v_name (vals m f) = ''__lowfat_get_mirror'')
      | _ \<Rightarrow> False)"

definition lf_getWitness :: "vid \<Rightarrow> vid \<Rightarrow> lowfat_state \<Rightarrow> (vid \<times> lowfat_state) res" where
  "lf_getWitness incoming loc s =
     bindE (lf_lift (insertCast (WitnessType (lf_mod s)) incoming (Before loc) ''_witness'') s) (\<lambda>(casted, s1).
     let m = lf_mod s1 in
     if LazyBase (lf_opts s1) then Inr (casted, s1)
     else if is_undef m incoming then Inr (casted, s1)
     else
       bindE (look_through (next_vid m) m incoming) (\<lambda>toInspect.
       if calls_mirror m toInspect then Inr (casted, s1)
       else lf_lift (insertCall (Before loc) (CalcBaseFunction s1) [casted] (v_name (vals m casted) @ ''_base'')) s1))"

definition lf_witness_for ::
  "vid \<Rightarrow> nat \<Rightarrow> itarget \<times> lowfat_state \<Rightarrow> (itarget \<times> lowfat_state) res" where
  "lf_witness_for v index Ts =
     (case Ts of (T, s) \<Rightarrow>
     bindE (getLocation T) (\<lambda>loc.
     bindE (lf_getWitness v loc s) (\<lambda>(the_witness, s1).
     let (w, s2) = new_lf_witness the_witness loc s1 in Inr (setBoundWitness (Some w) index T, s2))))"

definition lf_extract ::
  "vid \<Rightarrow> nat \<Rightarrow> itarget \<times> lowfat_state \<Rightarrow> (itarget \<times> lowfat_state) res" where
  "lf_extract v index Ts =
     (case Ts of (T, s) \<Rightarrow>
     bindE (getLocation T) (\<lambda>loc.
     let m = lf_mod s;
         (ptr, m1) = emit_op (Before loc) ''extractvalue'' [v] (ExtractValue v [index])
                       (agg_elem_ty m (v_type (vals m v)) index) [] m
     in lf_witness_for ptr index (T, s\<lparr>lf_mod := m1\<rparr>)))"

definition lf_insertWitnesses :: "itarget \<Rightarrow> lowfat_state \<Rightarrow> (itarget \<times> lowfat_state) res" where
  "lf_insertWitnesses T s =
     bindE (hasInstrumentee T) (\<lambda>h.
     bindE (assertE h ''Target.hasInstrumentee()'') (\<lambda>_.
     bindE (getInstrumentee T) (\<lambda>v.
     let m = lf_mod s in
     if \<not> is_aggregate_ty (val_type m v) then
       bindE (getLocation T) (\<lambda>loc.
       bindE (lf_getWitness v loc s) (\<lambda>(the_witness, s1).
       let (w, s2) = new_lf_witness the_witness loc s1
       in bindE (setSingleBoundWitness (Some w) T) (\<lambda>T'. Inr (T', s2))))
     else if get_call m v \<noteq> None \<or> is_landing_pad m v then
       bindE (computePointerIndices m (v_type (vals m v))) (\<lambda>indices.
       foldE (lf_extract v) indices (T, s))
     else
       bindE (assertE (get_const m v \<noteq> None) ''isa<Constant>(instrumentee)'') (\<lambda>_.
       bindE (getAggregatePointerIndicesAndValues m v) (\<lambda>indexToPtr.
       foldE (\<lambda>(i, p). lf_witness_for p i) indexToPtr (T, s))))))"

definition lf_getRelocatedClone :: "wid \<Rightarrow> vid \<Rightarrow> lowfat_state \<Rightarrow> (wid \<times> lowfat_state) res" where
  "lf_getRelocatedClone w loc s =
     bindE (deref (lf_witnesses s) w) (\<lambda>W. Inr (new_lf_witness (LWitnessValue W) loc s))"

section \<open>Checks\<close>

definition lf_check_call :: "itarget \<Rightarrow> vid \<Rightarrow> lowfat_witness \<Rightarrow> vid \<Rightarrow> lowfat_state \<Rightarrow> lowfat_state res" where
  "lf_check_call T loc W castVal s =
     (if isCheck T then
       (case access_size (lf_mod s) T of
          None \<Rightarrow> Inl (AssertionFailed ''Size'')
        | Some sz \<Rightarrow>
            bindE (lf_lift (insertCallNoName (Before loc) (CheckDerefFunction s) [LWitnessValue W, castVal, sz]) s)
              (\<lambda>(_, s1). Inr s1))
     else if is_undef (lf_mod s) (LWitnessValue W) then
       bindE (assertE (is_undef (lf_mod s) castVal) ''isa<UndefValue>(CastVal)'') (\<lambda>_. Inr s)
     else
       bindE (lf_lift (insertCallNoName (Before loc) (CheckOOBFunction s) [LWitnessValue W, castVal]) s)
         (\<lambda>(_, s1). Inr s1))"

definition lf_insertCheck :: "itarget \<Rightarrow> lowfat_state \<Rightarrow> lowfat_state res" where
  "lf_insertCheck T s =
     bindE (assertE (isValid T) ''Target.isValid()'') (\<lambda>_.
     bindE (assertE (isCheck T \<or> isInvariant T) ''Target.isCheck() || Target.isInvariant()'') (\<lambda>_.
     bindE (getLocation T) (\<lambda>loc.
     bindE (getSingleBoundWitness T) (\<lambda>w.
     bindE (cast_lf w s) (\<lambda>(_, W).
     bindE (getInstrumentee T) (\<lambda>v.
     bindE (lf_lift (insertCastNoSuffix (PtrArgType (lf_mod s)) v (Before loc)) s) (\<lambda>(castVal, s1).
     lf_check_call T loc W castVal s1)))))))"

section \<open>Explicit bounds\<close>

definition set_lf_witness :: "wid \<Rightarrow> lowfat_witness \<Rightarrow> lowfat_state \<Rightarrow> lowfat_state" where
  "set_lf_witness w W s = s\<lparr>lf_witnesses := (lf_witnesses s)(w \<mapsto> W)\<rparr>"

definition lf_lookup_bound ::
  "bool \<Rightarrow> callee \<Rightarrow> vid \<Rightarrow> vid \<Rightarrow> string \<Rightarrow> vid option \<Rightarrow> lowfat_state \<Rightarrow> (vid option \<times> lowfat_state) res" where
  "lf_lookup_bound wanted fn ip v name old s =
     (if wanted then bindE (lf_lift (insertCall (Before ip) fn [v] name) s) (\<lambda>(c, s1). Inr (Some c, s1))
      else Inr (old, s))"

text \<open>The loop over the witnesses; it returns at the first one that has its bounds already.\<close>

fun lf_materialize :: "itarget \<Rightarrow> (nat \<times> witness_ptr) list \<Rightarrow> lowfat_state \<Rightarrow> lowfat_state res" where
  "lf_materialize T [] s = Inr s"
| "lf_materialize T (kv # kvs) s =
     bindE (cast_lf (snd kv) s) (\<lambda>(w, W).
     if lf_hasBoundsMaterialized W then Inr s
     else
       bindE (lf_getInsertionLocation (lf_mod s) W) (\<lambda>ip.
       bindE (getInstrumentee T) (\<lambda>v.
       let name = v_name (vals (lf_mod s) v) in
       bindE (hasUpperBoundFlag T) (\<lambda>ub.
       bindE (lf_lookup_bound ub (LfGetUpperBoundFunction s) ip (LWitnessValue W) (name @ ''_upper'') (LUpperBound W) s)
         (\<lambda>(u, s1).
       bindE (hasLowerBoundFlag T) (\<lambda>lb.
       bindE (lf_lookup_bound lb (LfGetLowerBoundFunction s) ip (LWitnessValue W) (name @ ''_lower'') (LLowerBound W) s1)
         (\<lambda>(l, s2).
       lf_materialize T kvs (set_lf_witness w (W\<lparr>LUpperBound := u, LLowerBound := l\<rparr>) s2))))))))"

definition lf_materializeBounds :: "itarget \<Rightarrow> lowfat_state \<Rightarrow> lowfat_state res" where
  "lf_materializeBounds T s =
     bindE (assertE (isValid T) ''Target.isValid()'') (\<lambda>_.
     bindE (requiresExplicitBounds T) (\<lambda>r.
     bindE (assertE r ''Target.requiresExplicitBounds()'') (\<lambda>_.
     bindE (getBoundWitnesses T) (\<lambda>witnesses. lf_materialize T witnesses s))))"

definition lf_getFailFunction :: "lowfat_state \<Rightarrow> callee res" where
  "lf_getFailFunction s = Inr (lf_failFunction s)"

definition lf_getVerboseFailFunction :: "lowfat_state \<Rightarrow> callee res" where
  "lf_getVerboseFailFunction s = Inr (lf_verboseFailFunction s)"

section \<open>Phis and selects\<close>

definition lf_getWitnessPhi :: "vid \<Rightarrow> lowfat_state \<Rightarrow> (wid \<times> lowfat_state) res" where
  "lf_getWitnessPhi phi s =
     (let m = lf_mod s;
          (newPhi, m1) = emit (Before phi) (PHI []) (WitnessType m) (v_name (vals m phi) @ ''_witness'') m
      in Inr (new_lf_witness newPhi phi (s\<lparr>lf_mod := m1\<rparr>)))"

definition lf_addIncomingWitnessToPhi ::
  "witness_ptr \<Rightarrow> witness_ptr \<Rightarrow> bbid \<Rightarrow> lowfat_state \<Rightarrow> lowfat_state res" where
  "lf_addIncomingWitnessToPhi phi incoming bb s =
     bindE (cast_lf phi s) (\<lambda>(_, P).
     let m = lf_mod s; v = LWitnessValue P in
     case get_inst m v of
       Some (PHI ops) \<Rightarrow>
         bindE (cast_lf incoming s) (\<lambda>(_, I).
         Inr (s\<lparr>lf_mod := m\<lparr>vals := (vals m)(v := (vals m v)\<lparr>v_kind := Inst (PHI (ops @ [(LWitnessValue I, bb)]))\<rparr>)\<rparr>\<rparr>))
     | _ \<Rightarrow> Inl (AssertionFailed ''cast<PHINode>''))"

definition lf_getWitnessSelect ::
  "vid \<Rightarrow> witness_ptr \<Rightarrow> witness_ptr \<Rightarrow> lowfat_state \<Rightarrow> (wid \<times> lowfat_state) res" where
  "lf_getWitnessSelect sel trueW falseW s =
     bindE (cast_lf trueW s) (\<lambda>(_, A).
     bindE (cast_lf falseW s) (\<lambda>(_, B).
     let m = lf_mod s in
     case get_inst m sel of
       Some (Select c _ _) \<Rightarrow>
         (let (newSel, m1) = emit_op (Before sel) ''select'' [c, LWitnessValue A, LWitnessValue B]
                               (Select c (LWitnessValue A) (LWitnessValue B)) (WitnessType m)
                               (v_name (vals m sel) @ ''_witness'') m
          in Inr (new_lf_witness newSel sel (s\<lparr>lf_mod := m1\<rparr>)))
     | _ \<Rightarrow> Inl (AssertionFailed ''SelectInst'')))"

definition lowfat_mechanism :: "lowfat_state mechanism" where
  "lowfat_mechanism =
     \<lparr>im_name = ''Lowfat'', im_invariantsAreChecks = True,
      im_insertWitnesses = lf_insertWitnesses,
      im_getRelocatedClone = lf_getRelocatedClone,
      im_getWitnessPhi = lf_getWitnessPhi,
      im_addIncomingWitnessToPhi = lf_addIncomingWitnessToPhi,
      im_getWitnessSelect = lf_getWitnessSelect,
      im_materializeBounds = lf_materializeBounds,
      im_insertCheck = lf_insertCheck\<rparr>"

end
