(* ===== verification/LowfatSetup.thy ===== *)
theory LowfatSetup
  imports Lowfat Replace
begin

text \<open>
  The set-up of \<open>LowfatMechanism.cpp\<close>: declarations, the placement of global variables in the section
  of their size class, and the replacement of allocas by larger, aligned ones whose mirrored address
  all their users get.
\<close>

section \<open>Declarations\<close>

definition lf_decl ::
  "string \<Rightarrow> string \<Rightarrow> (callee \<Rightarrow> lowfat_state \<Rightarrow> lowfat_state) \<Rightarrow> lowfat_state \<Rightarrow> lowfat_state res" where
  "lf_decl name ret store s = bindE (lf_lift (insertFunDecl name ret) s) (\<lambda>(f, s1). Inr (store f s1))"

definition lf_insertFunctionDeclarations :: "lowfat_state \<Rightarrow> lowfat_state res" where
  "lf_insertFunctionDeclarations s =
     bindE (lf_lift insertCommonFunctionDeclarations s) (\<lambda>(fs, s0).
     let s = s0\<lparr>lf_failFunction := hd fs, lf_verboseFailFunction := fs ! 1\<rparr> in
     bindE (lf_decl (if LazyBase (lf_opts s) then ''__lowfat_check_deref_inner_witness'' else ''__lowfat_check_deref'')
              ''void'' (\<lambda>f. CheckDerefFunction_update (\<lambda>_. f)) s) (\<lambda>s.
     bindE (lf_decl ''__lowfat_check_oob'' ''void'' (\<lambda>f. CheckOOBFunction_update (\<lambda>_. f)) s) (\<lambda>s.
     bindE (lf_decl ''__lowfat_ptr_base_without_index'' ''i8*'' (\<lambda>f. CalcBaseFunction_update (\<lambda>_. f)) s) (\<lambda>s.
     bindE (lf_decl ''__lowfat_get_upper_bound'' ''i8*'' (\<lambda>f. LfGetUpperBoundFunction_update (\<lambda>_. f)) s) (\<lambda>s.
     bindE (lf_decl ''__lowfat_get_lower_bound'' ''i8*'' (\<lambda>f. LfGetLowerBoundFunction_update (\<lambda>_. f)) s) (\<lambda>s.
     bindE (lf_decl ''__lowfat_get_mirror'' ''i8*'' (\<lambda>f. StackMirrorFunction_update (\<lambda>_. f)) s) (\<lambda>s.
     bindE (lf_decl ''__lowfat_lookup_stack_size'' ''i64'' (\<lambda>f. StackSizesFunction_update (\<lambda>_. f)) s) (\<lambda>s.
     bindE (lf_decl ''__lowfat_lookup_stack_offset'' ''i64'' (\<lambda>f. StackOffsetFunction_update (\<lambda>_. f)) s) (\<lambda>s.
     lf_decl ''__lowfat_compute_aligned'' ''i8*'' (\<lambda>f. StackMaskFunction_update (\<lambda>_. f)) s)))))))))"

section \<open>Size classes\<close>

text \<open>\<open>__builtin_clzll\<close>, which is undefined on zero.\<close>

fun bit_length :: "nat \<Rightarrow> nat" where
  "bit_length n = (if n = 0 then 0 else Suc (bit_length (n div 2)))"

declare bit_length.simps [simp del]

definition clzll :: "nat \<Rightarrow> nat res" where
  "clzll n = (if n = 0 then Inl (UndefinedBehavior ''__builtin_clzll(0)'') else Inr (64 - bit_length n))"

text \<open>The constructor of \<open>Align\<close>, which asserts a power of two.\<close>

definition mk_align :: "nat \<Rightarrow> nat res" where
  "mk_align n =
     bindE (assertE (0 < n \<and> n = 2 ^ (bit_length n - 1)) ''Value > 0 && llvm::isPowerOf2_64(Value)'') (\<lambda>_. Inr n)"

section \<open>Global variables\<close>

definition lf_globalCannotBeInstrumented :: "lf_options \<Rightarrow> global_attrs \<Rightarrow> bool res" where
  "lf_globalCannotBeInstrumented opts gv =
     (if gv_section gv \<noteq> None then
        (if \<not> AllowUnsafeGlobals opts then
           Inl (ReportedError ''Global variable already has a section annotation. Safety cannot be assured: '')
         else Inr True)
      else
        (case gv_linkage gv of
           ExternalLinkage \<Rightarrow> Inr False
         | InternalLinkage \<Rightarrow> Inr False
         | PrivateLinkage \<Rightarrow> Inr False
         | LinkOnceAnyLinkage \<Rightarrow> Inr False
         | LinkOnceODRLinkage \<Rightarrow> Inr False
         | WeakAnyLinkage \<Rightarrow> Inr False
         | WeakODRLinkage \<Rightarrow> Inr False
         | AvailableExternallyLinkage \<Rightarrow>
             Inl (ReportedError ''Global variable has 'available externally' linkage, it should have been removed by a previous pass ('EliminateAvailableExternallyPass').'')
         | _ \<Rightarrow>
             if \<not> AllowUnsafeGlobals opts then
               Inl (ReportedError ''Global variable has an unsupported linkage kind, safety cannot be assured: '')
             else Inr True))"

definition lf_instrumentGlobal :: "lf_sizes \<Rightarrow> nat \<Rightarrow> global_attrs \<Rightarrow> global_attrs res" where
  "lf_instrumentGlobal tab baseSize gv =
     bindE (clzll baseSize) (\<lambda>index.
     bindE (clzll (MAX_GLOBAL_ALLOC_SIZE tab)) (\<lambda>max_index.
     if index \<le> max_index then Inl (ReportedError ''Global variable is too large. Found: '')
     else
       let newSize = unat (STACK_SIZES tab index) in
       bindE (mk_align newSize) (\<lambda>algn.
       Inr (gv\<lparr>gv_align := (case gv_align gv of Some c \<Rightarrow> if c < algn then Some algn else Some c | None \<Rightarrow> Some algn),
               gv_unnamed_addr := False,
               gv_section := Some (''lf_section_'' @ (if gv_constant gv then ''read_only_'' else '''') @ to_string newSize)\<rparr>))))"

definition lf_prepare_global :: "vid \<Rightarrow> lowfat_state \<Rightarrow> lowfat_state res" where
  "lf_prepare_global g s =
     (let gv = lf_globals s g in
      if gv_declaration gv then Inr s
      else
        (let gv' = (if gv_linkage gv = CommonLinkage \<and> TransformCommonToWeakLinkage (lf_opts s)
                    then gv\<lparr>gv_linkage := WeakAnyLinkage\<rparr> else gv);
             s' = s\<lparr>lf_globals := (lf_globals s)(g := gv')\<rparr>
         in bindE (lf_globalCannotBeInstrumented (lf_opts s) gv') (\<lambda>b.
            if b then Inr s'
            else
              (case val_type (lf_mod s) g of
                 PointerTy pointee \<Rightarrow>
                   bindE (lf_instrumentGlobal (lf_table s) (type_alloc_size (lf_mod s) pointee) gv') (\<lambda>gv''.
                   Inr (s'\<lparr>lf_globals := (lf_globals s')(g := gv'')\<rparr>))
               | _ \<Rightarrow> Inl (AssertionFailed ''cast<PointerType>'')))))"

definition lf_prepareGlobals :: "lowfat_state \<Rightarrow> lowfat_state res" where
  "lf_prepareGlobals s = foldE lf_prepare_global (mod_globals (lf_mod s)) s"

section \<open>Allocas\<close>

definition lf_mirrorPointerAndReplaceAlloca :: "callee \<Rightarrow> vid \<Rightarrow> vid \<Rightarrow> vid \<Rightarrow> ir \<Rightarrow> ir res" where
  "lf_mirrorPointerAndReplaceAlloca mirrorFunction oldAlloc newAlloc offset m =
     (let p = Before oldAlloc;
          (newAllocCasted, m1) = emit_op p ''bitcast'' [newAlloc] (BitCast newAlloc) (PtrArgType m) [] m
      in bindE (insertCall p mirrorFunction [newAllocCasted, offset] ''lf.mirror'' m1) (\<lambda>(mirroredPtr, m2).
         let oldTy = v_type (vals m2 oldAlloc);
             (ptr, m3) = (if oldTy \<noteq> v_type (vals m2 mirroredPtr)
                          then emit_op p ''bitcast'' [mirroredPtr] (BitCast mirroredPtr) oldTy [] m2
                          else (mirroredPtr, m2))
         in Inr (remove_from_parent oldAlloc (replace_uses oldAlloc ptr m3))))"

text \<open>An alloca whose number of elements is not constant.\<close>

definition lf_vla_code :: "vid \<Rightarrow> tyid \<Rightarrow> vid \<Rightarrow> lowfat_state \<Rightarrow> ir res" where
  "lf_vla_code alloc ty arraySize s =
     (let m = lf_mod s; p = Before alloc; i64 = SizeType m;
          typeSize = const_int m i64 (type_alloc_size m ty);
          (allocSize, m1) = emit_op p ''mul'' [arraySize, typeSize] (OtherInst ''mul'' [arraySize, typeSize]) i64 ''lf.vla.size'' m;
          (ctlzFun, m2) = getOrInsertFunction ''llvm.ctlz.i64'' m1
      in bindE (insertCall p (ctlzFun, i64) [allocSize, const_int m (ctx_ty m ''i1'') 1] ''lf.index'' m2) (\<lambda>(index, m3).
         bindE (insertCall p (StackSizesFunction s) [index] ''lf.new.vla.size'' m3) (\<lambda>(newSize, m4).
         let (newAllocAligned, m5) = emit p (Alloca (ctx_ty m ''i8'') newSize) (ctx_ty m ''i8*'') ''lf.vla.alloc'' m4
         in bindE (setNoInstrument newAllocAligned m5) (\<lambda>m6.
         bindE (insertCall p (StackOffsetFunction s) [index] ''lf.vla.offset'' m6) (\<lambda>(offset, m7).
         bindE (insertCall p (StackMaskFunction s) [newAllocAligned, index] ''lf.align.alloc'' m7) (\<lambda>(alignAlloc, m8).
         let (stackRestoreFun, m9) = getOrInsertFunction ''llvm.stackrestore'' m8
         in bindE (insertCallNoName p (stackRestoreFun, ctx_ty m ''void'') [alignAlloc] m9) (\<lambda>(_, m10).
         lf_mirrorPointerAndReplaceAlloca (StackMirrorFunction s) alloc alignAlloc offset m10)))))))"

definition lf_handleVariableLengthArray :: "vid \<Rightarrow> tyid \<Rightarrow> vid \<Rightarrow> lowfat_state \<Rightarrow> lowfat_state res" where
  "lf_handleVariableLengthArray alloc ty arraySize s =
     (if NoVLAProtection (lf_opts s) then Inr s
      else bindE (lf_vla_code alloc ty arraySize s) (\<lambda>m. Inr (s\<lparr>lf_mod := m\<rparr>)))"

definition lf_fixed_alloca :: "vid \<Rightarrow> nat \<Rightarrow> lowfat_state \<Rightarrow> lowfat_state res" where
  "lf_fixed_alloca alloc bits s =
     bindE (clzll (bits div 8)) (\<lambda>index.
     bindE (clzll (MAX_STACK_ALLOC_SIZE (lf_table s))) (\<lambda>max_index.
     if index \<le> max_index then Inr s
     else
       let allocSize = STACK_SIZES (lf_table s) index; m = lf_mod s in
       bindE (mk_align (unat (not (STACK_MASKS (lf_table s) index) + 1))) (\<lambda>algn.
       let (newAllocAligned, m1) = emit (Before alloc) (Alloca (ctx_ty m ''i8'') (const_int m (SizeType m) (unat allocSize)))
                                     (ctx_ty m ''i8*'') ''lf.alloc'' m;
           offset = const_int m (SizeType m) (unat (STACK_OFFSETS (lf_table s) index))
       in bindE (lf_mirrorPointerAndReplaceAlloca (StackMirrorFunction s) alloc newAllocAligned offset m1) (\<lambda>m2.
          Inr (s\<lparr>lf_mod := m2,
                 lf_alloca_align := (lf_alloca_align s)(newAllocAligned := max algn (lf_alloca_align s alloc))\<rparr>)))))"

definition lf_instrumentAlloca :: "vid \<Rightarrow> lowfat_state \<Rightarrow> lowfat_state res" where
  "lf_instrumentAlloca alloc s =
     (let m = lf_mod s in
      if hasNoInstrument m alloc \<or> hasVarArgHandling m alloc then Inr s
      else
        (case get_inst m alloc of
           Some (Alloca ty arraySize) \<Rightarrow>
             (case alloca_bits m alloc of
                None \<Rightarrow> lf_handleVariableLengthArray alloc ty arraySize s
              | Some bits \<Rightarrow> lf_fixed_alloca alloc bits s)
         | _ \<Rightarrow> Inl (AssertionFailed ''AllocaInst'')))"

section \<open>Initialization\<close>

definition lf_collect_allocas :: "ir \<Rightarrow> vid list res" where
  "lf_collect_allocas m =
     foldE (\<lambda>f allocas.
       if is_declaration m f \<or> hasNoInstrument m f then Inr allocas
       else foldE (\<lambda>inst allocas.
              let allocas' = (case get_inst m inst of Some (Alloca _ _) \<Rightarrow> allocas @ [inst] | _ \<Rightarrow> allocas)
              in if isLifeTimeIntrinsic m inst then
                   Inl (ReportedError ''Found a call to a lifetime intrinsic, but the lowfat stack protection does not support them.'')
                 else Inr allocas') (fun_insts m f) allocas)
       (mod_functions m) []"

definition lf_initialize :: "lowfat_state \<Rightarrow> lowfat_state res" where
  "lf_initialize s =
     bindE (lf_insertFunctionDeclarations s) (\<lambda>s1.
     bindE (if \<not> NoGlobalVarProtection (lf_opts s1) then lf_prepareGlobals s1 else Inr s1) (\<lambda>s2.
     if NoStackProtection (lf_opts s2) then Inr s2
     else
       bindE (lf_collect_allocas (lf_mod s2)) (\<lambda>allocas.
       foldE lf_instrumentAlloca allocas s2)))"

definition lowfat_object :: "lowfat_state mechanism_object" where
  "lowfat_object =
     \<lparr>mo_interface = lowfat_mechanism, mo_module = lf_mod, mo_set_module = (\<lambda>m s. s\<lparr>lf_mod := m\<rparr>),
      mo_getLowerBound = lf_getLowerBound, mo_getUpperBound = lf_getUpperBound,
      mo_getFailFunction = lf_getFailFunction, mo_initialize = lf_initialize,
      mo_skipInstrumentation = skipInstrumentation\<rparr>"

interpretation lowfat_owner: module_owner lowfat_object
  by unfold_locales (simp add: lowfat_object_def)

end
