(* ===== verification/Preparation.thy ===== *)
theory Preparation
  imports SetupLaws LowfatSetup
begin

text \<open>
  \<open>prepareModule\<close> as a whole: no step brings a lifetime marker back, so the set-up of the lowfat
  mechanism, which stops on one, finds none.
\<close>

section \<open>Deobfuscation\<close>

lemma lifetime_mark_deob: "mark_deobfuscation v m = Inr m' \<Longrightarrow> no_new_lifetime m m'"
  by (auto simp: mark_deobfuscation_def split: if_splits dest: lifetime_marks)

lemma not_lifetime [simp]:
  "\<not> lifetime_instr (BitCast v)" "\<not> lifetime_instr (PtrToInt v)" "\<not> lifetime_instr (Store v p)"
  "\<not> lifetime_instr (Load p)" "\<not> lifetime_instr (Alloca ty v)" "\<not> lifetime_instr (Call c (Some IntrMemcpy))"
  by (simp_all add: lifetime_instr_def)

lemma lifetime_storeCast: "createStoreLocationCast p v ty m = (r, m') \<Longrightarrow> no_new_lifetime m m'"
  by (auto simp: createStoreLocationCast_def dest: lifetime_emit_op)

lemma lifetime_delete: "delete_inst v md = Inr md' \<Longrightarrow> no_new_lifetime (fst md) (fst md')"
  by (auto simp: delete_inst_def bindE_eq_Inr Let_def lifetime_remove)

text \<open>The three cases of a user.\<close>

lemma deobf_user_cast:
  assumes "get_inst m user = Some (IntToPtr w)" and "deobf_user load pl user ((ri, rq), m) = Inr (rr, m')"
  shows "no_new_lifetime m m'"
proof (cases "ty_of m user = ty_of m pl")
  case True
  with assms show ?thesis by (auto simp: deobf_user_def bindE_eq_Inr Let_def)
next
  case False
  obtain ip where ip: "get_next_node m pl = Inr ip" using assms(2) by (auto simp: deobf_user_def bindE_eq_Inr)
  obtain c m1 where c: "emit_op (Before ip) ''bitcast'' [pl] (BitCast pl) (ty_of m user) [] m = (c, m1)"
    by (metis surj_pair)
  from assms False ip c have "mark_deobfuscation c m1 = Inr m'"
    by (auto simp: deobf_user_def bindE_eq_Inr Let_def)
  from no_new_lifetime_trans [OF lifetime_emit_op [OF c] lifetime_mark_deob [OF this]] show ?thesis by simp
qed

lemma deobf_user_store:
  assumes "get_inst m user = Some (Store w p)" and "deobf_user load pl user ((ri, rq), m) = Inr (rr, m')"
  shows "no_new_lifetime m m'"
proof -
  obtain sl m1 where c: "createStoreLocationCast (Before user) p (ty_of m pl) m = (sl, m1)" by (metis surj_pair)
  from assms c obtain m2 where m2: "mark_deobfuscation sl m1 = Inr m2"
    and e0: "setPointerDeobfuscation (fst (emit (Before user) (Store pl sl) (ctx_ty m ''void'') [] m2))
      (snd (emit (Before user) (Store pl sl) (ctx_ty m ''void'') [] m2)) = Inr m'"
    by (auto simp: deobf_user_def bindE_eq_Inr Let_def case_prod_unfold)
  have "no_new_lifetime m2 (snd (emit (Before user) (Store pl sl) (ctx_ty m ''void'') [] m2))"
    by (rule lifetime_emit [OF prod.collapse [symmetric]]) simp
  from no_new_lifetime_trans [OF this lifetime_marks(4) [OF e0]]
    no_new_lifetime_trans [OF lifetime_storeCast [OF c] lifetime_mark_deob [OF m2]]
  show ?thesis using no_new_lifetime_trans by blast
qed

lemma deobf_user_other:
  assumes "\<And>w. get_inst m user \<noteq> Some (IntToPtr w)" and "\<And>w p. get_inst m user \<noteq> Some (Store w p)"
    and "deobf_user load pl user ((ri, rq), m) = Inr (rr, m')"
  shows "no_new_lifetime m m'"
proof -
  obtain ip where ip: "get_next_node m pl = Inr ip" using assms(3) by (auto simp: deobf_user_def bindE_eq_Inr)
  obtain c m1 where c: "emit_op (Before ip) ''ptrtoint'' [pl] (PtrToInt pl) (ty_of m load) [] m = (c, m1)"
    by (metis surj_pair)
  have "mark_deobfuscation c m1 = Inr m'"
  proof (cases "get_inst m user")
    case None
    with assms(3) ip c show ?thesis by (auto simp: deobf_user_def bindE_eq_Inr Let_def)
  next
    case (Some i)
    with assms ip c show ?thesis by (cases i) (auto simp: deobf_user_def bindE_eq_Inr Let_def)
  qed
  from no_new_lifetime_trans [OF lifetime_emit_op [OF c] lifetime_mark_deob [OF this]] show ?thesis by simp
qed

lemma lifetime_deobf_user:
  assumes "deobf_user load pl user rm = Inr rm'"
  shows "no_new_lifetime (snd rm) (snd rm')"
proof -
  obtain ri rq m rr m' where rm: "rm = ((ri, rq), m)" "rm' = (rr, m')" by (metis surj_pair)
  consider w where "get_inst m user = Some (IntToPtr w)" | w p where "get_inst m user = Some (Store w p)"
    | "\<forall>w. get_inst m user \<noteq> Some (IntToPtr w)" "\<forall>w p. get_inst m user \<noteq> Some (Store w p)" by blast
  then have "no_new_lifetime m m'"
  proof cases
    case 1
    then show ?thesis by (rule deobf_user_cast [OF _ assms [unfolded rm]])
  next
    case 2
    then show ?thesis by (rule deobf_user_store [OF _ assms [unfolded rm]])
  next
    case 3
    then show ?thesis by (intro deobf_user_other [OF _ _ assms [unfolded rm]]) simp_all
  qed
  then show ?thesis by (simp add: rm)
qed

lemma lifetime_ptr_load:
  assumes "deobf_ptr_load load p m = Inr (pl, m')"
  shows "no_new_lifetime m m'"
proof -
  let ?i8p = "ctx_ty m ''i8*''"
  obtain c m1 where c: "emit_op (Before load) ''bitcast'' [p] (BitCast p) (ptr_to m ?i8p) [] m = (c, m1)"
    by (metis surj_pair)
  with assms obtain m2 where m2: "mark_deobfuscation c m1 = Inr m2"
    and l: "setPointerDeobfuscation (fst (emit (Before load) (Load c) ?i8p ''mi.deobfuscated.ptr.load'' m2))
      (snd (emit (Before load) (Load c) ?i8p ''mi.deobfuscated.ptr.load'' m2)) = Inr m'"
    by (auto simp: deobf_ptr_load_def bindE_eq_Inr Let_def case_prod_unfold)
  have "no_new_lifetime m2 (snd (emit (Before load) (Load c) ?i8p ''mi.deobfuscated.ptr.load'' m2))"
    by (rule lifetime_emit [OF prod.collapse [symmetric]]) simp
  from no_new_lifetime_trans [OF this lifetime_marks(4) [OF l]]
    no_new_lifetime_trans [OF lifetime_emit_op [OF c] lifetime_mark_deob [OF m2]]
  show ?thesis using no_new_lifetime_trans by simp
qed

lemma obfuscated_load_steps:
  assumes "transformObfuscatedLoad opts l (m, d) = Inr md'"
  obtains p pl m1 ri rq m2 m4 d4 where "get_inst m l = Some (Load p)" and "deobf_ptr_load l p m = Inr (pl, m1)"
    and "foldE (deobf_user l pl) (users m1 l) (([], []), m1) = Inr ((ri, rq), m2)"
    and "foldE delete_inst (in_order opts rq) (fold (\<lambda>(u, old, new). replace_in u old new) ri m2, d) = Inr (m4, d4)"
    and "users m4 l = []" and "delete_inst l (m4, d4) = Inr md'"
proof -
  from assms obtain i where i: "get_inst m l = Some i"
    by (cases "get_inst m l") (auto simp: transformObfuscatedLoad_def)
  with assms obtain p where p: "get_inst m l = Some (Load p)" by (cases i) (auto simp: transformObfuscatedLoad_def)
  with assms that show thesis
    by (auto simp: transformObfuscatedLoad_def bindE_eq_Inr assertE_eq_Inr Let_def)
qed

lemma lifetime_obfuscated_load:
  assumes "transformObfuscatedLoad opts l md = Inr md'"
  shows "no_new_lifetime (fst md) (fst md')"
proof -
  obtain m d where md: "md = (m, d)" by (cases md)
  from obfuscated_load_steps [OF assms [unfolded md]] obtain p pl m1 ri rq m2 m4 d4 where
    1: "deobf_ptr_load l p m = Inr (pl, m1)"
    and 2: "foldE (deobf_user l pl) (users m1 l) (([], []), m1) = Inr ((ri, rq), m2)"
    and 3: "foldE delete_inst (in_order opts rq) (fold (\<lambda>(u, old, new). replace_in u old new) ri m2, d) = Inr (m4, d4)"
    and 4: "delete_inst l (m4, d4) = Inr md'" .
  have a: "no_new_lifetime m m1" by (rule lifetime_ptr_load [OF 1])
  have b: "no_new_lifetime m1 m2" using lifetime_foldE [OF 2, where g = snd] lifetime_deobf_user by auto
  have c: "no_new_lifetime m2 (fold (\<lambda>(u, old, new). replace_in u old new) ri m2)"
    by (rule lifetime_fold) (auto simp: lifetime_replace_in)
  have e: "no_new_lifetime (fold (\<lambda>(u, old, new). replace_in u old new) ri m2) m4"
    using lifetime_foldE [OF 3, where g = fst] lifetime_delete by auto
  have f: "no_new_lifetime m4 (fst md')" using lifetime_delete [OF 4] by simp
  show ?thesis unfolding md fst_conv
    by (rule no_new_lifetime_trans [OF a no_new_lifetime_trans [OF b no_new_lifetime_trans [OF c no_new_lifetime_trans [OF e f]]]])
qed

lemma obfuscated_store_cases:
  assumes "transformObfuscatedStore (s, w) (m, d) = Inr md'"
  obtains "md' = (m, d)"
  | src p sl m1 where "createStoreLocationCast (Before s) p (ty_of m src) m = (sl, m1)"
    and "delete_inst s (snd (emit (Before s) (Store src sl) (ctx_ty m ''void'') [] m1), d) = Inr md'"
proof (cases "\<exists>p. get_inst m w = Some (PtrToInt p)")
  case False
  then have "md' = (m, d)"
  proof (cases "get_inst m w")
    case (Some i)
    with False assms show ?thesis
      by (cases i) (auto simp: transformObfuscatedStore_def bindE_eq_Inr split: if_splits)
  qed (use assms in \<open>simp add: transformObfuscatedStore_def bindE_eq_Inr split: if_splits\<close>)
  then show thesis by (rule that(1))
next
  case True
  then obtain src where src: "get_inst m w = Some (PtrToInt src)" by blast
  with assms obtain i where i: "get_inst m s = Some i"
    by (cases "get_inst m s") (auto simp: transformObfuscatedStore_def bindE_eq_Inr split: if_splits)
  with src assms obtain v p where p: "get_inst m s = Some (Store v p)"
    by (cases i) (auto simp: transformObfuscatedStore_def bindE_eq_Inr split: if_splits)
  obtain sl m1 where c: "createStoreLocationCast (Before s) p (ty_of m src) m = (sl, m1)" by (metis surj_pair)
  from assms src p c have "delete_inst s (snd (emit (Before s) (Store src sl) (ctx_ty m ''void'') [] m1), d) = Inr md'"
    by (auto simp: transformObfuscatedStore_def bindE_eq_Inr Let_def case_prod_unfold split: if_splits)
  with c show thesis by (rule that(2))
qed

lemma lifetime_obfuscated_store:
  assumes "transformObfuscatedStore sw md = Inr md'"
  shows "no_new_lifetime (fst md) (fst md')"
proof -
  obtain s w m d where eq: "sw = (s, w)" "md = (m, d)" by (cases sw, cases md)
  from assms [unfolded eq] show ?thesis
  proof (cases rule: obfuscated_store_cases)
    case (2 src p sl m1)
    have "no_new_lifetime m1 (snd (emit (Before s) (Store src sl) (ctx_ty m ''void'') [] m1))"
      by (rule lifetime_emit [OF prod.collapse [symmetric]]) simp
    from no_new_lifetime_trans [OF lifetime_storeCast [OF 2(1)] no_new_lifetime_trans [OF this]]
      lifetime_delete [OF 2(2)]
    show ?thesis by (simp add: eq)
  qed (simp add: eq)
qed

lemma lifetime_block:
  assumes "transform_block opts block md = Inr md'"
  shows "no_new_lifetime (fst md) (fst md')"
proof -
  from assms obtain ss ls es md1 where
    1: "foldE (transform_load opts) (address_order opts ls) (by_address opts ss, md) = Inr (es, md1)"
    and 2: "foldE transformObfuscatedStore es md1 = Inr md'"
    by (auto simp: transform_block_def bindE_eq_Inr)
  have "no_new_lifetime (fst (snd (by_address opts ss, md))) (fst (snd (es, md1)))"
    by (rule lifetime_foldE [OF 1, where g = "\<lambda>ed. fst (snd ed)"])
      (auto simp: transform_load_def bindE_eq_Inr dest: lifetime_obfuscated_load)
  moreover have "no_new_lifetime (fst md1) (fst md')"
    by (rule lifetime_foldE [OF 2]) (rule lifetime_obfuscated_store)
  ultimately show ?thesis using no_new_lifetime_trans by simp
qed

lemma lifetime_deobfuscation: "transformPointerObfuscations opts F m = Inr m' \<Longrightarrow> no_new_lifetime m m'"
proof -
  assume "transformPointerObfuscations opts F m = Inr m'"
  then obtain d where f: "foldE (transform_block opts) (fun_blocks m F) (m, []) = Inr (m', d)"
    by (auto simp: transformPointerObfuscations_def bindE_eq_Inr)
  have "no_new_lifetime (fst (m, [] :: vid list)) (fst (m', d))"
    by (rule lifetime_foldE [OF f]) (rule lifetime_block)
  then show ?thesis by simp
qed

section \<open>Arguments passed by value\<close>

lemma lifetime_memcpy:
  assumes "create_memcpy p dst src n m = (c, m')"
  shows "no_new_lifetime m m'"
proof -
  let ?i8p = "ctx_ty m ''i8*''"
  obtain d m1 where 1: "emit_op p ''bitcast'' [dst] (BitCast dst) ?i8p [] m = (d, m1)" by (metis surj_pair)
  obtain s m2 where 2: "emit_op p ''bitcast'' [src] (BitCast src) ?i8p [] m1 = (s, m2)" by (metis surj_pair)
  obtain fn m3 where 3: "getOrInsertFunction ''llvm.memcpy.p0i8.p0i8.i64'' m2 = (fn, m3)" by (metis surj_pair)
  from assms 1 2 3 have 4: "emit p (Call \<lparr>called_operand = fn, called_function = Some fn,
      call_args = [d, s, const_int m (ctx_ty m ''i64'') n, const_int m (ctx_ty m ''i1'') 0]\<rparr> (Some IntrMemcpy))
      (ctx_ty m ''void'') [] m3 = (c, m')"
    by (simp add: create_memcpy_def)
  have "no_new_lifetime m m1" "no_new_lifetime m1 m2" "no_new_lifetime m2 m3" "no_new_lifetime m3 m'"
    using lifetime_emit_op [OF 1] lifetime_emit_op [OF 2] lifetime_getOrInsert [OF 3] lifetime_emit [OF 4] by simp_all
  then show ?thesis using no_new_lifetime_trans by blast
qed

lemma byval_arg_steps:
  assumes "transform_byval_arg call i (m, attrs) = Inr (m', attrs')"
  obtains c where "get_call m call = Some c" and "\<not> isByValArgument attrs call c i" and "m' = m" and "attrs' = attrs"
  | c ty ip alloc m1 cpy m2 where "get_call m call = Some c" and "isByValArgument attrs call c i"
    and "val_type m (call_args c ! i) = PointerTy ty" and "entry_loc m (parent_fun m call) = Inr ip"
    and "emit (Before ip) (Alloca ty (const_int m (ctx_ty m ''i32'') 1)) (ptr_to m ty) ''byval.alloc'' m = (alloc, m1)"
    and "create_memcpy (Before call) alloc (call_args c ! i) (type_alloc_size m ty) m1 = (cpy, m2)"
    and "m' = set_call call (c\<lparr>call_args := (call_args c)[i := alloc]\<rparr>) m2"
    and "attrs' = attrs(cpy := no_attrs, call := removeParamAttr i (attrs call))"
proof -
  from assms obtain c where c: "get_call m call = Some c"
    by (auto simp: transform_byval_arg_def split: option.splits)
  show thesis
  proof (cases "isByValArgument attrs call c i")
    case False
    with assms c show thesis by (intro that(1)) (auto simp: transform_byval_arg_def)
  next
    case True
    with assms c obtain ty where ty: "val_type m (call_args c ! i) = PointerTy ty"
      by (cases "val_type m (call_args c ! i)") (auto simp: transform_byval_arg_def Let_def)
    with assms c True obtain ip where ip: "entry_loc m (parent_fun m call) = Inr ip"
      by (auto simp: transform_byval_arg_def Let_def bindE_eq_Inr)
    obtain alloc m1 where e: "emit (Before ip) (Alloca ty (const_int m (ctx_ty m ''i32'') 1)) (ptr_to m ty) ''byval.alloc'' m = (alloc, m1)"
      by (metis surj_pair)
    obtain cpy m2 where cp: "create_memcpy (Before call) alloc (call_args c ! i) (type_alloc_size m ty) m1 = (cpy, m2)"
      by (metis surj_pair)
    from assms c True ty ip e cp show thesis
      by (intro that(2) [OF c True ty ip e cp]) (auto simp: transform_byval_arg_def Let_def)
  qed
qed

lemma lifetime_byval_arg:
  assumes "transform_byval_arg call i ma = Inr ma'"
  shows "no_new_lifetime (fst ma) (fst ma')"
proof -
  obtain m attrs m' attrs' where eq: "ma = (m, attrs)" "ma' = (m', attrs')" by (metis surj_pair)
  from assms [unfolded eq] show ?thesis
  proof (cases rule: byval_arg_steps)
    case (2 c ty ip alloc m1 cpy m2)
    have "no_new_lifetime m m1" "no_new_lifetime m1 m2" "no_new_lifetime m2 m'"
      using lifetime_emit [OF 2(5)] lifetime_memcpy [OF 2(6)] lifetime_set_call 2(7) by simp_all
    then show ?thesis unfolding eq fst_conv using no_new_lifetime_trans by blast
  qed (simp add: eq)
qed

lemma lifetime_byval_call:
  assumes "transform_byval_call inst ma = Inr ma'"
  shows "no_new_lifetime (fst ma) (fst ma')"
proof (cases "ma' = ma")
  case False
  with assms have "transformCallByValArgs inst ma = Inr ma'"
    by (cases ma) (auto simp: transform_byval_call_def split: option.splits if_splits)
  then obtain idxs where "foldE (transform_byval_arg inst) idxs ma = Inr ma'"
    by (auto simp: transformCallByValArgs_def split: option.splits)
  then show ?thesis by (rule lifetime_foldE) (rule lifetime_byval_arg)
qed simp

lemma lifetime_byval_function:
  assumes "transform_byval_function F ma = Inr ma'"
  shows "no_new_lifetime (fst ma) (fst ma')"
proof (cases "fst ma' = fst ma")
  case False
  obtain m attrs where ma: "ma = (m, attrs)" by (cases ma)
  with assms False have "foldE transform_byval_call (fun_insts m F) (m, drop_byval_params F attrs) = Inr ma'"
    by (auto simp: transform_byval_function_def Let_def split: if_splits)
  from lifetime_foldE [OF this, where g = fst] lifetime_byval_call show ?thesis by (simp add: ma)
qed simp

lemma lifetime_skip: "markFunctionsToSkip opts m = Inr m' \<Longrightarrow> no_new_lifetime m m'"
  unfolding markFunctionsToSkip_def Let_def
  by (auto split: if_splits option.splits elim!: lifetime_foldE [where g = "\<lambda>m. m"] dest: lifetime_marks)

section \<open>The whole set-up\<close>

lemma prepare_function_steps:
  assumes "prepare_function opts F m = Inr m'"
  shows "no_new_lifetime m m' \<and>
    (\<not> KeepLifeTimeIntrinsics opts \<longrightarrow> is_declaration m F \<or>
      (\<exists>m1. no_new_lifetime m1 m' \<and> (\<forall>i \<in> set (fun_insts m1 F). \<not> isLifeTimeIntrinsic m1 i)))"
proof (cases "is_declaration m F")
  case True
  with assms show ?thesis by (simp add: prepare_function_def)
next
  case False
  let ?m1 = "if \<not> KeepLifeTimeIntrinsics opts then removeLifeTimeIntrinsics F m else m"
  let ?m2 = "if LabelAccesses opts then labelAccesses F ?m1 else ?m1"
  from assms False obtain b m3 where v: "markVarargInsts (vararg_fuel ?m2 F) F ?m2 = Inr (b, m3)"
    and r: "m' = m3 \<or> transformPointerObfuscations opts F m3 = Inr m'"
    by (auto simp: prepare_function_def Let_def bindE_eq_Inr split: if_splits)
  have 1: "no_new_lifetime m ?m1" by (simp add: lifetime_removed(1))
  have "no_new_lifetime ?m1 ?m2" by (simp add: lifetime_labels)
  moreover have "no_new_lifetime ?m2 m3" by (rule lifetime_varargs [OF v])
  moreover have "no_new_lifetime m3 m'" using r lifetime_deobfuscation by auto
  ultimately have 2: "no_new_lifetime ?m1 m'" using no_new_lifetime_trans by blast
  have "\<forall>i \<in> set (fun_insts ?m1 F). \<not> isLifeTimeIntrinsic ?m1 i" if "\<not> KeepLifeTimeIntrinsics opts"
    using that lifetime_removed(2) by auto
  with no_new_lifetime_trans [OF 1 2] 2 show ?thesis by blast
qed

text \<open>A function without lifetime markers.\<close>

definition marker_free :: "ir \<Rightarrow> vid \<Rightarrow> bool" where
  "marker_free m F \<longleftrightarrow> (\<forall>i \<in> set (fun_insts m F). \<not> isLifeTimeIntrinsic m i)"

lemma marker_free_mono: "no_new_lifetime m m' \<Longrightarrow> marker_free m F \<Longrightarrow> marker_free m' F"
  unfolding marker_free_def fun_insts_def no_new_lifetime_def by fastforce

lemma prepared_functions:
  assumes "foldE (prepare_function opts) Fs m = Inr m'" and "\<not> KeepLifeTimeIntrinsics opts"
  shows "no_new_lifetime m m' \<and> (\<forall>F \<in> set Fs. marker_free m' F)"
  using assms(1)
proof (induction Fs arbitrary: m)
  case (Cons F Fs)
  then obtain m1 where 1: "prepare_function opts F m = Inr m1" "foldE (prepare_function opts) Fs m1 = Inr m'"
    by (auto simp: bindE_eq_Inr)
  note IH = Cons.IH [OF 1(2)]
  have "marker_free m1 F"
  proof (cases "is_declaration m F")
    case True
    with 1(1) have "is_declaration m1 F" by (simp add: prepare_function_def)
    then show ?thesis by (simp add: marker_free_def fun_insts_def is_declaration_def)
  next
    case False
    with prepare_function_steps [OF 1(1)] assms(2) show ?thesis
      using marker_free_mono by (auto simp: marker_free_def)
  qed
  with IH marker_free_mono have "marker_free m' F" by blast
  moreover have "no_new_lifetime m m1" using prepare_function_steps [OF 1(1)] by simp
  ultimately show ?case using IH no_new_lifetime_trans by auto
qed simp

lemma prepared_marker_free:
  assumes "setup_prepareModule opts (m, attrs) = Inr (m', attrs')" and "\<not> KeepLifeTimeIntrinsics opts"
    and "F \<in> set (mod_functions m')"
  shows "marker_free m' F"
proof -
  obtain m1 ma2 where 1: "foldE (prepare_function opts) (mod_functions m) m = Inr m1"
    and 2: "(if \<not> NoConvertByValArgs opts then transformByValFunctions (m1, attrs) else Inr (m1, attrs)) = Inr ma2"
    and 3: "markFunctionsToSkip opts (fst ma2) = Inr m'"
    using assms(1) unfolding setup_prepareModule_def fst_conv snd_conv by (auto simp: bindE_eq_Inr)
  note p = prepared_functions [OF 1 assms(2)]
  have "no_new_lifetime m1 (fst ma2)"
  proof (cases "NoConvertByValArgs opts")
    case False
    with 2 have "foldE transform_byval_function (mod_functions m1) (m1, attrs) = Inr ma2"
      by (simp add: transformByValFunctions_def)
    from lifetime_foldE [OF this, where g = fst] lifetime_byval_function show ?thesis by simp
  qed (use 2 in auto)
  with lifetime_skip [OF 3] have n: "no_new_lifetime m1 m'" using no_new_lifetime_trans by blast
  show ?thesis
  proof (cases "F \<in> set (mod_functions m)")
    case True
    with p n marker_free_mono show ?thesis by blast
  next
    case False
    from p n have "no_new_lifetime m m'" using no_new_lifetime_trans by blast
    with False assms(3) have "fun_blocks m' F = []" by (auto simp: no_new_lifetime_def)
    then show ?thesis by (simp add: marker_free_def fun_insts_def)
  qed
qed

section \<open>The set-up of the lowfat mechanism\<close>

lemma lifetime_insertFunDecl: "insertFunDecl name ret m = Inr (f, m') \<Longrightarrow> no_new_lifetime m m'"
proof -
  assume i: "insertFunDecl name ret m = Inr (f, m')"
  obtain g m1 where g: "getOrInsertFunction name m = (g, m1)" by (metis surj_pair)
  with i have "setNoInstrument g m1 = Inr m'" by (auto simp: insertFunDecl_def bindE_eq_Inr)
  from no_new_lifetime_trans [OF lifetime_getOrInsert [OF g] lifetime_marks(1) [OF this]] show ?thesis .
qed

lemma lifetime_lf_decl:
  assumes "\<And>f s. lf_mod (store f s) = lf_mod s" and "lf_decl name ret store s = Inr s'"
  shows "no_new_lifetime (lf_mod s) (lf_mod s')"
  using assms by (auto simp: lf_decl_def lf_lift_def bindE_eq_Inr dest: lifetime_insertFunDecl)

lemma lifetime_common: "insertCommonFunctionDeclarations m = Inr (fs, m') \<Longrightarrow> no_new_lifetime m m'"
  unfolding insertCommonFunctionDeclarations_def
  by (auto simp: bindE_eq_Inr dest!: lifetime_insertFunDecl intro: no_new_lifetime_trans)

lemma lifetime_lf_declarations:
  assumes "lf_insertFunctionDeclarations s = Inr s'"
  shows "no_new_lifetime (lf_mod s) (lf_mod s')"
proof -
  note d = lifetime_lf_decl [rotated] and t = no_new_lifetime_trans
  from assms show ?thesis
    unfolding lf_insertFunctionDeclarations_def Let_def
    apply (elim bindE_obtain)
    apply (clarsimp simp: lf_lift_def bindE_eq_Inr)
    apply (drule lifetime_common)
    apply (drule d, simp)+
    apply simp
    apply (drule (1) t)+
    apply assumption
    done
qed

lemma collect_allocas_total:
  assumes "\<And>F. F \<in> set (mod_functions m) \<Longrightarrow> marker_free m F"
  shows "\<exists>allocas. lf_collect_allocas m = Inr allocas"
proof -
  let ?body = "\<lambda>f allocas. if is_declaration m f \<or> hasNoInstrument m f then Inr allocas
       else foldE (\<lambda>inst allocas.
              let allocas' = (case get_inst m inst of Some (Alloca _ _) \<Rightarrow> allocas @ [inst] | _ \<Rightarrow> allocas)
              in if isLifeTimeIntrinsic m inst then
                   Inl (ReportedError ''Found a call to a lifetime intrinsic, but the lowfat stack protection does not support them.'')
                 else Inr allocas') (fun_insts m f) allocas"
  have "\<exists>a'. ?body f a = Inr a' \<and> True" if "f \<in> set (mod_functions m)" for f a
  proof -
    have "\<exists>a'. foldE (\<lambda>inst allocas.
              let allocas' = (case get_inst m inst of Some (Alloca _ _) \<Rightarrow> allocas @ [inst] | _ \<Rightarrow> allocas)
              in if isLifeTimeIntrinsic m inst then
                   Inl (ReportedError ''Found a call to a lifetime intrinsic, but the lowfat stack protection does not support them.'')
                 else Inr allocas') (fun_insts m f) a = Inr a' \<and> True"
      by (rule foldE_total) (use assms [OF that] in \<open>simp_all add: marker_free_def Let_def\<close>)
    then show ?thesis by auto
  qed
  then have "\<exists>a. foldE ?body (mod_functions m) [] = Inr a \<and> True" by (intro foldE_total) auto
  then show ?thesis by (simp add: lf_collect_allocas_def)
qed

text \<open>
  C33: after the preparation of the module (unless lifetime markers are to be kept), the set-up of the
  lowfat mechanism never stops because of one, whatever the other options are.
\<close>

theorem prepared_module_without_markers:
  assumes "setup_prepareModule opts (lf_mod s, attrs) = Inr (m', attrs')" and "\<not> KeepLifeTimeIntrinsics opts"
    and "lf_insertFunctionDeclarations (s\<lparr>lf_mod := m'\<rparr>) = Inr s1"
  shows "\<exists>allocas. lf_collect_allocas (lf_mod s1) = Inr allocas"
proof (rule collect_allocas_total)
  fix F assume F: "F \<in> set (mod_functions (lf_mod s1))"
  have n: "no_new_lifetime m' (lf_mod s1)" using lifetime_lf_declarations [OF assms(3)] by simp
  show "marker_free (lf_mod s1) F"
  proof (cases "F \<in> set (mod_functions m')")
    case True
    from marker_free_mono [OF n prepared_marker_free [OF assms(1,2) this]] show ?thesis .
  next
    case False
    with n F have "fun_blocks (lf_mod s1) F = []" by (simp add: no_new_lifetime_def)
    then show ?thesis by (simp add: marker_free_def fun_insts_def)
  qed
qed

end
