(* ===== verification/ByvalLaws.thy ===== *)
theory ByvalLaws
  imports Preparation
begin

text \<open>
  Arguments passed by value: after the transformation no function and no call has such an argument,
  and each one became the address of a copy made right before the call.
\<close>

section \<open>What the steps keep\<close>

definition arg_count :: "ir \<Rightarrow> vid \<Rightarrow> nat option" where
  "arg_count m v = map_option (\<lambda>c. length (call_args c)) (get_call m v)"

definition calls_kept :: "ir \<Rightarrow> ir \<Rightarrow> bool" where
  "calls_kept m m' \<longleftrightarrow> next_vid m \<le> next_vid m' \<and> (\<forall>b. set (bb_insts m b) \<subseteq> set (bb_insts m' b)) \<and>
     (\<forall>v < next_vid m. fun_blocks m' v = fun_blocks m v \<and> arg_count m' v = arg_count m v)"

lemma calls_kept_refl [simp]: "calls_kept m m"
  by (simp add: calls_kept_def)

lemma calls_kept_trans: "calls_kept m m1 \<Longrightarrow> calls_kept m1 m2 \<Longrightarrow> calls_kept m m2"
  by (auto simp: calls_kept_def) blast

lemma arg_count_eq: "get_inst m' v = get_inst m v \<Longrightarrow> arg_count m' v = arg_count m v"
  by (simp add: arg_count_def get_call_def)

lemma calls_kept_emit:
  assumes "emit p i ty nm m = (n, m')"
  shows "calls_kept m m'"
proof -
  have "set (ip_insert p x vs) = insert x (set vs)" for x vs
    by (cases p) (auto simp: ip_insert_def set_insert_before)
  moreover have "get_inst m' v = get_inst m v" if "v < next_vid m" for v
    using assms that by (auto simp: emit_def new_value_def Let_def get_inst_def)
  ultimately show ?thesis
    using assms by (auto simp: calls_kept_def emit_def new_value_def Let_def intro!: arg_count_eq)
qed

lemma calls_kept_emit_op: "emit_op p oper args i ty nm m = (v, m') \<Longrightarrow> calls_kept m m'"
  by (auto simp: emit_op_def calls_kept_emit split: option.splits)

lemma calls_kept_getOrInsert:
  assumes "getOrInsertFunction name m = (f, m')"
  shows "calls_kept m m'"
proof (cases "filter (\<lambda>f. v_name (vals m f) = name) (mod_functions m)")
  case Nil
  with assms have "get_inst m' v = get_inst m v" if "v < next_vid m" for v
    using that by (auto simp: getOrInsertFunction_def new_value_def Let_def get_inst_def)
  with assms Nil show ?thesis
    by (auto simp: calls_kept_def getOrInsertFunction_def new_value_def Let_def intro!: arg_count_eq)
qed (use assms in \<open>simp add: getOrInsertFunction_def\<close>)

lemma calls_kept_memcpy:
  assumes "create_memcpy p dst src n m = (c, m')"
  shows "calls_kept m m'"
proof -
  let ?i8p = "ctx_ty m ''i8*''"
  obtain d m1 where 1: "emit_op p ''bitcast'' [dst] (BitCast dst) ?i8p [] m = (d, m1)" by (metis surj_pair)
  obtain s m2 where 2: "emit_op p ''bitcast'' [src] (BitCast src) ?i8p [] m1 = (s, m2)" by (metis surj_pair)
  obtain fn m3 where 3: "getOrInsertFunction ''llvm.memcpy.p0i8.p0i8.i64'' m2 = (fn, m3)" by (metis surj_pair)
  from assms 1 2 3 have 4: "emit p (Call \<lparr>called_operand = fn, called_function = Some fn,
      call_args = [d, s, const_int m (ctx_ty m ''i64'') n, const_int m (ctx_ty m ''i1'') 0]\<rparr> (Some IntrMemcpy))
      (ctx_ty m ''void'') [] m3 = (c, m')"
    by (simp add: create_memcpy_def)
  show ?thesis
    by (rule calls_kept_trans [OF calls_kept_emit_op [OF 1] calls_kept_trans [OF calls_kept_emit_op [OF 2]
      calls_kept_trans [OF calls_kept_getOrInsert [OF 3] calls_kept_emit [OF 4]]]])
qed

lemma get_call_set_call:
  assumes "get_call m call = Some c"
  shows "get_call (set_call call c' m) v = (if v = call then Some c' else get_call m v)"
proof (cases "v = call")
  case False
  then have "get_inst (set_call call c' m) v = get_inst m v" by (simp add: set_call_def get_inst_def)
  with False show ?thesis by (simp add: get_call_def)
next
  case True
  from assms obtain k where k: "get_inst m call = Some k" by (cases "get_inst m call") (auto simp: get_call_def)
  with assms True show ?thesis by (cases k) (auto simp: get_call_def set_call_def get_inst_def)
qed

lemma set_call_fields [simp]:
  "next_vid (set_call call c m) = next_vid m" "bb_insts (set_call call c m) = bb_insts m"
  "fun_blocks (set_call call c m) = fun_blocks m"
  by (simp_all add: set_call_def)

text \<open>Attributes lose \<open>byval\<close>, and nothing gains it.\<close>

definition byval_less :: "attr_map \<Rightarrow> attr_map \<Rightarrow> bool" where
  "byval_less A A' \<longleftrightarrow> (\<forall>v. length (param_attrs (A' v)) \<le> length (param_attrs (A v)) \<and>
     (\<forall>i. ByVal \<in> param_attr (A' v) i \<longrightarrow> ByVal \<in> param_attr (A v) i))"

lemma byval_less_refl [simp]: "byval_less A A"
  by (simp add: byval_less_def)

lemma byval_less_trans: "byval_less A A1 \<Longrightarrow> byval_less A1 A2 \<Longrightarrow> byval_less A A2"
  unfolding byval_less_def by (meson le_trans)

lemma param_attr_removed: "param_attr (removeParamAttr i a) j = (if j = i then param_attr a j - {ByVal} else param_attr a j)"
  by (auto simp: removeParamAttr_def param_attr_def nth_list_update)

lemma length_removed [simp]: "length (param_attrs (removeParamAttr i a)) = length (param_attrs a)"
  by (simp add: removeParamAttr_def)

lemma param_attr_none [simp]: "param_attr no_attrs i = {}" "param_attrs no_attrs = []"
  by (simp_all add: no_attrs_def param_attr_def)

lemma byval_arg_less:
  "A' = A(cpy := no_attrs, call := removeParamAttr i (A call)) \<Longrightarrow> byval_less A A'"
  by (auto simp: byval_less_def param_attr_removed)

lemma byval_arg_step:
  assumes r: "transform_byval_arg call i (m, A) = Inr (m', A')" and call: "call < next_vid m"
  shows "calls_kept m m' \<and> byval_less A A' \<and> ByVal \<notin> param_attr (A' call) i"
  using r
proof (cases rule: byval_arg_steps)
  case (1 c)
  then show ?thesis by (auto simp: isByValArgument_def)
next
  case (2 c ty ip alloc m1 cpy m2)
  have k: "calls_kept m m2" by (rule calls_kept_trans [OF calls_kept_emit [OF 2(5)] calls_kept_memcpy [OF 2(6)]])
  with call 2(1) have "arg_count m2 call = Some (length (call_args c))" by (simp add: calls_kept_def arg_count_def)
  then obtain c2 where c2: "get_call m2 call = Some c2" "length (call_args c2) = length (call_args c)"
    by (auto simp: arg_count_def)
  have "calls_kept m2 m'"
    unfolding 2(7) by (auto simp: calls_kept_def arg_count_def get_call_set_call [OF c2(1)] c2)
  moreover have "byval_less A A'" "ByVal \<notin> param_attr (A' call) i"
    using byval_arg_less [OF 2(8)] by (simp_all add: 2(8) param_attr_removed)
  ultimately show ?thesis using calls_kept_trans [OF k] by blast
qed

lemma byval_args:
  assumes "foldE (transform_byval_arg call) idxs (m, A) = Inr (m', A')" and "call < next_vid m"
  shows "calls_kept m m' \<and> byval_less A A' \<and> (\<forall>i \<in> set idxs. ByVal \<notin> param_attr (A' call) i)"
  using assms
proof (induction idxs arbitrary: m A)
  case (Cons i idxs)
  obtain m1 A1 where 1: "transform_byval_arg call i (m, A) = Inr (m1, A1)"
    "foldE (transform_byval_arg call) idxs (m1, A1) = Inr (m', A')"
    using Cons.prems(1) by (auto simp: bindE_eq_Inr)
  note s = byval_arg_step [OF 1(1) Cons.prems(2)]
  have "call < next_vid m1" using s Cons.prems(2) by (auto simp: calls_kept_def)
  note IH = Cons.IH [OF 1(2) this]
  from s IH have "ByVal \<notin> param_attr (A' call) i" by (auto simp: byval_less_def)
  with s IH show ?case using calls_kept_trans byval_less_trans by auto
qed simp

text \<open>A call has at most as many argument attributes as arguments.\<close>

definition attrs_fit :: "ir \<Rightarrow> attr_map \<Rightarrow> vid \<Rightarrow> bool" where
  "attrs_fit m A v \<longleftrightarrow> (\<forall>n. arg_count m v = Some n \<longrightarrow> length (param_attrs (A v)) \<le> n)"

definition free_call :: "ir \<Rightarrow> attr_map \<Rightarrow> vid \<Rightarrow> bool" where
  "free_call m A v \<longleftrightarrow> get_call m v = None \<or> \<not> hasByValArgument A v"

lemma hasByVal_iff: "hasByValArgument A v \<longleftrightarrow> (\<exists>i < length (param_attrs (A v)). ByVal \<in> param_attr (A v) i)"
  by (auto simp: hasByValArgument_def list_ex_length param_attr_def)

lemma hasByVal_less: "byval_less A A' \<Longrightarrow> hasByValArgument A' v \<Longrightarrow> hasByValArgument A v"
  unfolding hasByVal_iff byval_less_def by (meson less_le_trans)

lemma free_call_mono:
  assumes "free_call m A v" and "calls_kept m m'" and "byval_less A A'" and "v < next_vid m"
  shows "free_call m' A' v"
proof -
  have "arg_count m' v = arg_count m v" using assms(2,4) by (simp add: calls_kept_def)
  then have "get_call m' v = None \<longleftrightarrow> get_call m v = None" by (auto simp: arg_count_def)
  with assms(1,3) hasByVal_less show ?thesis by (auto simp: free_call_def)
qed

lemma attrs_fit_mono:
  assumes "attrs_fit m A v" and "calls_kept m m'" and "byval_less A A'" and "v < next_vid m"
  shows "attrs_fit m' A' v"
proof -
  have "arg_count m' v = arg_count m v" using assms(2,4) by (simp add: calls_kept_def)
  with assms(1,3) show ?thesis by (auto simp: attrs_fit_def byval_less_def intro: order_trans)
qed

lemma byval_call:
  assumes r: "transform_byval_call inst (m, A) = Inr (m', A')" and i: "inst < next_vid m" and fit: "attrs_fit m A inst"
  shows "calls_kept m m' \<and> byval_less A A' \<and> free_call m' A' inst"
proof (cases "get_call m inst")
  case None
  with r show ?thesis by (auto simp: transform_byval_call_def free_call_def)
next
  case (Some c)
  show ?thesis
  proof (cases "hasByValArgument A inst")
    case False
    with r Some show ?thesis by (auto simp: transform_byval_call_def free_call_def)
  next
    case True
    with r Some have f: "foldE (transform_byval_arg inst) [0..<length (call_args c)] (m, A) = Inr (m', A')"
      by (auto simp: transform_byval_call_def transformCallByValArgs_def split: if_splits)
    note a = byval_args [OF f i]
    have "length (param_attrs (A' inst)) \<le> length (call_args c)"
      using a fit Some by (auto simp: byval_less_def attrs_fit_def arg_count_def intro: order_trans)
    with a have "\<not> hasByValArgument A' inst" by (auto simp: hasByVal_iff)
    with a show ?thesis by (simp add: free_call_def)
  qed
qed

lemma byval_calls:
  assumes "foldE transform_byval_call insts (m, A) = Inr (m', A')"
    and "\<And>i. i \<in> set insts \<Longrightarrow> i < next_vid m \<and> attrs_fit m A i"
  shows "calls_kept m m' \<and> byval_less A A' \<and> (\<forall>i \<in> set insts. free_call m' A' i)"
  using assms
proof (induction insts arbitrary: m A)
  case (Cons i insts)
  obtain m1 A1 where 1: "transform_byval_call i (m, A) = Inr (m1, A1)"
    "foldE transform_byval_call insts (m1, A1) = Inr (m', A')"
    using Cons.prems(1) by (auto simp: bindE_eq_Inr)
  have i: "i < next_vid m" "attrs_fit m A i" using Cons.prems(2) by simp_all
  note s = byval_call [OF 1(1) i]
  have "j < next_vid m1 \<and> attrs_fit m1 A1 j" if "j \<in> set insts" for j
    using Cons.prems(2) [of j] that s attrs_fit_mono by (auto simp: calls_kept_def)
  note IH = Cons.IH [OF 1(2) this]
  have "i < next_vid m1" using i s by (auto simp: calls_kept_def)
  with s IH have "free_call m' A' i" using free_call_mono by blast
  with s IH show ?case using calls_kept_trans byval_less_trans by auto
qed simp

section \<open>New instructions\<close>

text \<open>All instructions have identifiers, and the attributes of calls fit their arguments.\<close>

definition byval_wf :: "ir \<Rightarrow> attr_map \<Rightarrow> bool" where
  "byval_wf m A \<longleftrightarrow> (\<forall>b. \<forall>i \<in> set (bb_insts m b). i < next_vid m \<and> attrs_fit m A i)"

text \<open>The instructions that are new in \<open>m'\<close> are no calls, except those of \<open>X\<close>.\<close>

definition new_calls :: "ir \<Rightarrow> ir \<Rightarrow> vid set \<Rightarrow> bool" where
  "new_calls m m' X \<longleftrightarrow>
     (\<forall>b. \<forall>i \<in> set (bb_insts m' b). i \<in> set (bb_insts m b) \<or> (i < next_vid m' \<and> (arg_count m' i = None \<or> i \<in> X)))"

lemma new_calls_trans:
  "new_calls m m1 X \<Longrightarrow> new_calls m1 m2 Y \<Longrightarrow> calls_kept m1 m2 \<Longrightarrow> new_calls m m2 (X \<union> Y)"
  unfolding new_calls_def calls_kept_def by (metis (no_types, lifting) UnCI less_le_trans)

lemma new_emit:
  assumes "emit p i ty nm m = (n, m')"
  shows "new_calls m m' {n}" and "(\<And>c k. i \<noteq> Call c k) \<Longrightarrow> (\<And>c b. i \<noteq> Invoke c b) \<Longrightarrow> new_calls m m' {}"
proof -
  have ins: "set (ip_insert p x vs) = insert x (set vs)" for x vs
    by (cases p) (auto simp: ip_insert_def set_insert_before)
  have n: "n = next_vid m" "next_vid m' = Suc (next_vid m)" "get_inst m' n = Some i"
    "\<And>b. set (bb_insts m' b) \<subseteq> insert n (set (bb_insts m b))"
    using assms by (auto simp: emit_def new_value_def Let_def get_inst_def ins split: if_splits)
  then show "new_calls m m' {n}" by (auto simp: new_calls_def)
  assume "\<And>c k. i \<noteq> Call c k" and "\<And>c b. i \<noteq> Invoke c b"
  then have "arg_count m' n = None" using n(3) by (cases i) (auto simp: arg_count_def get_call_def)
  with n show "new_calls m m' {}" by (auto simp: new_calls_def)
qed

lemma new_same [simp]: "bb_insts m' = bb_insts m \<Longrightarrow> new_calls m m' X"
  by (simp add: new_calls_def)

lemma new_emit_op:
  assumes "emit_op p oper args i ty nm m = (v, m')" and "\<And>c k. i \<noteq> Call c k" and "\<And>c b. i \<noteq> Invoke c b"
  shows "new_calls m m' {}"
  using assms new_emit(2) by (auto simp: emit_op_def split: option.splits)

lemma getOrInsert_bb: "getOrInsertFunction name m = (f, m') \<Longrightarrow> bb_insts m' = bb_insts m"
  by (auto simp: getOrInsertFunction_def new_value_def Let_def split: list.splits)

lemma new_memcpy:
  assumes "create_memcpy p dst src n m = (c, m')"
  shows "new_calls m m' {c}" and "next_vid m \<le> c"
proof -
  let ?i8p = "ctx_ty m ''i8*''"
  obtain d m1 where 1: "emit_op p ''bitcast'' [dst] (BitCast dst) ?i8p [] m = (d, m1)" by (metis surj_pair)
  obtain s m2 where 2: "emit_op p ''bitcast'' [src] (BitCast src) ?i8p [] m1 = (s, m2)" by (metis surj_pair)
  obtain fn m3 where 3: "getOrInsertFunction ''llvm.memcpy.p0i8.p0i8.i64'' m2 = (fn, m3)" by (metis surj_pair)
  from assms 1 2 3 have 4: "emit p (Call \<lparr>called_operand = fn, called_function = Some fn,
      call_args = [d, s, const_int m (ctx_ty m ''i64'') n, const_int m (ctx_ty m ''i1'') 0]\<rparr> (Some IntrMemcpy))
      (ctx_ty m ''void'') [] m3 = (c, m')"
    by (simp add: create_memcpy_def)
  note k = calls_kept_emit_op [OF 1] calls_kept_emit_op [OF 2] calls_kept_getOrInsert [OF 3] calls_kept_emit [OF 4]
  have "new_calls m m1 {}" "new_calls m1 m2 {}" "new_calls m2 m3 {}" "new_calls m3 m' {c}"
    using new_emit_op [OF 1] new_emit_op [OF 2] new_same [OF getOrInsert_bb [OF 3]] new_emit(1) [OF 4] by simp_all
  from new_calls_trans [OF new_calls_trans [OF new_calls_trans [OF this(1,2) k(2)] this(3) k(3)] this(4) k(4)]
  show "new_calls m m' {c}" by simp
  have "c = next_vid m3" using 4 by (auto simp: emit_def new_value_def Let_def)
  with k show "next_vid m \<le> c" by (auto simp: calls_kept_def)
qed

lemma byval_wf_step:
  assumes r: "transform_byval_arg call i (m, A) = Inr (m', A')" and call: "call < next_vid m" and wf: "byval_wf m A"
  shows "byval_wf m' A'"
proof -
  note s = byval_arg_step [OF r call]
  from r show ?thesis
  proof (cases rule: byval_arg_steps)
    case (1 c)
    with wf show ?thesis by simp
  next
    case (2 c ty ip alloc m1 cpy m2)
    have "new_calls m m1 {}" by (rule new_emit(2) [OF 2(5)]) simp_all
    from new_calls_trans [OF this new_memcpy(1) [OF 2(6)] calls_kept_memcpy [OF 2(6)]]
    have n2: "new_calls m m2 {cpy}" by simp
    have k: "calls_kept m m2" by (rule calls_kept_trans [OF calls_kept_emit [OF 2(5)] calls_kept_memcpy [OF 2(6)]])
    have "next_vid m \<le> cpy" using new_memcpy(2) [OF 2(6)] calls_kept_emit [OF 2(5)] by (auto simp: calls_kept_def)
    then have cpy: "A' cpy = no_attrs" using call by (simp add: 2(8))
    have old: "i < next_vid m' \<and> attrs_fit m' A' i" if "i \<in> set (bb_insts m b)" for i b
    proof -
      have "i < next_vid m" "attrs_fit m A i" using wf that by (auto simp: byval_wf_def)
      with s attrs_fit_mono show ?thesis by (auto simp: calls_kept_def)
    qed
    have new: "i < next_vid m' \<and> attrs_fit m' A' i" if i: "i \<in> set (bb_insts m' b)" "i \<notin> set (bb_insts m b)" for i b
    proof -
      have i2: "i < next_vid m2" "arg_count m2 i = None \<or> i = cpy"
        using n2 i by (auto simp: new_calls_def 2(7))
      have "arg_count m2 call = arg_count m call" "arg_count m call \<noteq> None"
        using k call 2(1) by (simp_all add: calls_kept_def arg_count_def)
      with i2(2) \<open>next_vid m \<le> cpy\<close> call have ne: "i \<noteq> call" by auto
      then have "get_inst (set_call call c' m2) i = get_inst m2 i" for c' by (simp add: set_call_def get_inst_def)
      then have "arg_count m' i = arg_count m2 i" unfolding 2(7) by (rule arg_count_eq)
      with i2 cpy show ?thesis by (auto simp: attrs_fit_def 2(7))
    qed
    from old new show ?thesis unfolding byval_wf_def by blast
  qed
qed

section \<open>The module\<close>

definition calls_free :: "ir \<Rightarrow> ir \<Rightarrow> attr_map \<Rightarrow> vid \<Rightarrow> bool" where
  "calls_free m0 m A F \<longleftrightarrow> (\<forall>i. ByVal \<notin> param_attr (A F) i) \<and> (\<forall>i \<in> set (fun_insts m0 F). free_call m A i)"

lemma drop_byval_params_less: "byval_less A (drop_byval_params F A)" "ByVal \<notin> param_attr (drop_byval_params F A F) i"
  by (auto simp: byval_less_def drop_byval_params_def param_attr_def split: if_splits)

lemma fun_insts_kept:
  assumes "calls_kept m m'" and "F < next_vid m"
  shows "set (fun_insts m F) \<subseteq> set (fun_insts m' F)"
  using assms by (auto simp: calls_kept_def fun_insts_def)

lemma byval_function:
  assumes r: "transform_byval_function F (m, A) = Inr (m', A')" and F: "F < next_vid m"
    and insts: "\<And>i. i \<in> set (fun_insts m F) \<Longrightarrow> i < next_vid m \<and> attrs_fit m A i"
  shows "calls_kept m m' \<and> byval_less A A' \<and> calls_free m m' A' F"
proof -
  let ?A = "drop_byval_params F A"
  note d = drop_byval_params_less(1) [of A F] drop_byval_params_less(2) [of F A]
  show ?thesis
  proof (cases "is_declaration m F")
    case True
    with r d show ?thesis
      by (auto simp: transform_byval_function_def calls_free_def fun_insts_def is_declaration_def)
  next
    case False
    with r have f: "foldE transform_byval_call (fun_insts m F) (m, ?A) = Inr (m', A')"
      by (simp add: transform_byval_function_def)
    have "i < next_vid m \<and> attrs_fit m ?A i" if "i \<in> set (fun_insts m F)" for i
      using insts [OF that] d(1) by (auto simp: attrs_fit_def byval_less_def intro: order_trans)
    note c = byval_calls [OF f this]
    have "ByVal \<notin> param_attr (A' F) i" for i using c d(2) [of i] by (auto simp: byval_less_def)
    with c byval_less_trans [OF d(1)] show ?thesis by (auto simp: calls_free_def)
  qed
qed

lemma calls_free_mono:
  assumes "calls_free m0 m A F" and "calls_kept m m'" and "byval_less A A'"
    and "\<And>i. i \<in> set (fun_insts m0 F) \<Longrightarrow> i < next_vid m"
  shows "calls_free m0 m' A' F"
proof -
  have "free_call m' A' i" if "i \<in> set (fun_insts m0 F)" for i
    using assms(1) that free_call_mono [OF _ assms(2,3) assms(4) [OF that]] by (simp add: calls_free_def)
  with assms(1,3) show ?thesis by (auto simp: calls_free_def byval_less_def)
qed

lemma foldE_wf:
  assumes "foldE f xs (m, A) = Inr (m', A')" and "byval_wf m A" and "P m"
    and "\<And>x m A m' A'. x \<in> set xs \<Longrightarrow> f x (m, A) = Inr (m', A') \<Longrightarrow> byval_wf m A \<Longrightarrow> P m \<Longrightarrow> byval_wf m' A' \<and> P m'"
  shows "byval_wf m' A'"
proof -
  have "byval_wf (fst (m', A')) (snd (m', A')) \<and> P (fst (m', A'))"
    by (rule foldE_invariant [OF assms(1), where I = "\<lambda>ma. byval_wf (fst ma) (snd ma) \<and> P (fst ma)"])
      (use assms(2-4) in auto)
  then show ?thesis by simp
qed

lemma byval_wf_drop: "byval_wf m A \<Longrightarrow> byval_wf m (drop_byval_params F A)"
  using drop_byval_params_less(1) [of A F]
  by (auto simp: byval_wf_def attrs_fit_def byval_less_def intro: order_trans)

lemma byval_call_steps:
  assumes "transform_byval_call inst (m, A) = Inr (m', A')"
  shows "(m', A') = (m, A) \<or> (\<exists>n. foldE (transform_byval_arg inst) [0..<n] (m, A) = Inr (m', A'))"
proof (cases "get_call m inst")
  case (Some c)
  with assms show ?thesis
    by (cases "hasByValArgument A inst")
      (auto simp: transform_byval_call_def transformCallByValArgs_def split: if_splits)
qed (use assms in \<open>simp add: transform_byval_call_def\<close>)

lemma byval_wf_call:
  assumes "transform_byval_call inst (m, A) = Inr (m', A')" and "inst < next_vid m" and "byval_wf m A"
  shows "byval_wf m' A' \<and> calls_kept m m'"
  using byval_call_steps [OF assms(1)]
proof (elim disjE exE)
  fix n assume f: "foldE (transform_byval_arg inst) [0..<n] (m, A) = Inr (m', A')"
  have "byval_wf m' A'"
  proof (rule foldE_wf [OF f assms(3), where P = "\<lambda>m. inst < next_vid m"])
    fix x m1 A1 m2 A2
    assume a: "transform_byval_arg inst x (m1, A1) = Inr (m2, A2)" and wf: "byval_wf m1 A1" and i: "inst < next_vid m1"
    from byval_wf_step [OF a i wf] byval_arg_step [OF a i] i show "byval_wf m2 A2 \<and> inst < next_vid m2"
      by (auto simp: calls_kept_def)
  qed (rule assms(2))
  with byval_args [OF f assms(2)] show ?thesis by simp
qed (use assms in simp)

lemma byval_wf_function:
  assumes r: "transform_byval_function F (m, A) = Inr (m', A')" and wf: "byval_wf m A"
  shows "byval_wf m' A'"
proof (cases "is_declaration m F")
  case True
  with r wf byval_wf_drop show ?thesis by (auto simp: transform_byval_function_def)
next
  case False
  with r have f: "foldE transform_byval_call (fun_insts m F) (m, drop_byval_params F A) = Inr (m', A')"
    by (simp add: transform_byval_function_def)
  have lt: "i < next_vid m" if "i \<in> set (fun_insts m F)" for i
    using wf that by (auto simp: byval_wf_def fun_insts_def)
  show ?thesis
  proof (rule foldE_wf [OF f byval_wf_drop [OF wf], where P = "\<lambda>m1. next_vid m \<le> next_vid m1"])
    fix x m1 A1 m2 A2 assume x: "x \<in> set (fun_insts m F)" and c: "transform_byval_call x (m1, A1) = Inr (m2, A2)"
      and wf1: "byval_wf m1 A1" and le: "next_vid m \<le> next_vid m1"
    have "x < next_vid m1" using lt [OF x] le by simp
    from byval_wf_call [OF c this wf1] le show "byval_wf m2 A2 \<and> next_vid m \<le> next_vid m2"
      by (auto simp: calls_kept_def)
  qed simp
qed

text \<open>
  C34: after the arguments passed by value were transformed, no function of the module has a parameter
  with the \<open>byval\<close> attribute and no call of a function that was there before passes one.
\<close>

theorem byval_removed:
  assumes "transformByValFunctions (m, A) = Inr (m', A')" and "byval_wf m A"
    and "\<And>F. F \<in> set (mod_functions m) \<Longrightarrow> F < next_vid m"
  shows "\<forall>F \<in> set (mod_functions m). calls_free m m' A' F"
proof -
  have "calls_kept m1 m' \<and> byval_less A1 A' \<and> (\<forall>F \<in> set Fs. calls_free m m' A' F)"
    if "foldE transform_byval_function Fs (m1, A1) = Inr (m', A')" "byval_wf m1 A1" "calls_kept m m1"
      "\<forall>F \<in> set Fs. F < next_vid m" for Fs m1 A1
    using that
  proof (induction Fs arbitrary: m1 A1)
    case (Cons F Fs)
    obtain m2 A2 where 1: "transform_byval_function F (m1, A1) = Inr (m2, A2)"
      "foldE transform_byval_function Fs (m2, A2) = Inr (m', A')"
      using Cons.prems(1) by (auto simp: bindE_eq_Inr)
    have F: "F < next_vid m" "F < next_vid m1" using Cons.prems(3,4) by (auto simp: calls_kept_def)
    have lt: "i < next_vid m1 \<and> attrs_fit m1 A1 i" if "i \<in> set (fun_insts m1 F)" for i
      using Cons.prems(2) that by (auto simp: byval_wf_def fun_insts_def)
    note f = byval_function [OF 1(1) F(2) lt]
    have k: "calls_kept m m2" using f calls_kept_trans [OF Cons.prems(3)] by blast
    have IH: "calls_kept m2 m'" "byval_less A2 A'" "\<forall>F \<in> set Fs. calls_free m m' A' F"
      using Cons.IH [OF 1(2) byval_wf_function [OF 1(1) Cons.prems(2)] k] Cons.prems(4) by simp_all
    have sub: "set (fun_insts m F) \<subseteq> set (fun_insts m1 F)" by (rule fun_insts_kept [OF Cons.prems(3) F(1)])
    have "calls_free m m2 A2 F" using f sub by (auto simp: calls_free_def)
    then have "calls_free m m' A' F"
    proof (rule calls_free_mono [OF _ IH(1,2)])
      fix i assume "i \<in> set (fun_insts m F)"
      with sub lt have "i < next_vid m1" by blast
      with f show "i < next_vid m2" by (auto simp: calls_kept_def)
    qed
    with f IH show ?case using calls_kept_trans byval_less_trans by auto
  qed simp
  from this [of "mod_functions m" m A] assms show ?thesis by (simp add: transformByValFunctions_def)
qed

end
