(* ===== verification/LowfatLaws.thy ===== *)
theory LowfatLaws
  imports LowfatSetup KeepCode
begin

text \<open>
  The contract of the lowfat mechanism: its witnesses are stored, its operations after the set-up keep
  the code of the program, a check is one call, and the loop over bounds stops at the first witness
  that has some.
\<close>

section \<open>The operations add code\<close>

definition lf_adds :: "lowfat_state \<Rightarrow> lowfat_state \<Rightarrow> bool" where
  "lf_adds s s' \<longleftrightarrow> only_adds (lf_mod s) (lf_mod s')"

lemma lf_adds_refl [simp]: "lf_adds s s"
  by (simp add: lf_adds_def)

lemma lf_adds_trans: "lf_adds s t \<Longrightarrow> lf_adds t u \<Longrightarrow> lf_adds s u"
  unfolding lf_adds_def by (rule only_adds_trans)

lemma lf_lift_adds:
  assumes "lf_lift f s = Inr (x, s')" and "\<And>m x m'. f m = Inr (x, m') \<Longrightarrow> only_adds m m'"
  shows "lf_adds s s'"
  using assms by (fastforce simp: lf_lift_def bindE_eq_Inr lf_adds_def)

lemma lf_op_adds:
  "lf_lift (insertCast ty v p sfx) s = Inr (x, s') \<Longrightarrow> lf_adds s s'"
  "lf_lift (insertCastNoSuffix ty v p) s = Inr (x, s') \<Longrightarrow> lf_adds s s'"
  "lf_lift (insertCall p fn args nm) s = Inr (x, s') \<Longrightarrow> lf_adds s s'"
  "lf_lift (insertCallNoName p fn args) s = Inr (x, s') \<Longrightarrow> lf_adds s s'"
  by (auto elim!: lf_lift_adds simp: insertCastNoSuffix_def insertCallNoName_def
      intro: only_adds_insertCast only_adds_insertCall)

lemma lf_frame [simp]:
  "lf_adds s (snd (new_lf_witness v loc t)) = lf_adds s t" "lf_adds s (set_lf_witness w W t) = lf_adds s t"
  "lf_adds (set_lf_witness w W t) s = lf_adds t s"
  by (simp_all add: lf_adds_def new_lf_witness_def set_lf_witness_def)

lemma lf_getWitness_adds: "lf_getWitness v loc s = Inr (w, s') \<Longrightarrow> lf_adds s s'"
  by (auto simp: lf_getWitness_def bindE_eq_Inr Let_def split: if_splits
      intro: lf_op_adds lf_adds_trans [OF lf_op_adds(1) lf_op_adds(3)])

lemma lf_witness_for_adds: "lf_witness_for v i (T, s) = Inr (T', s') \<Longrightarrow> lf_adds s s'"
  by (auto simp: lf_witness_for_def bindE_eq_Inr Let_def case_prod_unfold dest: lf_getWitness_adds)

lemma lf_extract_adds: "lf_extract v i (T, s) = Inr (T', s') \<Longrightarrow> lf_adds s s'"
proof -
  assume r: "lf_extract v i (T, s) = Inr (T', s')"
  obtain loc where loc: "getLocation T = Inr loc" using r by (auto simp: lf_extract_def bindE_eq_Inr)
  obtain ptr m1 where e: "emit_op (Before loc) ''extractvalue'' [v] (ExtractValue v [i])
      (agg_elem_ty (lf_mod s) (v_type (vals (lf_mod s) v)) i) [] (lf_mod s) = (ptr, m1)"
    by (metis surj_pair)
  from r have "lf_adds (s\<lparr>lf_mod := m1\<rparr>) s'" by (auto simp: lf_extract_def loc e dest: lf_witness_for_adds)
  moreover have "lf_adds s (s\<lparr>lf_mod := m1\<rparr>)" using only_adds_emit_op [OF e] by (simp add: lf_adds_def)
  ultimately show ?thesis by (blast intro: lf_adds_trans)
qed

text \<open>The three ways a witness is inserted.\<close>

lemma lf_insertWitnesses_cases:
  assumes "lf_insertWitnesses T s = Inr (T', s')"
  obtains (one) v w s1 where "lf_getWitness v (location T) s = Inr (w, s1)" and "s' = snd (new_lf_witness w (location T) s1)"
      and "T' = setBoundWitness (Some (lf_next_wid s1)) 0 T"
    | (agg) v indices where "computePointerIndices (lf_mod s) (v_type (vals (lf_mod s) v)) = Inr indices"
        and "foldE (lf_extract v) indices (T, s) = Inr (T', s')"
    | (con) v ip where "getAggregatePointerIndicesAndValues (lf_mod s) v = Inr ip"
        and "foldE (\<lambda>(i, p). lf_witness_for p i) ip (T, s) = Inr (T', s')"
  using assms
  by (auto simp: lf_insertWitnesses_def bindE_eq_Inr Let_def setSingleBoundWitness_def getLocation_def
      setBoundWitness_def new_lf_witness_def case_prod_unfold split: if_splits)

lemma lf_insertWitnesses_adds: "lf_insertWitnesses T s = Inr (T', s') \<Longrightarrow> lf_adds s s'"
proof (erule lf_insertWitnesses_cases)
  let ?R = "\<lambda>Ts Ts'. lf_adds (snd Ts) (snd Ts')"
  show "lf_adds s s'" if "lf_getWitness v (location T) s = Inr (w, s1)" "s' = snd (new_lf_witness w (location T) s1)" for v w s1
    using that lf_getWitness_adds by simp
  show "lf_adds s s'" if f: "foldE (lf_extract v) indices (T, s) = Inr (T', s')" for v indices
  proof -
    have "?R (T, s) (T', s')"
      by (rule foldE_rel [where R = ?R, OF f]) (auto intro: lf_adds_trans lf_extract_adds)
    then show ?thesis by simp
  qed
  show "lf_adds s s'" if f: "foldE (\<lambda>(i, p). lf_witness_for p i) ip (T, s) = Inr (T', s')" for ip
  proof -
    have "?R (T, s) (T', s')"
      by (rule foldE_rel [where R = ?R, OF f]) (auto intro: lf_adds_trans lf_witness_for_adds split: prod.splits)
    then show ?thesis by simp
  qed
qed

lemma lf_sets:
  "lf_witness_for v i (T, s) = Inr (T', s') \<Longrightarrow> \<exists>w i. T' = setBoundWitness w i T"
  "lf_extract v i (T, s) = Inr (T', s') \<Longrightarrow> \<exists>w i. T' = setBoundWitness w i T"
  by (auto simp: lf_witness_for_def lf_extract_def bindE_eq_Inr Let_def case_prod_unfold)

lemma lf_insertWitnesses_stores:
  assumes bw: "boundWitnesses T = []" and r: "lf_insertWitnesses T s = Inr (T', s')"
  shows "boundWitnesses T' \<noteq> [] \<and> stores_in T T'"
proof -
  have T: "stores_in T T" using bw by (simp add: stores_in_def)
  from r show ?thesis
  proof (cases rule: lf_insertWitnesses_cases)
    case one
    then show ?thesis using stores_in_set [OF T] by (simp add: setBoundWitness_def)
  next
    case (agg v indices)
    have "stores_in T T' \<and> (indices \<noteq> [] \<or> boundWitnesses T \<noteq> [] \<longrightarrow> boundWitnesses T' \<noteq> [])"
      by (rule stores_loop [OF _ agg(2) T]) (rule lf_sets(2))
    then show ?thesis using computePointerIndices_nonempty [OF agg(1)] by blast
  next
    case (con v ip)
    have "stores_in T T' \<and> (ip \<noteq> [] \<or> boundWitnesses T \<noteq> [] \<longrightarrow> boundWitnesses T' \<noteq> [])"
      by (rule stores_loop [OF _ con(2) T]) (auto intro: lf_sets(1) split: prod.splits)
    then show ?thesis using getAggregatePointerIndicesAndValues_ok(1) [OF con(1)] by blast
  qed
qed

lemma lf_lookup_bound_adds: "lf_lookup_bound b fn ip v nm old s = Inr (r, s') \<Longrightarrow> lf_adds s s'"
  by (auto simp: lf_lookup_bound_def bindE_eq_Inr dest: lf_op_adds split: if_splits)

text \<open>One iteration of the loop over the witnesses.\<close>

lemma lf_materialize_Cons:
  assumes "lf_materialize T (kv # kvs) s = Inr s'"
  obtains (ready) w W where "cast_lf (snd kv) s = Inr (w, W)" and "lf_hasBoundsMaterialized W" and "s' = s"
    | (step) w W ip n ub lb u s1 l s2 where "cast_lf (snd kv) s = Inr (w, W)" and "\<not> lf_hasBoundsMaterialized W"
      and "hasUpperBoundFlag T = Inr ub" and "hasLowerBoundFlag T = Inr lb"
      and "lf_lookup_bound ub (LfGetUpperBoundFunction s) ip (LWitnessValue W) (n @ ''_upper'') (LUpperBound W) s = Inr (u, s1)"
      and "lf_lookup_bound lb (LfGetLowerBoundFunction s) ip (LWitnessValue W) (n @ ''_lower'') (LLowerBound W) s1 = Inr (l, s2)"
      and "lf_materialize T kvs (set_lf_witness w (W\<lparr>LUpperBound := u, LLowerBound := l\<rparr>) s2) = Inr s'"
proof -
  obtain w W where c: "cast_lf (snd kv) s = Inr (w, W)"
    using assms by (cases "cast_lf (snd kv) s") auto
  show thesis
  proof (cases "lf_hasBoundsMaterialized W")
    case True
    with assms c have "s' = s" by simp
    then show thesis by (rule ready [OF c True])
  next
    case False
    with assms c have "bindE (lf_getInsertionLocation (lf_mod s) W) (\<lambda>ip.
       bindE (getInstrumentee T) (\<lambda>v.
       bindE (hasUpperBoundFlag T) (\<lambda>ub.
       bindE (lf_lookup_bound ub (LfGetUpperBoundFunction s) ip (LWitnessValue W) (v_name (vals (lf_mod s) v) @ ''_upper'') (LUpperBound W) s)
         (\<lambda>(u, s1).
       bindE (hasLowerBoundFlag T) (\<lambda>lb.
       bindE (lf_lookup_bound lb (LfGetLowerBoundFunction s) ip (LWitnessValue W) (v_name (vals (lf_mod s) v) @ ''_lower'') (LLowerBound W) s1)
         (\<lambda>(l, s2).
       lf_materialize T kvs (set_lf_witness w (W\<lparr>LUpperBound := u, LLowerBound := l\<rparr>) s2))))))) = Inr s'"
      by (simp add: Let_def)
    then obtain ip v ub u s1 lb l s2 where "hasUpperBoundFlag T = Inr ub"
      "lf_lookup_bound ub (LfGetUpperBoundFunction s) ip (LWitnessValue W) (v_name (vals (lf_mod s) v) @ ''_upper'') (LUpperBound W) s = Inr (u, s1)"
      "hasLowerBoundFlag T = Inr lb"
      "lf_lookup_bound lb (LfGetLowerBoundFunction s) ip (LWitnessValue W) (v_name (vals (lf_mod s) v) @ ''_lower'') (LLowerBound W) s1 = Inr (l, s2)"
      "lf_materialize T kvs (set_lf_witness w (W\<lparr>LUpperBound := u, LLowerBound := l\<rparr>) s2) = Inr s'"
      by (elim bindE_obtain) (simp add: case_prod_unfold, elim bindE_obtain, metis prod.collapse)
    with step [OF c False] show thesis by blast
  qed
qed

lemma lf_materialize_adds: "lf_materialize T kvs s = Inr s' \<Longrightarrow> lf_adds s s'"
proof (induction kvs arbitrary: s)
  case (Cons kv kvs)
  from Cons.prems show ?case
  proof (cases rule: lf_materialize_Cons)
    case (step w W ip n ub lb u s1 l s2)
    from Cons.IH [OF step(7)] have "lf_adds s2 s'" by simp
    with lf_adds_trans [OF lf_lookup_bound_adds [OF step(5)] lf_lookup_bound_adds [OF step(6)]]
    show ?thesis by (rule lf_adds_trans)
  qed simp
qed simp

lemma lf_insertCheck_adds: "lf_insertCheck T s = Inr s' \<Longrightarrow> lf_adds s s'"
  by (auto simp: lf_insertCheck_def lf_check_call_def bindE_eq_Inr split: if_splits option.splits
      intro: lf_op_adds lf_adds_trans [OF lf_op_adds(2) lf_op_adds(4)])

interpretation lowfat_provider: witness_provider lowfat_mechanism
proof
  fix T :: itarget and s T' s'
  assume bw: "boundWitnesses T = []" and "im_insertWitnesses lowfat_mechanism T s = Inr (T', s')"
  then have "lf_insertWitnesses T s = Inr (T', s')" by (simp add: lowfat_mechanism_def)
  from lf_insertWitnesses_stores [OF bw this]
  show "boundWitnesses T' \<noteq> [] \<and> omap_ok (boundWitnesses T') \<and> T' = T\<lparr>boundWitnesses := boundWitnesses T'\<rparr>"
    by (auto simp: stores_in_def)
qed

section \<open>The code of the program is kept\<close>

definition lf_keeps :: "lowfat_state \<Rightarrow> lowfat_state \<Rightarrow> bool" where
  "lf_keeps s s' \<longleftrightarrow> keeps_code (lf_mod s) (lf_mod s')"

lemma lf_keepsI: "lf_adds s s' \<Longrightarrow> lf_keeps s s'"
  by (simp add: lf_adds_def lf_keeps_def only_adds_keeps)

lemma lf_phi_adds: "lf_getWitnessPhi phi s = Inr (w, s') \<Longrightarrow> lf_adds s s'"
  by (auto simp: lf_getWitnessPhi_def Let_def lf_adds_def new_lf_witness_def split: prod.splits
      dest: only_adds_emit)

lemma lf_select_adds: "lf_getWitnessSelect sel p q s = Inr (w, s') \<Longrightarrow> lf_adds s s'"
proof -
  assume r: "lf_getWitnessSelect sel p q s = Inr (w, s')"
  then obtain i where i: "get_inst (lf_mod s) sel = Some i"
    by (cases "get_inst (lf_mod s) sel") (auto simp: lf_getWitnessSelect_def bindE_eq_Inr Let_def)
  with r obtain c a b where sel: "i = Select c a b"
    by (cases i) (auto simp: lf_getWitnessSelect_def bindE_eq_Inr Let_def)
  with r i obtain A B :: lowfat_witness where "lf_mod s' = snd (emit_op (Before sel) ''select'' [c, LWitnessValue A, LWitnessValue B]
      (Select c (LWitnessValue A) (LWitnessValue B)) (WitnessType (lf_mod s))
      (v_name (vals (lf_mod s) sel) @ ''_witness'') (lf_mod s))"
    by (auto simp: lf_getWitnessSelect_def bindE_eq_Inr Let_def case_prod_unfold new_lf_witness_def)
  with only_adds_emit_op [OF prod.collapse [symmetric]] show ?thesis by (simp add: lf_adds_def)
qed

lemma lf_clone_adds: "lf_getRelocatedClone w loc s = Inr (w', s') \<Longrightarrow> lf_adds s s'"
  by (auto simp: lf_getRelocatedClone_def bindE_eq_Inr new_lf_witness_def lf_adds_def)

lemma lf_incoming_keeps: "lf_addIncomingWitnessToPhi p q bb s = Inr s' \<Longrightarrow> lf_keeps s s'"
proof -
  assume r: "lf_addIncomingWitnessToPhi p q bb s = Inr s'"
  then obtain w and P :: lowfat_witness where P: "cast_lf p s = Inr (w, P)"
    by (auto simp: lf_addIncomingWitnessToPhi_def bindE_eq_Inr)
  with r obtain i where i: "get_inst (lf_mod s) (LWitnessValue P) = Some i"
    by (cases "get_inst (lf_mod s) (LWitnessValue P)") (auto simp: lf_addIncomingWitnessToPhi_def Let_def)
  with r P obtain ops where ops: "i = PHI ops" by (cases i) (auto simp: lf_addIncomingWitnessToPhi_def Let_def)
  with r P i obtain I :: lowfat_witness where s': "s' = s\<lparr>lf_mod := (lf_mod s)\<lparr>vals := (vals (lf_mod s))(LWitnessValue P :=
        (vals (lf_mod s) (LWitnessValue P))\<lparr>v_kind := Inst (PHI (ops @ [(LWitnessValue I, bb)]))\<rparr>)\<rparr>\<rparr>"
    by (auto simp: lf_addIncomingWitnessToPhi_def Let_def bindE_eq_Inr)
  from keeps_incoming [of "lf_mod s" "LWitnessValue P" ops "[(LWitnessValue I, bb)]"] i ops
  show ?thesis by (simp add: lf_keeps_def s')
qed

lemma lf_materializeBounds_adds: "lf_materializeBounds T s = Inr s' \<Longrightarrow> lf_adds s s'"
  by (auto simp: lf_materializeBounds_def bindE_eq_Inr dest: lf_materialize_adds)

interpretation lowfat_code: code_keeper lowfat_mechanism lf_keeps
proof
  show "lf_keeps s s" for s by (simp add: lf_keeps_def only_adds_keeps)
  show "lf_keeps s u" if "lf_keeps s t" "lf_keeps t u" for s t u
    using that unfolding lf_keeps_def by (rule keeps_code_trans)
qed (auto simp: lowfat_mechanism_def
    intro: lf_keepsI lf_insertWitnesses_adds lf_phi_adds lf_select_adds lf_clone_adds
      lf_materializeBounds_adds lf_incoming_keeps lf_insertCheck_adds)

section \<open>Explicit bounds\<close>


section \<open>Checks\<close>

lemma lf_check_call_cases:
  assumes "lf_check_call T loc W castVal s = Inr s'"
  obtains (undef) "\<not> isCheck T" and "is_undef (lf_mod s) (LWitnessValue W)" and "is_undef (lf_mod s) castVal" and "s' = s"
    | (call) c fn args where "lf_lift (insertCallNoName (Before loc) fn args) s = Inr (c, s')"
        and "fn = (if isCheck T then CheckDerefFunction s else CheckOOBFunction s)"
        and "args = [LWitnessValue W, castVal] @ (if isCheck T then [the (access_size (lf_mod s) T)] else [])"
proof (cases "isCheck T")
  case True
  with assms obtain sz c where "access_size (lf_mod s) T = Some sz"
    "lf_lift (insertCallNoName (Before loc) (CheckDerefFunction s) [LWitnessValue W, castVal, sz]) s = Inr (c, s')"
    by (auto simp: lf_check_call_def bindE_eq_Inr split: option.splits)
  with True show thesis by (intro call) auto
next
  case False
  show thesis
  proof (cases "is_undef (lf_mod s) (LWitnessValue W)")
    case True
    with assms False have "is_undef (lf_mod s) castVal \<and> s = s'"
      by (auto simp: lf_check_call_def bindE_eq_Inr assertE_eq_Inr)
    then have u: "is_undef (lf_mod s) castVal" "s' = s" by blast+
    show thesis by (rule undef [OF False True u])
  next
    case undef: False
    with assms False obtain c where
      "lf_lift (insertCallNoName (Before loc) (CheckOOBFunction s) [LWitnessValue W, castVal]) s = Inr (c, s')"
      by (auto simp: lf_check_call_def bindE_eq_Inr)
    with False show thesis by (intro call) auto
  qed
qed


end
