(* ===== verification/LowfatSetupLaws.thy ===== *)
theory LowfatSetupLaws
  imports LowfatLaws BlockCalls
begin

text \<open>
  What the set-up of the lowfat mechanism gives the objects it moves: a size class that is strictly
  larger than the object but at most twice as large, the alignment of the class, and for an alloca
  that every user gets the new address. The size classes are those the run time documents, the
  powers of two (\<open>size_table\<close>).
\<close>

section \<open>Size classes\<close>

definition size_table :: "lf_sizes \<Rightarrow> bool" where
  "size_table tab \<longleftrightarrow> (\<forall>i. 0 < i \<longrightarrow> i \<le> 63 \<longrightarrow> unat (STACK_SIZES tab i) = 2 ^ (64 - i))"

lemma bit_length_0 [simp]: "bit_length 0 = 0"
  by (simp add: bit_length.simps)

lemma bit_length_bounds: "0 < n \<Longrightarrow> n < 2 ^ bit_length n \<and> 2 ^ bit_length n \<le> 2 * n"
proof (induction n rule: bit_length.induct)
  case (1 n)
  show ?case
  proof (cases "n div 2 = 0")
    case True
    with 1 have "n = 1" by auto
    then show ?thesis by (simp add: bit_length.simps)
  next
    case False
    with 1 have "n div 2 < 2 ^ bit_length (n div 2)" "2 ^ bit_length (n div 2) \<le> 2 * (n div 2)" by auto
    moreover have "bit_length n = Suc (bit_length (n div 2))" by (subst bit_length.simps) (use 1 in simp)
    ultimately show ?thesis by simp linarith
  qed
qed

lemma bit_length_power [simp]: "bit_length (2 ^ k) = Suc k"
  by (induction k) (subst bit_length.simps, simp)+

lemma bit_length_le: "n < 2 ^ k \<Longrightarrow> bit_length n \<le> k"
proof -
  assume n: "n < 2 ^ k"
  show ?thesis
  proof (cases "n = 0")
    case False
    then have "2 ^ bit_length n \<le> 2 * n" using bit_length_bounds by simp
    also have "\<dots> < 2 ^ Suc k" using n by simp
    finally have "bit_length n < Suc k" by (simp only: power_strict_increasing_iff)
    then show ?thesis by simp
  qed simp
qed

lemma clzll_class:
  assumes "clzll n = Inr i" and "n < 2 ^ 64" and "size_table tab" and "m < i"
  shows "unat (STACK_SIZES tab i) = 2 ^ bit_length n" and "n < 2 ^ bit_length n" and "2 ^ bit_length n \<le> 2 * n"
proof -
  from assms(1) have n: "0 < n" "i = 64 - bit_length n" by (auto simp: clzll_def split: if_splits)
  have "bit_length n \<le> 64" by (rule bit_length_le [OF assms(2)])
  moreover have "0 < bit_length n" by (subst bit_length.simps) (use n in simp)
  ultimately have "0 < i" "i \<le> 63" "64 - i = bit_length n" using n assms(4) by auto
  with assms(3) show "unat (STACK_SIZES tab i) = 2 ^ bit_length n" by (simp add: size_table_def)
  show "n < 2 ^ bit_length n" "2 ^ bit_length n \<le> 2 * n" using bit_length_bounds [OF n(1)] by simp_all
qed

section \<open>Global variables\<close>

definition low_fat :: "nat \<Rightarrow> global_attrs \<Rightarrow> bool" where
  "low_fat n gv \<longleftrightarrow>
     (\<exists>k a. n < 2 ^ k \<and> 2 ^ k \<le> 2 * n \<and>
        gv_section gv = Some (''lf_section_'' @ (if gv_constant gv then ''read_only_'' else '''') @ to_string (2 ^ k)) \<and>
        gv_align gv = Some a \<and> 2 ^ k \<le> a \<and> \<not> gv_unnamed_addr gv)"

lemma instrumentGlobal_low_fat:
  assumes "lf_instrumentGlobal tab n gv = Inr gv'" and "n < 2 ^ 64" and "size_table tab"
  shows "low_fat n gv'" and "gv_declaration gv' = gv_declaration gv"
proof -
  from assms(1) obtain i m algn where i: "clzll n = Inr i" and m: "m < i"
    and algn: "mk_align (unat (STACK_SIZES tab i)) = Inr algn"
    and gv': "gv' = gv\<lparr>gv_align := (case gv_align gv of Some c \<Rightarrow> if c < algn then Some algn else Some c | None \<Rightarrow> Some algn),
      gv_unnamed_addr := False,
      gv_section := Some (''lf_section_'' @ (if gv_constant gv then ''read_only_'' else '''') @ to_string (unat (STACK_SIZES tab i)))\<rparr>"
    by (auto simp: lf_instrumentGlobal_def bindE_eq_Inr Let_def split: if_splits)
  note c = clzll_class [OF i assms(2,3) m]
  have "algn = 2 ^ bit_length n" using algn by (auto simp: mk_align_def bindE_eq_Inr c(1))
  then have "\<exists>a. gv_align gv' = Some a \<and> 2 ^ bit_length n \<le> a" by (simp add: gv' split: option.split)
  moreover have "gv_section gv' = Some (''lf_section_'' @ (if gv_constant gv' then ''read_only_'' else '''') @
      to_string (2 ^ bit_length n)) \<and> \<not> gv_unnamed_addr gv'"
    by (simp add: gv' c(1))
  ultimately show "low_fat n gv'" unfolding low_fat_def using c(2,3) by blast
  show "gv_declaration gv' = gv_declaration gv" by (simp add: gv')
qed

definition protected_global :: "ir \<Rightarrow> vid \<Rightarrow> global_attrs \<Rightarrow> bool" where
  "protected_global m g gv \<longleftrightarrow> (\<exists>ty. val_type m g = PointerTy ty \<and> low_fat (type_alloc_size m ty) gv)"

lemma cannot_False:
  assumes "lf_globalCannotBeInstrumented opts gv = Inr b" and "\<not> AllowUnsafeGlobals opts"
  shows "\<not> b" and "gv_section gv = None"
  using assms by (auto simp: lf_globalCannotBeInstrumented_def split: if_splits linkage.splits)

lemma prepare_global:
  assumes "lf_prepare_global g s = Inr s'" and "\<not> AllowUnsafeGlobals (lf_opts s)" and "size_table (lf_table s)"
    and "\<And>ty. type_alloc_size (lf_mod s) ty < 2 ^ 64"
  shows "lf_mod s' = lf_mod s" and "lf_opts s' = lf_opts s" and "lf_table s' = lf_table s"
    and "\<And>h. h \<noteq> g \<Longrightarrow> lf_globals s' h = lf_globals s h"
    and "gv_declaration (lf_globals s' g) = gv_declaration (lf_globals s g)"
    and "\<not> gv_declaration (lf_globals s g) \<Longrightarrow>
      protected_global (lf_mod s) g (lf_globals s' g) \<and> gv_section (lf_globals s g) = None"
proof -
  let ?gv = "lf_globals s g"
  have *: "lf_mod s' = lf_mod s \<and> lf_opts s' = lf_opts s \<and> lf_table s' = lf_table s \<and>
    (\<forall>h. h \<noteq> g \<longrightarrow> lf_globals s' h = lf_globals s h) \<and> gv_declaration (lf_globals s' g) = gv_declaration ?gv \<and>
    (\<not> gv_declaration ?gv \<longrightarrow> protected_global (lf_mod s) g (lf_globals s' g) \<and> gv_section ?gv = None)"
  proof (cases "gv_declaration ?gv")
    case True
    with assms(1) show ?thesis by (simp add: lf_prepare_global_def)
  next
    case False
    let ?gv1 = "if gv_linkage ?gv = CommonLinkage \<and> TransformCommonToWeakLinkage (lf_opts s)
      then ?gv\<lparr>gv_linkage := WeakAnyLinkage\<rparr> else ?gv"
    from assms(1) False obtain b where b: "lf_globalCannotBeInstrumented (lf_opts s) ?gv1 = Inr b"
      by (auto simp: lf_prepare_global_def Let_def bindE_eq_Inr)
    note nb = cannot_False [OF b assms(2)]
    from assms(1) False b nb(1) obtain ty gv2 where ty: "val_type (lf_mod s) g = PointerTy ty"
      and gv2: "lf_instrumentGlobal (lf_table s) (type_alloc_size (lf_mod s) ty) ?gv1 = Inr gv2"
      and s': "s' = s\<lparr>lf_globals := (lf_globals s)(g := gv2)\<rparr>"
      by (auto simp: lf_prepare_global_def Let_def bindE_eq_Inr split: type_desc.splits)
    note lf = instrumentGlobal_low_fat [OF gv2 assms(4,3)]
    have "gv_section ?gv = None" using nb(2) by (simp split: if_splits)
    moreover have "gv_declaration gv2 = gv_declaration ?gv" using lf(2) by simp
    moreover have "protected_global (lf_mod s) g gv2" using ty lf(1) by (auto simp: protected_global_def)
    ultimately show ?thesis by (simp add: s')
  qed
  then show "lf_mod s' = lf_mod s" "lf_opts s' = lf_opts s" "lf_table s' = lf_table s"
    "\<And>h. h \<noteq> g \<Longrightarrow> lf_globals s' h = lf_globals s h"
    "gv_declaration (lf_globals s' g) = gv_declaration (lf_globals s g)"
    "\<not> gv_declaration (lf_globals s g) \<Longrightarrow>
      protected_global (lf_mod s) g (lf_globals s' g) \<and> gv_section (lf_globals s g) = None"
    by blast+
qed

lemma prepare_loop:
  assumes "foldE lf_prepare_global gs s = Inr s'" and "\<not> AllowUnsafeGlobals (lf_opts s)" and "size_table (lf_table s)"
    and "\<And>ty. type_alloc_size (lf_mod s) ty < 2 ^ 64"
  shows "(\<forall>g \<in> set gs. \<not> gv_declaration (lf_globals s g) \<longrightarrow> protected_global (lf_mod s) g (lf_globals s' g)) \<and>
    (\<forall>g. g \<notin> set gs \<or> gv_section (lf_globals s g) \<noteq> None \<longrightarrow> lf_globals s' g = lf_globals s g)"
  using assms
proof (induction gs arbitrary: s)
  case (Cons g gs)
  then obtain s1 where 1: "lf_prepare_global g s = Inr s1" "foldE lf_prepare_global gs s1 = Inr s'"
    by (auto simp: bindE_eq_Inr)
  note p = prepare_global [OF 1(1) Cons.prems(2,3,4)]
  have IH: "(\<forall>h \<in> set gs. \<not> gv_declaration (lf_globals s1 h) \<longrightarrow> protected_global (lf_mod s) h (lf_globals s' h)) \<and>
    (\<forall>h. h \<notin> set gs \<or> gv_section (lf_globals s1 h) \<noteq> None \<longrightarrow> lf_globals s' h = lf_globals s1 h)"
    using Cons.IH [OF 1(2)] Cons.prems(2-4) by (simp add: p(1,2,3))
  have decl: "gv_declaration (lf_globals s1 h) = gv_declaration (lf_globals s h)" for h
    using p(4,5) by (cases "h = g") simp_all
  have here: "protected_global (lf_mod s) g (lf_globals s' g)" if d: "\<not> gv_declaration (lf_globals s g)"
  proof -
    have pg: "protected_global (lf_mod s) g (lf_globals s1 g)" using p(6) [OF d] by blast
    then have "gv_section (lf_globals s1 g) \<noteq> None" by (auto simp: protected_global_def low_fat_def)
    then have "lf_globals s' g = lf_globals s1 g" using IH by blast
    with pg show ?thesis by simp
  qed
  have kept: "lf_globals s' h = lf_globals s h" if "h \<notin> set (g # gs) \<or> gv_section (lf_globals s h) \<noteq> None" for h
  proof (cases "h = g")
    case True
    with that have sec: "gv_section (lf_globals s g) \<noteq> None" by simp
    have d: "gv_declaration (lf_globals s g)"
    proof (rule ccontr)
      assume "\<not> gv_declaration (lf_globals s g)"
      with p(6) sec show False by simp
    qed
    then have "s1 = s" using 1(1) by (simp add: lf_prepare_global_def)
    with IH sec True show ?thesis by blast
  next
    case False
    then have "lf_globals s1 h = lf_globals s h" by (rule p(4))
    with IH that False show ?thesis by auto
  qed
  from IH here kept decl show ?case by auto
qed simp


text \<open>
  An object of size zero, a global variable or an alloca, makes the set-up call
  \<open>__builtin_clzll\<close> on zero, which is undefined.
\<close>

theorem lf_zero_size_undefined:
  "lf_instrumentGlobal tab 0 gv = Inl (UndefinedBehavior ''__builtin_clzll(0)'') \<and>
   lf_fixed_alloca alloc 0 s = Inl (UndefinedBehavior ''__builtin_clzll(0)'')"
  by (simp add: lf_instrumentGlobal_def lf_fixed_alloca_def clzll_def)

section \<open>Allocas\<close>

lemma emit_fresh:
  "emit p i ty nm m = (n, m') \<Longrightarrow> n = next_vid m" "insertCall p fn args nm m = Inr (c, m') \<Longrightarrow> c = next_vid m"
proof -
  show "emit p i ty nm m = (n, m') \<Longrightarrow> n = next_vid m" by (rule emit_fields(1))
  show "insertCall p fn args nm m = Inr (c, m') \<Longrightarrow> c = next_vid m"
    by (auto simp: insertCall_def emit_def new_value_def Let_def bindE_eq_Inr)
qed

text \<open>
  The program after the replacement: \<open>m'\<close> has the instructions of \<open>m\<close>, in order and with new ones
  between them, but without \<open>old\<close>, and nothing uses \<open>old\<close> any more.
\<close>

definition alloca_replaced :: "vid \<Rightarrow> ir \<Rightarrow> ir \<Rightarrow> bool" where
  "alloca_replaced old m m' \<longleftrightarrow>
     (\<forall>b. filter (\<lambda>v. v < next_vid m) (bb_insts m' b) = filter (\<lambda>v. v \<noteq> old) (bb_insts m b)) \<and>
     (\<forall>v i. get_inst m' v = Some i \<longrightarrow> old \<notin> set (operands i))"

lemma mirror_replaces:
  assumes r: "lf_mirrorPointerAndReplaceAlloca fn old newAlloc off m = Inr m'" and old: "old < next_vid m"
    and fold_op: "\<And>oper args ty. fold_op m oper args ty \<noteq> Some old"
  shows "\<exists>m3 ptr. only_adds m m3 \<and> ptr \<noteq> old \<and> m' = remove_from_parent old (replace_uses old ptr m3)"
proof -
  obtain c m1 where c: "emit_op (Before old) ''bitcast'' [newAlloc] (BitCast newAlloc) (PtrArgType m) [] m = (c, m1)"
    by (metis surj_pair)
  from r c obtain mp m2 where i: "insertCall (Before old) fn [c, off] ''lf.mirror'' m1 = Inr (mp, m2)"
    by (auto simp: lf_mirrorPointerAndReplaceAlloca_def bindE_eq_Inr Let_def)
  let ?ty = "v_type (vals m2 old)"
  obtain ptr m3 where p: "(if ?ty \<noteq> v_type (vals m2 mp) then emit_op (Before old) ''bitcast'' [mp] (BitCast mp) ?ty [] m2
      else (mp, m2)) = (ptr, m3)"
    by (metis surj_pair)
  from r c i p have m': "m' = remove_from_parent old (replace_uses old ptr m3)"
    by (auto simp: lf_mirrorPointerAndReplaceAlloca_def Let_def)
  have a1: "only_adds m m1" by (rule only_adds_emit_op [OF c])
  have a2: "only_adds m1 m2" by (rule only_adds_insertCall [OF i])
  have a3: "only_adds m2 m3" using p by (auto simp: only_adds_emit_op split: if_splits)
  have le: "next_vid m \<le> next_vid m1" "next_vid m1 \<le> next_vid m2" using a1 a2 by (simp_all add: only_adds_def)
  have mp: "mp \<noteq> old" using emit_fresh(2) [OF i] le old by simp
  have f: "fold_op m2 = fold_op m"
  proof -
    have "fold_op m1 = fold_op m"
      using c by (auto simp: emit_op_def emit_def new_value_def Let_def split: option.splits)
    moreover have "fold_op m2 = fold_op m1"
      using i by (auto simp: insertCall_def emit_def new_value_def Let_def bindE_eq_Inr setNoInstrument_def
          addMIMetadata_def set_metadata_def split: if_splits)
    ultimately show ?thesis by simp
  qed
  have "ptr \<noteq> old"
  proof (cases "?ty \<noteq> v_type (vals m2 mp)")
    case True
    with p have e: "emit_op (Before old) ''bitcast'' [mp] (BitCast mp) ?ty [] m2 = (ptr, m3)" by simp
    show ?thesis
    proof (cases "fold_op m2 ''bitcast'' [mp] ?ty")
      case None
      with e have "emit (Before old) (BitCast mp) ?ty [] m2 = (ptr, m3)" by (simp add: emit_op_def)
      from emit_fresh(1) [OF this] le old show ?thesis by simp
    next
      case (Some x)
      with e fold_op [of "''bitcast''" "[mp]" ?ty] show ?thesis by (auto simp: emit_op_def f)
    qed
  next
    case False
    with p mp show ?thesis by simp
  qed
  with m' only_adds_trans [OF only_adds_trans [OF a1 a2] a3] show ?thesis by blast
qed

lemma replaced_alloca:
  assumes a: "only_adds m m3" and ne: "ptr \<noteq> old" and pl: "placed m old"
    and once: "\<And>b. old \<in> set (bb_insts m b) \<Longrightarrow> b = inst_bb m old"
  shows "alloca_replaced old m (remove_from_parent old (replace_uses old ptr m3))"
  unfolding alloca_replaced_def
proof (intro conjI allI impI)
  have fr: "fresh_ids m" "old \<in> set (bb_insts m (inst_bb m old))" using pl by (simp_all add: placed_def)
  then have lt: "old < next_vid m" by (simp add: fresh_ids_def)
  have bb: "inst_bb m3 old = inst_bb m old" using only_addsD(3) [OF a lt] .
  fix b
  have same: "filter (\<lambda>v. v < next_vid m) (bb_insts m3 b) = bb_insts m b" by (rule only_addsD(2) [OF a fr(1)])
  let ?m' = "remove_from_parent old (replace_uses old ptr m3)"
  show "filter (\<lambda>v. v < next_vid m) (bb_insts ?m' b) = filter (\<lambda>v. v \<noteq> old) (bb_insts m b)"
  proof (cases "b = inst_bb m old")
    case True
    then have "filter (\<lambda>v. v < next_vid m) (bb_insts ?m' b) = filter (\<lambda>v. v \<noteq> old) (filter (\<lambda>v. v < next_vid m) (bb_insts m3 b))"
      by (simp add: bb conj_commute)
    with same show ?thesis by simp
  next
    case False
    then have "old \<notin> set (bb_insts m b)" using once by blast
    then have "filter (\<lambda>v. v \<noteq> old) (bb_insts m b) = bb_insts m b" by (auto simp: filter_id_conv)
    with same False show ?thesis by (simp add: bb)
  qed
next
  fix v i assume "get_inst (remove_from_parent old (replace_uses old ptr m3)) v = Some i"
  then show "old \<notin> set (operands i)" using no_use_left [OF ne] by simp
qed


end
