(* ===== verification/LowfatRuns.thy ===== *)
theory LowfatRuns
  imports LowfatSetupLaws
begin

text \<open>
  Concrete runs of the lowfat mechanism on the program of \<open>Demo\<close> with the size classes of the run time.
\<close>

definition demo_sizes :: lf_sizes where
  "demo_sizes =
     \<lparr>MAX_GLOBAL_ALLOC_SIZE = 2 ^ 30, MAX_STACK_ALLOC_SIZE = 2 ^ 30, STACK_SIZES = (\<lambda>i. 2 ^ (64 - i)),
      STACK_MASKS = (\<lambda>i. - (2 ^ (64 - i))), STACK_OFFSETS = (\<lambda>i. 0)\<rparr>"

definition demo_lowfat :: lowfat_state where
  "demo_lowfat =
     \<lparr>lf_mod = demo\<lparr>mod_globals := [2]\<rparr>,
      lf_opts = \<lparr>NoGlobalVarProtection = False, AllowUnsafeGlobals = False, TransformCommonToWeakLinkage = False,
        NoStackProtection = False, NoVLAProtection = False, LazyBase = False\<rparr>,
      lf_table = demo_sizes,
      lf_globals = (\<lambda>_. \<lparr>gv_linkage = InternalLinkage, gv_section = None, gv_align = Some 4, gv_unnamed_addr = True,
        gv_constant = False, gv_declaration = False\<rparr>),
      lf_alloca_align = (\<lambda>_. 4),
      lf_witnesses = [0 \<mapsto> \<lparr>LWitnessValue = 2, LUpperBound = Some 5, LLowerBound = Some 6, LLocation = 3\<rparr>],
      lf_next_wid = 1, lf_failFunction = (89, 0), lf_verboseFailFunction = (90, 0), CheckDerefFunction = (91, 0),
      CheckOOBFunction = (92, 0), CalcBaseFunction = (93, 4), LfGetUpperBoundFunction = (94, 4),
      LfGetLowerBoundFunction = (95, 4), StackMirrorFunction = (96, 4), StackSizesFunction = (97, 6),
      StackOffsetFunction = (98, 6), StackMaskFunction = (99, 4)\<rparr>"

lemma unat_power_word: "k < 64 \<Longrightarrow> unat (2 ^ k :: 64 word) = 2 ^ k"
proof -
  assume k: "k < 64"
  have "unat (word_of_nat (2 ^ k) :: 64 word) = 2 ^ k mod 2 ^ 64" using unat_of_nat [of "2 ^ k", where 'a = 64] by simp
  also have "\<dots> = (2 ^ k :: nat)" by (rule mod_less) (rule power_strict_increasing [OF k], simp)
  finally show ?thesis by simp
qed

lemma demo_size_table: "size_table demo_sizes"
  by (simp add: size_table_def demo_sizes_def unat_power_word)

lemma bit_length_numerals [simp]: "bit_length 4 = 3" "bit_length 8 = 4" "bit_length 16 = 5" "bit_length 1073741824 = 31"
  using bit_length_power [of 2] bit_length_power [of 3] bit_length_power [of 4] bit_length_power [of 30] by simp_all

lemma demo_lowfat_fields:
  "lf_mod demo_lowfat = demo\<lparr>mod_globals := [2]\<rparr>" "lf_table demo_lowfat = demo_sizes"
  "\<not> AllowUnsafeGlobals (lf_opts demo_lowfat)" "\<not> TransformCommonToWeakLinkage (lf_opts demo_lowfat)"
  by (simp_all add: demo_lowfat_def)

lemma demo_prepares: "\<exists>s'. lf_prepareGlobals demo_lowfat = Inr s'"
proof -
  let ?gv = "lf_globals demo_lowfat 2"
  have gv: "\<not> gv_declaration ?gv" "gv_linkage ?gv = InternalLinkage" "gv_section ?gv = None"
    by (simp_all add: demo_lowfat_def)
  have ty: "val_type (lf_mod demo_lowfat) 2 = PointerTy 2" "type_alloc_size (lf_mod demo_lowfat) 2 = 4"
    "mod_globals (lf_mod demo_lowfat) = [2]"
    by (simp_all add: demo_lowfat_def demo_def demo_value_def demo_type_def)
  have "\<exists>gv'. lf_instrumentGlobal demo_sizes 4 ?gv = Inr gv'"
    by (simp add: lf_instrumentGlobal_def clzll_def demo_sizes_def mk_align_def Let_def)
  then obtain gv' where "lf_instrumentGlobal demo_sizes 4 ?gv = Inr gv'" by blast
  then show ?thesis
    by (simp add: lf_prepareGlobals_def lf_prepare_global_def lf_globalCannotBeInstrumented_def Let_def gv ty
        demo_lowfat_fields(2,3,4))
qed


lemma mirror_total: "\<exists>m'. lf_mirrorPointerAndReplaceAlloca fn old new off m = Inr m'"
proof -
  obtain c m1 where c: "emit_op (Before old) ''bitcast'' [new] (BitCast new) (PtrArgType m) [] m = (c, m1)"
    by (metis surj_pair)
  obtain mp m2 where "insertCall (Before old) fn [c, off] ''lf.mirror'' m1 = Inr (mp, m2)" using insertCall_total by blast
  with c show ?thesis by (simp add: lf_mirrorPointerAndReplaceAlloca_def Let_def case_prod_unfold)
qed

lemma demo_alloca_runs: "\<exists>s'. lf_fixed_alloca 3 64 demo_lowfat = Inr s' \<and> s' \<noteq> demo_lowfat"
proof -
  have a: "clzll (64 div 8) = Inr 60" "clzll (MAX_STACK_ALLOC_SIZE demo_sizes) = Inr 33"
    by (simp_all add: clzll_def demo_sizes_def)
  have "not (STACK_MASKS demo_sizes 60) + 1 = 2 ^ 4" by (simp add: demo_sizes_def not_eq_complement)
  then have b: "mk_align (unat (not (STACK_MASKS demo_sizes 60) + 1)) = Inr 16"
    by (simp add: mk_align_def)
  obtain new m1 where e: "emit (Before 3) (Alloca (ctx_ty (lf_mod demo_lowfat) ''i8'')
       (const_int (lf_mod demo_lowfat) (SizeType (lf_mod demo_lowfat)) (unat (STACK_SIZES demo_sizes 60))))
      (ctx_ty (lf_mod demo_lowfat) ''i8*'') ''lf.alloc'' (lf_mod demo_lowfat) = (new, m1)" by (metis surj_pair)
  obtain m2 where m: "lf_mirrorPointerAndReplaceAlloca (StackMirrorFunction demo_lowfat) 3 new
      (const_int (lf_mod demo_lowfat) (SizeType (lf_mod demo_lowfat)) (unat (STACK_OFFSETS demo_sizes 60))) m1 = Inr m2"
    using mirror_total by blast
  have "lf_fixed_alloca 3 64 demo_lowfat = Inr (demo_lowfat\<lparr>lf_mod := m2, lf_alloca_align :=
      (lf_alloca_align demo_lowfat)(new := max 16 (lf_alloca_align demo_lowfat 3))\<rparr>)"
    using a b e m by (simp add: lf_fixed_alloca_def demo_lowfat_fields(2) Let_def)
  moreover have "lf_alloca_align (demo_lowfat\<lparr>lf_mod := m2, lf_alloca_align :=
      (lf_alloca_align demo_lowfat)(new := max 16 (lf_alloca_align demo_lowfat 3))\<rparr>) new \<noteq> lf_alloca_align demo_lowfat new"
    by (simp add: demo_lowfat_def)
  ultimately show ?thesis by metis
qed


definition demo_deref :: itarget where
  "demo_deref = demo_target\<lparr>boundWitnesses := [(0, Some 0)]\<rparr>"

lemma demo_deref_fields:
  "isValid demo_deref" "isCheck demo_deref" "getLocation demo_deref = Inr 5" "getInstrumentee demo_deref = Inr 3"
  "getSingleBoundWitness demo_deref = Inr (Some 0)" "location demo_deref = 5"
  by code_simp+

lemma demo_deref_size: "\<exists>sz. access_size m demo_deref = Some sz"
  by (simp add: access_size_def demo_deref_def demo_target_def it_ctor_defs isVarSizeCheckIT_def isConstSizeCheckIT_def)

lemma demo_lf_check_runs: "\<exists>s'. lf_insertCheck demo_deref demo_lowfat = Inr s'"
proof -
  obtain c s1 where 1: "lf_lift (insertCastNoSuffix (PtrArgType (lf_mod demo_lowfat)) 3 (Before 5)) demo_lowfat = Inr (c, s1)"
    using insertCast_total [of "PtrArgType (lf_mod demo_lowfat)" 3 "Before 5" "''_casted''" "lf_mod demo_lowfat"]
    by (auto simp: lf_lift_def insertCastNoSuffix_def)
  have w: "\<exists>W. lf_witnesses demo_lowfat 0 = Some W" by (simp add: demo_lowfat_def)
  obtain sz where sz: "access_size (lf_mod s1) demo_deref = Some sz" using demo_deref_size by blast
  have x: "\<exists>s'. bindE (lf_lift (insertCallNoName (Before 5) fn args) s1) (\<lambda>(_, s2). Inr s2) = Inr (s' :: lowfat_state)" for fn args
    using insertCall_total [of "Before 5" fn args "''inserted.call''" "lf_mod s1"]
    by (auto simp: lf_lift_def insertCallNoName_def)
  from w obtain W where "lf_witnesses demo_lowfat 0 = Some W" by blast
  then show ?thesis using x
    by (simp add: lf_insertCheck_def lf_check_call_def demo_deref_fields cast_lf_def deref_def 1 sz)
qed


text \<open>The second witness of the target has no bounds and gets none.\<close>

definition demo_two :: itarget where
  "demo_two = demo_bounds\<lparr>boundWitnesses := [(0, Some 0), (1, Some 1)]\<rparr>"

definition demo_lowfat_two :: lowfat_state where
  "demo_lowfat_two = demo_lowfat\<lparr>lf_witnesses := (lf_witnesses demo_lowfat)
     (1 \<mapsto> \<lparr>LWitnessValue = 2, LUpperBound = None, LLowerBound = None, LLocation = 3\<rparr>)\<rparr>"


end
