(* ===== verification/SetupRuns.thy ===== *)
theory SetupRuns
  imports DeobfuscateLaws VarargLaws ByvalLaws LowfatRuns
begin

text \<open>
  Concrete runs of the preparation of a module, on small functions.
\<close>

section \<open>Small functions\<close>

definition demo_code :: "(vid \<Rightarrow> value_kind \<times> tyid) \<Rightarrow> vid list \<Rightarrow> ir" where
  "demo_code val insts =
     demo\<lparr>types := (\<lambda>t. if t = 8 then PointerTy 6 else if t = 9 then StructTy (Some ''struct.__va_list_tag'') []
                       else if t = 10 then PointerTy 9 else demo_type t),
          vals := (\<lambda>v. \<lparr>v_kind = fst (val v), v_type = snd (val v), v_name = [], v_md = Map.empty\<rparr>),
          bb_insts := (\<lambda>b. if b = 0 then insts else [])\<rparr>"

lemma demo_code_fields [simp]:
  "types (demo_code val insts) = (\<lambda>t. if t = 8 then PointerTy 6 else if t = 9 then StructTy (Some ''struct.__va_list_tag'') []
      else if t = 10 then PointerTy 9 else demo_type t)"
  "v_kind (vals (demo_code val insts) v) = fst (val v)" "v_type (vals (demo_code val insts) v) = snd (val v)"
  "v_name (vals (demo_code val insts) v) = []" "v_md (vals (demo_code val insts) v) = Map.empty"
  "bb_insts (demo_code val insts) = (\<lambda>b. if b = 0 then insts else [])"
  "use_order (demo_code val insts) = (\<lambda>us. us)" "mod_functions (demo_code val insts) = [1]"
  "fun_blocks (demo_code val insts) = (\<lambda>f. if f = 1 then [0] else [])" "ptr_bits (demo_code val insts) = 64"
  "fun_args (demo_code val insts) = (\<lambda>f. if f = 1 then [2] else [])"
  "next_vid (demo_code val insts) = 100" "inst_bb (demo_code val insts) = (\<lambda>_. 0)"
  "bb_fun (demo_code val insts) = (\<lambda>_. 1)"
  by (simp_all add: demo_code_def demo_def)

lemma demo_code_uses_ok: "uses_ok (demo_code val insts)"
  by (simp add: uses_ok_def)

lemma demo_code_insts [simp]: "all_insts (demo_code val insts) = insts" "fun_insts (demo_code val insts) 1 = insts"
  by (simp_all add: all_insts_def fun_insts_def)

lemma demo_code_inst [simp]:
  "get_inst (demo_code val insts) v = (case fst (val v) of Inst i \<Rightarrow> Some i | _ \<Rightarrow> None)"
  by (simp add: get_inst_def)

lemma demo_code_users:
  "users (demo_code val insts) v =
     concat (map (\<lambda>i. replicate (case fst (val i) of Inst k \<Rightarrow> count_list (operands k) v | _ \<Rightarrow> 0) i) insts)"
  by (simp add: users_def uses_in_def) (rule arg_cong [where f = concat], simp split: value_kind.split)

definition demo_setup :: setup_options where
  "demo_setup =
     \<lparr>KeepLifeTimeIntrinsics = False, LabelAccesses = True, NoTransformObfuscatedPointer = False,
      NoConvertByValArgs = False, FunctionsToSkip = [], skip_file = None, address_order = (\<lambda>us. us)\<rparr>"

section \<open>Pointers as integers\<close>

text \<open>A loaded integer that goes through a phi before it becomes a pointer.\<close>

definition demo_phi :: ir where
  "demo_phi = demo_code (\<lambda>v.
     if v = 2 then (Argument, 8) else if v = 3 then (Inst (Load 2), 6) else if v = 4 then (Inst (PHI [(3, 0)]), 6)
     else if v = 5 then (Inst (IntToPtr 4), 4) else if v = 6 then (Inst (Ret None), 0) else (OtherValue, 0)) [3, 4, 5, 6]"

theorem valIsActuallyPtr_iff_witness: "valIsActuallyPtr demo_phi 3 = Inr False"
proof -
  have u: "users demo_phi 3 = [4]" by (simp add: demo_phi_def demo_code_users)
  have "\<not> cast_to_pointer demo_phi 3"
    by (subst cast_to_pointer_simps) (simp add: u, simp add: demo_phi_def)
  moreover have "val_type demo_phi 3 = IntegerTy 64" by (simp add: demo_phi_def demo_type_def)
  moreover have "uses_ok demo_phi" by (simp add: demo_phi_def demo_code_uses_ok)
  ultimately show ?thesis using valIsActuallyPtr_iff by simp
qed

text \<open>The address of the load is cast to a pointer to a pointer after the load.\<close>

definition demo_cast :: ir where
  "demo_cast = demo_code (\<lambda>v.
     if v = 2 then (Argument, 8) else if v = 3 then (Inst (Load 2), 6) else if v = 4 then (Inst (BitCast 2), 7)
     else if v = 5 then (Inst (Load 4), 4) else if v = 6 then (Inst (Ret None), 0) else (OtherValue, 0)) [3, 4, 5, 6]"

theorem valCastedBeforeLoad_users_dead_witness:
  "4 \<in> set (users demo_cast 2) \<and> isPtrToPtrTy demo_cast (ty_of demo_cast 4) \<and> \<not> valCastedBeforeLoad demo_cast 3"
proof -
  have "uses_ok demo_cast" "load_typed demo_cast 3 2" "int_typed demo_cast 3"
    by (simp_all add: demo_cast_def demo_code_uses_ok load_typed_def int_typed_def demo_type_def)
  from valCastedBeforeLoad_users_dead [OF this]
  have "valCastedBeforeLoad demo_cast 3 = cast_source_is_ptr demo_cast 2" by simp
  then show ?thesis
    by (simp add: cast_source_is_ptr_def) (simp add: demo_cast_def demo_code_users isPtrToPtrTy_def demo_type_def)
qed

text \<open>A call returns a pointer as an integer, which is stored and cast.\<close>

definition demo_call_ptr :: ir where
  "demo_call_ptr = demo_code (\<lambda>v.
     if v = 2 then (Argument, 8)
     else if v = 3 then (Inst (Call \<lparr>called_operand = 9, called_function = None, call_args = []\<rparr> None), 6)
     else if v = 4 then (Inst (IntToPtr 3), 4) else if v = 5 then (Inst (Store 3 2), 0)
     else if v = 6 then (Inst (Ret None), 0) else (OtherValue, 0)) [3, 4, 5, 6]"

text \<open>An obfuscated load that is stored twice.\<close>

definition demo_two_stores :: ir where
  "demo_two_stores = demo_code (\<lambda>v.
     if v = 2 then (Argument, 8) else if v = 3 then (Inst (Load 2), 6) else if v = 4 then (Inst (IntToPtr 3), 4)
     else if v = 5 then (Inst (Store 3 2), 0) else if v = 6 then (Inst (Store 3 2), 0)
     else if v = 7 then (Inst (Ret None), 0) else (OtherValue, 0)) [3, 4, 5, 6, 7]"

lemma demo_int_ptr:
  assumes "m = demo_call_ptr \<or> m = demo_two_stores"
  shows "valIsActuallyPtr m 3 = Inr True" and "val_type m 3 = IntegerTy 64"
proof -
  show t: "val_type m 3 = IntegerTy 64"
    using assms by (auto simp: demo_call_ptr_def demo_two_stores_def demo_type_def)
  have "4 \<in> set (users m 3)" "get_inst m 4 = Some (IntToPtr 3)"
    using assms by (auto simp: demo_call_ptr_def demo_two_stores_def demo_code_users)
  then have "cast_to_pointer m 3" by (rule cast_direct)
  moreover have "uses_ok m" using assms by (auto simp: demo_call_ptr_def demo_two_stores_def demo_code_uses_ok)
  ultimately show "valIsActuallyPtr m 3 = Inr True" using valIsActuallyPtr_eq t by simp
qed

lemma demo_search_value:
  assumes "m = demo_call_ptr \<or> m = demo_two_stores"
  shows "getSrcIfHasUsageAsPtr m 3 = Inr (Some 3)"
proof -
  have "used_as_ptr m 3 = Inr True"
    using assms demo_int_ptr [OF assms]
    by (auto simp: used_as_ptr_def demo_call_ptr_def demo_two_stores_def is_call_inst_def is_load_def)
  moreover obtain n where "search_fuel (push_related m) m (3 # bitcast_sources m) = Suc n"
    by (simp add: search_fuel_def)
  ultimately show ?thesis by (simp add: getSrcIfHasUsageAsPtr_def)
qed

lemma demo_call_collected:
  "foldE (collect_obfuscated demo_call_ptr) (bb_insts demo_call_ptr 0) ([], []) = Inr ([(5, 3)], [])"
proof -
  have f: "bb_insts demo_call_ptr 0 = [3, 4, 5, 6]" "get_inst demo_call_ptr 4 = Some (IntToPtr 3)"
    "get_inst demo_call_ptr 5 = Some (Store 3 2)" "get_inst demo_call_ptr 6 = Some (Ret None)"
    "\<exists>ci. get_inst demo_call_ptr 3 = Some (Call ci None)"
    by (simp_all add: demo_call_ptr_def)
  moreover have "isIntegerTypeWithPtrWidth demo_call_ptr (ty_of demo_call_ptr 3)"
    by (simp add: isIntegerTypeWithPtrWidth_def) (simp add: demo_call_ptr_def demo_type_def)
  ultimately show ?thesis using demo_search_value [of demo_call_ptr] by (auto simp: collect_obfuscated_def)
qed

theorem obfuscated_stores_untouched_witness:
  "transform_block demo_setup 0 (demo_call_ptr, []) = Inr (demo_call_ptr, [])"
proof -
  have "transformObfuscatedStore (5, 3) (demo_call_ptr, []) = Inr (demo_call_ptr, [])"
    by (simp add: transformObfuscatedStore_def is_load_def) (simp add: demo_call_ptr_def)
  then have "\<exists>md'. transform_block demo_setup 0 (demo_call_ptr, []) = Inr md'"
    by (simp add: transform_block_def demo_call_collected by_address_def demo_setup_def map_filter_def)
  then obtain md' where r: "transform_block demo_setup 0 (demo_call_ptr, []) = Inr md'" by blast
  have "ptrtoint_typed demo_call_ptr" by (simp add: ptrtoint_typed_def demo_call_ptr_def)
  moreover have "distinct (bb_insts demo_call_ptr 0)" by (simp add: demo_call_ptr_def)
  moreover have "set (address_order demo_setup us) = set us" for us by (simp add: demo_setup_def)
  ultimately show ?thesis using obfuscated_stores_untouched [OF demo_call_collected _ _ _ r] r by simp
qed

lemma demo_two_collected:
  "foldE (collect_obfuscated demo_two_stores) (bb_insts demo_two_stores 0) ([], []) = Inr ([(5, 3), (6, 3)], [3])"
proof -
  have f: "bb_insts demo_two_stores 0 = [3, 4, 5, 6, 7]" "get_inst demo_two_stores 3 = Some (Load 2)"
    "get_inst demo_two_stores 4 = Some (IntToPtr 3)" "get_inst demo_two_stores 5 = Some (Store 3 2)"
    "get_inst demo_two_stores 6 = Some (Store 3 2)" "get_inst demo_two_stores 7 = Some (Ret None)"
    by (simp_all add: demo_two_stores_def)
  moreover have "isIntegerTypeWithPtrWidth demo_two_stores (ty_of demo_two_stores 3)"
    by (simp add: isIntegerTypeWithPtrWidth_def) (simp add: demo_two_stores_def demo_type_def)
  ultimately show ?thesis using demo_search_value [of demo_two_stores] demo_int_ptr [of demo_two_stores]
    by (simp add: collect_obfuscated_def)
qed

theorem two_stores_of_load_fail_witness: "isl (transform_block demo_setup 0 (demo_two_stores, []))"
proof -
  have "distinct (bb_insts demo_two_stores 0)" by (simp add: demo_two_stores_def)
  moreover have "mset (address_order demo_setup us) = mset us" for us by (simp add: demo_setup_def)
  ultimately have "transform_block demo_setup 0 (demo_two_stores, []) \<noteq> Inr md'" for md'
    using two_stores_of_load_fail [OF demo_two_collected, of demo_setup 5 3 6] by simp
  then show ?thesis by (metis sum.collapse(2))
qed

section \<open>Labels\<close>

text \<open>What \<open>getAsInteger\<close> reads.\<close>

definition decimal :: "string \<Rightarrow> nat option" where
  "decimal s = Some (foldl (\<lambda>n c. 10 * n + (of_char c - 48)) 0 s)"

lemma decimal_to_string: "decimal (to_string n) = Some n"
proof (induction n rule: to_string.induct)
  case (1 n)
  have d: "k < 10 \<Longrightarrow> of_char (char_of (48 + k :: nat)) - 48 = k" for k by (simp add: of_char_of)
  show ?case
  proof (cases "n < 10")
    case True
    then show ?thesis by (subst to_string.simps) (simp add: decimal_def d)
  next
    case False
    with 1 have "foldl (\<lambda>n c. 10 * n + (of_char c - 48)) 0 (to_string (n div 10)) = n div 10"
      by (simp add: decimal_def)
    with False show ?thesis by (subst to_string.simps) (simp add: decimal_def d)
  qed
qed

theorem labelAccesses_roundtrip_witness:
  "getAccessID (labelAccesses 1 (demo\<lparr>get_as_integer := decimal\<rparr>)) 6 = Inr 1"
proof -
  let ?m = "demo\<lparr>get_as_integer := decimal\<rparr>"
  have i: "fun_insts ?m 1 = [3, 4, 5, 6, 7]" by (simp add: fun_insts_def demo_def)
  have a: "[5, 6] = filter (\<lambda>i. is_store ?m i \<or> is_load ?m i) (fun_insts ?m 1)"
    unfolding i by (simp add: is_store_def is_load_def get_inst_def demo_def demo_value_def)
  have g: "get_as_integer ?m (to_string 1) = Some 1" by (simp add: decimal_to_string)
  have "distinct (fun_insts ?m 1)" unfolding i by simp
  from labelAccesses_roundtrip [OF a this _ g] show ?thesis by simp
qed

section \<open>Variable arguments\<close>

text \<open>A \<open>va_list\<close> on the stack, whose address is cast for \<open>va_start\<close>.\<close>

definition demo_vararg :: ir where
  "demo_vararg = demo_code (\<lambda>v.
     if v = 2 then (Argument, 1) else if v = 3 then (Inst (Alloca 9 20), 10) else if v = 4 then (Inst (BitCast 3), 4)
     else if v = 5 then (Inst (Call \<lparr>called_operand = 9, called_function = None, call_args = [4]\<rparr> (Some IntrVastart)), 0)
     else if v = 6 then (Inst (Ret None), 0) else (OtherValue, 0)) [3, 4, 5, 6]"

theorem markVarargInsts_total_witness:
  "\<exists>m'. markVarargInsts (vararg_fuel demo_vararg 1) 1 demo_vararg = Inr (True, m') \<and>
     hasVarArgHandling m' 3 \<and> hasVarArgHandling m' 4"
proof -
  have h: "getVarArgHandles demo_vararg 1 = [3]"
    unfolding getVarArgHandles_def
    by (simp add: demo_vararg_def isVarArgMetadataType_def is_va_list_struct_def demo_type_def Let_def)
  have i: "is_instruction demo_vararg 3" by (simp add: is_instruction_def demo_vararg_def)
  have u: "4 \<in> set (users demo_vararg 3)" by (simp add: demo_vararg_def demo_code_users)
  have g: "get_inst demo_vararg 4 = Some (BitCast 3)" by (simp add: demo_vararg_def)
  have n: "\<not> hasNoInstrument demo_vararg 4"
    by (simp add: hasNoInstrument_def get_metadata_def hasMDStrImpl_def demo_vararg_def)
  have "md_concat_ok demo_vararg" by (auto simp: md_concat_ok_def demo_vararg_def demo_code_def demo_def split: option.split)
  moreover have "uses_ok demo_vararg" by (simp add: demo_vararg_def demo_code_uses_ok)
  ultimately obtain m' where m': "markVarargInsts (vararg_fuel demo_vararg 1) 1 demo_vararg = Inr (True, m')"
    "marks_more demo_vararg m'" "hasVarArgHandling m' 3" "vararg_handled m' 4"
    using markVarargInsts_total [of demo_vararg 1] h i u by auto
  then have s: "same_code demo_vararg m'" "hasNoInstrument m' = hasNoInstrument demo_vararg"
    by (simp_all add: marks_more_def)
  have "get_call m' 4 = None" by (simp add: get_call_def same_code_fields(1) [OF s(1)] g)
  moreover have "get_intrinsic m' 4 = None" by (simp add: get_intrinsic_def same_code_fields(1) [OF s(1)] g)
  ultimately have "hasVarArgHandling m' 4" using m'(4) s(2) n by (simp add: vararg_handled_def isVarArgIntrinsic_def)
  with m' show ?thesis by blast
qed

section \<open>Arguments passed by value\<close>

text \<open>The function has a parameter passed by value and passes it on.\<close>

definition demo_byval :: ir where
  "demo_byval = demo_code (\<lambda>v.
     if v = 2 then (Argument, 4)
     else if v = 3 then (Inst (Call \<lparr>called_operand = 9, called_function = None, call_args = [2]\<rparr> None), 0)
     else if v = 6 then (Inst (Ret None), 0) else (OtherValue, 0)) [3, 6]"

definition demo_byval_attrs :: attr_map where
  "demo_byval_attrs = (\<lambda>v. if v = 1 \<or> v = 3 then \<lparr>fn_attrs = {}, ret_attrs = {}, param_attrs = [{ByVal}]\<rparr> else no_attrs)"

lemma demo_byval_fields:
  "get_call demo_byval 3 = Some \<lparr>called_operand = 9, called_function = None, call_args = [2]\<rparr>"
  "get_call demo_byval 6 = None" "val_type demo_byval 2 = PointerTy 5" "fun_insts demo_byval 1 = [3, 6]"
  "entry_loc demo_byval (parent_fun demo_byval 3) = Inr 3" "next_vid demo_byval = 100"
  "mod_functions demo_byval = [1]" "\<not> is_declaration demo_byval 1"
  unfolding demo_byval_def
  by (simp_all add: get_call_def demo_type_def entry_loc_def first_insertion_pt_def parent_fun_def is_landing_pad_def
      is_declaration_def del: One_nat_def)

lemma demo_byval_call_runs:
  assumes "A = drop_byval_params 1 demo_byval_attrs"
  shows "\<exists>m' A'. transform_byval_call 3 (demo_byval, A) = Inr (m', A')"
proof -
  have a: "hasByValArgument A 3" "ByVal \<in> param_attr (A 3) 0"
    by (simp_all add: assms drop_byval_params_def demo_byval_attrs_def hasByValArgument_def param_attr_def)
  have v: "\<not> call_is_vararg demo_byval \<lparr>called_operand = 9, called_function = None, call_args = [2]\<rparr>"
    by (simp add: call_is_vararg_def) (simp add: demo_byval_def demo_type_def is_var_arg_type_def)
  show ?thesis
    by (simp add: transform_byval_call_def transformCallByValArgs_def transform_byval_arg_def isByValArgument_def
        demo_byval_fields a v case_prod_unfold Let_def)
qed

lemma demo_byval_runs: "\<exists>m' A'. transformByValFunctions (demo_byval, demo_byval_attrs) = Inr (m', A')"
proof -
  let ?A = "drop_byval_params 1 demo_byval_attrs"
  obtain m1 A1 where 1: "transform_byval_call 3 (demo_byval, ?A) = Inr (m1, A1)" using demo_byval_call_runs by blast
  have "attrs_fit demo_byval ?A 3"
    by (simp add: attrs_fit_def arg_count_def demo_byval_fields drop_byval_params_def demo_byval_attrs_def)
  from byval_call [OF 1 _ this] have "calls_kept demo_byval m1" by (simp add: demo_byval_fields)
  then have "arg_count m1 6 = arg_count demo_byval 6" by (simp add: calls_kept_def demo_byval_fields)
  then have "get_call m1 6 = None" by (simp add: arg_count_def demo_byval_fields)
  then have "transform_byval_call 6 (m1, A1) = Inr (m1, A1)" by (simp add: transform_byval_call_def)
  with 1 have "foldE transform_byval_call (fun_insts demo_byval 1) (demo_byval, ?A) = Inr (m1, A1)"
    unfolding demo_byval_fields(4) by simp
  with demo_byval_fields(7,8) show ?thesis
    by (simp add: transformByValFunctions_def transform_byval_function_def del: One_nat_def)
qed

theorem byval_removed_witness:
  "\<exists>m' A'. transformByValFunctions (demo_byval, demo_byval_attrs) = Inr (m', A') \<and>
     hasByValArgument demo_byval_attrs 3 \<and> free_call m' A' 3"
proof -
  obtain m' A' where r: "transformByValFunctions (demo_byval, demo_byval_attrs) = Inr (m', A')"
    using demo_byval_runs by blast
  have "attrs_fit demo_byval demo_byval_attrs v" if "v = 3 \<or> v = 6" for v
    using that by (auto simp: attrs_fit_def arg_count_def demo_byval_fields demo_byval_attrs_def no_attrs_def)
  moreover have "v = 3 \<or> v = 6" if "v \<in> set (bb_insts demo_byval b)" for v b
    using that by (simp add: demo_byval_def split: if_splits)
  ultimately have wf: "byval_wf demo_byval demo_byval_attrs"
    unfolding byval_wf_def demo_byval_fields(6) by fastforce
  have "calls_free demo_byval m' A' 1" using byval_removed [OF r wf] by (simp add: demo_byval_fields(6,7))
  then have "free_call m' A' 3" unfolding calls_free_def demo_byval_fields(4) by simp
  moreover have "hasByValArgument demo_byval_attrs 3" by (simp add: demo_byval_attrs_def hasByValArgument_def)
  ultimately show ?thesis using r by blast
qed

section \<open>The whole preparation\<close>

text \<open>A function that only has a lifetime marker.\<close>

definition demo_marker :: ir where
  "demo_marker = demo_code (\<lambda>v.
     if v = 1 then (Const FunctionVal, 3) else if v = 2 then (Argument, 1)
     else if v = 3 then (Inst (Call \<lparr>called_operand = 9, called_function = None, call_args = [2]\<rparr> (Some IntrLifetimeStart)), 0)
     else if v = 6 then (Inst (Ret None), 0) else (OtherValue, 0)) [3, 6]"

definition marker_options :: setup_options where
  "marker_options = demo_setup\<lparr>LabelAccesses := False, NoTransformObfuscatedPointer := True, NoConvertByValArgs := True\<rparr>"

lemma demo_marker_prepared:
  "setup_prepareModule marker_options (demo_marker, A) = Inr (removeLifeTimeIntrinsics 1 demo_marker, A)"
proof -
  let ?m = "removeLifeTimeIntrinsics 1 demo_marker"
  have blocks: "fun_blocks demo_marker 1 = [0]" by (simp add: demo_marker_def)
  have m: "?m = remove_lifetime_in 0 demo_marker"
    unfolding removeLifeTimeIntrinsics_def blocks by simp
  have insts: "fun_insts ?m 1 = [6]"
    unfolding m by (simp add: fun_insts_def remove_lifetime_in_def isLifeTimeIntrinsic_def get_intrinsic_def get_inst_def demo_marker_def)
  have h: "getVarArgHandles ?m 1 = []"
    unfolding getVarArgHandles_def insts m
    by (simp add: remove_lifetime_in_def demo_marker_def isVarArgMetadataType_def is_va_list_struct_def demo_type_def get_inst_def)
  have d: "\<not> is_declaration demo_marker 1" unfolding is_declaration_def blocks by simp
  have u: "\<not> hasUnmarkedVarArgIntrinsic ?m 1"
    unfolding hasUnmarkedVarArgIntrinsic_def insts isVarArgIntrinsic_def
    unfolding m by (simp add: get_intrinsic_def remove_lifetime_in_def demo_marker_def get_inst_def)
  have "prepare_function marker_options 1 demo_marker = Inr ?m"
    unfolding prepare_function_def using d u h
    by (simp add: marker_options_def demo_setup_def markVarargInsts_def Let_def del: One_nat_def)
  moreover have "mod_functions demo_marker = [1]" by (simp add: demo_marker_def)
  ultimately show ?thesis
    by (simp add: setup_prepareModule_def markFunctionsToSkip_def del: One_nat_def)
      (simp add: marker_options_def demo_setup_def)
qed

text \<open>The declarations of the lowfat mechanism can always be inserted.\<close>

lemma lf_decl_total:
  assumes "functions_ok (lf_mod s)" and "\<And>f s. lf_mod (store f s) = lf_mod s"
  shows "\<exists>s'. lf_decl name ret store s = Inr s' \<and> functions_ok (lf_mod s')"
proof -
  obtain f m' where "insertFunDecl name ret (lf_mod s) = Inr (f, m')" "functions_ok m'"
    using insertFunDecl_total [OF assms(1)] by blast
  then show ?thesis by (simp add: lf_decl_def lf_lift_def assms(2))
qed

lemma insertCommon_total:
  assumes "functions_ok m"
  shows "\<exists>fs m'. insertCommonFunctionDeclarations m = Inr (fs, m') \<and> functions_ok m'"
proof -
  obtain f1 m1 where 1: "insertFunDecl ''__mi_fail'' ''void'' m = Inr (f1, m1)" "functions_ok m1"
    using insertFunDecl_total [OF assms] by blast
  obtain f2 m2 where 2: "insertFunDecl ''__mi_fail_with_msg'' ''void'' m1 = Inr (f2, m2)" "functions_ok m2"
    using insertFunDecl_total [OF 1(2)] by blast
  obtain f3 m3 where 3: "insertFunDecl ''__mi_warning'' ''void'' m2 = Inr (f3, m3)" "functions_ok m3"
    using insertFunDecl_total [OF 2(2)] by blast
  from 1 2 3 show ?thesis by (simp add: insertCommonFunctionDeclarations_def)
qed

lemma bindE_ok:
  assumes "\<exists>x. e = Inr x \<and> P x" and "\<And>x. P x \<Longrightarrow> \<exists>y. k x = Inr y \<and> Q y"
  shows "\<exists>y. bindE e k = Inr y \<and> Q y"
  using assms by fastforce

lemma lf_insertFunctionDeclarations_total:
  assumes "functions_ok (lf_mod s)"
  shows "\<exists>s'. lf_insertFunctionDeclarations s = Inr s'"
proof -
  let ?ok = "\<lambda>s. functions_ok (lf_mod s)"
  obtain fs m' where "insertCommonFunctionDeclarations (lf_mod s) = Inr (fs, m')" "functions_ok m'"
    using insertCommon_total [OF assms] by blast
  then have c: "\<exists>x. lf_lift insertCommonFunctionDeclarations s = Inr x \<and> ?ok (snd x)" by (simp add: lf_lift_def)
  have "\<exists>s'. lf_insertFunctionDeclarations s = Inr s' \<and> ?ok s'"
    unfolding lf_insertFunctionDeclarations_def Let_def
    apply (rule bindE_ok [OF c])
    apply (simp only: case_prod_unfold)
    apply (rule bindE_ok [where P = ?ok], rule lf_decl_total, simp, simp)+
    apply (rule lf_decl_total, simp, simp)
    done
  then show ?thesis by blast
qed

theorem prepared_module_without_markers_witness:
  "\<exists>s1 allocas.
     lf_insertFunctionDeclarations (demo_lowfat\<lparr>lf_mod := removeLifeTimeIntrinsics 1 demo_marker\<rparr>) = Inr s1 \<and>
     lf_collect_allocas (lf_mod s1) = Inr allocas"
proof -
  let ?s = "demo_lowfat\<lparr>lf_mod := demo_marker\<rparr>" and ?m = "removeLifeTimeIntrinsics 1 demo_marker"
  have "fun_blocks demo_marker 1 = [0]" by (simp add: demo_marker_def)
  then have m: "?m = remove_lifetime_in 0 demo_marker" unfolding removeLifeTimeIntrinsics_def by simp
  have "functions_ok ?m"
    unfolding m functions_ok_def by (simp add: remove_lifetime_in_def demo_marker_def get_const_def)
  then obtain s1 where s1: "lf_insertFunctionDeclarations (?s\<lparr>lf_mod := ?m\<rparr>) = Inr s1"
    using lf_insertFunctionDeclarations_total [of "?s\<lparr>lf_mod := ?m\<rparr>"] by auto
  have "setup_prepareModule marker_options (lf_mod ?s, \<lambda>_. no_attrs) = Inr (?m, \<lambda>_. no_attrs)"
    using demo_marker_prepared by simp
  moreover have "\<not> KeepLifeTimeIntrinsics marker_options" by (simp add: marker_options_def demo_setup_def)
  ultimately obtain allocas where "lf_collect_allocas (lf_mod s1) = Inr allocas"
    using prepared_module_without_markers [OF _ _ s1] by blast
  with s1 show ?thesis by auto
qed

end
