(* ===== verification/Spec2Isabelle.thy ===== *)
theory Spec2Isabelle
  imports Pass CheckSemantics Sleep RuntimeStatLaws SetupRuns
begin

text \<open>
  Skeleton.
\<close>

end
